(* ===== verification/Prelude.thy ===== *)
theory Prelude
  imports Main "HOL-Library.Word" "HOL-Library.Monad_Syntax"
begin

text \<open>
  Shared vocabulary of the development: the C integer types, checked access to C arrays
  and the byte order helpers of the Modbus code.

  \<^item> A C object of array type is a list of fixed length. \<open>rd\<close> and \<open>wr\<close> are the only
    ways the model reads and writes an element; an index outside the object gives
    \<open>None\<close>. In the whole development \<open>None\<close> means that the C execution has left the
    behaviour the language defines (an access outside an object, a read of an
    uninitialised variable) or that an \<open>assert_param\<close>/\<open>RT_ASSERT\<close> failed, whose handlers
    (\<open>applications/startup.c\<close>, \<open>src/kservice.c\<close>) loop for ever. Every error that the code
    reports to its caller is an ordinary value.
  \<^item> Integers keep their width (\<open>8 word\<close>, \<open>16 word\<close>, \<open>32 word\<close>) wherever the code
    can wrap; where C promotes to \<open>int\<close> first, the model computes on \<open>nat\<close> or \<open>int\<close>.
\<close>

unbundle bit_operations_syntax

type_synonym u8 = "8 word"
type_synonym u16 = "16 word"
type_synonym u32 = "32 word"

named_theorems mem_simps \<open>rewriting of checked array accesses\<close>
named_theorems byte_simps \<open>byte order conversions\<close>

section \<open>Checked array access\<close>

definition rd :: "'a list \<Rightarrow> nat \<Rightarrow> 'a option" where
  "rd xs i = (if i < length xs then Some (xs ! i) else None)"

definition wr :: "'a list \<Rightarrow> nat \<Rightarrow> 'a \<Rightarrow> 'a list option" where
  "wr xs i v = (if i < length xs then Some (xs[i := v]) else None)"

text \<open>A failed \<open>assert_param\<close> or \<open>RT_ASSERT\<close> never returns.\<close>

definition c_assert :: "bool \<Rightarrow> unit option" where
  "c_assert b = (if b then Some () else None)"

lemma rd_in [mem_simps]: "i < length xs \<Longrightarrow> rd xs i = Some (xs ! i)"
  by (simp add: rd_def)

lemma rd_out [mem_simps]: "length xs \<le> i \<Longrightarrow> rd xs i = None"
  by (simp add: rd_def)

lemma rd_Some_iff: "rd xs i = Some v \<longleftrightarrow> i < length xs \<and> v = xs ! i"
  by (auto simp: rd_def)

lemma rd_None_iff: "rd xs i = None \<longleftrightarrow> length xs \<le> i"
  by (auto simp: rd_def)

lemma wr_in [mem_simps]: "i < length xs \<Longrightarrow> wr xs i v = Some (xs[i := v])"
  by (simp add: wr_def)

lemma wr_out [mem_simps]: "length xs \<le> i \<Longrightarrow> wr xs i v = None"
  by (simp add: wr_def)

lemma wr_Some_iff: "wr xs i v = Some ys \<longleftrightarrow> i < length xs \<and> ys = xs[i := v]"
  by (auto simp: wr_def)

lemma wr_length: "wr xs i v = Some ys \<Longrightarrow> length ys = length xs"
  by (auto simp: wr_def split: if_splits)

lemma rd_wr: "wr xs i v = Some ys \<Longrightarrow> rd ys j = (if j = i then Some v else rd xs j)"
  by (auto simp: wr_def rd_def split: if_splits)

lemma c_assert_simps [simp]: "c_assert True = Some ()" "c_assert False = None"
  by (simp_all add: c_assert_def)

lemma c_assert_Some_iff: "c_assert b = Some u \<longleftrightarrow> b"
  by (auto simp: c_assert_def)

section \<open>Total correctness of a computation\<close>

text \<open>
  \<open>yields m P\<close>: the computation returns (it neither leaves defined behaviour nor hangs in
  an assertion) and its result satisfies \<open>P\<close>. The rules \<open>wp_simps\<close> compute the condition
  backwards through a block of statements.
\<close>

definition yields :: "'a option \<Rightarrow> ('a \<Rightarrow> bool) \<Rightarrow> bool" where
  "yields m P = (case m of None \<Rightarrow> False | Some x \<Rightarrow> P x)"

named_theorems wp_simps \<open>conditions for statements to return with a property\<close>

lemma yields_Some [wp_simps]: "yields (Some x) P = P x"
  by (simp add: yields_def)

lemma yields_None [wp_simps]: "yields None P = False"
  by (simp add: yields_def)

lemma yields_bind [wp_simps]: "yields (Option.bind m f) P = yields m (\<lambda>x. yields (f x) P)"
  by (cases m) (simp_all add: yields_def)

lemma yields_if [wp_simps]:
  "yields (if b then m else n) P = ((b \<longrightarrow> yields m P) \<and> (\<not> b \<longrightarrow> yields n P))"
  by simp

lemma yields_rd [wp_simps]: "yields (rd xs i) P = (i < length xs \<and> P (xs ! i))"
  by (simp add: yields_def rd_def)

lemma yields_wr [wp_simps]: "yields (wr xs i v) P = (i < length xs \<and> P (xs[i := v]))"
  by (simp add: yields_def wr_def)

lemma yields_assert [wp_simps]: "yields (c_assert b) P = (b \<and> P ())"
  by (simp add: yields_def c_assert_def)

lemma yields_iff: "yields m P \<longleftrightarrow> (\<exists>x. m = Some x \<and> P x)"
  by (cases m) (simp_all add: yields_def)

lemma yields_mono: "yields m Q \<Longrightarrow> (\<And>x. Q x \<Longrightarrow> P x) \<Longrightarrow> yields m P"
  by (auto simp: yields_iff)

lemma yieldsD: "yields m P \<Longrightarrow> m = Some x \<Longrightarrow> P x"
  by (auto simp: yields_iff)

section \<open>Byte order\<close>

text \<open>\<open>(USHORT)(a << 8) | b\<close>, \<open>(UCHAR)(w >> 8)\<close> and \<open>(UCHAR)(w & 0xFF)\<close>.\<close>

definition be16 :: "u8 \<Rightarrow> u8 \<Rightarrow> u16" where
  "be16 a b = push_bit 8 (ucast a) OR ucast b"

definition hi8 :: "u16 \<Rightarrow> u8" where
  "hi8 w = ucast (drop_bit 8 w)"

definition lo8 :: "u16 \<Rightarrow> u8" where
  "lo8 w = ucast (w AND 0xFF)"

lemma bit_be16: "bit (be16 a b) n \<longleftrightarrow> (if n < 8 then bit b n else bit a (n - 8) \<and> n < 16)"
  by (auto simp: be16_def bit_simps possible_bit_def dest: bit_imp_le_length)

lemma bit_lo8_mask: "bit (0xFF :: u16) n \<longleftrightarrow> n < 8"
proof -
  have m: "(0xFF :: u16) = mask 8"
    by (simp add: mask_eq_exp_minus_1)
  show ?thesis
    unfolding m by (auto simp: bit_mask_iff possible_bit_def)
qed

lemma bit_lo8: "bit (lo8 w) n \<longleftrightarrow> n < 8 \<and> bit w n"
  using bit_lo8_mask [of n] by (auto simp: lo8_def bit_unsigned_iff bit_and_iff)

lemma bit_hi8: "bit (hi8 w) n \<longleftrightarrow> n < 8 \<and> bit w (n + 8)"
  by (auto simp: hi8_def bit_simps ac_simps dest: bit_imp_le_length)

lemma be16_hi8_lo8 [byte_simps]: "be16 (hi8 w) (lo8 w) = w"
  by (rule bit_word_eqI) (auto simp: bit_be16 bit_hi8 bit_lo8)

lemma hi8_be16 [byte_simps]: "hi8 (be16 a b) = a"
  by (rule bit_word_eqI) (auto simp: bit_be16 bit_hi8)

lemma lo8_be16 [byte_simps]: "lo8 (be16 a b) = b"
  by (rule bit_word_eqI) (auto simp: bit_be16 bit_lo8)

lemma be16_inject [byte_simps]: "be16 a b = be16 c d \<longleftrightarrow> a = c \<and> b = d"
  by (metis hi8_be16 lo8_be16)

lemma be16_0_0: "be16 0 0 = 0"
  by (simp add: be16_def)

lemma be16_eq_0_iff: "be16 a b = 0 \<longleftrightarrow> a = 0 \<and> b = 0"
  by (metis be16_0_0 be16_inject)

lemma be16_xor: "be16 (a XOR b) (c XOR d) = be16 a c XOR be16 b d"
  by (rule bit_word_eqI) (auto simp: bit_be16 bit_xor_iff)

lemma unat_be16: "unat (be16 a b) = 256 * unat a + unat b"
proof -
  have ab: "unat a < 256" "unat b < 256"
    using unsigned_less [of a] unsigned_less [of b] by simp_all
  have "push_bit 8 (ucast a) AND (ucast b :: u16) = 0"
    by (rule bit_word_eqI) (auto simp: bit_simps dest: bit_imp_le_length)
  then have "be16 a b = push_bit 8 (ucast a) + ucast b"
    by (simp add: be16_def disjunctive_add_eq_or)
  then have *: "be16 a b = 256 * ucast a + ucast b"
    by (simp add: push_bit_eq_mult)
  have "unat (ucast a :: u16) = unat a" "unat (ucast b :: u16) = unat b"
    using ab by (simp_all add: unsigned_ucast_eq take_bit_eq_mod)
  then show ?thesis
    using ab by (simp add: * unat_word_ariths)
qed

lemma unat_u8: "unat (x :: u8) < 256"
  using unsigned_less [of x] by simp

lemma unat_u16: "unat (x :: u16) < 65536"
  using unsigned_less [of x] by simp

lemma unat_u32: "unat (x :: u32) < 4294967296"
  using unsigned_less [of x] by simp

lemma unat16_of_nat: "n < 65536 \<Longrightarrow> unat (word_of_nat n :: u16) = n"
  by (simp add: unat_of_nat take_bit_eq_mod)

section \<open>Cancelling exclusive or\<close>

lemma xor_right_cancel: "x XOR b = y XOR b \<longleftrightarrow> x = (y :: 'a::len word)"
  by (metis xor.assoc xor.right_neutral xor_self_eq)

lemma xor_left_cancel: "b XOR x = b XOR y \<longleftrightarrow> x = (y :: 'a::len word)"
  by (metis xor.commute xor_right_cancel)

lemma xor_eq_0_iff: "x XOR y = 0 \<longleftrightarrow> x = (y :: 'a::len word)"
  by (metis xor_right_cancel xor_self_eq)

lemmas xor_cancel = xor_right_cancel xor_left_cancel xor_eq_0_iff

section \<open>Small numeral lists\<close>

lemma funpow_8: "(f ^^ 8) x = f (f (f (f (f (f (f (f x)))))))"
  by (simp add: eval_nat_numeral)

lemma upt_8: "[0..<8] = [0, 1, 2, 3, 4, 5, 6, 7]"
  by (simp add: upt_rec)

section \<open>Overwriting a block\<close>

text \<open>\<open>splice xs p ys\<close> is what a loop leaves that stores \<open>ys\<close> from index \<open>p\<close> on.\<close>

definition splice :: "'a list \<Rightarrow> nat \<Rightarrow> 'a list \<Rightarrow> 'a list" where
  "splice xs p ys = take p xs @ ys @ drop (p + length ys) xs"

lemma length_splice [simp]: "p + length ys \<le> length xs \<Longrightarrow> length (splice xs p ys) = length xs"
  by (simp add: splice_def)

lemma splice_Nil [simp]: "splice xs p [] = xs"
  by (simp add: splice_def)

lemma nth_splice:
  "p + length ys \<le> length xs \<Longrightarrow>
    splice xs p ys ! i = (if p \<le> i \<and> i < p + length ys then ys ! (i - p) else xs ! i)"
  by (auto simp: splice_def nth_append not_less)

lemma splice_Cons:
  "p < length xs \<Longrightarrow> splice (xs[p := y]) (Suc p) ys = splice xs p (y # ys)"
  by (simp add: splice_def take_Suc_conv_app_nth)

lemma update_eq_splice: "p < length xs \<Longrightarrow> xs[p := y] = splice xs p [y]"
  by (simp add: splice_def upd_conv_take_nth_drop)

lemma splice_append:
  "p + length ys \<le> length xs \<Longrightarrow> splice (splice xs p ys) (p + length ys) zs = splice xs p (ys @ zs)"
  by (simp add: splice_def ac_simps)

lemma take_drop_splice:
  "p + length ys \<le> length xs \<Longrightarrow> take (length ys) (drop p (splice xs p ys)) = ys"
  by (simp add: splice_def)

lemma drop_splice_Cons:
  "p < length xs \<Longrightarrow> n = Suc m \<Longrightarrow> take n (drop p xs) = xs ! p # take m (drop (Suc p) xs)"
  by (simp add: Cons_nth_drop_Suc [symmetric])

section \<open>memcpy\<close>

text \<open>\<open>memcpy\<close> element by element, from \<open>src\<close> at \<open>q\<close> to \<open>dst\<close> at \<open>p\<close>.\<close>

fun copy_bytes :: "'a list \<Rightarrow> nat \<Rightarrow> 'a list \<Rightarrow> nat \<Rightarrow> nat \<Rightarrow> 'a list option" where
  "copy_bytes dst p src q 0 = Some dst"
| "copy_bytes dst p src q (Suc n) = do {
     v \<leftarrow> rd src q;
     dst \<leftarrow> wr dst p v;
     copy_bytes dst (p + 1) src (q + 1) n
   }"

lemma copy_bytes_eq:
  "p + n \<le> length dst \<Longrightarrow> q + n \<le> length src \<Longrightarrow>
    copy_bytes dst p src q n = Some (splice dst p (take n (drop q src)))"
proof (induction n arbitrary: dst p q)
  case 0
  then show ?case by simp
next
  case (Suc n)
  then have "copy_bytes dst p src q (Suc n)
      = Some (splice (dst[p := src ! q]) (Suc p) (take n (drop (Suc q) src)))"
    by (simp add: rd_in wr_in)
  with Suc.prems show ?case
    by (simp add: splice_Cons drop_splice_Cons [of q src "Suc n" n])
qed

lemma copy_bytes_fault:
  "0 < n \<Longrightarrow> length dst < p + n \<or> length src < q + n \<Longrightarrow> copy_bytes dst p src q n = None"
proof (induction n arbitrary: dst p q)
  case 0
  then show ?case by simp
next
  case (Suc n)
  show ?case
  proof (cases "n = 0")
    case True
    with Suc.prems show ?thesis by (auto simp: rd_def wr_def)
  next
    case False
    with Suc show ?thesis by (auto simp: rd_def wr_def)
  qed
qed

end
