(* ===== verification/Mb_Crc.thy ===== *)
theory Mb_Crc
  imports Prelude
begin

text \<open>
  \<^verbatim>\<open>components/net/freemodbus/modbus/rtu/mbcrc.c\<close>: the CRC-16 of Modbus RTU, shared by
  the slave and the master. The two lookup tables and the byte loop are those of the
  source. The lemmas show that the loop reads exactly the bytes of the frame, that the
  tables are those of the reflected polynomial \<open>0xA001\<close> (so the routine equals the
  bit-serial definition of the standard), that a frame followed by its own CRC, low byte
  first, has the CRC 0 and nothing else has, and that no corruption confined to two
  neighbouring bytes escapes.
\<close>

section \<open>The source\<close>

definition aucCRCHi :: "u8 list" where
  "aucCRCHi = [
    0x00, 0xC1, 0x81, 0x40, 0x01, 0xC0, 0x80, 0x41, 0x01, 0xC0, 0x80, 0x41,
    0x00, 0xC1, 0x81, 0x40, 0x01, 0xC0, 0x80, 0x41, 0x00, 0xC1, 0x81, 0x40,
    0x00, 0xC1, 0x81, 0x40, 0x01, 0xC0, 0x80, 0x41, 0x01, 0xC0, 0x80, 0x41,
    0x00, 0xC1, 0x81, 0x40, 0x00, 0xC1, 0x81, 0x40, 0x01, 0xC0, 0x80, 0x41,
    0x00, 0xC1, 0x81, 0x40, 0x01, 0xC0, 0x80, 0x41, 0x01, 0xC0, 0x80, 0x41,
    0x00, 0xC1, 0x81, 0x40, 0x01, 0xC0, 0x80, 0x41, 0x00, 0xC1, 0x81, 0x40,
    0x00, 0xC1, 0x81, 0x40, 0x01, 0xC0, 0x80, 0x41, 0x00, 0xC1, 0x81, 0x40,
    0x01, 0xC0, 0x80, 0x41, 0x01, 0xC0, 0x80, 0x41, 0x00, 0xC1, 0x81, 0x40,
    0x00, 0xC1, 0x81, 0x40, 0x01, 0xC0, 0x80, 0x41, 0x01, 0xC0, 0x80, 0x41,
    0x00, 0xC1, 0x81, 0x40, 0x01, 0xC0, 0x80, 0x41, 0x00, 0xC1, 0x81, 0x40,
    0x00, 0xC1, 0x81, 0x40, 0x01, 0xC0, 0x80, 0x41, 0x01, 0xC0, 0x80, 0x41,
    0x00, 0xC1, 0x81, 0x40, 0x00, 0xC1, 0x81, 0x40, 0x01, 0xC0, 0x80, 0x41,
    0x00, 0xC1, 0x81, 0x40, 0x01, 0xC0, 0x80, 0x41, 0x01, 0xC0, 0x80, 0x41,
    0x00, 0xC1, 0x81, 0x40, 0x00, 0xC1, 0x81, 0x40, 0x01, 0xC0, 0x80, 0x41,
    0x01, 0xC0, 0x80, 0x41, 0x00, 0xC1, 0x81, 0x40, 0x01, 0xC0, 0x80, 0x41,
    0x00, 0xC1, 0x81, 0x40, 0x00, 0xC1, 0x81, 0x40, 0x01, 0xC0, 0x80, 0x41,
    0x00, 0xC1, 0x81, 0x40, 0x01, 0xC0, 0x80, 0x41, 0x01, 0xC0, 0x80, 0x41,
    0x00, 0xC1, 0x81, 0x40, 0x01, 0xC0, 0x80, 0x41, 0x00, 0xC1, 0x81, 0x40,
    0x00, 0xC1, 0x81, 0x40, 0x01, 0xC0, 0x80, 0x41, 0x01, 0xC0, 0x80, 0x41,
    0x00, 0xC1, 0x81, 0x40, 0x00, 0xC1, 0x81, 0x40, 0x01, 0xC0, 0x80, 0x41,
    0x00, 0xC1, 0x81, 0x40, 0x01, 0xC0, 0x80, 0x41, 0x01, 0xC0, 0x80, 0x41,
    0x00, 0xC1, 0x81, 0x40]"

definition aucCRCLo :: "u8 list" where
  "aucCRCLo = [
    0x00, 0xC0, 0xC1, 0x01, 0xC3, 0x03, 0x02, 0xC2, 0xC6, 0x06, 0x07, 0xC7,
    0x05, 0xC5, 0xC4, 0x04, 0xCC, 0x0C, 0x0D, 0xCD, 0x0F, 0xCF, 0xCE, 0x0E,
    0x0A, 0xCA, 0xCB, 0x0B, 0xC9, 0x09, 0x08, 0xC8, 0xD8, 0x18, 0x19, 0xD9,
    0x1B, 0xDB, 0xDA, 0x1A, 0x1E, 0xDE, 0xDF, 0x1F, 0xDD, 0x1D, 0x1C, 0xDC,
    0x14, 0xD4, 0xD5, 0x15, 0xD7, 0x17, 0x16, 0xD6, 0xD2, 0x12, 0x13, 0xD3,
    0x11, 0xD1, 0xD0, 0x10, 0xF0, 0x30, 0x31, 0xF1, 0x33, 0xF3, 0xF2, 0x32,
    0x36, 0xF6, 0xF7, 0x37, 0xF5, 0x35, 0x34, 0xF4, 0x3C, 0xFC, 0xFD, 0x3D,
    0xFF, 0x3F, 0x3E, 0xFE, 0xFA, 0x3A, 0x3B, 0xFB, 0x39, 0xF9, 0xF8, 0x38,
    0x28, 0xE8, 0xE9, 0x29, 0xEB, 0x2B, 0x2A, 0xEA, 0xEE, 0x2E, 0x2F, 0xEF,
    0x2D, 0xED, 0xEC, 0x2C, 0xE4, 0x24, 0x25, 0xE5, 0x27, 0xE7, 0xE6, 0x26,
    0x22, 0xE2, 0xE3, 0x23, 0xE1, 0x21, 0x20, 0xE0, 0xA0, 0x60, 0x61, 0xA1,
    0x63, 0xA3, 0xA2, 0x62, 0x66, 0xA6, 0xA7, 0x67, 0xA5, 0x65, 0x64, 0xA4,
    0x6C, 0xAC, 0xAD, 0x6D, 0xAF, 0x6F, 0x6E, 0xAE, 0xAA, 0x6A, 0x6B, 0xAB,
    0x69, 0xA9, 0xA8, 0x68, 0x78, 0xB8, 0xB9, 0x79, 0xBB, 0x7B, 0x7A, 0xBA,
    0xBE, 0x7E, 0x7F, 0xBF, 0x7D, 0xBD, 0xBC, 0x7C, 0xB4, 0x74, 0x75, 0xB5,
    0x77, 0xB7, 0xB6, 0x76, 0x72, 0xB2, 0xB3, 0x73, 0xB1, 0x71, 0x70, 0xB0,
    0x50, 0x90, 0x91, 0x51, 0x93, 0x53, 0x52, 0x92, 0x96, 0x56, 0x57, 0x97,
    0x55, 0x95, 0x94, 0x54, 0x9C, 0x5C, 0x5D, 0x9D, 0x5F, 0x9F, 0x9E, 0x5E,
    0x5A, 0x9A, 0x9B, 0x5B, 0x99, 0x59, 0x58, 0x98, 0x88, 0x48, 0x49, 0x89,
    0x4B, 0x8B, 0x8A, 0x4A, 0x4E, 0x8E, 0x8F, 0x4F, 0x8D, 0x4D, 0x4C, 0x8C,
    0x44, 0x84, 0x85, 0x45, 0x87, 0x47, 0x46, 0x86, 0x82, 0x42, 0x43, 0x83,
    0x41, 0x81, 0x80, 0x40]"

text \<open>
  \<open>mem\<close> is the object the pointer \<open>pucFrame\<close> points into and \<open>p\<close> the pointer's index.
  The loop of the source counts \<open>usLen\<close> down to 0.
\<close>

fun usMBCRC16_loop :: "u8 list \<Rightarrow> nat \<Rightarrow> nat \<Rightarrow> u8 \<Rightarrow> u8 \<Rightarrow> u16 option" where
  "usMBCRC16_loop mem p 0 ucCRCHi ucCRCLo = Some (be16 ucCRCHi ucCRCLo)"
| "usMBCRC16_loop mem p (Suc usLen) ucCRCHi ucCRCLo = do {
     b \<leftarrow> rd mem p;
     let iIndex = unat (ucCRCLo XOR b);
     h \<leftarrow> rd aucCRCHi iIndex;
     l \<leftarrow> rd aucCRCLo iIndex;
     usMBCRC16_loop mem (Suc p) usLen l (ucCRCHi XOR h)
   }"

definition usMBCRC16 :: "u8 list \<Rightarrow> nat \<Rightarrow> u16 \<Rightarrow> u16 option" where
  "usMBCRC16 mem p usLen = usMBCRC16_loop mem p (unat usLen) 0xFF 0xFF"

section \<open>Linear tables\<close>

text \<open>
  Both tables are linear over exclusive or, hence determined by their entries at the powers
  of two. \<open>lin bs i\<close> combines the basis \<open>bs\<close> along the bits of \<open>i\<close>; \<open>table bs\<close> lists its values.
\<close>

fun lin :: "'a::len word list \<Rightarrow> nat \<Rightarrow> 'a word" where
  "lin [] i = 0"
| "lin (b # bs) i = (if odd i then b else 0) XOR lin bs (i div 2)"

fun table :: "'a::len word list \<Rightarrow> 'a word list" where
  "table [] = [0]"
| "table (b # bs) = concat (map (\<lambda>t. [t, b XOR t]) (table bs))"

lemma length_pairs: "length (concat (map (\<lambda>t. [t, f t]) ts)) = 2 * length ts"
  by (induction ts) auto

lemma nth_pairs:
  "i < 2 * length ts \<Longrightarrow>
    concat (map (\<lambda>t. [t, f t]) ts) ! i = (if odd i then f (ts ! (i div 2)) else ts ! (i div 2))"
proof (induction ts arbitrary: i)
  case Nil
  then show ?case by simp
next
  case (Cons t ts)
  show ?case
  proof (cases "i < 2")
    case True
    then show ?thesis by (auto simp: less_2_cases_iff)
  next
    case False
    then obtain j where "i = Suc (Suc j)"
      by (metis add_2_eq_Suc le_Suc_ex not_less)
    with Cons show ?thesis by simp
  qed
qed

lemma length_table [simp]: "length (table bs) = 2 ^ length bs"
  by (induction bs) (auto simp: length_pairs)

lemma nth_table: "i < 2 ^ length bs \<Longrightarrow> table bs ! i = lin bs i"
  by (induction bs arbitrary: i) (auto simp: nth_pairs less_mult_imp_div_less mult.commute)

lemma lin_0 [simp]: "lin bs 0 = 0"
  by (induction bs) auto

lemma lin_xor: "lin bs (i XOR j) = lin bs i XOR lin bs j"
proof (induction bs arbitrary: i j)
  case Nil
  then show ?case by simp
next
  case (Cons b bs)
  have "(i XOR j) div 2 = (i div 2) XOR (j div 2)"
    using drop_bit_xor [of "Suc 0" i j] by (simp only: drop_bit_Suc drop_bit_0 id_apply)
  with Cons show ?case
    by (auto simp: even_xor_iff ac_simps)
qed


definition basisHi :: "u8 list" where
  "basisHi = [0xC1, 0x81, 0x01, 0x01, 0x01, 0x01, 0x01, 0x01]"

definition basisLo :: "u8 list" where
  "basisLo = [0xC0, 0xC1, 0xC3, 0xC6, 0xCC, 0xD8, 0xF0, 0xA0]"

lemma aucCRCHi_table: "aucCRCHi = table basisHi"
  by (simp add: aucCRCHi_def basisHi_def)

lemma aucCRCLo_table: "aucCRCLo = table basisLo"
  by (simp add: aucCRCLo_def basisLo_def)

lemma length_basis [simp]: "length basisHi = 8" "length basisLo = 8"
  by (simp_all add: basisHi_def basisLo_def)

lemma rd_table: "length bs = 8 \<Longrightarrow> rd (table bs) (unat (x :: u8)) = Some (lin bs (unat x))"
  using unsigned_less [of x] by (simp add: rd_def nth_table)

definition tHi :: "u8 \<Rightarrow> u8" where "tHi x = lin basisHi (unat x)"
definition tLo :: "u8 \<Rightarrow> u8" where "tLo x = lin basisLo (unat x)"

lemma rd_aucCRCHi: "rd aucCRCHi (unat x) = Some (tHi x)"
  and rd_aucCRCLo: "rd aucCRCLo (unat x) = Some (tLo x)"
  by (simp_all add: aucCRCHi_table aucCRCLo_table rd_table tHi_def tLo_def)

lemma linear_lin:
  fixes g :: "u8 \<Rightarrow> 'a::len word"
  assumes g: "\<And>x y. g (x XOR y) = g x XOR g y"
  shows "i < 2 ^ n \<Longrightarrow> g (push_bit j (of_nat i)) = lin (map (\<lambda>k. g (push_bit (k + j) 1)) [0..<n]) i"
proof (induction n arbitrary: i j)
  case 0
  have "g 0 = 0" using g [of 0 0] by simp
  with 0 show ?case by simp
next
  case (Suc n)
  let ?r = "push_bit (Suc j) (of_nat (i div 2)) :: u8"
  have g0: "g 0 = 0" using g [of 0 0] by simp
  have *: "(of_nat i :: u8) = (if odd i then 1 else 0) XOR push_bit 1 (of_nat (i div 2))"
  proof -
    have "(of_nat i :: u8) = of_nat (i mod 2) + of_nat (2 * (i div 2))"
      by (metis mod_mult_div_eq mult.commute of_nat_add)
    also have "\<dots> = of_bool (odd i) XOR push_bit 1 (of_nat (i div 2))"
      by (subst disjunctive_add_eq_xor)
         (auto intro!: bit_word_eqI simp: bit_simps mod2_eq_if push_bit_eq_mult mult.commute)
    finally show ?thesis by auto
  qed
  have "push_bit j (of_nat i :: u8) = (if odd i then push_bit j 1 else 0) XOR ?r"
    by (subst *) (simp add: push_bit_xor push_bit_push_bit ac_simps)
  then have "g (push_bit j (of_nat i)) = (if odd i then g (push_bit j 1) else 0) XOR g ?r"
    by (auto simp: g g0)
  also have "g ?r = lin (map (\<lambda>k. g (push_bit (k + Suc j) 1)) [0..<n]) (i div 2)"
    using Suc.prems by (intro Suc.IH) auto
  also have "map (\<lambda>k. g (push_bit (k + Suc j) 1)) [0..<n] = map (\<lambda>k. g (push_bit (k + j) 1)) [1..<Suc n]"
    by (simp add: map_Suc_upt [symmetric] del: upt_Suc)
  finally show ?case by (simp add: upt_conv_Cons del: upt_Suc)
qed

lemma linear8:
  fixes g :: "u8 \<Rightarrow> 'a::len word"
  assumes g: "\<And>x y. g (x XOR y) = g x XOR g y"
    and bs: "bs = map (\<lambda>k. g (push_bit k 1)) [0..<8]"
  shows "g x = lin bs (unat x)"
  using linear_lin [of g "unat x" 8 0, OF g] unsigned_less [of x] by (simp add: bs)

section \<open>The bit-serial definition\<close>

text \<open>
  The reference of the Modbus over serial line specification: shift right by one, and add
  the polynomial when a one falls out.
\<close>

definition crc_shift :: "u16 \<Rightarrow> u16" where
  "crc_shift x = drop_bit 1 x XOR (if odd x then 0xA001 else 0)"

definition crc_byte :: "u16 \<Rightarrow> u8 \<Rightarrow> u16" where
  "crc_byte c b = (crc_shift ^^ 8) (c XOR ucast b)"

definition crc16 :: "u8 list \<Rightarrow> u16" where
  "crc16 bs = foldl crc_byte 0xFFFF bs"

lemma crc_shift_xor: "crc_shift (x XOR y) = crc_shift x XOR crc_shift y"
  by (auto simp: crc_shift_def even_xor_iff drop_bit_xor xor.assoc xor.left_commute)

lemma crc_shift_pow_xor: "(crc_shift ^^ n) (x XOR y) = (crc_shift ^^ n) x XOR (crc_shift ^^ n) y"
  by (induction n arbitrary: x y) (auto simp: crc_shift_xor funpow_swap1)

lemma crc_shift_push: "n < 8 \<Longrightarrow> crc_shift (push_bit (Suc n) (ucast (h :: u8))) = push_bit n (ucast h)"
  by (rule bit_word_eqI)
     (auto simp: crc_shift_def bit_simps even_push_bit_iff simp del: push_bit_Suc dest: bit_imp_le_length)

lemma crc_shift_pow_push: "n \<le> 8 \<Longrightarrow> (crc_shift ^^ n) (push_bit n (ucast (h :: u8))) = ucast h"
  by (induction n) (auto simp: funpow_swap1 crc_shift_push simp del: push_bit_Suc)

lemma crc_shift_basis:
  "map (\<lambda>k. (crc_shift ^^ 8) (push_bit k 1)) [0..<8]
    = [0xC0C1, 0xC181, 0xC301, 0xC601, 0xCC01, 0xD801, 0xF001, 0xA001]"
  by (simp add: upt_8 funpow_8 crc_shift_def)

lemma be16_basis:
  "map2 be16 basisLo basisHi
    = [0xC0C1, 0xC181, 0xC301, 0xC601, 0xCC01, 0xD801, 0xF001, 0xA001]"
  by (simp add: basisLo_def basisHi_def be16_def)


lemma crc_table: "(crc_shift ^^ 8) (ucast (x :: u8)) = be16 (tLo x) (tHi x)"
proof -
  have "(crc_shift ^^ 8) (ucast x) = lin (map2 be16 basisLo basisHi) (unat x)"
  proof (rule linear8)
    show "map2 be16 basisLo basisHi = map (\<lambda>k. (crc_shift ^^ 8) (ucast (push_bit k (1 :: u8)))) [0..<8]"
      unfolding be16_basis crc_shift_basis [symmetric] by (simp add: upt_8)
  qed (simp add: unsigned_xor_eq crc_shift_pow_xor)
  moreover have "be16 (tLo x) (tHi x) = lin (map2 be16 basisLo basisHi) (unat x)"
  proof (rule linear8)
    show "map2 be16 basisLo basisHi = map (\<lambda>k. be16 (tLo (push_bit k 1)) (tHi (push_bit k 1))) [0..<8]"
      by (simp add: upt_8 tLo_def tHi_def basisLo_def basisHi_def)
  qed (simp add: tLo_def tHi_def unsigned_xor_eq lin_xor be16_xor)
  ultimately show ?thesis by simp
qed

lemma crc_byte_be16:
  "crc_byte (be16 hi lo) b = be16 (tLo (lo XOR b)) (hi XOR tHi (lo XOR b))"
proof -
  have "be16 hi lo XOR ucast b = push_bit 8 (ucast hi) XOR ucast (lo XOR b)"
    by (rule bit_word_eqI) (auto simp: bit_be16 bit_simps dest: bit_imp_le_length)
  then have "crc_byte (be16 hi lo) b = ucast hi XOR be16 (tLo (lo XOR b)) (tHi (lo XOR b))"
    by (simp only: crc_byte_def crc_shift_pow_xor crc_table crc_shift_pow_push order_refl)
  also have "ucast hi = be16 0 hi"
    by (simp add: be16_def)
  finally show ?thesis by (simp flip: be16_xor)
qed

section \<open>The routine computes the reference\<close>

lemma usMBCRC16_loop_eq:
  "p + n \<le> length mem \<Longrightarrow>
    usMBCRC16_loop mem p n hi lo = Some (foldl crc_byte (be16 hi lo) (take n (drop p mem)))"
proof (induction n arbitrary: p hi lo)
  case 0
  then show ?case by simp
next
  case (Suc n)
  then have "take (Suc n) (drop p mem) = mem ! p # take n (drop (Suc p) mem)"
    by (simp add: Cons_nth_drop_Suc [symmetric])
  with Suc show ?case
    by (simp add: rd_in rd_aucCRCHi rd_aucCRCLo crc_byte_be16)
qed

lemma usMBCRC16_loop_out:
  "length mem < p + n \<Longrightarrow> 0 < n \<Longrightarrow> usMBCRC16_loop mem p n hi lo = None"
proof (induction n arbitrary: p hi lo)
  case 0
  then show ?case by simp
next
  case (Suc n)
  show ?case
  proof (cases "p < length mem")
    case True
    with Suc show ?thesis by (cases n) (auto simp: rd_in rd_aucCRCHi rd_aucCRCLo)
  next
    case False
    then show ?thesis by (simp add: rd_out)
  qed
qed

lemma usMBCRC16_eq:
  "p + unat n \<le> length mem \<Longrightarrow> usMBCRC16 mem p n = Some (crc16 (take (unat n) (drop p mem)))"
  by (simp add: usMBCRC16_def usMBCRC16_loop_eq crc16_def be16_def)

section \<open>Error detection\<close>

definition basisInv :: "u8 list" where
  "basisInv = [0x3, 0x6, 0xf, 0x1e, 0x3f, 0x7e, 0xff, 0xfe]"

lemma tLo_basis:
  "map (\<lambda>k. tLo (push_bit k 1)) [0..<8] = basisLo"
  by (simp add: upt_8 tLo_def basisLo_def)

lemma inverse_basis: "map (\<lambda>k. lin basisInv (unat (tLo (push_bit k 1)))) [0..<8] = [1, 2, 4, 8, 16, 32, 64, 128]"
proof -
  have "map (\<lambda>k. lin basisInv (unat (tLo (push_bit k 1)))) [0..<8]
      = map (\<lambda>x. lin basisInv (unat x)) (map (\<lambda>k. tLo (push_bit k 1)) [0..<8])"
    by simp
  also have "\<dots> = [1, 2, 4, 8, 16, 32, 64, 128]"
    unfolding tLo_basis by (simp add: basisInv_def basisLo_def)
  finally show ?thesis .
qed

lemma id_basis: "map (\<lambda>k. push_bit k (1 :: u8)) [0..<8] = [1, 2, 4, 8, 16, 32, 64, 128]"
  by (simp add: upt_8)

lemma tLo_inverse: "lin basisInv (unat (tLo x)) = x"
proof -
  have "lin basisInv (unat (tLo x)) = lin [1, 2, 4, 8, 16, 32, 64, 128] (unat x)"
    by (rule linear8 [where g = "\<lambda>x. lin basisInv (unat (tLo x))"])
       (simp only: tLo_def unsigned_xor_eq lin_xor, simp only: inverse_basis)
  moreover have "x = lin [1, 2, 4, 8, 16, 32, 64, 128] (unat x)"
    by (rule linear8 [where g = "\<lambda>x. x"]) (simp_all only: id_basis)
  ultimately show ?thesis by (rule trans [OF _ sym])
qed

lemma tLo_eq_iff: "tLo x = tLo y \<longleftrightarrow> x = y"
  by (metis tLo_inverse)

lemma tLo_0 [simp]: "tLo 0 = 0" and tHi_0 [simp]: "tHi 0 = 0"
  by (simp_all add: tLo_def tHi_def)

lemma tLo_eq_0_iff [simp]: "tLo x = 0 \<longleftrightarrow> x = 0"
  using tLo_eq_iff [of x 0] by simp

lemma crc_byte_inj_state:
  assumes "crc_byte c b = crc_byte c' b"
  shows "c = c'"
proof -
  obtain hi lo hi' lo' where "c = be16 hi lo" "c' = be16 hi' lo'"
    by (metis be16_hi8_lo8)
  with assms show ?thesis
    by (auto simp: crc_byte_be16 be16_inject tLo_eq_iff xor_cancel)
qed

lemma foldl_crc_inj_state: "foldl crc_byte c bs = foldl crc_byte c' bs \<Longrightarrow> c = c'"
  by (induction bs arbitrary: c c') (auto dest: crc_byte_inj_state)

lemma foldl_crc_two_bytes:
  assumes "foldl crc_byte c [a, b] = foldl crc_byte c [a', b']"
  shows "a = a' \<and> b = b'"
proof -
  obtain hi lo where c: "c = be16 hi lo"
    by (metis be16_hi8_lo8)
  let ?x = "(hi XOR tHi (lo XOR a)) XOR b" and ?x' = "(hi XOR tHi (lo XOR a')) XOR b'"
  from assms have "be16 (tLo ?x) (tLo (lo XOR a) XOR tHi ?x) = be16 (tLo ?x') (tLo (lo XOR a') XOR tHi ?x')"
    by (simp add: c crc_byte_be16)
  then have *: "?x = ?x'" "tLo (lo XOR a) XOR tHi ?x = tLo (lo XOR a') XOR tHi ?x'"
    unfolding be16_inject tLo_eq_iff by (rule conjunct1, rule conjunct2)
  then have "tLo (lo XOR a) = tLo (lo XOR a')"
    by (simp add: xor_right_cancel)
  then have a: "a = a'"
    by (simp add: tLo_eq_iff xor_left_cancel)
  with *(1) show ?thesis
    by (simp add: xor_left_cancel)
qed

lemma crc16_two_bytes_iff:
  "crc16 (xs @ a # b # ys) = crc16 (xs @ a' # b' # ys) \<longleftrightarrow> a = a' \<and> b = b'"
proof
  let ?c = "foldl crc_byte 0xFFFF xs"
  assume "crc16 (xs @ a # b # ys) = crc16 (xs @ a' # b' # ys)"
  then have "foldl crc_byte (foldl crc_byte ?c [a, b]) ys = foldl crc_byte (foldl crc_byte ?c [a', b']) ys"
    by (simp add: crc16_def)
  then show "a = a' \<and> b = b'"
    by (rule foldl_crc_two_bytes [OF foldl_crc_inj_state])
qed simp

lemma crc16_residue: "crc16 (xs @ [a, b]) = 0 \<longleftrightarrow> a = lo8 (crc16 xs) \<and> b = hi8 (crc16 xs)"
proof -
  obtain hi lo where c: "crc16 xs = be16 hi lo"
    by (metis be16_hi8_lo8)
  have "crc16 (xs @ [a, b]) = crc_byte (crc_byte (crc16 xs) a) b"
    by (simp add: crc16_def)
  then have "crc16 (xs @ [a, b]) = 0 \<longleftrightarrow>
      (hi XOR tHi (lo XOR a)) XOR b = 0 \<and> tLo (lo XOR a) XOR tHi ((hi XOR tHi (lo XOR a)) XOR b) = 0"
    by (simp only: c crc_byte_be16 be16_eq_0_iff tLo_eq_0_iff)
  also have "\<dots> \<longleftrightarrow> a = lo \<and> b = hi"
    by (auto simp: xor_eq_0_iff)
  finally show ?thesis
    by (simp add: c byte_simps)
qed
section \<open>The contract of a frame check\<close>

text \<open>
  What the framing layers (slave and master RTU) rely on. \<open>seal_frame\<close> appends the check
  the way both transmitters do, low byte first.
\<close>

definition seal_frame :: "(u8 list \<Rightarrow> u16) \<Rightarrow> u8 list \<Rightarrow> u8 list" where
  "seal_frame crc xs = xs @ [lo8 (crc xs), hi8 (crc xs)]"

lemma length_seal_frame [simp]: "length (seal_frame crc xs) = length xs + 2"
  by (simp add: seal_frame_def)

lemma seal_frame_not_Nil [simp]: "seal_frame crc xs \<noteq> []"
  by (simp add: seal_frame_def)

locale frame_check =
  fixes crc :: "u8 list \<Rightarrow> u16"
  assumes residue: "crc (xs @ [a, b]) = 0 \<longleftrightarrow> a = lo8 (crc xs) \<and> b = hi8 (crc xs)"
    and two_bytes: "crc (xs @ a # b # ys) = crc (xs @ a' # b' # ys) \<longleftrightarrow> a = a' \<and> b = b'"
begin

lemma sealed_ok: "crc (seal_frame crc xs) = 0"
  by (simp add: seal_frame_def residue)

lemma ok_sealed:
  assumes "2 \<le> length f" and "crc f = 0"
  shows "f = seal_frame crc (take (length f - 2) f)"
proof -
  obtain a b where ab: "drop (length f - 2) f = [a, b]"
    using assms(1) by (cases "drop (length f - 2) f" rule: remdups_adj.cases)
      (auto dest: arg_cong [where f = length])
  have f: "f = take (length f - 2) f @ [a, b]"
    by (metis ab append_take_drop_id)
  with assms(2) show ?thesis
    by (metis residue seal_frame_def)
qed

lemma corruption_found:
  assumes "crc (xs @ a # b # ys) = 0" and "(a', b') \<noteq> (a, b)"
  shows "crc (xs @ a' # b' # ys) \<noteq> 0"
  using assms by (metis two_bytes)

end

interpretation mb_crc: frame_check crc16
  by unfold_locales (simp_all add: crc16_residue crc16_two_bytes_iff)

section \<open>Properties\<close>

text \<open>C38. The table-driven \<open>usMBCRC16\<close> reads exactly \<open>usLen\<close> bytes from the pointer on and
  returns the CRC-16 of the Modbus specification (reflected polynomial A001, initial value
  FFFF, computed bit by bit) for every buffer, offset and length that stay in the buffer.\<close>

theorem usMBCRC16_bit_serial:
  assumes "p + unat usLen \<le> length mem"
  shows "usMBCRC16 mem p usLen
    = Some (foldl (\<lambda>c b. (crc_shift ^^ 8) (c XOR ucast b)) 0xFFFF (take (unat usLen) (drop p mem)))"
  using usMBCRC16_eq [OF assms] by (simp add: crc16_def crc_byte_def [abs_def])

theorem usMBCRC16_bit_serial_witness:
  "usMBCRC16 [0xAA, 1, 4, 0xBB] 1 2
    = Some (foldl (\<lambda>c b. (crc_shift ^^ 8) (c XOR ucast b)) 0xFFFF [1, 4 :: u8])"
  using usMBCRC16_bit_serial [of 1 2 "[0xAA, 1, 4, 0xBB]"] by simp

text \<open>A frame whose two neighbouring bytes were changed in any way on the line no longer
  passes the check that the receivers make, whatever the rest of the frame is.\<close>

theorem usMBCRC16_detects_two_bytes:
  assumes "length (xs @ a # b # ys) < 2 ^ 16"
    and "usMBCRC16 (xs @ a # b # ys) 0 (of_nat (length (xs @ a # b # ys))) = Some 0"
    and "(a', b') \<noteq> (a, b)"
  shows "usMBCRC16 (xs @ a' # b' # ys) 0 (of_nat (length (xs @ a # b # ys))) \<noteq> Some 0"
  using assms mb_crc.corruption_found [of xs a b ys a' b']
  by (simp add: usMBCRC16_eq unat_of_nat take_bit_eq_mod del: of_nat_add of_nat_Suc)

theorem usMBCRC16_detects_two_bytes_witness:
  "usMBCRC16 [1, 3, 0x40, 0x21] 0 4 = Some 0 \<and> usMBCRC16 [9, 7, 0x40, 0x21] 0 4 \<noteq> Some 0"
proof -
  have ok: "usMBCRC16 [1, 3, 0x40, 0x21] 0 4 = Some 0"
    by (simp add: usMBCRC16_eq crc16_def crc_byte_def funpow_8 crc_shift_def)
  then show ?thesis
    using usMBCRC16_detects_two_bytes [of "[]" 1 3 "[0x40, 0x21]" 9 7] by simp
qed

end
