(* ===== verification/Mb_Utils.thy ===== *)
theory Mb_Utils
  imports Prelude
begin

text \<open>
  \<^verbatim>\<open>modbus/include/mb.h\<close>, \<^verbatim>\<open>mbproto.h\<close>: error and exception codes, protocol constants;
  \<^verbatim>\<open>modbus/functions/mbutils.c\<close>: bit fields in byte buffers and the translation of
  register errors into exceptions. The lemmas describe a buffer by its bits, numbered
  through the bytes from the least significant bit of byte 0 on, as Modbus packs coils.
\<close>

section \<open>Codes\<close>

datatype eMBErrorCode =
  MB_ENOERR | MB_ENOREG | MB_EINVAL | MB_EPORTERR | MB_ENORES | MB_EIO | MB_EILLSTATE | MB_ETIMEDOUT

datatype eMBException =
  MB_EX_NONE | MB_EX_ILLEGAL_FUNCTION | MB_EX_ILLEGAL_DATA_ADDRESS | MB_EX_ILLEGAL_DATA_VALUE
| MB_EX_SLAVE_DEVICE_FAILURE | MB_EX_ACKNOWLEDGE | MB_EX_SLAVE_BUSY | MB_EX_MEMORY_PARITY_ERROR
| MB_EX_GATEWAY_PATH_FAILED | MB_EX_GATEWAY_TGT_FAILED

fun ex_code :: "eMBException \<Rightarrow> u8" where
  "ex_code MB_EX_NONE = 0x00"
| "ex_code MB_EX_ILLEGAL_FUNCTION = 0x01"
| "ex_code MB_EX_ILLEGAL_DATA_ADDRESS = 0x02"
| "ex_code MB_EX_ILLEGAL_DATA_VALUE = 0x03"
| "ex_code MB_EX_SLAVE_DEVICE_FAILURE = 0x04"
| "ex_code MB_EX_ACKNOWLEDGE = 0x05"
| "ex_code MB_EX_SLAVE_BUSY = 0x06"
| "ex_code MB_EX_MEMORY_PARITY_ERROR = 0x08"
| "ex_code MB_EX_GATEWAY_PATH_FAILED = 0x0A"
| "ex_code MB_EX_GATEWAY_TGT_FAILED = 0x0B"

datatype eMBRegisterMode = MB_REG_READ | MB_REG_WRITE

datatype eMBMode = MB_RTU | MB_ASCII | MB_TCP

datatype eMBParity = MB_PAR_NONE | MB_PAR_ODD | MB_PAR_EVEN

definition MB_ADDRESS_BROADCAST :: u8 where "MB_ADDRESS_BROADCAST = 0"
definition MB_ADDRESS_MIN :: u8 where "MB_ADDRESS_MIN = 1"
definition MB_ADDRESS_MAX :: u8 where "MB_ADDRESS_MAX = 247"

definition MB_FUNC_READ_COILS :: u8 where "MB_FUNC_READ_COILS = 1"
definition MB_FUNC_READ_DISCRETE_INPUTS :: u8 where "MB_FUNC_READ_DISCRETE_INPUTS = 2"
definition MB_FUNC_WRITE_SINGLE_COIL :: u8 where "MB_FUNC_WRITE_SINGLE_COIL = 5"
definition MB_FUNC_WRITE_MULTIPLE_COILS :: u8 where "MB_FUNC_WRITE_MULTIPLE_COILS = 15"
definition MB_FUNC_READ_HOLDING_REGISTER :: u8 where "MB_FUNC_READ_HOLDING_REGISTER = 3"
definition MB_FUNC_READ_INPUT_REGISTER :: u8 where "MB_FUNC_READ_INPUT_REGISTER = 4"
definition MB_FUNC_WRITE_REGISTER :: u8 where "MB_FUNC_WRITE_REGISTER = 6"
definition MB_FUNC_WRITE_MULTIPLE_REGISTERS :: u8 where "MB_FUNC_WRITE_MULTIPLE_REGISTERS = 16"
definition MB_FUNC_READWRITE_MULTIPLE_REGISTERS :: u8 where "MB_FUNC_READWRITE_MULTIPLE_REGISTERS = 23"
definition MB_FUNC_OTHER_REPORT_SLAVEID :: u8 where "MB_FUNC_OTHER_REPORT_SLAVEID = 17"
definition MB_FUNC_ERROR :: u8 where "MB_FUNC_ERROR = 128"

lemmas mb_func_defs =
  MB_FUNC_READ_COILS_def MB_FUNC_READ_DISCRETE_INPUTS_def MB_FUNC_WRITE_SINGLE_COIL_def
  MB_FUNC_WRITE_MULTIPLE_COILS_def MB_FUNC_READ_HOLDING_REGISTER_def
  MB_FUNC_READ_INPUT_REGISTER_def MB_FUNC_WRITE_REGISTER_def
  MB_FUNC_WRITE_MULTIPLE_REGISTERS_def MB_FUNC_READWRITE_MULTIPLE_REGISTERS_def
  MB_FUNC_OTHER_REPORT_SLAVEID_def MB_FUNC_ERROR_def

section \<open>mbutils.c\<close>

text \<open>
  \<open>mem\<close> is the object \<open>ucByteBuf\<close> points into, \<open>p\<close> the index of the pointer. Both routines
  always touch the two bytes at the byte offset and behind it.
\<close>

definition xMBUtilSetBits :: "u8 list \<Rightarrow> nat \<Rightarrow> u16 \<Rightarrow> u8 \<Rightarrow> u8 \<Rightarrow> u8 list option" where
  "xMBUtilSetBits mem p usBitOffset ucNBits ucValue = do {
     c_assert (ucNBits \<le> 8);
     let usByteOffset = unat usBitOffset div 8;
     let usNPreBits = unat usBitOffset - usByteOffset * 8;
     let usValue = push_bit usNPreBits (ucast ucValue :: u16);
     let usMask = push_bit usNPreBits (push_bit (unat ucNBits) 1 - 1 :: u16);
     b0 \<leftarrow> rd mem (p + usByteOffset);
     b1 \<leftarrow> rd mem (p + usByteOffset + 1);
     let usWordBuf = (be16 b1 b0 AND NOT usMask) OR usValue;
     mem \<leftarrow> wr mem (p + usByteOffset) (lo8 usWordBuf);
     wr mem (p + usByteOffset + 1) (hi8 usWordBuf)
   }"

text \<open>\<open>1 << ucNBits\<close> is a shift of a 32-bit \<open>int\<close>: from 31 on it is undefined.\<close>

definition xMBUtilGetBits :: "u8 list \<Rightarrow> nat \<Rightarrow> u16 \<Rightarrow> u8 \<Rightarrow> u8 option" where
  "xMBUtilGetBits mem p usBitOffset ucNBits = do {
     let usByteOffset = unat usBitOffset div 8;
     let usNPreBits = unat usBitOffset - usByteOffset * 8;
     c_assert (unat ucNBits < 31);
     let usMask = (push_bit (unat ucNBits) 1 - 1 :: u16);
     b0 \<leftarrow> rd mem (p + usByteOffset);
     b1 \<leftarrow> rd mem (p + usByteOffset + 1);
     Some (ucast (drop_bit usNPreBits (be16 b1 b0) AND usMask))
   }"

fun prveMBError2Exception :: "eMBErrorCode \<Rightarrow> eMBException" where
  "prveMBError2Exception MB_ENOERR = MB_EX_NONE"
| "prveMBError2Exception MB_ENOREG = MB_EX_ILLEGAL_DATA_ADDRESS"
| "prveMBError2Exception MB_ETIMEDOUT = MB_EX_SLAVE_BUSY"
| "prveMBError2Exception _ = MB_EX_SLAVE_DEVICE_FAILURE"

lemma prveMBError2Exception_none_iff: "prveMBError2Exception e = MB_EX_NONE \<longleftrightarrow> e = MB_ENOERR"
  by (cases e) simp_all

section \<open>Buffers as bits\<close>

definition buf_bit :: "u8 list \<Rightarrow> nat \<Rightarrow> bool" where
  "buf_bit mem i = bit (mem ! (i div 8)) (i mod 8)"

lemma buf_bit_split: "r < 8 \<Longrightarrow> buf_bit mem (8 * q + r) = bit (mem ! q) r"
  by (simp add: buf_bit_def)

lemma bit_field_mask: "n \<le> 16 \<Longrightarrow> bit (2 ^ n - 1 :: u16) k \<longleftrightarrow> k < n"
  by (auto simp: bit_mask_iff possible_bit_def simp flip: mask_eq_exp_minus_1)

lemma bit_shifted_mask:
  "n + s \<le> 16 \<Longrightarrow> bit (push_bit s (push_bit n 1 - 1 :: u16)) k \<longleftrightarrow> s \<le> k \<and> k < s + n"
  by (auto simp: bit_push_bit_iff bit_field_mask possible_bit_def)

lemma unat_le_8: "(n :: u8) \<le> 8 \<longleftrightarrow> unat n \<le> 8"
  by (simp add: word_le_nat_alt)

lemma SetBits_ok:
  assumes "n \<le> 8" and "p + unat off div 8 + 1 < length mem"
  shows "\<exists>mem'. xMBUtilSetBits mem p off n v = Some mem'"
  using assms by (simp add: xMBUtilSetBits_def Let_def rd_in wr_in)

lemma SetBits_fault:
  "length mem \<le> p + unat off div 8 + 1 \<Longrightarrow> xMBUtilSetBits mem p off n v = None"
  by (auto simp: xMBUtilSetBits_def Let_def rd_def bind_eq_None_conv)

lemma SetBits_length: "xMBUtilSetBits mem p off n v = Some mem' \<Longrightarrow> length mem' = length mem"
  by (auto simp: xMBUtilSetBits_def Let_def bind_eq_Some_conv wr_Some_iff)

text \<open>
  The exact effect: the bits of the field are cleared, and then all eight bits of the value
  are or-ed in, those above the field included.
\<close>

lemma SetBits_bit:
  assumes "xMBUtilSetBits mem p off n v = Some mem'"
  shows "buf_bit mem' i \<longleftrightarrow>
    buf_bit mem i \<and> \<not> (8 * p + unat off \<le> i \<and> i < 8 * p + unat off + unat n)
    \<or> 8 * p + unat off \<le> i \<and> i < 8 * p + unat off + 8 \<and> bit v (i - (8 * p + unat off))"
proof -
  let ?k = "p + unat off div 8" and ?s = "unat off mod 8"
  have s: "unat off - unat off div 8 * 8 = ?s"
    by (simp add: minus_div_mult_eq_mod)
  have n: "unat n \<le> 8" and k: "?k + 1 < length mem"
    using assms
    by (auto simp: xMBUtilSetBits_def Let_def bind_eq_Some_conv rd_Some_iff c_assert_Some_iff unat_le_8)
  define w where "w = (be16 (mem ! (?k + 1)) (mem ! ?k) AND NOT (push_bit ?s (push_bit (unat n) 1 - 1)))
    OR push_bit ?s (ucast v)"
  have mem': "mem' = mem[?k := lo8 w, ?k + 1 := hi8 w]"
    using assms k n by (simp add: xMBUtilSetBits_def Let_def rd_in wr_in s w_def unat_le_8)
  have "unat n + ?s \<le> 16"
    using n by simp
  then have w: "bit w j \<longleftrightarrow> j < 16 \<and>
      ((if j < 8 then bit (mem ! ?k) j else bit (mem ! (?k + 1)) (j - 8)) \<and> \<not> (?s \<le> j \<and> j < ?s + unat n)
       \<or> ?s \<le> j \<and> j < ?s + 8 \<and> bit v (j - ?s))" for j
    unfolding w_def bit_or_iff bit_and_iff bit_not_iff
    by (subst bit_shifted_mask)
       (auto simp: bit_be16 bit_push_bit_iff bit_unsigned_iff possible_bit_def dest: bit_imp_le_length)
  define a where "a = unat off div 8"
  define s where "s = ?s"
  have off: "unat off = 8 * a + s" and s8: "s < 8"
    by (simp_all add: a_def s_def)
  define q where "q = i div 8"
  define r where "r = i mod 8"
  have i: "i = 8 * q + r" and r8: "r < 8"
    by (simp_all add: q_def r_def)
  have old: "buf_bit mem i = bit (mem ! q) r" and new: "buf_bit mem' i = bit (mem' ! q) r"
    by (simp_all add: buf_bit_def q_def r_def)
  have le: "8 * p + unat off \<le> i \<longleftrightarrow> 8 * (p + a) + s \<le> 8 * q + r"
    and lt: "i < 8 * p + unat off + m \<longleftrightarrow> 8 * q + r < 8 * (p + a) + s + m" for m
    using i off by auto
  note w' = w [folded a_def s_def] and mem'' = mem' [folded a_def] and k' = k [folded a_def]
  consider "q = p + a" | "q = p + a + 1" | "q \<noteq> p + a" "q \<noteq> p + a + 1"
    by blast
  then show ?thesis
  proof cases
    case 1
    have "i - (8 * p + unat off) = r - s"
      using i off 1 by simp
    moreover have "bit (mem' ! q) r \<longleftrightarrow> bit w r"
      using 1 k' r8 by (simp add: mem'' bit_lo8)
    ultimately show ?thesis
      unfolding old new le lt using 1 r8 by (auto simp: w')
  next
    case 2
    have "i - (8 * p + unat off) = r + 8 - s"
      using i off 2 s8 by simp
    moreover have "bit (mem' ! q) r \<longleftrightarrow> bit w (r + 8)"
      using 2 k' r8 by (simp add: mem'' bit_hi8)
    ultimately show ?thesis
      unfolding old new le lt using 2 r8 s8 by (auto simp: w')
  next
    case 3
    then have "mem' ! q = mem ! q"
      by (simp add: mem'')
    moreover have "i < 8 * p + unat off \<or> 8 * p + unat off + 8 \<le> i"
      using 3 i off r8 s8 by linarith
    ultimately show ?thesis
      using n unfolding old new by auto
  qed
qed

lemma GetBits_ok:
  assumes "unat n < 31" and "p + unat off div 8 + 1 < length mem"
  shows "\<exists>v. xMBUtilGetBits mem p off n = Some v"
  using assms by (simp add: xMBUtilGetBits_def Let_def rd_in)

lemma GetBits_fault:
  "length mem \<le> p + unat off div 8 + 1 \<Longrightarrow> xMBUtilGetBits mem p off n = None"
  by (auto simp: xMBUtilGetBits_def Let_def rd_def bind_eq_None_conv)

lemma GetBits_bit:
  assumes "xMBUtilGetBits mem p off n = Some v" and "n \<le> 8"
  shows "bit v j \<longleftrightarrow> j < unat n \<and> buf_bit mem (8 * p + unat off + j)"
proof -
  define a where "a = unat off div 8"
  define s where "s = unat off mod 8"
  have off: "unat off = 8 * a + s" and s8: "s < 8"
    by (simp_all add: a_def s_def)
  have n: "unat n \<le> 8"
    using assms(2) by (simp add: unat_le_8)
  have k: "p + a + 1 < length mem"
    and v: "v = ucast (drop_bit s (be16 (mem ! (p + a + 1)) (mem ! (p + a))) AND (2 ^ unat n - 1))"
    using assms
    by (auto simp: xMBUtilGetBits_def Let_def bind_eq_Some_conv rd_Some_iff a_def s_def
        minus_div_mult_eq_mod)
  have "bit v j \<longleftrightarrow> j < unat n \<and> bit (be16 (mem ! (p + a + 1)) (mem ! (p + a))) (s + j)"
    using n by (auto simp: v bit_unsigned_iff bit_and_iff bit_field_mask bit_drop_bit_eq)
  moreover have "bit (be16 (mem ! (p + a + 1)) (mem ! (p + a))) (s + j)
      \<longleftrightarrow> buf_bit mem (8 * p + unat off + j)" if j: "j < unat n"
  proof (cases "s + j < 8")
    case True
    have *: "8 * p + unat off + j = 8 * (p + a) + (s + j)"
      using off by simp
    with True show ?thesis
      unfolding bit_be16 * by (simp only: buf_bit_split if_True)
  next
    case False
    have *: "8 * p + unat off + j = 8 * (p + a + 1) + (s + j - 8)"
      using off False by simp
    have "s + j - 8 < 8"
      using s8 n j by linarith
    with False show ?thesis
      unfolding bit_be16 * using s8 n j by (simp only: buf_bit_split if_False) simp
  qed
  ultimately show ?thesis by blast
qed

end
