(* ===== verification/Mb_Rtu.thy ===== *)
theory Mb_Rtu
  imports Mb_Crc Mb_Utils
begin

text \<open>
  \<^verbatim>\<open>components/net/freemodbus/modbus/rtu/mbrtu.c\<close>, the RTU framing of the Modbus slave, over
  the part of the port it drives: \<^verbatim>\<open>port/portserial.c\<close> (direction of the RS-485 line, the
  transmit flag, the bytes written), \<^verbatim>\<open>port/porttimer.c\<close> (the t3.5 timer) and
  \<^verbatim>\<open>port/portevent.c\<close> (the event flags of the poll thread).

  The static variables of these files are the fields of one record. \<open>ucRTUBuf\<close> is shared by
  reception, request handling and transmission; a pointer into it is its index. What the
  hardware decides (whether the serial device opens, the byte read) is an argument.
\<close>

section \<open>State\<close>

datatype eMBSndState = STATE_TX_IDLE | STATE_TX_XMIT

datatype eMBRcvState = STATE_RX_INIT | STATE_RX_IDLE | STATE_RX_RCV | STATE_RX_ERROR

datatype eMBEventType = EV_READY | EV_FRAME_RECEIVED | EV_EXECUTE | EV_FRAME_SENT

fun event_bit :: "eMBEventType \<Rightarrow> u32" where
  "event_bit EV_READY = 1"
| "event_bit EV_FRAME_RECEIVED = 2"
| "event_bit EV_EXECUTE = 4"
| "event_bit EV_FRAME_SENT = 8"

record rtu_state =
  serial :: "u8 option" \<comment> \<open>the serial device in use, \<open>None\<close> for the null pointer\<close>
  ser_baud :: u32
  ser_data_bits :: nat
  ser_parity :: eMBParity
  rx_enabled :: bool
  tx_start :: bool \<comment> \<open>\<open>EVENT_SERIAL_TRANS_START\<close>\<close>
  line_out :: "u8 list"
  t35_ticks :: nat
  t35_running :: bool
  slave_event :: u32
  eSndState :: eMBSndState
  eRcvState :: eMBRcvState
  ucRTUBuf :: "u8 list"
  pucSndBufferCur :: nat
  usSndBufferCount :: u16
  usRcvBufferPos :: u16

text \<open>The values the C start-up code gives the static variables.\<close>

definition rtu_boot :: rtu_state where
  "rtu_boot = \<lparr>serial = None, ser_baud = 0, ser_data_bits = 0, ser_parity = MB_PAR_NONE,
     rx_enabled = False, tx_start = False, line_out = [], t35_ticks = 0, t35_running = False,
     slave_event = 0, eSndState = STATE_TX_IDLE, eRcvState = STATE_RX_INIT,
     ucRTUBuf = replicate 256 0, pucSndBufferCur = 0, usSndBufferCount = 0, usRcvBufferPos = 0\<rparr>"

definition MB_SER_PDU_SIZE_MIN :: u16 where "MB_SER_PDU_SIZE_MIN = 4"
definition MB_SER_PDU_SIZE_MAX :: u16 where "MB_SER_PDU_SIZE_MAX = 256"
definition MB_SER_PDU_SIZE_CRC :: u16 where "MB_SER_PDU_SIZE_CRC = 2"
definition MB_SER_PDU_ADDR_OFF :: nat where "MB_SER_PDU_ADDR_OFF = 0"
definition MB_SER_PDU_PDU_OFF :: nat where "MB_SER_PDU_PDU_OFF = 1"

lemmas ser_pdu_defs =
  MB_SER_PDU_SIZE_MIN_def MB_SER_PDU_SIZE_MAX_def MB_SER_PDU_SIZE_CRC_def
  MB_SER_PDU_ADDR_OFF_def MB_SER_PDU_PDU_OFF_def

section \<open>The port\<close>

text \<open>\<^verbatim>\<open>port/portserial.c\<close>. \<open>opened\<close> is the outcome of \<open>rt_device_open\<close>.\<close>

definition xMBPortSerialInit ::
  "bool \<Rightarrow> u8 \<Rightarrow> u32 \<Rightarrow> u8 \<Rightarrow> eMBParity \<Rightarrow> rtu_state \<Rightarrow> (bool \<times> rtu_state) option" where
  "xMBPortSerialInit opened ucPORT ulBaudRate ucDataBits eParity s = do {
     let dev = (if ucPORT = 1 then Some 1 else if ucPORT = 2 then Some 2
                else if ucPORT = 3 then Some 3 else serial s);
     c_assert (dev \<noteq> None);
     let s = s\<lparr>serial := dev, ser_baud := ulBaudRate,
               ser_data_bits := (if eParity = MB_PAR_NONE then 8 else 9), ser_parity := eParity\<rparr>;
     if opened then Some (True, s\<lparr>tx_start := False\<rparr>) else Some (False, s)
   }"

definition vMBPortSerialEnable :: "bool \<Rightarrow> bool \<Rightarrow> rtu_state \<Rightarrow> rtu_state" where
  "vMBPortSerialEnable xRxEnable xTxEnable s = s\<lparr>rx_enabled := xRxEnable, tx_start := xTxEnable\<rparr>"

definition xMBPortSerialPutByte :: "u8 \<Rightarrow> rtu_state \<Rightarrow> rtu_state" where
  "xMBPortSerialPutByte ucByte s = s\<lparr>line_out := line_out s @ [ucByte]\<rparr>"

text \<open>\<^verbatim>\<open>port/porttimer.c\<close>: one tick is 1 ms (\<open>RT_TICK_PER_SECOND\<close> is 1000).\<close>

definition xMBPortTimersInit :: "u16 \<Rightarrow> rtu_state \<Rightarrow> bool \<times> rtu_state" where
  "xMBPortTimersInit usTim1Timerout50us s =
     (True, s\<lparr>t35_ticks := (50 * unat usTim1Timerout50us) div (1000 * 1000 div 1000) + 1,
              t35_running := False\<rparr>)"

definition vMBPortTimersEnable :: "rtu_state \<Rightarrow> rtu_state" where
  "vMBPortTimersEnable s = s\<lparr>t35_running := True\<rparr>"

definition vMBPortTimersDisable :: "rtu_state \<Rightarrow> rtu_state" where
  "vMBPortTimersDisable s = s\<lparr>t35_running := False\<rparr>"

text \<open>\<^verbatim>\<open>port/portevent.c\<close>: \<open>rt_event_send\<close> or-s the flag into the event set.\<close>

definition xMBPortEventInit :: "rtu_state \<Rightarrow> bool \<times> rtu_state" where
  "xMBPortEventInit s = (True, s\<lparr>slave_event := 0\<rparr>)"

definition xMBPortEventPost :: "eMBEventType \<Rightarrow> rtu_state \<Rightarrow> bool \<times> rtu_state" where
  "xMBPortEventPost eEvent s = (True, s\<lparr>slave_event := slave_event s OR event_bit eEvent\<rparr>)"

lemmas port_defs =
  vMBPortSerialEnable_def xMBPortSerialPutByte_def vMBPortTimersEnable_def
  vMBPortTimersDisable_def xMBPortEventPost_def

section \<open>mbrtu.c\<close>

definition eMBRTUInit ::
  "bool \<Rightarrow> u8 \<Rightarrow> u8 \<Rightarrow> u32 \<Rightarrow> eMBParity \<Rightarrow> rtu_state \<Rightarrow> (eMBErrorCode \<times> rtu_state) option" where
  "eMBRTUInit opened ucSlaveAddress ucPort ulBaudRate eParity s = do {
     (ok, s) \<leftarrow> xMBPortSerialInit opened ucPort ulBaudRate 8 eParity s;
     if \<not> ok then Some (MB_EPORTERR, s)
     else do {
       c_assert (ulBaudRate \<noteq> 0);
       let usTimerT35_50us = (if ulBaudRate > 19200 then 35
                              else of_nat ((7 * 220000) div unat (2 * ulBaudRate)) :: u32);
       let (ok, s) = xMBPortTimersInit (ucast usTimerT35_50us) s;
       if \<not> ok then Some (MB_EPORTERR, s) else Some (MB_ENOERR, s)
     }
   }"

definition eMBRTUStart :: "rtu_state \<Rightarrow> rtu_state" where
  "eMBRTUStart s =
     vMBPortTimersEnable (vMBPortSerialEnable True False (s\<lparr>eRcvState := STATE_RX_INIT\<rparr>))"

definition eMBRTUStop :: "rtu_state \<Rightarrow> rtu_state" where
  "eMBRTUStop s = vMBPortTimersDisable (vMBPortSerialEnable False False s)"

text \<open>
  \<open>eMBRTUReceive\<close> returns the address, the pointer to the PDU and its length through its
  parameters; on \<open>MB_EIO\<close> it leaves them alone (\<open>None\<close>).
\<close>

definition eMBRTUReceive :: "rtu_state \<Rightarrow> (eMBErrorCode \<times> (u8 \<times> nat \<times> u16) option) option" where
  "eMBRTUReceive s = do {
     c_assert (usRcvBufferPos s < MB_SER_PDU_SIZE_MAX);
     if usRcvBufferPos s \<ge> MB_SER_PDU_SIZE_MIN
     then do {
       crc \<leftarrow> usMBCRC16 (ucRTUBuf s) 0 (usRcvBufferPos s);
       if crc = 0
       then do {
         addr \<leftarrow> rd (ucRTUBuf s) MB_SER_PDU_ADDR_OFF;
         Some (MB_ENOERR, Some (addr, MB_SER_PDU_PDU_OFF,
                                usRcvBufferPos s - of_nat MB_SER_PDU_PDU_OFF - MB_SER_PDU_SIZE_CRC))
       }
       else Some (MB_EIO, None)
     }
     else Some (MB_EIO, None)
   }"

text \<open>\<open>pucFrame\<close> is an index into \<open>ucRTUBuf\<close>; \<open>pucFrame - 1\<close> must not leave the buffer.\<close>

definition eMBRTUSend :: "u8 \<Rightarrow> nat \<Rightarrow> u16 \<Rightarrow> rtu_state \<Rightarrow> (eMBErrorCode \<times> rtu_state) option" where
  "eMBRTUSend ucSlaveAddress pucFrame usLength s =
     (if eRcvState s = STATE_RX_IDLE
      then do {
        c_assert (1 \<le> pucFrame);
        let cur = pucFrame - 1;
        buf \<leftarrow> wr (ucRTUBuf s) (cur + MB_SER_PDU_ADDR_OFF) ucSlaveAddress;
        let cnt = 1 + usLength;
        usCRC16 \<leftarrow> usMBCRC16 buf cur cnt;
        buf \<leftarrow> wr buf (unat cnt) (lo8 usCRC16);
        buf \<leftarrow> wr buf (unat (cnt + 1)) (hi8 usCRC16);
        Some (MB_ENOERR, vMBPortSerialEnable False True
          (s\<lparr>pucSndBufferCur := cur, ucRTUBuf := buf, usSndBufferCount := cnt + 2,
             eSndState := STATE_TX_XMIT\<rparr>))
      }
      else Some (MB_EIO, s))"

text \<open>\<open>ucByte\<close> is the byte \<open>xMBPortSerialGetByte\<close> fetches from the device.\<close>

definition xMBRTUReceiveFSM :: "u8 \<Rightarrow> rtu_state \<Rightarrow> (bool \<times> rtu_state) option" where
  "xMBRTUReceiveFSM ucByte s = do {
     c_assert (eSndState s = STATE_TX_IDLE);
     case eRcvState s of
       STATE_RX_INIT \<Rightarrow> Some (False, vMBPortTimersEnable s)
     | STATE_RX_ERROR \<Rightarrow> Some (False, vMBPortTimersEnable s)
     | STATE_RX_IDLE \<Rightarrow> do {
         buf \<leftarrow> wr (ucRTUBuf s) 0 ucByte;
         Some (False, vMBPortTimersEnable
           (s\<lparr>ucRTUBuf := buf, usRcvBufferPos := 1, eRcvState := STATE_RX_RCV\<rparr>))
       }
     | STATE_RX_RCV \<Rightarrow>
         if usRcvBufferPos s < MB_SER_PDU_SIZE_MAX
         then do {
           buf \<leftarrow> wr (ucRTUBuf s) (unat (usRcvBufferPos s)) ucByte;
           Some (False, vMBPortTimersEnable
             (s\<lparr>ucRTUBuf := buf, usRcvBufferPos := usRcvBufferPos s + 1\<rparr>))
         }
         else Some (False, vMBPortTimersEnable (s\<lparr>eRcvState := STATE_RX_ERROR\<rparr>))
   }"

definition xMBRTUTransmitFSM :: "rtu_state \<Rightarrow> (bool \<times> rtu_state) option" where
  "xMBRTUTransmitFSM s = do {
     c_assert (eRcvState s = STATE_RX_IDLE);
     case eSndState s of
       STATE_TX_IDLE \<Rightarrow> Some (False, vMBPortSerialEnable True False s)
     | STATE_TX_XMIT \<Rightarrow>
         if usSndBufferCount s \<noteq> 0
         then do {
           b \<leftarrow> rd (ucRTUBuf s) (pucSndBufferCur s);
           Some (False, (xMBPortSerialPutByte b s)
             \<lparr>pucSndBufferCur := pucSndBufferCur s + 1,
              usSndBufferCount := usSndBufferCount s - 1\<rparr>)
         }
         else
           let (need_poll, s) = xMBPortEventPost EV_FRAME_SENT s
           in Some (need_poll, (vMBPortSerialEnable True False s)\<lparr>eSndState := STATE_TX_IDLE\<rparr>)
   }"

definition xMBRTUTimerT35Expired :: "rtu_state \<Rightarrow> (bool \<times> rtu_state) option" where
  "xMBRTUTimerT35Expired s = do {
     (need_poll, s) \<leftarrow>
       (case eRcvState s of
          STATE_RX_INIT \<Rightarrow> Some (xMBPortEventPost EV_READY s)
        | STATE_RX_RCV \<Rightarrow> Some (xMBPortEventPost EV_FRAME_RECEIVED s)
        | STATE_RX_ERROR \<Rightarrow> Some (False, s)
        | STATE_RX_IDLE \<Rightarrow> None);
     Some (need_poll, (vMBPortTimersDisable s)\<lparr>eRcvState := STATE_RX_IDLE\<rparr>)
   }"

section \<open>Reception\<close>

text \<open>The receive interrupt handler \<open>prvvUARTRxISR\<close> calls the receiver once per byte.\<close>

fun rtu_feed :: "u8 list \<Rightarrow> rtu_state \<Rightarrow> rtu_state option" where
  "rtu_feed [] s = Some s"
| "rtu_feed (b # bs) s = do { (_, s) \<leftarrow> xMBRTUReceiveFSM b s; rtu_feed bs s }"

lemma list_update_fill:
  "k < length xs \<Longrightarrow> take (Suc k) (xs[k := b]) @ bs @ drop (Suc k + n) (xs[k := b])
    = take k xs @ (b # bs) @ drop (k + Suc n) xs"
  by (simp add: take_Suc_conv_app_nth)

lemma feed_rcv:
  assumes "eSndState s = STATE_TX_IDLE" "eRcvState s = STATE_RX_RCV" "t35_running s"
    and "length (ucRTUBuf s) = 256" "unat (usRcvBufferPos s) + length bs \<le> 256"
  shows "rtu_feed bs s = Some (s\<lparr>ucRTUBuf := take (unat (usRcvBufferPos s)) (ucRTUBuf s) @ bs
            @ drop (unat (usRcvBufferPos s) + length bs) (ucRTUBuf s),
          usRcvBufferPos := usRcvBufferPos s + of_nat (length bs)\<rparr>)"
  using assms
proof (induction bs arbitrary: s)
  case Nil
  then show ?case by simp
next
  case (Cons b bs)
  let ?k = "unat (usRcvBufferPos s)"
  let ?s' = "s\<lparr>ucRTUBuf := (ucRTUBuf s)[?k := b], usRcvBufferPos := usRcvBufferPos s + 1\<rparr>"
  have k: "?k < 256"
    using Cons.prems by simp
  then have pos: "usRcvBufferPos s < 256"
    by (simp add: word_less_nat_alt)
  have k': "unat (usRcvBufferPos s + 1) = Suc ?k"
    using k by (simp add: unat_word_ariths)
  have "xMBRTUReceiveFSM b s = Some (False, ?s')"
    using Cons.prems k pos
    by (simp add: xMBRTUReceiveFSM_def ser_pdu_defs wr_in vMBPortTimersEnable_def)
  then have "rtu_feed (b # bs) s = rtu_feed bs ?s'"
    by simp
  also have "\<dots> = Some (?s'\<lparr>ucRTUBuf := take (unat (usRcvBufferPos ?s')) (ucRTUBuf ?s') @ bs
            @ drop (unat (usRcvBufferPos ?s') + length bs) (ucRTUBuf ?s'),
          usRcvBufferPos := usRcvBufferPos ?s' + of_nat (length bs)\<rparr>)"
    using Cons.prems k' by (intro Cons.IH) auto
  finally show ?case
    using k k' Cons.prems(4) list_update_fill [of ?k "ucRTUBuf s" b bs "length bs"]
    by (simp add: ac_simps)
qed

lemma feed_idle:
  assumes "eSndState s = STATE_TX_IDLE" "eRcvState s = STATE_RX_IDLE"
    and "length (ucRTUBuf s) = 256" "bs \<noteq> []" "length bs \<le> 256"
  shows "rtu_feed bs s = Some (s\<lparr>ucRTUBuf := bs @ drop (length bs) (ucRTUBuf s),
          usRcvBufferPos := of_nat (length bs), eRcvState := STATE_RX_RCV, t35_running := True\<rparr>)"
proof -
  obtain b cs where bs: "bs = b # cs"
    using assms(4) by (cases bs) auto
  let ?s' = "s\<lparr>ucRTUBuf := (ucRTUBuf s)[0 := b], usRcvBufferPos := 1, eRcvState := STATE_RX_RCV,
    t35_running := True\<rparr>"
  have "xMBRTUReceiveFSM b s = Some (False, ?s')"
    using assms by (simp add: xMBRTUReceiveFSM_def wr_in vMBPortTimersEnable_def)
  then have "rtu_feed bs s = rtu_feed cs ?s'"
    by (simp add: bs)
  also have "\<dots> = Some (?s'\<lparr>ucRTUBuf := take (unat (usRcvBufferPos ?s')) (ucRTUBuf ?s') @ cs
            @ drop (unat (usRcvBufferPos ?s') + length cs) (ucRTUBuf ?s'),
          usRcvBufferPos := usRcvBufferPos ?s' + of_nat (length cs)\<rparr>)"
    using assms bs by (intro feed_rcv) auto
  finally show ?thesis
    using assms(3) bs list_update_fill [of 0 "ucRTUBuf s" b cs "length cs"] by simp
qed

text \<open>A frame of more than 256 bytes is dropped: the receiver waits for silence in the error state.\<close>

lemma feed_error:
  assumes "eSndState s = STATE_TX_IDLE" "eRcvState s = STATE_RX_ERROR" "t35_running s"
  shows "rtu_feed bs s = Some s"
proof -
  have "s\<lparr>t35_running := True\<rparr> = s"
    using assms(3) by simp
  then have "xMBRTUReceiveFSM b s = Some (False, s)" for b
    using assms by (simp add: xMBRTUReceiveFSM_def vMBPortTimersEnable_def)
  then show ?thesis
    by (induction bs) simp_all
qed

lemma rtu_feed_append: "rtu_feed (xs @ ys) s = Option.bind (rtu_feed xs s) (rtu_feed ys)"
  by (induction xs arbitrary: s) (auto split: bind_splits)

lemma receive_sealed:
  assumes "length (ucRTUBuf s) = 256" "usRcvBufferPos s = of_nat (length pdu + 3)"
    and "1 \<le> length pdu" "length pdu + 3 < 256"
    and "take (length pdu + 3) (ucRTUBuf s) = seal_frame crc16 (addr # pdu)"
  shows "eMBRTUReceive s = Some (MB_ENOERR, Some (addr, 1, of_nat (length pdu)))"
proof -
  have n: "unat (of_nat (length pdu + 3) :: u16) = length pdu + 3"
    using assms(4) by (intro unat16_of_nat) simp
  have "usMBCRC16 (ucRTUBuf s) 0 (of_nat (length pdu + 3)) = Some 0"
    using assms n mb_crc.sealed_ok [of "addr # pdu"] by (simp add: usMBCRC16_eq)
  moreover have "ucRTUBuf s ! 0 = addr"
    using assms(5) by (metis append_Cons nth_Cons_0 nth_take seal_frame_def zero_less_numeral add_gr_0)
  moreover have "(of_nat (length pdu + 3) :: u16) < 256" "(4 :: u16) \<le> of_nat (length pdu + 3)"
    using n assms(3,4) by (simp_all add: word_less_nat_alt word_le_nat_alt)
  moreover have "(of_nat (length pdu + 3) :: u16) - 1 - 2 = of_nat (length pdu)"
    by simp
  ultimately show ?thesis
    using assms(1,2) by (simp add: eMBRTUReceive_def ser_pdu_defs rd_in)
qed

section \<open>Transmission\<close>

text \<open>
  The thread \<open>serial_soft_trans_irq\<close> calls the transmitter for as long as the transmit flag
  is set; \<open>rtu_transmit n\<close> is \<open>n\<close> rounds of its loop.
\<close>

fun rtu_transmit :: "nat \<Rightarrow> rtu_state \<Rightarrow> rtu_state option" where
  "rtu_transmit 0 s = Some s"
| "rtu_transmit (Suc n) s =
     (if tx_start s then do { (_, s) \<leftarrow> xMBRTUTransmitFSM s; rtu_transmit n s } else Some s)"

lemma transmit_bytes:
  assumes "eSndState s = STATE_TX_XMIT" "eRcvState s = STATE_RX_IDLE" "tx_start s"
    and "usSndBufferCount s = of_nat n" "n < 65536" "pucSndBufferCur s + n \<le> length (ucRTUBuf s)"
  shows "rtu_transmit n s = Some (s\<lparr>line_out := line_out s @ take n (drop (pucSndBufferCur s) (ucRTUBuf s)),
            pucSndBufferCur := pucSndBufferCur s + n, usSndBufferCount := 0\<rparr>)"
  using assms
proof (induction n arbitrary: s)
  case 0
  then show ?case by simp
next
  case (Suc n)
  let ?c = "pucSndBufferCur s"
  let ?s' = "s\<lparr>line_out := line_out s @ [ucRTUBuf s ! ?c], pucSndBufferCur := ?c + 1,
    usSndBufferCount := of_nat n\<rparr>"
  have "(of_nat (Suc n) :: u16) \<noteq> 0"
    using unat16_of_nat [of "Suc n"] Suc.prems(5) by (metis nat.simps(3) unsigned_0)
  then have "xMBRTUTransmitFSM s = Some (False, ?s')"
    using Suc.prems by (simp add: xMBRTUTransmitFSM_def rd_in xMBPortSerialPutByte_def)
  then have "rtu_transmit (Suc n) s = rtu_transmit n ?s'"
    using Suc.prems(3) by simp
  also have "\<dots> = Some (?s'\<lparr>line_out := line_out ?s' @ take n (drop (pucSndBufferCur ?s') (ucRTUBuf ?s')),
            pucSndBufferCur := pucSndBufferCur ?s' + n, usSndBufferCount := 0\<rparr>)"
    using Suc.prems by (intro Suc.IH) auto
  also have "line_out ?s' @ take n (drop (pucSndBufferCur ?s') (ucRTUBuf ?s'))
      = line_out s @ take (Suc n) (drop ?c (ucRTUBuf s))"
    using Suc.prems(6) by (simp add: Cons_nth_drop_Suc [symmetric])
  finally show ?case by simp
qed

lemma rtu_transmit_stopped: "\<not> tx_start s \<Longrightarrow> rtu_transmit n s = Some s"
  by (cases n) simp_all

lemma rtu_transmit_add: "rtu_transmit (m + n) s = Option.bind (rtu_transmit m s) (rtu_transmit n)"
  by (induction m arbitrary: s) (auto simp: rtu_transmit_stopped split: bind_splits)

lemma transmit_all:
  assumes "eSndState s = STATE_TX_XMIT" "eRcvState s = STATE_RX_IDLE" "tx_start s"
    and "usSndBufferCount s = of_nat n" "n < 65536" "pucSndBufferCur s + n \<le> length (ucRTUBuf s)"
  shows "rtu_transmit (Suc n) s = Some (s\<lparr>line_out := line_out s @ take n (drop (pucSndBufferCur s) (ucRTUBuf s)),
            pucSndBufferCur := pucSndBufferCur s + n, usSndBufferCount := 0,
            slave_event := slave_event s OR 8, rx_enabled := True, tx_start := False,
            eSndState := STATE_TX_IDLE\<rparr>)"
proof -
  have "rtu_transmit (Suc n) s = Option.bind (rtu_transmit n s) (rtu_transmit 1)"
    using rtu_transmit_add [of n 1 s] by simp
  then show ?thesis
    unfolding transmit_bytes [OF assms]
    using assms(1-3) by (simp add: xMBRTUTransmitFSM_def port_defs)
qed

lemma send_ok:
  assumes "eRcvState s = STATE_RX_IDLE" "length (ucRTUBuf s) = 256"
    and "take (length pdu) (drop 1 (ucRTUBuf s)) = pdu" "length pdu \<le> 253"
  shows "eMBRTUSend addr 1 (of_nat (length pdu)) s = Some (MB_ENOERR,
    s\<lparr>rx_enabled := False, tx_start := True, eSndState := STATE_TX_XMIT, pucSndBufferCur := 0,
      usSndBufferCount := of_nat (length pdu + 3),
      ucRTUBuf := seal_frame crc16 (addr # pdu) @ drop (length pdu + 3) (ucRTUBuf s)\<rparr>)"
proof -
  let ?n = "length pdu" and ?b = "(ucRTUBuf s)[0 := addr]"
  have n: "unat (1 + word_of_nat ?n :: u16) = Suc ?n" "unat (2 + word_of_nat ?n :: u16) = Suc (Suc ?n)"
    using assms(4) unat16_of_nat [of "Suc ?n"] unat16_of_nat [of "Suc (Suc ?n)"] by simp_all
  obtain x xs where buf: "ucRTUBuf s = x # xs"
    using assms(2) by (cases "ucRTUBuf s") auto
  have tk: "take (Suc ?n) ?b = addr # pdu"
    using assms(3) by (simp add: buf)
  have crc: "usMBCRC16 ?b 0 (1 + word_of_nat ?n) = Some (crc16 (addr # pdu))"
    using assms(2,4) n(1) tk by (simp add: usMBCRC16_eq)
  have "?b[Suc ?n := lo, Suc (Suc ?n) := hi] = take (Suc ?n) ?b @ [lo, hi] @ drop (?n + 3) (ucRTUBuf s)" for lo hi
    using assms(2,4) by (intro nth_equalityI) (auto simp: nth_append nth_list_update nth_Cons')
  then show ?thesis
    using assms(1,2,4) crc n
    by (simp add: eMBRTUSend_def ser_pdu_defs Let_def wr_in vMBPortSerialEnable_def tk seal_frame_def ac_simps)
qed

section \<open>Interleavings\<close>

text \<open>
  The routines run from the receive interrupt, the timer, the transmit thread and the poll
  thread, each inside a critical section, so an execution is a sequence of whole calls.
  A call is possible when the hardware or the port can make it: a byte arrives only while the
  receive interrupt is enabled, the timer expires only while it runs, the transmit thread
  calls only while its flag is set. The poll thread may ask for a reply at any time; its
  request handlers never build a PDU of more than 253 bytes and always at index 1.
\<close>

datatype rtu_action = RxByte u8 | TimerExpires | TxReady | SendReply u8 u16

fun rtu_possible :: "rtu_state \<Rightarrow> rtu_action \<Rightarrow> bool" where
  "rtu_possible s (RxByte b) = rx_enabled s"
| "rtu_possible s TimerExpires = t35_running s"
| "rtu_possible s TxReady = tx_start s"
| "rtu_possible s (SendReply addr len) = (unat len \<le> 253)"

fun rtu_perform :: "rtu_state \<Rightarrow> rtu_action \<Rightarrow> rtu_state option" where
  "rtu_perform s (RxByte b) = map_option snd (xMBRTUReceiveFSM b s)"
| "rtu_perform s TimerExpires = map_option snd (xMBRTUTimerT35Expired s)"
| "rtu_perform s TxReady = map_option snd (xMBRTUTransmitFSM s)"
| "rtu_perform s (SendReply addr len) = map_option snd (eMBRTUSend addr 1 len s)"

inductive rtu_reachable :: "rtu_state \<Rightarrow> rtu_state \<Rightarrow> bool" for s0 where
  started: "rtu_reachable s0 (eMBRTUStart s0)"
| called: "rtu_reachable s0 s \<Longrightarrow> rtu_possible s c \<Longrightarrow> rtu_perform s c = Some s' \<Longrightarrow> rtu_reachable s0 s'"

definition rtu_inv :: "rtu_state \<Rightarrow> bool" where
  "rtu_inv s \<longleftrightarrow> length (ucRTUBuf s) = 256 \<and> unat (usRcvBufferPos s) \<le> 256
     \<and> (t35_running s \<longleftrightarrow> eRcvState s \<noteq> STATE_RX_IDLE)
     \<and> (tx_start s \<longleftrightarrow> eSndState s = STATE_TX_XMIT)
     \<and> (rx_enabled s \<longleftrightarrow> eSndState s = STATE_TX_IDLE)
     \<and> (eSndState s = STATE_TX_XMIT \<longrightarrow> eRcvState s = STATE_RX_IDLE
          \<and> pucSndBufferCur s + unat (usSndBufferCount s) \<le> 256)"

lemma rtu_inv_start:
  "length (ucRTUBuf s) = 256 \<Longrightarrow> unat (usRcvBufferPos s) \<le> 256 \<Longrightarrow> eSndState s = STATE_TX_IDLE
    \<Longrightarrow> rtu_inv (eMBRTUStart s)"
  by (simp add: rtu_inv_def eMBRTUStart_def port_defs)

lemma rtu_inv_rx:
  assumes "rtu_inv s" "rx_enabled s"
  shows "\<exists>s'. xMBRTUReceiveFSM b s = Some (False, s') \<and> rtu_inv s'"
proof -
  have idle: "eSndState s = STATE_TX_IDLE" and len: "length (ucRTUBuf s) = 256"
    using assms by (auto simp: rtu_inv_def)
  have "unat (usRcvBufferPos s + 1) = Suc (unat (usRcvBufferPos s))" if "usRcvBufferPos s < 256"
    using that by (simp add: word_less_nat_alt unat_word_ariths)
  then show ?thesis
    using assms idle len
    by (cases "eRcvState s")
       (auto simp: xMBRTUReceiveFSM_def rtu_inv_def wr_in ser_pdu_defs port_defs word_less_nat_alt)
qed

lemma rtu_inv_timer:
  assumes "rtu_inv s" "t35_running s"
  shows "\<exists>b s'. xMBRTUTimerT35Expired s = Some (b, s') \<and> rtu_inv s'"
  using assms
  by (cases "eRcvState s") (auto simp: xMBRTUTimerT35Expired_def rtu_inv_def port_defs)

lemma rtu_inv_tx:
  assumes "rtu_inv s" "tx_start s"
  shows "\<exists>b s'. xMBRTUTransmitFSM s = Some (b, s') \<and> rtu_inv s'"
proof -
  have xmit: "eSndState s = STATE_TX_XMIT" "eRcvState s = STATE_RX_IDLE"
    using assms by (auto simp: rtu_inv_def)
  have "Suc (unat (usSndBufferCount s - 1)) = unat (usSndBufferCount s)" if "usSndBufferCount s \<noteq> 0"
    using that unat_gt_0 [of "usSndBufferCount s"] by (simp add: unat_minus_one)
  then show ?thesis
    using assms xmit
    by (cases "usSndBufferCount s = 0")
       (auto simp: xMBRTUTransmitFSM_def rtu_inv_def rd_in port_defs unat_gt_0)
qed

lemma rtu_inv_send:
  assumes "rtu_inv s" "unat len \<le> 253"
  shows "\<exists>e s'. eMBRTUSend addr 1 len s = Some (e, s') \<and> rtu_inv s'"
proof (cases "eRcvState s = STATE_RX_IDLE")
  case True
  let ?pdu = "take (unat len) (drop 1 (ucRTUBuf s))"
  have l: "length (ucRTUBuf s) = 256"
    using assms(1) by (simp add: rtu_inv_def)
  then have len: "length ?pdu = unat len" "of_nat (length ?pdu) = len"
    using assms(2) by simp_all
  have "unat (of_nat (length ?pdu + 3) :: u16) = unat len + 3"
    using len assms(2) by (subst unat16_of_nat) simp_all
  then show ?thesis
    using send_ok [OF True l, of ?pdu addr] len l assms True
    by (auto simp: rtu_inv_def simp del: of_nat_add)
next
  case False
  with assms show ?thesis by (simp add: eMBRTUSend_def)
qed

lemma rtu_inv_call:
  assumes "rtu_inv s" "rtu_possible s c"
  shows "\<exists>s'. rtu_perform s c = Some s' \<and> rtu_inv s'"
proof (cases c)
  case (RxByte b)
  with assms rtu_inv_rx [of s b] show ?thesis by auto
next
  case TimerExpires
  with assms rtu_inv_timer [of s] show ?thesis by auto
next
  case TxReady
  with assms rtu_inv_tx [of s] show ?thesis by auto
next
  case (SendReply addr len)
  with assms rtu_inv_send [of s len addr] show ?thesis by auto
qed

lemma rtu_reachable_inv: "rtu_reachable s0 s \<Longrightarrow> rtu_inv (eMBRTUStart s0) \<Longrightarrow> rtu_inv s"
proof (induction rule: rtu_reachable.induct)
  case started
  then show ?case .
next
  case (called s c s')
  then show ?case using rtu_inv_call [of s c] by auto
qed

section \<open>Properties\<close>



text \<open>In every execution that \<open>eMBRTUStart\<close> begins with an idle transmitter, no call that the
  hardware, the timer, the transmit thread or the poll thread can make next fails an assertion or
  leaves the 256-byte buffer, in any order of calls.\<close>

theorem rtu_calls_never_fault:
  assumes "length (ucRTUBuf s0) = 256" "unat (usRcvBufferPos s0) \<le> 256" "eSndState s0 = STATE_TX_IDLE"
    and "rtu_reachable s0 s" and "rtu_possible s c"
  shows "rtu_perform s c \<noteq> None"
  using rtu_reachable_inv [OF assms(4) rtu_inv_start [OF assms(1-3)]] rtu_inv_call [of s c] assms(5)
  by auto

theorem rtu_calls_never_fault_witness:
  "rtu_perform (eMBRTUStart rtu_boot) (RxByte 7) \<noteq> None"
  by (rule rtu_calls_never_fault [of rtu_boot, OF _ _ _ rtu_reachable.started])
     (simp_all add: rtu_boot_def eMBRTUStart_def port_defs)

text \<open>The largest frame that Modbus allows, 256 bytes, is received completely and announced to
  the poll thread; the poll thread's \<open>eMBRTUReceive\<close> then fails its assertion
  \<open>usRcvBufferPos < 256\<close>, whose handler loops for ever with interrupts off.\<close>

theorem rtu_max_frame_hangs:
  assumes "eSndState s = STATE_TX_IDLE" "eRcvState s = STATE_RX_IDLE" "length (ucRTUBuf s) = 256"
    and "length bs = 256"
  shows "\<exists>s1 s2. rtu_feed bs s = Some s1 \<and> xMBRTUTimerT35Expired s1 = Some (True, s2)
    \<and> slave_event s2 = slave_event s OR event_bit EV_FRAME_RECEIVED \<and> eMBRTUReceive s2 = None"
proof -
  have "bs \<noteq> []" using assms(4) by auto
  then show ?thesis
    using feed_idle [OF assms(1-3), of bs] assms(4)
    by (simp add: xMBRTUTimerT35Expired_def port_defs eMBRTUReceive_def ser_pdu_defs)
qed

theorem rtu_max_frame_hangs_witness:
  "\<exists>s1 s2. rtu_feed (replicate 256 1) (rtu_boot\<lparr>eRcvState := STATE_RX_IDLE\<rparr>) = Some s1
    \<and> xMBRTUTimerT35Expired s1 = Some (True, s2)
    \<and> slave_event s2 = slave_event (rtu_boot\<lparr>eRcvState := STATE_RX_IDLE\<rparr>) OR event_bit EV_FRAME_RECEIVED
    \<and> eMBRTUReceive s2 = None"
  by (rule rtu_max_frame_hangs) (simp_all add: rtu_boot_def)

text \<open>A burst of more than 256 bytes without a pause is discarded as a whole: the receiver
  ends in its error state, and the silence after it returns it to idle without an event.\<close>

theorem rtu_overlong_frame_dropped:
  assumes "eSndState s = STATE_TX_IDLE" "eRcvState s = STATE_RX_IDLE" "length (ucRTUBuf s) = 256"
    and "256 < length bs"
  shows "\<exists>s1 s2. rtu_feed bs s = Some s1 \<and> eRcvState s1 = STATE_RX_ERROR
    \<and> xMBRTUTimerT35Expired s1 = Some (False, s2)
    \<and> eRcvState s2 = STATE_RX_IDLE \<and> slave_event s2 = slave_event s"
proof -
  define cs where "cs = take 256 bs"
  obtain d ds where "drop 256 bs = d # ds"
    using assms(4) by (cases "drop 256 bs") auto
  then have bs: "bs = cs @ d # ds"
    by (metis append_take_drop_id cs_def)
  have len: "length cs = 256" and ne: "cs \<noteq> []"
    using assms(4) by (auto simp: cs_def)
  let ?s1 = "s\<lparr>ucRTUBuf := cs, usRcvBufferPos := 256, eRcvState := STATE_RX_RCV, t35_running := True\<rparr>"
  have "rtu_feed cs s = Some ?s1"
    using feed_idle [OF assms(1-3) ne] len assms(3) by simp
  moreover have "xMBRTUReceiveFSM d ?s1 = Some (False, ?s1\<lparr>eRcvState := STATE_RX_ERROR\<rparr>)"
    using assms(1) by (simp add: xMBRTUReceiveFSM_def ser_pdu_defs port_defs)
  moreover have "rtu_feed ds (?s1\<lparr>eRcvState := STATE_RX_ERROR\<rparr>) = Some (?s1\<lparr>eRcvState := STATE_RX_ERROR\<rparr>)"
    using assms(1) by (intro feed_error) simp_all
  ultimately show ?thesis
    by (simp add: bs rtu_feed_append xMBRTUTimerT35Expired_def port_defs)
qed

theorem rtu_overlong_frame_dropped_witness:
  "\<exists>s1 s2. rtu_feed (replicate 300 1) (rtu_boot\<lparr>eRcvState := STATE_RX_IDLE\<rparr>) = Some s1
    \<and> eRcvState s1 = STATE_RX_ERROR \<and> xMBRTUTimerT35Expired s1 = Some (False, s2)
    \<and> eRcvState s2 = STATE_RX_IDLE \<and> slave_event s2 = slave_event (rtu_boot\<lparr>eRcvState := STATE_RX_IDLE\<rparr>)"
  by (rule rtu_overlong_frame_dropped) (simp_all add: rtu_boot_def)

text \<open>Stopping the protocol stack in the middle of a reply leaves the transmitter state
  machine in \<open>STATE_TX_XMIT\<close>: after the next start the first byte on the line fails the
  assertion of the receiver, whatever the byte is.\<close>

theorem rtu_stop_during_reply_wedges:
  assumes "eRcvState s = STATE_RX_IDLE" "length (ucRTUBuf s) = 256" "unat len \<le> 253"
  shows "\<exists>s'. eMBRTUSend addr 1 len s = Some (MB_ENOERR, s')
    \<and> xMBRTUReceiveFSM b (eMBRTUStart (eMBRTUStop s')) = None"
proof -
  let ?pdu = "take (unat len) (drop 1 (ucRTUBuf s))"
  have "length ?pdu = unat len"
    using assms by simp
  then show ?thesis
    using send_ok [OF assms(1,2), of ?pdu addr] assms(3)
    by (auto simp: xMBRTUReceiveFSM_def eMBRTUStart_def eMBRTUStop_def port_defs simp del: of_nat_add)
qed

theorem rtu_stop_during_reply_wedges_witness:
  "\<exists>s'. eMBRTUSend 5 1 2 (rtu_boot\<lparr>eRcvState := STATE_RX_IDLE\<rparr>) = Some (MB_ENOERR, s')
    \<and> xMBRTUReceiveFSM 9 (eMBRTUStart (eMBRTUStop s')) = None"
  by (rule rtu_stop_during_reply_wedges) (simp_all add: rtu_boot_def)

end
