(* ===== verification/Mb_Func.thy ===== *)
theory Mb_Func
  imports Mb_Utils
begin

text \<open>
  The request handlers of the Modbus slave, \<^verbatim>\<open>components/net/freemodbus/modbus/functions\<close>:
  \<^verbatim>\<open>mbfuncholding.c\<close>, \<^verbatim>\<open>mbfuncinput.c\<close>, \<^verbatim>\<open>mbfunccoils.c\<close>, \<^verbatim>\<open>mbfuncdisc.c\<close> and
  \<^verbatim>\<open>mbfuncother.c\<close>.

  A handler gets the frame as the object \<open>mem\<close> with the index \<open>p\<close> of the PDU
  (\<open>pucFrame\<close>) and the PDU's length (\<open>*usLen\<close>), builds its reply in place and returns the
  exception, the memory, the new length and the new state of the application. The register
  callbacks are supplied by the application that links the stack, so they are arguments
  here; \<open>read_callback\<close> and \<open>register_callback\<close> state what the handlers rely on, and
  \<open>Mb_Slave\<close> interprets them on the callbacks of this repository.
\<close>

section \<open>Layout of the requests\<close>

definition MB_PDU_FUNC_OFF :: nat where "MB_PDU_FUNC_OFF = 0"
definition MB_PDU_DATA_OFF :: nat where "MB_PDU_DATA_OFF = 1"
definition MB_PDU_SIZE_MIN :: u16 where "MB_PDU_SIZE_MIN = 1"
definition MB_PDU_FUNC_READ_SIZE :: u16 where "MB_PDU_FUNC_READ_SIZE = 4"
definition MB_PDU_FUNC_WRITE_SIZE :: u16 where "MB_PDU_FUNC_WRITE_SIZE = 4"
definition MB_PDU_FUNC_WRITE_MUL_SIZE_MIN :: u16 where "MB_PDU_FUNC_WRITE_MUL_SIZE_MIN = 5"
definition MB_PDU_FUNC_READWRITE_SIZE_MIN :: u16 where "MB_PDU_FUNC_READWRITE_SIZE_MIN = 9"
definition MB_PDU_FUNC_READ_REGCNT_MAX :: u16 where "MB_PDU_FUNC_READ_REGCNT_MAX = 0x7D"
definition MB_PDU_FUNC_READ_COILCNT_MAX :: u16 where "MB_PDU_FUNC_READ_COILCNT_MAX = 0x7D0"
definition MB_PDU_FUNC_READ_DISCCNT_MAX :: u16 where "MB_PDU_FUNC_READ_DISCCNT_MAX = 0x7D0"
definition MB_PDU_FUNC_WRITE_MUL_REGCNT_MAX :: u16 where "MB_PDU_FUNC_WRITE_MUL_REGCNT_MAX = 0x78"
definition MB_PDU_FUNC_WRITE_MUL_COILCNT_MAX :: u16 where "MB_PDU_FUNC_WRITE_MUL_COILCNT_MAX = 0x7B0"

lemmas pdu_defs =
  MB_PDU_FUNC_OFF_def MB_PDU_DATA_OFF_def MB_PDU_SIZE_MIN_def MB_PDU_FUNC_READ_SIZE_def
  MB_PDU_FUNC_WRITE_SIZE_def MB_PDU_FUNC_WRITE_MUL_SIZE_MIN_def MB_PDU_FUNC_READWRITE_SIZE_MIN_def
  MB_PDU_FUNC_READ_REGCNT_MAX_def MB_PDU_FUNC_READ_COILCNT_MAX_def MB_PDU_FUNC_READ_DISCCNT_MAX_def
  MB_PDU_FUNC_WRITE_MUL_REGCNT_MAX_def MB_PDU_FUNC_WRITE_MUL_COILCNT_MAX_def

type_synonym 's pdu_result = "(eMBException \<times> u8 list \<times> u16 \<times> 's) option"

type_synonym 's read_cb = "u8 list \<Rightarrow> nat \<Rightarrow> u16 \<Rightarrow> u16 \<Rightarrow> 's \<Rightarrow> (eMBErrorCode \<times> u8 list \<times> 's) option"

type_synonym 's register_cb =
  "u8 list \<Rightarrow> nat \<Rightarrow> u16 \<Rightarrow> u16 \<Rightarrow> eMBRegisterMode \<Rightarrow> 's \<Rightarrow> (eMBErrorCode \<times> u8 list \<times> 's) option"

text \<open>\<open>(USHORT)(pucFrame[off] << 8) | pucFrame[off + 1]\<close>\<close>

definition frame_word :: "u8 list \<Rightarrow> nat \<Rightarrow> u16 option" where
  "frame_word mem q = do { a \<leftarrow> rd mem q; b \<leftarrow> rd mem (q + 1); Some (be16 a b) }"

text \<open>
  The number of bytes of \<open>n\<close> coils, \<open>n / 8\<close> rounded up. The cast to \<open>UCHAR\<close> cannot
  lose anything in the range the handlers accept.
\<close>

definition ucNBytes :: "u16 \<Rightarrow> u8" where
  "ucNBytes n = (if n AND 7 \<noteq> 0 then of_nat (unat n div 8 + 1) else of_nat (unat n div 8))"

section \<open>mbfuncholding.c\<close>

definition eMBFuncWriteHoldingRegister ::
  "'s register_cb \<Rightarrow> u8 list \<Rightarrow> nat \<Rightarrow> u16 \<Rightarrow> 's \<Rightarrow> 's pdu_result" where
  "eMBFuncWriteHoldingRegister regHoldingCB mem p usLen s =
     (if usLen = MB_PDU_FUNC_WRITE_SIZE + MB_PDU_SIZE_MIN
      then do {
        addr \<leftarrow> frame_word mem (p + MB_PDU_DATA_OFF);
        (eRegStatus, mem, s) \<leftarrow> regHoldingCB mem (p + MB_PDU_DATA_OFF + 2) (addr + 1) 1 MB_REG_WRITE s;
        Some (if eRegStatus \<noteq> MB_ENOERR then prveMBError2Exception eRegStatus else MB_EX_NONE,
              mem, usLen, s)
      }
      else Some (MB_EX_ILLEGAL_DATA_VALUE, mem, usLen, s))"

definition eMBFuncWriteMultipleHoldingRegister ::
  "'s register_cb \<Rightarrow> u8 list \<Rightarrow> nat \<Rightarrow> u16 \<Rightarrow> 's \<Rightarrow> 's pdu_result" where
  "eMBFuncWriteMultipleHoldingRegister regHoldingCB mem p usLen s =
     (if usLen \<ge> MB_PDU_FUNC_WRITE_MUL_SIZE_MIN + MB_PDU_SIZE_MIN
      then do {
        addr \<leftarrow> frame_word mem (p + MB_PDU_DATA_OFF);
        usRegCount \<leftarrow> frame_word mem (p + MB_PDU_DATA_OFF + 2);
        ucRegByteCount \<leftarrow> rd mem (p + MB_PDU_DATA_OFF + 4);
        if usRegCount \<ge> 1 \<and> usRegCount \<le> MB_PDU_FUNC_WRITE_MUL_REGCNT_MAX
           \<and> ucRegByteCount = ucast (2 * usRegCount)
        then do {
          (eRegStatus, mem, s) \<leftarrow>
             regHoldingCB mem (p + MB_PDU_DATA_OFF + 5) (addr + 1) usRegCount MB_REG_WRITE s;
          if eRegStatus \<noteq> MB_ENOERR
          then Some (prveMBError2Exception eRegStatus, mem, usLen, s)
          else Some (MB_EX_NONE, mem, of_nat (MB_PDU_DATA_OFF + 4), s)
        }
        else Some (MB_EX_ILLEGAL_DATA_VALUE, mem, usLen, s)
      }
      else Some (MB_EX_ILLEGAL_DATA_VALUE, mem, usLen, s))"

definition eMBFuncReadHoldingRegister ::
  "'s register_cb \<Rightarrow> u8 list \<Rightarrow> nat \<Rightarrow> u16 \<Rightarrow> 's \<Rightarrow> 's pdu_result" where
  "eMBFuncReadHoldingRegister regHoldingCB mem p usLen s =
     (if usLen = MB_PDU_FUNC_READ_SIZE + MB_PDU_SIZE_MIN
      then do {
        addr \<leftarrow> frame_word mem (p + MB_PDU_DATA_OFF);
        usRegCount \<leftarrow> frame_word mem (p + MB_PDU_DATA_OFF + 2);
        if usRegCount \<ge> 1 \<and> usRegCount \<le> MB_PDU_FUNC_READ_REGCNT_MAX
        then do {
          mem \<leftarrow> wr mem (p + MB_PDU_FUNC_OFF) MB_FUNC_READ_HOLDING_REGISTER;
          mem \<leftarrow> wr mem (p + MB_PDU_FUNC_OFF + 1) (ucast (usRegCount * 2));
          let usLen = of_nat MB_PDU_FUNC_OFF + 1 + 1;
          (eRegStatus, mem, s) \<leftarrow>
             regHoldingCB mem (p + MB_PDU_FUNC_OFF + 2) (addr + 1) usRegCount MB_REG_READ s;
          if eRegStatus \<noteq> MB_ENOERR
          then Some (prveMBError2Exception eRegStatus, mem, usLen, s)
          else Some (MB_EX_NONE, mem, usLen + usRegCount * 2, s)
        }
        else Some (MB_EX_ILLEGAL_DATA_VALUE, mem, usLen, s)
      }
      else Some (MB_EX_ILLEGAL_DATA_VALUE, mem, usLen, s))"

text \<open>A request shorter than ten bytes is not refused here: the exception stays \<open>MB_EX_NONE\<close>.\<close>

definition eMBFuncReadWriteMultipleHoldingRegister ::
  "'s register_cb \<Rightarrow> u8 list \<Rightarrow> nat \<Rightarrow> u16 \<Rightarrow> 's \<Rightarrow> 's pdu_result" where
  "eMBFuncReadWriteMultipleHoldingRegister regHoldingCB mem p usLen s =
     (if usLen \<ge> MB_PDU_FUNC_READWRITE_SIZE_MIN + MB_PDU_SIZE_MIN
      then do {
        raddr \<leftarrow> frame_word mem (p + MB_PDU_DATA_OFF);
        usRegReadCount \<leftarrow> frame_word mem (p + MB_PDU_DATA_OFF + 2);
        waddr \<leftarrow> frame_word mem (p + MB_PDU_DATA_OFF + 4);
        usRegWriteCount \<leftarrow> frame_word mem (p + MB_PDU_DATA_OFF + 6);
        ucRegWriteByteCount \<leftarrow> rd mem (p + MB_PDU_DATA_OFF + 8);
        if usRegReadCount \<ge> 1 \<and> usRegReadCount \<le> 0x7D
           \<and> usRegWriteCount \<ge> 1 \<and> usRegWriteCount \<le> 0x79
           \<and> 2 * unat usRegWriteCount = unat ucRegWriteByteCount
        then do {
          (eRegStatus, mem, s) \<leftarrow>
             regHoldingCB mem (p + MB_PDU_DATA_OFF + 9) (waddr + 1) usRegWriteCount MB_REG_WRITE s;
          if eRegStatus = MB_ENOERR
          then do {
            mem \<leftarrow> wr mem (p + MB_PDU_FUNC_OFF) MB_FUNC_READWRITE_MULTIPLE_REGISTERS;
            mem \<leftarrow> wr mem (p + MB_PDU_FUNC_OFF + 1) (ucast (usRegReadCount * 2));
            let usLen = of_nat MB_PDU_FUNC_OFF + 1 + 1;
            (eRegStatus, mem, s) \<leftarrow>
               regHoldingCB mem (p + MB_PDU_FUNC_OFF + 2) (raddr + 1) usRegReadCount MB_REG_READ s;
            if eRegStatus = MB_ENOERR
            then Some (MB_EX_NONE, mem, usLen + 2 * usRegReadCount, s)
            else Some (prveMBError2Exception eRegStatus, mem, usLen, s)
          }
          else Some (prveMBError2Exception eRegStatus, mem, usLen, s)
        }
        else Some (MB_EX_ILLEGAL_DATA_VALUE, mem, usLen, s)
      }
      else Some (MB_EX_NONE, mem, usLen, s))"

section \<open>mbfuncinput.c\<close>

definition eMBFuncReadInputRegister ::
  "'s read_cb \<Rightarrow> u8 list \<Rightarrow> nat \<Rightarrow> u16 \<Rightarrow> 's \<Rightarrow> 's pdu_result" where
  "eMBFuncReadInputRegister regInputCB mem p usLen s =
     (if usLen = MB_PDU_FUNC_READ_SIZE + MB_PDU_SIZE_MIN
      then do {
        addr \<leftarrow> frame_word mem (p + MB_PDU_DATA_OFF);
        usRegCount \<leftarrow> frame_word mem (p + MB_PDU_DATA_OFF + 2);
        if usRegCount \<ge> 1 \<and> usRegCount < MB_PDU_FUNC_READ_REGCNT_MAX
        then do {
          mem \<leftarrow> wr mem (p + MB_PDU_FUNC_OFF) MB_FUNC_READ_INPUT_REGISTER;
          mem \<leftarrow> wr mem (p + MB_PDU_FUNC_OFF + 1) (ucast (usRegCount * 2));
          let usLen = of_nat MB_PDU_FUNC_OFF + 1 + 1;
          (eRegStatus, mem, s) \<leftarrow> regInputCB mem (p + MB_PDU_FUNC_OFF + 2) (addr + 1) usRegCount s;
          if eRegStatus \<noteq> MB_ENOERR
          then Some (prveMBError2Exception eRegStatus, mem, usLen, s)
          else Some (MB_EX_NONE, mem, usLen + usRegCount * 2, s)
        }
        else Some (MB_EX_ILLEGAL_DATA_VALUE, mem, usLen, s)
      }
      else Some (MB_EX_ILLEGAL_DATA_VALUE, mem, usLen, s))"

section \<open>mbfunccoils.c and mbfuncdisc.c\<close>

definition eMBFuncReadCoils ::
  "'s register_cb \<Rightarrow> u8 list \<Rightarrow> nat \<Rightarrow> u16 \<Rightarrow> 's \<Rightarrow> 's pdu_result" where
  "eMBFuncReadCoils regCoilsCB mem p usLen s =
     (if usLen = MB_PDU_FUNC_READ_SIZE + MB_PDU_SIZE_MIN
      then do {
        addr \<leftarrow> frame_word mem (p + MB_PDU_DATA_OFF);
        usCoilCount \<leftarrow> frame_word mem (p + MB_PDU_DATA_OFF + 2);
        if usCoilCount \<ge> 1 \<and> usCoilCount < MB_PDU_FUNC_READ_COILCNT_MAX
        then do {
          mem \<leftarrow> wr mem (p + MB_PDU_FUNC_OFF) MB_FUNC_READ_COILS;
          mem \<leftarrow> wr mem (p + MB_PDU_FUNC_OFF + 1) (ucNBytes usCoilCount);
          let usLen = of_nat MB_PDU_FUNC_OFF + 1 + 1;
          (eRegStatus, mem, s) \<leftarrow>
             regCoilsCB mem (p + MB_PDU_FUNC_OFF + 2) (addr + 1) usCoilCount MB_REG_READ s;
          if eRegStatus \<noteq> MB_ENOERR
          then Some (prveMBError2Exception eRegStatus, mem, usLen, s)
          else Some (MB_EX_NONE, mem, usLen + ucast (ucNBytes usCoilCount), s)
        }
        else Some (MB_EX_ILLEGAL_DATA_VALUE, mem, usLen, s)
      }
      else Some (MB_EX_ILLEGAL_DATA_VALUE, mem, usLen, s))"

text \<open>The callback gets the two-byte local array \<open>ucBuf\<close>, not the frame.\<close>

definition eMBFuncWriteCoil ::
  "'s register_cb \<Rightarrow> u8 list \<Rightarrow> nat \<Rightarrow> u16 \<Rightarrow> 's \<Rightarrow> 's pdu_result" where
  "eMBFuncWriteCoil regCoilsCB mem p usLen s =
     (if usLen = MB_PDU_FUNC_WRITE_SIZE + MB_PDU_SIZE_MIN
      then do {
        addr \<leftarrow> frame_word mem (p + MB_PDU_DATA_OFF);
        v1 \<leftarrow> rd mem (p + MB_PDU_DATA_OFF + 2 + 1);
        v0 \<leftarrow> rd mem (p + MB_PDU_DATA_OFF + 2);
        if v1 = 0 \<and> (v0 = 0xFF \<or> v0 = 0)
        then do {
          let ucBuf = [if v0 = 0xFF then 1 else 0, 0];
          (eRegStatus, _, s) \<leftarrow> regCoilsCB ucBuf 0 (addr + 1) 1 MB_REG_WRITE s;
          Some (if eRegStatus \<noteq> MB_ENOERR then prveMBError2Exception eRegStatus else MB_EX_NONE,
                mem, usLen, s)
        }
        else Some (MB_EX_ILLEGAL_DATA_VALUE, mem, usLen, s)
      }
      else Some (MB_EX_ILLEGAL_DATA_VALUE, mem, usLen, s))"

definition eMBFuncWriteMultipleCoils ::
  "'s register_cb \<Rightarrow> u8 list \<Rightarrow> nat \<Rightarrow> u16 \<Rightarrow> 's \<Rightarrow> 's pdu_result" where
  "eMBFuncWriteMultipleCoils regCoilsCB mem p usLen s =
     (if usLen > MB_PDU_FUNC_WRITE_SIZE + MB_PDU_SIZE_MIN
      then do {
        addr \<leftarrow> frame_word mem (p + MB_PDU_DATA_OFF);
        usCoilCnt \<leftarrow> frame_word mem (p + MB_PDU_DATA_OFF + 2);
        ucByteCount \<leftarrow> rd mem (p + MB_PDU_DATA_OFF + 4);
        if usCoilCnt \<ge> 1 \<and> usCoilCnt \<le> MB_PDU_FUNC_WRITE_MUL_COILCNT_MAX
           \<and> ucNBytes usCoilCnt = ucByteCount
        then do {
          (eRegStatus, mem, s) \<leftarrow>
             regCoilsCB mem (p + MB_PDU_DATA_OFF + 5) (addr + 1) usCoilCnt MB_REG_WRITE s;
          if eRegStatus \<noteq> MB_ENOERR
          then Some (prveMBError2Exception eRegStatus, mem, usLen, s)
          else Some (MB_EX_NONE, mem, of_nat (MB_PDU_DATA_OFF + 4), s)
        }
        else Some (MB_EX_ILLEGAL_DATA_VALUE, mem, usLen, s)
      }
      else Some (MB_EX_ILLEGAL_DATA_VALUE, mem, usLen, s))"

definition eMBFuncReadDiscreteInputs ::
  "'s read_cb \<Rightarrow> u8 list \<Rightarrow> nat \<Rightarrow> u16 \<Rightarrow> 's \<Rightarrow> 's pdu_result" where
  "eMBFuncReadDiscreteInputs regDiscreteCB mem p usLen s =
     (if usLen = MB_PDU_FUNC_READ_SIZE + MB_PDU_SIZE_MIN
      then do {
        addr \<leftarrow> frame_word mem (p + MB_PDU_DATA_OFF);
        usDiscreteCnt \<leftarrow> frame_word mem (p + MB_PDU_DATA_OFF + 2);
        if usDiscreteCnt \<ge> 1 \<and> usDiscreteCnt < MB_PDU_FUNC_READ_DISCCNT_MAX
        then do {
          mem \<leftarrow> wr mem (p + MB_PDU_FUNC_OFF) MB_FUNC_READ_DISCRETE_INPUTS;
          mem \<leftarrow> wr mem (p + MB_PDU_FUNC_OFF + 1) (ucNBytes usDiscreteCnt);
          let usLen = of_nat MB_PDU_FUNC_OFF + 1 + 1;
          (eRegStatus, mem, s) \<leftarrow> regDiscreteCB mem (p + MB_PDU_FUNC_OFF + 2) (addr + 1) usDiscreteCnt s;
          if eRegStatus \<noteq> MB_ENOERR
          then Some (prveMBError2Exception eRegStatus, mem, usLen, s)
          else Some (MB_EX_NONE, mem, usLen + ucast (ucNBytes usDiscreteCnt), s)
        }
        else Some (MB_EX_ILLEGAL_DATA_VALUE, mem, usLen, s)
      }
      else Some (MB_EX_ILLEGAL_DATA_VALUE, mem, usLen, s))"

section \<open>mbfuncother.c\<close>

definition MB_FUNC_OTHER_REP_SLAVEID_BUF :: nat where "MB_FUNC_OTHER_REP_SLAVEID_BUF = 32"

record slave_id =
  ucMBSlaveID :: "u8 list"
  usMBSlaveIDLen :: u16

definition eMBSetSlaveID ::
  "u8 \<Rightarrow> bool \<Rightarrow> u8 list \<Rightarrow> u16 \<Rightarrow> slave_id \<Rightarrow> (eMBErrorCode \<times> slave_id) option" where
  "eMBSetSlaveID ucSlaveID xIsRunning pucAdditional usAdditionalLen s =
     (if unat usAdditionalLen + 2 < MB_FUNC_OTHER_REP_SLAVEID_BUF
      then do {
        buf \<leftarrow> wr (ucMBSlaveID s) 0 ucSlaveID;
        buf \<leftarrow> wr buf 1 (if xIsRunning then 0xFF else 0);
        let len = 2;
        if usAdditionalLen > 0
        then do {
          buf \<leftarrow> copy_bytes buf (unat len) pucAdditional 0 (unat usAdditionalLen);
          Some (MB_ENOERR, \<lparr>ucMBSlaveID = buf, usMBSlaveIDLen = len + usAdditionalLen\<rparr>)
        }
        else Some (MB_ENOERR, \<lparr>ucMBSlaveID = buf, usMBSlaveIDLen = len\<rparr>)
      }
      else Some (MB_ENORES, s))"

definition eMBFuncReportSlaveID :: "u8 list \<Rightarrow> nat \<Rightarrow> u16 \<Rightarrow> slave_id \<Rightarrow> slave_id pdu_result" where
  "eMBFuncReportSlaveID mem p usLen s = do {
     mem \<leftarrow> copy_bytes mem (p + MB_PDU_DATA_OFF) (ucMBSlaveID s) 0 (unat (usMBSlaveIDLen s));
     Some (MB_EX_NONE, mem, of_nat (MB_PDU_DATA_OFF + unat (usMBSlaveIDLen s)), s)
   }"

section \<open>What the handlers rely on\<close>

text \<open>
  The contract of a register callback: for a legal state of the application and a buffer
  with room for the data it returns, keeps the state legal, writes nothing but the data,
  and changes nothing at all when it refuses.
\<close>

locale read_callback =
  fixes cb :: "'s read_cb" and legal :: "'s \<Rightarrow> bool" and sz :: "u16 \<Rightarrow> nat"
  assumes read_ok: "legal s \<Longrightarrow> p + sz n \<le> length mem \<Longrightarrow>
      yields (cb mem p a n s) (\<lambda>(e, mem', s'). legal s' \<and> length mem' = length mem
        \<and> (\<forall>i. i < p \<or> p + sz n \<le> i \<longrightarrow> mem' ! i = mem ! i)
        \<and> (e \<noteq> MB_ENOERR \<longrightarrow> mem' = mem \<and> s' = s))"
begin

lemma read_wp:
  assumes "legal s" "p + sz n \<le> length mem"
    and "\<And>e mem' s'. legal s' \<Longrightarrow> length mem' = length mem \<Longrightarrow>
      (\<And>i. i < p \<Longrightarrow> mem' ! i = mem ! i) \<Longrightarrow> (e \<noteq> MB_ENOERR \<Longrightarrow> s' = s) \<Longrightarrow> P (e, mem', s')"
  shows "yields (cb mem p a n s) P"
  by (rule yields_mono [OF read_ok [OF assms(1,2)]]) (auto intro!: assms(3))

end

locale register_callback =
  read_callback "\<lambda>mem p a n. cb mem p a n MB_REG_READ" legal sz
  for cb :: "'s register_cb" and legal :: "'s \<Rightarrow> bool" and sz :: "u16 \<Rightarrow> nat" +
  assumes write_ok: "legal s \<Longrightarrow> p + sz n \<le> length mem \<Longrightarrow>
      yields (cb mem p a n MB_REG_WRITE s)
        (\<lambda>(e, mem', s'). mem' = mem \<and> legal s' \<and> (e \<noteq> MB_ENOERR \<longrightarrow> s' = s))"
begin

lemma write_wp:
  assumes "legal s" "p + sz n \<le> length mem"
    and "\<And>e s'. legal s' \<Longrightarrow> (e \<noteq> MB_ENOERR \<Longrightarrow> s' = s) \<Longrightarrow> P (e, mem, s')"
  shows "yields (cb mem p a n MB_REG_WRITE s) P"
  by (rule yields_mono [OF write_ok [OF assms(1,2)]]) (auto intro!: assms(3))

end

text \<open>
  What the poll loop relies on: a handler that gets a frame of at most 253 bytes in a
  buffer of that size returns, with a reply of at most 253 bytes and what is in front of
  the PDU left alone; and one that raises an exception leaves the application as it was.
\<close>

definition handler_ok ::
  "('s \<Rightarrow> bool) \<Rightarrow> (u8 list \<Rightarrow> nat \<Rightarrow> u16 \<Rightarrow> 's \<Rightarrow> 's pdu_result) \<Rightarrow> bool" where
  "handler_ok legal h \<longleftrightarrow> (\<forall>mem p len s. legal s \<longrightarrow> p + 253 \<le> length mem \<longrightarrow> len \<le> 253 \<longrightarrow>
     yields (h mem p len s) (\<lambda>(ex, mem', len', s'). legal s' \<and> length mem' = length mem
        \<and> len' \<le> 253 \<and> (\<forall>i < p. mem' ! i = mem ! i)))"

definition refuses_clean ::
  "('s \<Rightarrow> bool) \<Rightarrow> (u8 list \<Rightarrow> nat \<Rightarrow> u16 \<Rightarrow> 's \<Rightarrow> 's pdu_result) \<Rightarrow> bool" where
  "refuses_clean legal h \<longleftrightarrow> (\<forall>mem p len s. legal s \<longrightarrow> p + 253 \<le> length mem \<longrightarrow> len \<le> 253 \<longrightarrow>
     yields (h mem p len s) (\<lambda>(ex, mem', len', s'). ex \<noteq> MB_EX_NONE \<longrightarrow> s' = s))"

lemma frame_word_wp [wp_simps]:
  "yields (frame_word mem q) P = (q + 1 < length mem \<and> P (be16 (mem ! q) (mem ! (q + 1))))"
  by (auto simp: frame_word_def wp_simps)

lemma reply_length: "(n :: u16) \<le> 0x7D \<Longrightarrow> 2 + n * 2 \<le> 253" "(n :: u16) \<le> 0x7D \<Longrightarrow> 2 + 2 * n \<le> 253"
  by (simp_all add: word_le_nat_alt unat_word_ariths)

lemma unat_ucNBytes: "unat n < 2040 \<Longrightarrow> unat (ucNBytes n) = (if n AND 7 \<noteq> 0 then unat n div 8 + 1 else unat n div 8)"
  by (auto simp: ucNBytes_def unat_of_nat take_bit_eq_mod simp del: of_nat_Suc of_nat_add)

lemma coil_reply_length: "n < 0x7D0 \<Longrightarrow> (2 + ucast (ucNBytes n) :: u16) \<le> 253"
proof -
  assume n: "n < 0x7D0"
  then have "unat (ucNBytes n) \<le> 251"
    using unat_ucNBytes [of n] by (auto simp: word_less_nat_alt)
  then show ?thesis
    by (simp add: word_le_nat_alt unat_word_ariths unsigned_ucast_eq take_bit_eq_mod)
qed

locale word_callback = register_callback cb legal "\<lambda>n. 2 * unat n"
  for cb :: "'s register_cb" and legal :: "'s \<Rightarrow> bool"
begin

lemma WriteHolding_ok: "handler_ok legal (eMBFuncWriteHoldingRegister cb)"
  by (auto simp: handler_ok_def eMBFuncWriteHoldingRegister_def pdu_defs wp_simps intro!: write_wp)

lemma ReadHolding_ok: "handler_ok legal (eMBFuncReadHoldingRegister cb)"
  by (auto simp: handler_ok_def eMBFuncReadHoldingRegister_def pdu_defs wp_simps reply_length
      word_le_nat_alt [where 'a = 16 and b = "0x7D"] intro!: read_wp)

lemma WriteMultipleHolding_ok: "handler_ok legal (eMBFuncWriteMultipleHoldingRegister cb)"
  by (auto simp: handler_ok_def eMBFuncWriteMultipleHoldingRegister_def pdu_defs wp_simps
      word_le_nat_alt [where 'a = 16 and b = "0x78"] intro!: write_wp)

lemma ReadWriteMultipleHolding_ok: "handler_ok legal (eMBFuncReadWriteMultipleHoldingRegister cb)"
  by (auto simp: handler_ok_def eMBFuncReadWriteMultipleHoldingRegister_def pdu_defs wp_simps
      reply_length word_le_nat_alt [where 'a = 16 and b = "0x7D"] word_le_nat_alt [where 'a = 16 and b = "0x79"]
      intro!: read_wp write_wp)

lemma WriteHolding_refuses: "refuses_clean legal (eMBFuncWriteHoldingRegister cb)"
  by (auto simp: refuses_clean_def eMBFuncWriteHoldingRegister_def pdu_defs wp_simps intro!: write_wp)

lemma WriteMultipleHolding_refuses: "refuses_clean legal (eMBFuncWriteMultipleHoldingRegister cb)"
  by (auto simp: refuses_clean_def eMBFuncWriteMultipleHoldingRegister_def pdu_defs wp_simps
      word_le_nat_alt [where 'a = 16 and b = "0x78"] intro!: write_wp)

lemma ReadHolding_refuses: "refuses_clean legal (eMBFuncReadHoldingRegister cb)"
  by (auto simp: refuses_clean_def eMBFuncReadHoldingRegister_def pdu_defs wp_simps
      word_le_nat_alt [where 'a = 16 and b = "0x7D"] intro!: read_wp)

end

locale word_source = read_callback cb legal "\<lambda>n. 2 * unat n"
  for cb :: "'s read_cb" and legal :: "'s \<Rightarrow> bool"
begin

lemma ReadInput_ok: "handler_ok legal (eMBFuncReadInputRegister cb)"
  by (auto simp: handler_ok_def eMBFuncReadInputRegister_def pdu_defs wp_simps reply_length
      word_less_nat_alt [where 'a = 16 and b = "0x7D"] word_le_nat_alt [where 'a = 16 and b = "0x7D"]
      intro!: read_wp reply_length)

lemma ReadInput_refuses: "refuses_clean legal (eMBFuncReadInputRegister cb)"
  by (auto simp: refuses_clean_def eMBFuncReadInputRegister_def pdu_defs wp_simps
      word_less_nat_alt [where 'a = 16 and b = "0x7D"] intro!: read_wp)

end

locale bit_callback = register_callback cb legal "\<lambda>n. unat n div 8 + 1"
  for cb :: "'s register_cb" and legal :: "'s \<Rightarrow> bool"
begin

lemma ReadCoils_ok: "handler_ok legal (eMBFuncReadCoils cb)"
  by (auto simp: handler_ok_def eMBFuncReadCoils_def pdu_defs wp_simps coil_reply_length
      word_less_nat_alt [where 'a = 16 and b = "0x7D0"] intro!: read_wp)

lemma WriteCoil_ok: "handler_ok legal (eMBFuncWriteCoil cb)"
  by (auto simp: handler_ok_def eMBFuncWriteCoil_def pdu_defs wp_simps intro!: write_wp)

lemma WriteMultipleCoils_ok: "handler_ok legal (eMBFuncWriteMultipleCoils cb)"
  by (auto simp: handler_ok_def eMBFuncWriteMultipleCoils_def pdu_defs wp_simps
      word_le_nat_alt [where 'a = 16 and b = "0x7B0"] intro!: write_wp)

lemma ReadCoils_refuses: "refuses_clean legal (eMBFuncReadCoils cb)"
  by (auto simp: refuses_clean_def eMBFuncReadCoils_def pdu_defs wp_simps
      word_less_nat_alt [where 'a = 16 and b = "0x7D0"] intro!: read_wp)

lemma WriteCoil_refuses: "refuses_clean legal (eMBFuncWriteCoil cb)"
  by (auto simp: refuses_clean_def eMBFuncWriteCoil_def pdu_defs wp_simps intro!: write_wp)

lemma WriteMultipleCoils_refuses: "refuses_clean legal (eMBFuncWriteMultipleCoils cb)"
  by (auto simp: refuses_clean_def eMBFuncWriteMultipleCoils_def pdu_defs wp_simps
      word_le_nat_alt [where 'a = 16 and b = "0x7B0"] intro!: write_wp)

end

locale bit_source = read_callback cb legal "\<lambda>n. unat n div 8 + 1"
  for cb :: "'s read_cb" and legal :: "'s \<Rightarrow> bool"
begin

lemma ReadDiscrete_ok: "handler_ok legal (eMBFuncReadDiscreteInputs cb)"
  by (auto simp: handler_ok_def eMBFuncReadDiscreteInputs_def pdu_defs wp_simps coil_reply_length
      word_less_nat_alt [where 'a = 16 and b = "0x7D0"] intro!: read_wp)

lemma ReadDiscrete_refuses: "refuses_clean legal (eMBFuncReadDiscreteInputs cb)"
  by (auto simp: refuses_clean_def eMBFuncReadDiscreteInputs_def pdu_defs wp_simps
      word_less_nat_alt [where 'a = 16 and b = "0x7D0"] intro!: read_wp)

end

section \<open>The slave identification\<close>

definition slave_id_ok :: "slave_id \<Rightarrow> bool" where
  "slave_id_ok s \<longleftrightarrow> length (ucMBSlaveID s) = MB_FUNC_OTHER_REP_SLAVEID_BUF
     \<and> usMBSlaveIDLen s \<le> of_nat MB_FUNC_OTHER_REP_SLAVEID_BUF"

lemma ReportSlaveID_ok: "handler_ok slave_id_ok eMBFuncReportSlaveID"
proof -
  have "yields (eMBFuncReportSlaveID mem p len s) (\<lambda>(ex, mem', len', s'). slave_id_ok s'
      \<and> length mem' = length mem \<and> len' \<le> 253 \<and> (\<forall>i < p. mem' ! i = mem ! i))"
    if s: "slave_id_ok s" and p: "p + 253 \<le> length mem" for mem p len s
  proof -
    have n: "unat (usMBSlaveIDLen s) \<le> 32" "length (ucMBSlaveID s) = 32"
      using s by (simp_all add: slave_id_ok_def MB_FUNC_OTHER_REP_SLAVEID_BUF_def word_le_nat_alt)
    have "(of_nat (1 + unat (usMBSlaveIDLen s)) :: u16) \<le> 253"
      using n unat16_of_nat [of "1 + unat (usMBSlaveIDLen s)"] by (simp add: word_le_nat_alt)
    with n p s show ?thesis
      by (auto simp: eMBFuncReportSlaveID_def pdu_defs wp_simps copy_bytes_eq nth_splice)
  qed
  then show ?thesis by (simp add: handler_ok_def)
qed

lemma ReportSlaveID_refuses: "refuses_clean slave_id_ok eMBFuncReportSlaveID"
proof -
  have "yields (eMBFuncReportSlaveID mem p len s) (\<lambda>(ex, mem', len', s'). ex \<noteq> MB_EX_NONE \<longrightarrow> s' = s)"
    if "slave_id_ok s" "p + 253 \<le> length mem" "len \<le> 253" for mem p len s
    using ReportSlaveID_ok that
    by (fastforce simp: handler_ok_def eMBFuncReportSlaveID_def wp_simps elim: yields_mono)
  then show ?thesis by (simp add: refuses_clean_def)
qed

text \<open>
  The identification a device sets is the one function 17 reports: address byte, running
  flag, then the additional data; data that does not fit into the 32-byte buffer (30 bytes
  or more) is refused and the old identification stays.
\<close>

theorem slave_id_round_trip:
  assumes "length (ucMBSlaveID s) = MB_FUNC_OTHER_REP_SLAVEID_BUF"
    and "unat n \<le> length extra" and "p + 33 \<le> length mem"
  shows "if unat n < 30
    then \<exists>s'. eMBSetSlaveID i running extra n s = Some (MB_ENOERR, s') \<and> slave_id_ok s'
      \<and> eMBFuncReportSlaveID mem p len s' = Some (MB_EX_NONE,
           splice mem (p + 1) (i # (if running then 0xFF else 0) # take (unat n) extra), 3 + n, s')
    else eMBSetSlaveID i running extra n s = Some (MB_ENORES, s)"
proof (cases "unat n < 30")
  case True
  let ?f = "if running then 0xFF else 0 :: u8"
  let ?buf = "splice ((ucMBSlaveID s)[0 := i, 1 := ?f]) 2 (take (unat n) extra)"
  let ?s' = "\<lparr>ucMBSlaveID = ?buf, usMBSlaveIDLen = 2 + n\<rparr>"
  have len: "length (ucMBSlaveID s) = 32"
    using assms by (simp add: MB_FUNC_OTHER_REP_SLAVEID_BUF_def)
  have two: "unat (2 + n) = 2 + unat n"
    using True by (simp add: unat_word_ariths)
  have set_id: "eMBSetSlaveID i running extra n s = Some (MB_ENOERR, ?s')"
    using assms True len
    by (auto simp: eMBSetSlaveID_def MB_FUNC_OTHER_REP_SLAVEID_BUF_def wr_def copy_bytes_eq
        word_less_nat_alt unat_eq_0)
  have "take (unat (2 + n)) ?buf = i # ?f # take (unat n) extra"
    using assms True len unfolding two
    by (intro nth_equalityI) (auto simp: nth_splice nth_list_update nth_Cons' less_Suc_eq_0_disj)
  then have "copy_bytes mem (p + 1) ?buf 0 (unat (2 + n))
      = Some (splice mem (p + 1) (i # ?f # take (unat n) extra))"
    using assms True len two by (subst copy_bytes_eq) auto
  moreover have "(of_nat (1 + unat (2 + n)) :: u16) = 3 + n"
    by simp
  ultimately have "eMBFuncReportSlaveID mem p len ?s' = Some (MB_EX_NONE,
           splice mem (p + 1) (i # ?f # take (unat n) extra), 3 + n, ?s')"
    by (simp add: eMBFuncReportSlaveID_def pdu_defs)
  moreover have "slave_id_ok ?s'"
    using assms True len two
    by (simp add: slave_id_ok_def MB_FUNC_OTHER_REP_SLAVEID_BUF_def word_le_nat_alt)
  ultimately show ?thesis
    using True set_id by auto
next
  case False
  then show ?thesis by (simp add: eMBSetSlaveID_def MB_FUNC_OTHER_REP_SLAVEID_BUF_def)
qed

theorem slave_id_round_trip_witness:
  "\<exists>s'. eMBSetSlaveID 0x34 True [0xAA, 0xBB, 0xCC] 3 \<lparr>ucMBSlaveID = replicate 32 0, usMBSlaveIDLen = 0\<rparr>
      = Some (MB_ENOERR, s')"
  using slave_id_round_trip [where s = "\<lparr>ucMBSlaveID = replicate 32 0, usMBSlaveIDLen = 0\<rparr>"
      and n = 3 and extra = "[0xAA, 0xBB, 0xCC]" and p = 0 and mem = "replicate 40 0" and i = "0x34"
      and running = True and len = 5]
  by (auto simp: MB_FUNC_OTHER_REP_SLAVEID_BUF_def)

end
