(* ===== verification/Mb_Regs.thy ===== *)
theory Mb_Regs
  imports Mb_Func
begin

text \<open>
  \<^verbatim>\<open>components/net/freemodbus/port/user_mb_app.c\<close>, \<^verbatim>\<open>user_mb_app.h\<close>: the register callbacks of
  the Modbus slave of the turbidity meter, and the measurement record of
  \<^verbatim>\<open>applications/my_app/global.h\<close> they publish.

  \<open>Zhuodu_t\<close> is accessed by both Modbus sides through \<open>USHORT\<close> pointers, so it is modelled as
  its 68 half-words (little endian, four-byte alignment of \<open>float\<close>); \<open>off_...\<close> are the
  half-word offsets of its members. The tables keep whatever length the state gives them;
  \<open>regs_declared\<close> states the sizes the header declares.
\<close>

section \<open>State\<close>

definition off_canbi_set :: nat where "off_canbi_set = 0"
definition off_turbidimeter :: nat where "off_turbidimeter = 6"
definition off_range_sel :: nat where "off_range_sel = 30"
definition off_a2_zero :: nat where "off_a2_zero = 31"
definition off_reserved :: nat where "off_reserved = 35"
definition off_num_cali :: nat where "off_num_cali = 36"
definition off_canbi_get :: nat where "off_canbi_get = 37"
definition off_turbidimeter_cali_buf :: nat where "off_turbidimeter_cali_buf = 38"
definition zhuodu_size :: nat where "zhuodu_size = 68"

definition S_DISCRETE_INPUT_START :: nat where "S_DISCRETE_INPUT_START = 0"
definition S_DISCRETE_INPUT_NDISCRETES :: nat where "S_DISCRETE_INPUT_NDISCRETES = 16"
definition S_COIL_START :: nat where "S_COIL_START = 0"
definition S_COIL_NCOILS :: nat where "S_COIL_NCOILS = 16"
definition S_REG_INPUT_START :: nat where "S_REG_INPUT_START = 100"
definition S_REG_INPUT_NREGS :: nat where "S_REG_INPUT_NREGS = 10"
definition S_REG_HOLDING_START :: nat where "S_REG_HOLDING_START = 100"
definition S_REG_HOLDING_NREGS :: nat where "S_REG_HOLDING_NREGS = 10"

lemmas slave_range_defs =
  S_DISCRETE_INPUT_START_def S_DISCRETE_INPUT_NDISCRETES_def S_COIL_START_def S_COIL_NCOILS_def
  S_REG_INPUT_START_def S_REG_INPUT_NREGS_def S_REG_HOLDING_START_def S_REG_HOLDING_NREGS_def

record slave_regs =
  ucSDiscInBuf :: "u8 list"
  ucSCoilBuf :: "u8 list"
  usSRegInBuf :: "u16 list"
  usSRegHoldBuf :: "u16 list"
  zhuodu_data :: "u16 list"

definition tables_declared :: "slave_regs \<Rightarrow> bool" where
  "tables_declared r \<longleftrightarrow> length (usSRegInBuf r) = 10 \<and> length (usSRegHoldBuf r) = 10
     \<and> length (zhuodu_data r) = zhuodu_size"

definition regs_declared :: "slave_regs \<Rightarrow> bool" where
  "regs_declared r \<longleftrightarrow> length (ucSDiscInBuf r) = 2 \<and> length (ucSCoilBuf r) = 2 \<and> tables_declared r"

section \<open>The loops of the callbacks\<close>

text \<open>Registers to bytes and back, big endian; \<open>p\<close> is \<open>pucRegBuffer\<close>, \<open>i\<close> is \<open>iRegIndex\<close>.\<close>

fun regs_to_bytes :: "u16 list \<Rightarrow> nat \<Rightarrow> u8 list \<Rightarrow> nat \<Rightarrow> nat \<Rightarrow> u8 list option" where
  "regs_to_bytes regs i mem p 0 = Some mem"
| "regs_to_bytes regs i mem p (Suc usNRegs) = do {
     r \<leftarrow> rd regs i;
     mem \<leftarrow> wr mem p (hi8 r);
     mem \<leftarrow> wr mem (p + 1) (lo8 r);
     regs_to_bytes regs (i + 1) mem (p + 2) usNRegs
   }"

fun bytes_to_regs :: "u16 list \<Rightarrow> nat \<Rightarrow> u8 list \<Rightarrow> nat \<Rightarrow> nat \<Rightarrow> u16 list option" where
  "bytes_to_regs regs i mem p 0 = Some regs"
| "bytes_to_regs regs i mem p (Suc usNRegs) = do {
     a \<leftarrow> rd mem p;
     b \<leftarrow> rd mem (p + 1);
     regs \<leftarrow> wr regs i (be16 a b);
     bytes_to_regs regs (i + 1) mem (p + 2) usNRegs
   }"

text \<open>
  Bits to bytes: \<open>iNReg\<close> whole bytes, the last of which keeps only \<open>n mod 8\<close> bits, shifted
  out to the left and back as the code does.
\<close>

fun bits_to_bytes :: "u8 list \<Rightarrow> nat \<Rightarrow> u16 \<Rightarrow> u8 list \<Rightarrow> nat \<Rightarrow> nat \<Rightarrow> (u8 list \<times> nat) option" where
  "bits_to_bytes buf i iRegBitIndex mem p 0 = Some (mem, p)"
| "bits_to_bytes buf i iRegBitIndex mem p (Suc iNReg) = do {
     v \<leftarrow> xMBUtilGetBits buf i iRegBitIndex 8;
     mem \<leftarrow> wr mem p v;
     bits_to_bytes buf (i + 1) iRegBitIndex mem (p + 1) iNReg
   }"

definition keep_low_bits :: "u8 list \<Rightarrow> nat \<Rightarrow> nat \<Rightarrow> u8 list option" where
  "keep_low_bits mem p usN = do {
     v \<leftarrow> rd mem p;
     mem \<leftarrow> wr mem p (push_bit (8 - usN) v);
     v \<leftarrow> rd mem p;
     wr mem p (drop_bit (8 - usN) v)
   }"

definition read_bits :: "u8 list \<Rightarrow> nat \<Rightarrow> u16 \<Rightarrow> u8 list \<Rightarrow> nat \<Rightarrow> nat \<Rightarrow> u8 list option" where
  "read_bits buf i iRegBitIndex mem p usN = do {
     (mem, q) \<leftarrow> bits_to_bytes buf i iRegBitIndex mem p (usN div 8 + 1);
     keep_low_bits mem (q - 1) (usN mod 8)
   }"

fun bytes_to_bits :: "u8 list \<Rightarrow> nat \<Rightarrow> u16 \<Rightarrow> u8 list \<Rightarrow> nat \<Rightarrow> nat \<Rightarrow> (u8 list \<times> nat \<times> nat) option" where
  "bytes_to_bits buf i iRegBitIndex mem p 0 = Some (buf, i, p)"
| "bytes_to_bits buf i iRegBitIndex mem p (Suc n) = do {
     v \<leftarrow> rd mem p;
     buf \<leftarrow> xMBUtilSetBits buf i iRegBitIndex 8 v;
     bytes_to_bits buf (i + 1) iRegBitIndex mem (p + 1) n
   }"

definition write_bits :: "u8 list \<Rightarrow> nat \<Rightarrow> u16 \<Rightarrow> u8 list \<Rightarrow> nat \<Rightarrow> nat \<Rightarrow> u8 list option" where
  "write_bits buf i iRegBitIndex mem p usN = do {
     (buf, i, p) \<leftarrow> bytes_to_bits buf i iRegBitIndex mem p (usN div 8);
     if usN mod 8 \<noteq> 0
     then do { v \<leftarrow> rd mem p; xMBUtilSetBits buf i iRegBitIndex (of_nat (usN mod 8)) v }
     else Some buf
   }"

section \<open>The callbacks\<close>

text \<open>
  The callbacks get the address already increased by one. The comparison
  \<open>usAddress + usNRegs <= START + NREGS\<close> is made in \<open>int\<close>. The first two registers are
  refreshed from \<open>global.zhuodu_data.turbidimeter\<close>, most significant half first.
\<close>

definition refresh_turbidity :: "u16 list \<Rightarrow> u16 list \<Rightarrow> u16 list option" where
  "refresh_turbidity zhuodu buf = do {
     h \<leftarrow> rd zhuodu (off_turbidimeter + 1);
     l \<leftarrow> rd zhuodu off_turbidimeter;
     buf \<leftarrow> wr buf 0 h;
     wr buf 1 l
   }"

definition eMBRegInputCB ::
  "u8 list \<Rightarrow> nat \<Rightarrow> u16 \<Rightarrow> u16 \<Rightarrow> slave_regs \<Rightarrow> (eMBErrorCode \<times> u8 list \<times> slave_regs) option" where
  "eMBRegInputCB mem p usAddress usNRegs r =
     (let a = unat (usAddress - 1) in
      if S_REG_INPUT_START \<le> a \<and> a + unat usNRegs \<le> S_REG_INPUT_START + S_REG_INPUT_NREGS
      then do {
        buf \<leftarrow> refresh_turbidity (zhuodu_data r) (usSRegInBuf r);
        mem \<leftarrow> regs_to_bytes buf (a - S_REG_INPUT_START) mem p (unat usNRegs);
        Some (MB_ENOERR, mem, r\<lparr>usSRegInBuf := buf\<rparr>)
      }
      else Some (MB_ENOREG, mem, r))"

definition eMBRegHoldingCB ::
  "u8 list \<Rightarrow> nat \<Rightarrow> u16 \<Rightarrow> u16 \<Rightarrow> eMBRegisterMode \<Rightarrow> slave_regs
    \<Rightarrow> (eMBErrorCode \<times> u8 list \<times> slave_regs) option" where
  "eMBRegHoldingCB mem p usAddress usNRegs eMode r =
     (let a = unat (usAddress - 1) in
      if S_REG_HOLDING_START \<le> a \<and> a + unat usNRegs \<le> S_REG_HOLDING_START + S_REG_HOLDING_NREGS
      then do {
        buf \<leftarrow> refresh_turbidity (zhuodu_data r) (usSRegHoldBuf r);
        case eMode of
          MB_REG_READ \<Rightarrow> do {
            mem \<leftarrow> regs_to_bytes buf (a - S_REG_HOLDING_START) mem p (unat usNRegs);
            Some (MB_ENOERR, mem, r\<lparr>usSRegHoldBuf := buf\<rparr>)
          }
        | MB_REG_WRITE \<Rightarrow> do {
            buf \<leftarrow> bytes_to_regs buf (a - S_REG_HOLDING_START) mem p (unat usNRegs);
            Some (MB_ENOERR, mem, r\<lparr>usSRegHoldBuf := buf\<rparr>)
          }
      }
      else Some (MB_ENOREG, mem, r))"

definition eMBRegCoilsCB ::
  "u8 list \<Rightarrow> nat \<Rightarrow> u16 \<Rightarrow> u16 \<Rightarrow> eMBRegisterMode \<Rightarrow> slave_regs
    \<Rightarrow> (eMBErrorCode \<times> u8 list \<times> slave_regs) option" where
  "eMBRegCoilsCB mem p usAddress usNCoils eMode r =
     (let a = unat (usAddress - 1) in
      if S_COIL_START \<le> a \<and> a + unat usNCoils \<le> S_COIL_START + S_COIL_NCOILS
      then
        let iRegIndex = (a - S_COIL_START) div 8;
            iRegBitIndex = of_nat ((a - S_COIL_START) mod 8)
        in case eMode of
          MB_REG_READ \<Rightarrow> do {
            mem \<leftarrow> read_bits (ucSCoilBuf r) iRegIndex iRegBitIndex mem p (unat usNCoils);
            Some (MB_ENOERR, mem, r)
          }
        | MB_REG_WRITE \<Rightarrow> do {
            buf \<leftarrow> write_bits (ucSCoilBuf r) iRegIndex iRegBitIndex mem p (unat usNCoils);
            Some (MB_ENOERR, mem, r\<lparr>ucSCoilBuf := buf\<rparr>)
          }
      else Some (MB_ENOREG, mem, r))"

definition eMBRegDiscreteCB ::
  "u8 list \<Rightarrow> nat \<Rightarrow> u16 \<Rightarrow> u16 \<Rightarrow> slave_regs \<Rightarrow> (eMBErrorCode \<times> u8 list \<times> slave_regs) option" where
  "eMBRegDiscreteCB mem p usAddress usNDiscrete r =
     (let a = unat (usAddress - 1) in
      if S_DISCRETE_INPUT_START \<le> a
         \<and> a + unat usNDiscrete \<le> S_DISCRETE_INPUT_START + S_DISCRETE_INPUT_NDISCRETES
      then do {
        mem \<leftarrow> read_bits (ucSDiscInBuf r) ((a - S_DISCRETE_INPUT_START) div 8)
                 (of_nat ((a - S_DISCRETE_INPUT_START) mod 8)) mem p (unat usNDiscrete);
        Some (MB_ENOERR, mem, r)
      }
      else Some (MB_ENOREG, mem, r))"

section \<open>What the loops do\<close>

definition be_bytes :: "u16 list \<Rightarrow> u8 list" where
  "be_bytes rs = concat (map (\<lambda>r. [hi8 r, lo8 r]) rs)"

fun be_regs :: "u8 list \<Rightarrow> u16 list" where
  "be_regs (a # b # bs) = be16 a b # be_regs bs"
| "be_regs _ = []"

lemma be_bytes_simps [simp]: "be_bytes [] = []" "be_bytes (r # rs) = hi8 r # lo8 r # be_bytes rs"
  by (simp_all add: be_bytes_def)

lemma length_be_bytes [simp]: "length (be_bytes rs) = 2 * length rs"
  by (induction rs) auto

lemma length_be_regs [simp]: "length (be_regs bs) = length bs div 2"
  by (induction bs rule: be_regs.induct) auto

lemma be_regs_be_bytes [byte_simps]: "be_regs (be_bytes rs) = rs"
  by (induction rs) (simp_all add: byte_simps)

lemma be_bytes_be_regs [byte_simps]: "even (length bs) \<Longrightarrow> be_bytes (be_regs bs) = bs"
  by (induction bs rule: be_regs.induct) (simp_all add: byte_simps)

lemma regs_to_bytes_eq:
  "i + n \<le> length regs \<Longrightarrow> p + 2 * n \<le> length mem \<Longrightarrow>
    regs_to_bytes regs i mem p n = Some (splice mem p (be_bytes (take n (drop i regs))))"
proof (induction n arbitrary: i mem p)
  case 0
  then show ?case by simp
next
  case (Suc n)
  let ?r = "regs ! i"
  have "regs_to_bytes regs i mem p (Suc n)
      = regs_to_bytes regs (i + 1) (mem[p := hi8 ?r, p + 1 := lo8 ?r]) (p + 2) n"
    using Suc.prems by (simp add: rd_in wr_in)
  also have "\<dots> = Some (splice (mem[p := hi8 ?r, p + 1 := lo8 ?r]) (p + 2) (be_bytes (take n (drop (i + 1) regs))))"
    using Suc.prems by (intro Suc.IH) auto
  finally show ?case
    using Suc.prems by (simp add: splice_Cons drop_splice_Cons [of i regs "Suc n" n])
qed

lemma bytes_to_regs_eq:
  "i + n \<le> length regs \<Longrightarrow> p + 2 * n \<le> length mem \<Longrightarrow>
    bytes_to_regs regs i mem p n = Some (splice regs i (be_regs (take (2 * n) (drop p mem))))"
proof (induction n arbitrary: i regs p)
  case 0
  then show ?case by simp
next
  case (Suc n)
  let ?r = "be16 (mem ! p) (mem ! (p + 1))"
  have "bytes_to_regs regs i mem p (Suc n) = bytes_to_regs (regs[i := ?r]) (i + 1) mem (p + 2) n"
    using Suc.prems by (simp add: rd_in wr_in)
  also have "\<dots> = Some (splice (regs[i := ?r]) (i + 1) (be_regs (take (2 * n) (drop (p + 2) mem))))"
    using Suc.prems by (intro Suc.IH) auto
  finally show ?case
    using Suc.prems
    by (simp add: splice_Cons drop_splice_Cons [of p mem _ "Suc (2 * n)"]
        drop_splice_Cons [of "Suc p" mem _ "2 * n"])
qed

lemma bits_to_bytes_eq:
  assumes "i + n < length buf" "unat k < 8" "p + n \<le> length mem"
  shows "\<exists>vs. length vs = n \<and> bits_to_bytes buf i k mem p n = Some (splice mem p vs, p + n)
    \<and> (\<forall>j < n. \<forall>b. bit (vs ! j) b \<longleftrightarrow> b < 8 \<and> buf_bit buf (8 * (i + j) + unat k + b))"
  using assms
proof (induction n arbitrary: i mem p)
  case 0
  then show ?case by simp
next
  case (Suc n)
  obtain v where v: "xMBUtilGetBits buf i k 8 = Some v"
    using GetBits_ok [of 8 i k buf] Suc.prems by auto
  obtain vs where vs: "length vs = n"
      "bits_to_bytes buf (i + 1) k (mem[p := v]) (p + 1) n = Some (splice (mem[p := v]) (p + 1) vs, p + 1 + n)"
      "\<forall>j < n. \<forall>b. bit (vs ! j) b \<longleftrightarrow> b < 8 \<and> buf_bit buf (8 * (i + 1 + j) + unat k + b)"
    using Suc.IH [of "i + 1" "p + 1" "mem[p := v]"] Suc.prems by auto
  have "bit ((v # vs) ! j) b \<longleftrightarrow> b < 8 \<and> buf_bit buf (8 * (i + j) + unat k + b)" if "j < Suc n" for j b
    using GetBits_bit [OF v] vs(3) that by (cases j) auto
  with v vs Suc.prems show ?case
    by (intro exI [of _ "v # vs"]) (simp add: wr_in splice_Cons)
qed

lemma bits_to_bytes_fault:
  "length buf \<le> i + n \<Longrightarrow> 0 < n \<Longrightarrow> unat k < 8 \<Longrightarrow> bits_to_bytes buf i k mem p n = None"
proof (induction n arbitrary: i mem p)
  case 0
  then show ?case by simp
next
  case (Suc n)
  show ?case
  proof (cases "n = 0")
    case True
    with Suc.prems GetBits_fault [of buf i k 8] show ?thesis by simp
  next
    case False
    with Suc show ?thesis by (auto split: bind_splits)
  qed
qed

lemma keep_low_bits_eq:
  "p < length mem \<Longrightarrow> keep_low_bits mem p n = Some (mem[p := drop_bit (8 - n) (push_bit (8 - n) (mem ! p))])"
  by (simp add: keep_low_bits_def rd_in wr_in)

lemma bit_kept: "n \<le> 8 \<Longrightarrow> bit (drop_bit (8 - n) (push_bit (8 - n) v) :: u8) b \<longleftrightarrow> b < n \<and> bit v b"
  by (auto simp: bit_drop_bit_eq bit_push_bit_iff possible_bit_def dest: bit_imp_le_length)

lemma buf_bit_splice:
  assumes "p + length vs \<le> length mem"
  shows "buf_bit (splice mem p vs) x =
    (if 8 * p \<le> x \<and> x < 8 * (p + length vs) then buf_bit vs (x - 8 * p) else buf_bit mem x)"
proof -
  define q where "q = x div 8"
  define r where "r = x mod 8"
  have x: "x = 8 * q + r" and r: "r < 8"
    by (simp_all add: q_def r_def)
  have "8 * p \<le> x \<longleftrightarrow> p \<le> q" "x < 8 * (p + length vs) \<longleftrightarrow> q < p + length vs"
    using r unfolding x by presburger+
  moreover have "p \<le> q \<Longrightarrow> x - 8 * p = 8 * (q - p) + r"
    by (simp add: x diff_mult_distrib2)
  ultimately show ?thesis
    using assms r by (auto simp: x buf_bit_split nth_splice)
qed

lemma read_bits_eq:
  assumes "i + n div 8 + 1 < length buf" "unat k < 8" "p + n div 8 + 1 \<le> length mem"
  shows "\<exists>vs. length vs = n div 8 + 1 \<and> read_bits buf i k mem p n = Some (splice mem p vs)
    \<and> (\<forall>x < 8 * (n div 8 + 1). buf_bit vs x \<longleftrightarrow> x < n \<and> buf_bit buf (8 * i + unat k + x))"
proof -
  let ?m = "n div 8"
  obtain vs where len: "length vs = ?m + 1"
    and eq: "bits_to_bytes buf i k mem p (?m + 1) = Some (splice mem p vs, p + (?m + 1))"
    and bits: "\<And>j b. j < ?m + 1 \<Longrightarrow> bit (vs ! j) b \<longleftrightarrow> b < 8 \<and> buf_bit buf (8 * (i + j) + unat k + b)"
    using bits_to_bytes_eq [of i "?m + 1" buf k p mem] assms by auto
  let ?v = "drop_bit (8 - n mod 8) (push_bit (8 - n mod 8) (vs ! ?m)) :: u8"
  have "read_bits buf i k mem p n = Some ((splice mem p vs)[p + ?m := ?v])"
    unfolding read_bits_def eq using assms len by (simp add: keep_low_bits_eq nth_splice)
  also have "(splice mem p vs)[p + ?m := ?v] = splice mem p (vs[?m := ?v])"
    using assms len by (intro nth_equalityI) (auto simp: nth_list_update nth_splice)
  finally have "read_bits buf i k mem p n = Some (splice mem p (vs[?m := ?v]))" .
  moreover have "buf_bit (vs[?m := ?v]) x \<longleftrightarrow> x < n \<and> buf_bit buf (8 * i + unat k + x)"
    if x: "x < 8 * (?m + 1)" for x
  proof -
    have j: "x div 8 < ?m + 1" and e: "8 * (i + x div 8) + unat k + x mod 8 = 8 * i + unat k + x"
      using x by simp_all
    show ?thesis
    proof (cases "x div 8 = ?m")
      case True
      then have "x mod 8 < n mod 8 \<longleftrightarrow> x < n"
        by (metis add_less_cancel_left mult_div_mod_eq)
      with True show ?thesis
        using bits [OF j, of "x mod 8", unfolded e] len by (simp add: buf_bit_def [of "vs[_ := _]"] bit_kept)
    next
      case False
      with j have "x < n"
        by (metis div_le_mono le_less_Suc_eq Suc_eq_plus1 not_less)
      with False show ?thesis
        using bits [OF j, of "x mod 8", unfolded e] by (simp add: buf_bit_def [of "vs[_ := _]"])
    qed
  qed
  ultimately show ?thesis
    using len by (intro exI [of _ "vs[?m := ?v]"]) simp
qed

lemma read_bits_fault:
  "length buf \<le> i + n div 8 + 1 \<Longrightarrow> unat k < 8 \<Longrightarrow> read_bits buf i k mem p n = None"
  by (simp add: read_bits_def bits_to_bytes_fault del: bits_to_bytes.simps)

lemma bytes_to_bits_eq:
  assumes "i + n < length buf \<or> n = 0" "unat k < 8" "p + n \<le> length mem"
  shows "\<exists>buf'. bytes_to_bits buf i k mem p n = Some (buf', i + n, p + n) \<and> length buf' = length buf
    \<and> (\<forall>x. buf_bit buf' x \<longleftrightarrow>
          (if 8 * i + unat k \<le> x \<and> x < 8 * i + unat k + 8 * n
           then buf_bit mem (8 * p + (x - (8 * i + unat k))) else buf_bit buf x))"
  using assms
proof (induction n arbitrary: i p buf)
  case 0
  then show ?case by (intro exI [of _ buf]) auto
next
  case (Suc n)
  obtain b1 where b1: "xMBUtilSetBits buf i k 8 (mem ! p) = Some b1"
    using SetBits_ok [of 8 i k buf "mem ! p"] Suc.prems by auto
  note l1 = SetBits_length [OF b1] and bit1 = SetBits_bit [OF b1]
  obtain b2 where b2: "bytes_to_bits b1 (i + 1) k mem (p + 1) n = Some (b2, i + 1 + n, p + 1 + n)"
      "length b2 = length b1"
    and bit2: "\<And>x. buf_bit b2 x \<longleftrightarrow>
          (if 8 * (i + 1) + unat k \<le> x \<and> x < 8 * (i + 1) + unat k + 8 * n
           then buf_bit mem (8 * (p + 1) + (x - (8 * (i + 1) + unat k))) else buf_bit b1 x)"
    using Suc.IH [of "i + 1" b1 "p + 1"] Suc.prems l1 by auto
  have p: "buf_bit mem (8 * p + r) = bit (mem ! p) r" if "r < 8" for r
    using that by (rule buf_bit_split)
  have "buf_bit b2 x \<longleftrightarrow>
      (if 8 * i + unat k \<le> x \<and> x < 8 * i + unat k + 8 * Suc n
       then buf_bit mem (8 * p + (x - (8 * i + unat k))) else buf_bit buf x)" for x
  proof -
    consider "x < 8 * i + unat k" | "8 * i + unat k \<le> x" "x < 8 * i + unat k + 8"
      | "8 * (i + 1) + unat k \<le> x"
      using not_le by fastforce
    then show ?thesis
    proof cases
      case 1
      then show ?thesis by (simp add: bit2 bit1)
    next
      case 2
      then show ?thesis using p [of "x - (8 * i + unat k)"] by (simp add: bit2 bit1)
    next
      case 3
      then have "8 * (p + 1) + (x - (8 * (i + 1) + unat k)) = 8 * p + (x - (8 * i + unat k))"
        by simp
      with 3 show ?thesis by (simp add: bit2 bit1)
    qed
  qed
  with b1 b2 l1 Suc.prems show ?case by (simp add: rd_in)
qed

lemma bytes_to_bits_fault:
  "length buf \<le> i + n \<Longrightarrow> 0 < n \<Longrightarrow> unat k < 8 \<Longrightarrow> bytes_to_bits buf i k mem p n = None"
proof (induction n arbitrary: i buf p)
  case 0
  then show ?case by simp
next
  case (Suc n)
  show ?case
  proof (cases "n = 0")
    case True
    with Suc.prems show ?thesis by (auto simp: SetBits_fault bind_eq_None_conv)
  next
    case False
    have "bytes_to_bits b (i + 1) k mem (p + 1) n = None"
      if "xMBUtilSetBits buf i k 8 v = Some b" for v b
      using SetBits_length [OF that] Suc.prems False by (intro Suc.IH) auto
    then show ?thesis
      by (cases "rd mem p"; cases "xMBUtilSetBits buf i k 8 (the (rd mem p))") auto
  qed
qed

text \<open>The number of data bytes a request for \<open>n\<close> coils occupies.\<close>

definition coil_bytes :: "nat \<Rightarrow> nat" where
  "coil_bytes n = (if n mod 8 = 0 then n div 8 else n div 8 + 1)"

lemma coil_bytes_ge: "n \<le> 8 * coil_bytes n" "n div 8 \<le> coil_bytes n"
  by (auto simp: coil_bytes_def)

lemma write_bits_eq:
  assumes "i + coil_bytes n < length buf \<or> n = 0" "unat k < 8" "p + coil_bytes n \<le> length mem"
  shows "\<exists>buf'. write_bits buf i k mem p n = Some buf' \<and> length buf' = length buf
    \<and> (\<forall>x. buf_bit buf' x \<longleftrightarrow>
          (if 8 * i + unat k \<le> x \<and> x < 8 * i + unat k + n
           then buf_bit mem (8 * p + (x - (8 * i + unat k)))
           else buf_bit buf x \<or> 8 * i + unat k + n \<le> x \<and> x < 8 * i + unat k + 8 * coil_bytes n
                \<and> buf_bit mem (8 * p + (x - (8 * i + unat k)))))"
proof -
  let ?m = "n div 8" and ?A = "8 * i + unat k"
  have le: "?m \<le> coil_bytes n" by (rule coil_bytes_ge)
  obtain b1 where b1: "bytes_to_bits buf i k mem p ?m = Some (b1, i + ?m, p + ?m)"
      "length b1 = length buf"
    and bit1: "\<And>x. buf_bit b1 x \<longleftrightarrow>
      (if ?A \<le> x \<and> x < ?A + 8 * ?m then buf_bit mem (8 * p + (x - ?A)) else buf_bit buf x)"
    using bytes_to_bits_eq [of i ?m buf k p mem] assms le by auto
  show ?thesis
  proof (cases "n mod 8 = 0")
    case True
    then have "8 * ?m = n" by auto
    with True b1 bit1 show ?thesis
      by (intro exI [of _ b1]) (auto simp: write_bits_def coil_bytes_def)
  next
    case False
    define r where "r = n mod 8"
    have r: "r < 8" "n = 8 * ?m + r" and e: "coil_bytes n = ?m + 1"
      using False by (simp_all add: r_def coil_bytes_def)
    have u: "unat (word_of_nat r :: u8) = r" "(word_of_nat r :: u8) \<le> 8"
      using r(1) by (simp_all add: unat_of_nat take_bit_eq_mod unat_le_8)
    have nz: "n \<noteq> 0" using False by auto
    obtain b2 where b2: "xMBUtilSetBits b1 (i + ?m) k (word_of_nat r) (mem ! (p + ?m)) = Some b2"
      using SetBits_ok [of "word_of_nat r" "i + ?m" k b1 "mem ! (p + ?m)"] assms b1 e nz u by auto
    have w: "write_bits buf i k mem p n = Some b2"
      using False b1 b2 assms(3) e by (simp add: write_bits_def rd_in r_def)
    have new: "buf_bit mem (8 * p + (x - ?A)) = bit (mem ! (p + ?m)) (x - (?A + 8 * ?m))"
      if "?A + 8 * ?m \<le> x" "x < ?A + 8 * ?m + 8" for x
      using that buf_bit_split [of "x - (?A + 8 * ?m)" mem "p + ?m"] by (simp add: algebra_simps)
    have base: "8 * (i + ?m) + unat k = ?A + 8 * ?m"
      by simp
    have "buf_bit b2 x \<longleftrightarrow>
          (if ?A \<le> x \<and> x < ?A + n then buf_bit mem (8 * p + (x - ?A))
           else buf_bit buf x \<or> ?A + n \<le> x \<and> x < ?A + 8 * coil_bytes n
                \<and> buf_bit mem (8 * p + (x - ?A)))" for x
    proof -
      consider "x < ?A + 8 * ?m" | "?A + 8 * ?m \<le> x" "x < ?A + n"
        | "?A + n \<le> x" "x < ?A + 8 * ?m + 8" | "?A + 8 * ?m + 8 \<le> x"
        by fastforce
      then show ?thesis
      proof cases
        case 1
        then show ?thesis using r(2) unfolding SetBits_bit [OF b2] base by (auto simp: bit1)
      next
        case 2
        then show ?thesis
          using new [of x] r unfolding SetBits_bit [OF b2] base by (auto simp: bit1 u)
      next
        case 3
        then show ?thesis
          using new [of x] r unfolding SetBits_bit [OF b2] base e by (auto simp: bit1 u)
      next
        case 4
        then show ?thesis using r e unfolding SetBits_bit [OF b2] base by (auto simp: bit1 u)
      qed
    qed
    with w b1(2) SetBits_length [OF b2] show ?thesis by auto
  qed
qed

lemma bytes_to_bits_index:
  "bytes_to_bits buf i k mem p n = Some (buf', i', p') \<Longrightarrow>
    i' = i + n \<and> p' = p + n \<and> length buf' = length buf"
proof (induction n arbitrary: buf i p)
  case 0
  then show ?case by simp
next
  case (Suc n)
  then obtain v b where b: "xMBUtilSetBits buf i k 8 v = Some b"
      "bytes_to_bits b (i + 1) k mem (p + 1) n = Some (buf', i', p')"
    by (auto simp: bind_eq_Some_conv)
  from Suc.IH [OF b(2)] SetBits_length [OF b(1)] show ?case by simp
qed

lemma write_bits_fault:
  assumes "length buf \<le> i + coil_bytes n" "0 < n" "unat k < 8"
  shows "write_bits buf i k mem p n = None"
proof (cases "n mod 8 = 0")
  case True
  with assms have "bytes_to_bits buf i k mem p (n div 8) = None"
    by (intro bytes_to_bits_fault) (auto simp: coil_bytes_def)
  then show ?thesis by (simp add: write_bits_def)
next
  case False
  show ?thesis
  proof (cases "bytes_to_bits buf i k mem p (n div 8)")
    case (Some t)
    obtain b i' p' where t: "t = (b, i', p')" by (cases t)
    have "length b \<le> i' + unat k div 8 + 1"
      using bytes_to_bits_index [OF Some [unfolded t]] assms False by (simp add: coil_bytes_def)
    then have "xMBUtilSetBits b i' k m v = None" for m v
      by (rule SetBits_fault)
    with Some t False show ?thesis by (auto simp: write_bits_def bind_eq_None_conv)
  qed (simp add: write_bits_def)
qed

section \<open>Coils and discrete inputs\<close>

lemma CoilsCB_in:
  assumes "unat (usAddress - 1) = a" "unat usNCoils = n" "a + n \<le> 16"
  shows "eMBRegCoilsCB mem p usAddress usNCoils MB_REG_READ r
      = map_option (\<lambda>mem. (MB_ENOERR, mem, r)) (read_bits (ucSCoilBuf r) (a div 8) (of_nat (a mod 8)) mem p n)"
    and "eMBRegCoilsCB mem p usAddress usNCoils MB_REG_WRITE r
      = map_option (\<lambda>buf. (MB_ENOERR, mem, r\<lparr>ucSCoilBuf := buf\<rparr>))
          (write_bits (ucSCoilBuf r) (a div 8) (of_nat (a mod 8)) mem p n)"
    and "eMBRegDiscreteCB mem p usAddress usNCoils r
      = map_option (\<lambda>mem. (MB_ENOERR, mem, r)) (read_bits (ucSDiscInBuf r) (a div 8) (of_nat (a mod 8)) mem p n)"
  using assms
  by (auto simp: eMBRegCoilsCB_def eMBRegDiscreteCB_def Let_def slave_range_defs map_conv_bind_option o_def)

lemma bit_index: "unat (of_nat (a mod 8) :: u16) = a mod 8" "unat (of_nat (a mod 8) :: u16) < 8"
  "8 * (a div 8) + unat (of_nat (a mod 8) :: u16) + x = a + x"
  "8 * (a div 8) + unat (of_nat (a mod 8) :: u16) = a"
  by (simp_all add: unat16_of_nat)

text \<open>
  A read of coils. For a zero-based range \<open>a .. a+n-1\<close> inside the 16 coils the
  callback answers with the coils in order, the unused bits of the last byte cleared,
  exactly when the array has one byte more than the last one it needs; otherwise it
  accesses memory behind the coil array.
\<close>

theorem coils_read:
  assumes "unat (usAddress - 1) = a" "unat usNCoils = n" "a + n \<le> 16"
    and "p + n div 8 + 1 \<le> length mem"
  shows "if a div 8 + n div 8 + 1 < length (ucSCoilBuf r)
    then \<exists>vs. length vs = n div 8 + 1
      \<and> eMBRegCoilsCB mem p usAddress usNCoils MB_REG_READ r = Some (MB_ENOERR, splice mem p vs, r)
      \<and> (\<forall>x < 8 * (n div 8 + 1). buf_bit vs x \<longleftrightarrow> x < n \<and> buf_bit (ucSCoilBuf r) (a + x))
    else eMBRegCoilsCB mem p usAddress usNCoils MB_REG_READ r = None"
proof (cases "a div 8 + n div 8 + 1 < length (ucSCoilBuf r)")
  case True
  from read_bits_eq [OF True bit_index(2) [of a] assms(4), unfolded bit_index(3)] True show ?thesis
    unfolding CoilsCB_in(1) [OF assms(1-3)] by auto
next
  case False
  then show ?thesis by (simp add: CoilsCB_in(1) [OF assms(1-3)] read_bits_fault bit_index(2))
qed

theorem coils_read_witness:
  "\<exists>vs. length vs = 1 \<and> eMBRegCoilsCB (replicate 8 0) 2 4 3 MB_REG_READ
        \<lparr>ucSDiscInBuf = [], ucSCoilBuf = [0xA8, 1], usSRegInBuf = [], usSRegHoldBuf = [], zhuodu_data = []\<rparr>
      = Some (MB_ENOERR, splice (replicate 8 0) 2 vs,
        \<lparr>ucSDiscInBuf = [], ucSCoilBuf = [0xA8, 1], usSRegInBuf = [], usSRegHoldBuf = [], zhuodu_data = []\<rparr>)"
proof -
  let ?r = "\<lparr>ucSDiscInBuf = [], ucSCoilBuf = [0xA8, 1], usSRegInBuf = [], usSRegHoldBuf = [], zhuodu_data = []\<rparr>"
  show ?thesis
    using coils_read [of 4 3 3 3 2 "replicate 8 0" ?r] by auto
qed

text \<open>
  With the two-byte arrays the header declares, a read of coils stays inside the array
  exactly for ranges of at most seven coils that start below coil 8; every other range the
  address check accepts reads the byte behind it. The same holds of the discrete inputs.
\<close>

theorem bit_reads_declared:
  assumes "regs_declared r" and "unat (usAddress - 1) = a" "unat usN = n" "a + n \<le> 16"
    and "p + n div 8 + 1 \<le> length mem"
  shows "(eMBRegCoilsCB mem p usAddress usN MB_REG_READ r \<noteq> None \<longleftrightarrow> a < 8 \<and> n < 8)
    \<and> (eMBRegDiscreteCB mem p usAddress usN r \<noteq> None \<longleftrightarrow> a < 8 \<and> n < 8)"
proof -
  let ?k = "of_nat (a mod 8) :: u16"
  have len: "length (ucSCoilBuf r) = 2" "length (ucSDiscInBuf r) = 2"
    using assms(1) by (simp_all add: regs_declared_def)
  have iff: "a div 8 + n div 8 + 1 < 2 \<longleftrightarrow> a < 8 \<and> n < 8"
    by (auto simp: div_eq_0_iff)
  have defd: "read_bits buf (a div 8) ?k mem p n \<noteq> None \<longleftrightarrow> a < 8 \<and> n < 8"
    if "length buf = 2" for buf
    using read_bits_eq [of "a div 8" n buf ?k p mem] read_bits_fault [of buf "a div 8" n ?k mem p]
      bit_index(2) [of a] assms(5) iff that by (cases "a < 8 \<and> n < 8") auto
  show ?thesis
    using defd [OF len(1)] defd [OF len(2)] by (simp add: CoilsCB_in [OF assms(2-4)])
qed

theorem bit_reads_declared_witness:
  "eMBRegCoilsCB (replicate 8 0) 2 1 8 MB_REG_READ
      \<lparr>ucSDiscInBuf = [0, 0], ucSCoilBuf = [0, 0], usSRegInBuf = replicate 10 0,
       usSRegHoldBuf = replicate 10 0, zhuodu_data = replicate 68 0\<rparr> = None"
proof -
  have "regs_declared \<lparr>ucSDiscInBuf = [0, 0], ucSCoilBuf = [0, 0], usSRegInBuf = replicate 10 0,
       usSRegHoldBuf = replicate 10 0, zhuodu_data = replicate 68 0\<rparr>"
    by (simp add: regs_declared_def tables_declared_def zhuodu_size_def)
  from conjunct1 [OF bit_reads_declared [OF this, of 1 0 8 8 2 "replicate 8 0"]] show ?thesis
    by (simp del: not_None_eq)
qed

text \<open>
  A write of coils. It sets the addressed coils to the request's bits; the bits of the
  last data byte above the count are not masked and are or-ed into the coils behind the
  range. It stays inside the coil array exactly when the array reaches one byte past the
  last data byte (or no coil is written).
\<close>

theorem coils_write:
  assumes "unat (usAddress - 1) = a" "unat usNCoils = n" "a + n \<le> 16"
    and "p + coil_bytes n \<le> length mem"
  shows "if a div 8 + coil_bytes n < length (ucSCoilBuf r) \<or> n = 0
    then \<exists>buf. eMBRegCoilsCB mem p usAddress usNCoils MB_REG_WRITE r
          = Some (MB_ENOERR, mem, r\<lparr>ucSCoilBuf := buf\<rparr>)
      \<and> length buf = length (ucSCoilBuf r)
      \<and> (\<forall>x. buf_bit buf x \<longleftrightarrow>
            (if a \<le> x \<and> x < a + n then buf_bit mem (8 * p + (x - a))
             else buf_bit (ucSCoilBuf r) x
               \<or> a + n \<le> x \<and> x < a + 8 * coil_bytes n \<and> buf_bit mem (8 * p + (x - a))))
    else eMBRegCoilsCB mem p usAddress usNCoils MB_REG_WRITE r = None"
proof (cases "a div 8 + coil_bytes n < length (ucSCoilBuf r) \<or> n = 0")
  case True
  from write_bits_eq [OF True bit_index(2) [of a] assms(4), unfolded bit_index(4)] True show ?thesis
    unfolding CoilsCB_in(2) [OF assms(1-3)] by auto
next
  case False
  then show ?thesis by (simp add: CoilsCB_in(2) [OF assms(1-3)] write_bits_fault bit_index(2))
qed

theorem coils_write_witness:
  "\<exists>buf. eMBRegCoilsCB [0x5F] 0 3 3 MB_REG_WRITE
        \<lparr>ucSDiscInBuf = [], ucSCoilBuf = [0, 0], usSRegInBuf = [], usSRegHoldBuf = [], zhuodu_data = []\<rparr>
      = Some (MB_ENOERR, [0x5F],
        \<lparr>ucSDiscInBuf = [], ucSCoilBuf = buf, usSRegInBuf = [], usSRegHoldBuf = [], zhuodu_data = []\<rparr>)
     \<and> buf_bit buf 4 \<and> buf_bit buf 5 \<and> \<not> buf_bit buf 7"
proof -
  let ?r = "\<lparr>ucSDiscInBuf = [], ucSCoilBuf = [0, 0], usSRegInBuf = [], usSRegHoldBuf = [], zhuodu_data = []\<rparr>"
  have "\<exists>buf. eMBRegCoilsCB [0x5F] 0 3 3 MB_REG_WRITE ?r = Some (MB_ENOERR, [0x5F], ?r\<lparr>ucSCoilBuf := buf\<rparr>)
     \<and> (\<forall>x. buf_bit buf x \<longleftrightarrow> (if 2 \<le> x \<and> x < 5 then buf_bit [0x5F] (x - 2)
          else buf_bit [0, 0] x \<or> 5 \<le> x \<and> x < 10 \<and> buf_bit [0x5F] (x - 2)))"
    using coils_write [of 3 2 3 3 0 "[0x5F]" ?r] by (auto simp: coil_bytes_def)
  then show ?thesis
    by (auto simp: buf_bit_def [of "[_]"] buf_bit_def [of "[_, _]"])
qed

section \<open>Registers\<close>

lemma regs_declared_tables: "regs_declared r \<Longrightarrow> tables_declared r"
  by (simp add: regs_declared_def)

text \<open>A register table with the current turbidity, high half first, in its first two entries.\<close>

definition with_turbidity :: "u16 list \<Rightarrow> u16 list \<Rightarrow> u16 list" where
  "with_turbidity zhuodu buf = buf[0 := zhuodu ! 7, 1 := zhuodu ! 6]"

lemma length_with_turbidity [simp]: "length (with_turbidity z buf) = length buf"
  by (simp add: with_turbidity_def)

lemma refresh_turbidity_eq:
  "7 < length z \<Longrightarrow> 1 < length buf \<Longrightarrow> refresh_turbidity z buf = Some (with_turbidity z buf)"
  by (auto simp: refresh_turbidity_def with_turbidity_def off_turbidimeter_def rd_in wr_def)

lemma HoldingCB_in:
  assumes "tables_declared r" "unat (usAddress - 1) = a" "unat usNRegs = n" "100 \<le> a" "a + n \<le> 110"
    and "p + 2 * n \<le> length mem"
  shows "eMBRegHoldingCB mem p usAddress usNRegs MB_REG_READ r
      = (let buf = with_turbidity (zhuodu_data r) (usSRegHoldBuf r)
         in Some (MB_ENOERR, splice mem p (be_bytes (take n (drop (a - 100) buf))),
              r\<lparr>usSRegHoldBuf := buf\<rparr>))"
    and "eMBRegHoldingCB mem p usAddress usNRegs MB_REG_WRITE r
      = (let buf = with_turbidity (zhuodu_data r) (usSRegHoldBuf r)
         in Some (MB_ENOERR, mem,
              r\<lparr>usSRegHoldBuf := splice buf (a - 100) (be_regs (take (2 * n) (drop p mem)))\<rparr>))"
  using assms
  by (simp_all add: eMBRegHoldingCB_def Let_def slave_range_defs tables_declared_def zhuodu_size_def
      refresh_turbidity_eq regs_to_bytes_eq bytes_to_regs_eq)

lemma InputCB_in:
  assumes "tables_declared r" "unat (usAddress - 1) = a" "unat usNRegs = n" "100 \<le> a" "a + n \<le> 110"
    and "p + 2 * n \<le> length mem"
  shows "eMBRegInputCB mem p usAddress usNRegs r
      = (let buf = with_turbidity (zhuodu_data r) (usSRegInBuf r)
         in Some (MB_ENOERR, splice mem p (be_bytes (take n (drop (a - 100) buf))), r\<lparr>usSRegInBuf := buf\<rparr>))"
  using assms by (simp add: eMBRegInputCB_def Let_def slave_range_defs tables_declared_def
      zhuodu_size_def refresh_turbidity_eq regs_to_bytes_eq)

lemma with_turbidity_splice:
  "2 \<le> i \<Longrightarrow> i + length ys \<le> length buf \<Longrightarrow>
    with_turbidity z (splice (with_turbidity z buf) i ys) = splice (with_turbidity z buf) i ys"
  by (simp add: with_turbidity_def splice_def list_update_append take_update_swap
      list_update_swap [of "Suc 0" 0])

text \<open>
  Holding registers 102 to 109 are storage: what a write puts there is what the next
  read of the same range returns, byte for byte, and the read changes nothing more.
\<close>

theorem holding_write_then_read:
  assumes "regs_declared r" "unat (usAddress - 1) = a" "unat usNRegs = n" "102 \<le> a" "a + n \<le> 110"
    and "p + 2 * n \<le> length mem" "q + 2 * n \<le> length mem'"
  shows "\<exists>r'. eMBRegHoldingCB mem p usAddress usNRegs MB_REG_WRITE r = Some (MB_ENOERR, mem, r')
    \<and> regs_declared r'
    \<and> eMBRegHoldingCB mem' q usAddress usNRegs MB_REG_READ r'
        = Some (MB_ENOERR, splice mem' q (take (2 * n) (drop p mem)), r')"
proof -
  let ?z = "zhuodu_data r"
  let ?bs = "take (2 * n) (drop p mem)"
  let ?buf = "splice (with_turbidity ?z (usSRegHoldBuf r)) (a - 100) (be_regs ?bs)"
  let ?r' = "r\<lparr>usSRegHoldBuf := ?buf\<rparr>"
  have len: "length (usSRegHoldBuf r) = 10" "length ?bs = 2 * n"
    using assms by (simp_all add: regs_declared_def tables_declared_def)
  have idem: "with_turbidity ?z ?buf = ?buf"
    using assms len by (intro with_turbidity_splice) auto
  have stored: "take n (drop (a - 100) ?buf) = be_regs ?bs"
    using assms len take_drop_splice [of "a - 100" "be_regs ?bs" "with_turbidity ?z (usSRegHoldBuf r)"]
    by simp
  have decl: "regs_declared ?r'"
    using assms len by (auto simp: regs_declared_def tables_declared_def)
  have "eMBRegHoldingCB mem p usAddress usNRegs MB_REG_WRITE r = Some (MB_ENOERR, mem, ?r')"
    using HoldingCB_in(2) [OF regs_declared_tables [OF assms(1)] assms(2,3) _ assms(5,6)] assms(4) by simp
  moreover have "eMBRegHoldingCB mem' q usAddress usNRegs MB_REG_READ ?r'
      = Some (MB_ENOERR, splice mem' q ?bs, ?r')"
    using HoldingCB_in(1) [OF regs_declared_tables [OF decl] assms(2,3) _ assms(5) assms(7)] assms(4) len
    by (simp add: idem stored be_bytes_be_regs)
  ultimately show ?thesis
    using decl by blast
qed

theorem holding_write_then_read_witness:
  "\<exists>r'. eMBRegHoldingCB [1, 2, 3, 4] 0 103 2 MB_REG_WRITE
        \<lparr>ucSDiscInBuf = [0, 0], ucSCoilBuf = [0, 0], usSRegInBuf = replicate 10 0,
         usSRegHoldBuf = replicate 10 0, zhuodu_data = replicate 68 0\<rparr> = Some (MB_ENOERR, [1, 2, 3, 4], r')
    \<and> regs_declared r'
    \<and> eMBRegHoldingCB [0, 0, 0, 0, 0, 0] 2 103 2 MB_REG_READ r'
        = Some (MB_ENOERR, splice [0, 0, 0, 0, 0, 0] 2 (take (2 * 2) (drop 0 [1, 2, 3, 4])), r')"
  by (rule holding_write_then_read [where a = 102 and n = 2 and p = 0 and q = 2])
    (simp_all add: regs_declared_def tables_declared_def zhuodu_size_def)

text \<open>
  Registers 100 and 101 always read as the current turbidity, most significant half
  first, in both register tables, whatever a master wrote to them before; the other eight
  read as the table holds them.
\<close>

theorem turbidity_is_published:
  assumes "regs_declared r" "unat (usAddress - 1) = a" "unat usNRegs = n" "100 \<le> a" "a + n \<le> 110"
    and "p + 2 * n \<le> length mem"
  shows "\<exists>hold inp.
      eMBRegHoldingCB mem p usAddress usNRegs MB_REG_READ r
        = Some (MB_ENOERR, splice mem p (be_bytes (take n (drop (a - 100) hold))), r\<lparr>usSRegHoldBuf := hold\<rparr>)
    \<and> eMBRegInputCB mem p usAddress usNRegs r
        = Some (MB_ENOERR, splice mem p (be_bytes (take n (drop (a - 100) inp))), r\<lparr>usSRegInBuf := inp\<rparr>)
    \<and> take 2 hold = [zhuodu_data r ! (off_turbidimeter + 1), zhuodu_data r ! off_turbidimeter]
    \<and> drop 2 hold = drop 2 (usSRegHoldBuf r)
    \<and> take 2 inp = take 2 hold \<and> drop 2 inp = drop 2 (usSRegInBuf r)"
proof -
  let ?z = "zhuodu_data r"
  have two: "take 2 (with_turbidity ?z buf) = [?z ! 7, ?z ! 6]"
    "drop 2 (with_turbidity ?z buf) = drop 2 buf" if "length buf = 10" for buf
    using that by (auto simp: with_turbidity_def list_eq_iff_nth_eq less_2_cases_iff nth_Cons')
  have len: "length (usSRegHoldBuf r) = 10" "length (usSRegInBuf r) = 10"
    using assms(1) by (simp_all add: regs_declared_def tables_declared_def)
  with HoldingCB_in(1) [OF regs_declared_tables [OF assms(1)] assms(2-6)] InputCB_in [OF regs_declared_tables [OF assms(1)] assms(2-6)]
    two [OF len(1)] two [OF len(2)] show ?thesis
    by (intro exI [of _ "with_turbidity ?z (usSRegHoldBuf r)"] exI [of _ "with_turbidity ?z (usSRegInBuf r)"])
      (simp add: off_turbidimeter_def Let_def)
qed

theorem turbidity_is_published_witness:
  "\<exists>hold inp.
      eMBRegHoldingCB [0, 0, 0, 0] 0 101 2 MB_REG_READ
        \<lparr>ucSDiscInBuf = [0, 0], ucSCoilBuf = [0, 0], usSRegInBuf = replicate 10 0,
         usSRegHoldBuf = replicate 10 0, zhuodu_data = replicate 68 9\<rparr>
        = Some (MB_ENOERR, splice [0, 0, 0, 0] 0 (be_bytes (take 2 (drop (100 - 100) hold))),
        \<lparr>ucSDiscInBuf = [0, 0], ucSCoilBuf = [0, 0], usSRegInBuf = replicate 10 0,
         usSRegHoldBuf = hold, zhuodu_data = replicate 68 9\<rparr>)
    \<and> take 2 inp = take 2 hold"
proof -
  let ?r = "\<lparr>ucSDiscInBuf = [0, 0], ucSCoilBuf = [0, 0], usSRegInBuf = replicate 10 0,
         usSRegHoldBuf = replicate 10 0, zhuodu_data = replicate 68 9\<rparr>"
  have "regs_declared ?r"
    by (simp add: regs_declared_def tables_declared_def zhuodu_size_def)
  from turbidity_is_published [OF this, of 101 100 2 2 0 "[0, 0, 0, 0]"] show ?thesis
    by auto
qed

section \<open>The contracts of the callbacks\<close>

text \<open>
  The register tables satisfy the contract at the declared sizes. The bit arrays do with two
  more bytes than declared (\<open>bits_guarded\<close>): \<open>bit_reads_declared\<close> shows that they do not as declared.
\<close>

definition bits_guarded :: "slave_regs \<Rightarrow> bool" where
  "bits_guarded r \<longleftrightarrow> 4 \<le> length (ucSDiscInBuf r) \<and> 4 \<le> length (ucSCoilBuf r)"

definition regs_guarded :: "slave_regs \<Rightarrow> bool" where
  "regs_guarded r \<longleftrightarrow> bits_guarded r \<and> tables_declared r"

lemmas guarded_defs = regs_guarded_def bits_guarded_def tables_declared_def

lemma length_splice_regs:
  "length buf = 10 \<Longrightarrow> a + n \<le> 110 \<Longrightarrow> 100 \<le> a \<Longrightarrow> length bs = n \<Longrightarrow> length (splice buf (a - 100) bs) = 10"
  by simp

lemma HoldingCB_out:
  "\<not> (100 \<le> unat (addr - 1) \<and> unat (addr - 1) + unat n \<le> 110) \<Longrightarrow>
    eMBRegHoldingCB mem p addr n m r = Some (MB_ENOREG, mem, r)"
  "\<not> (100 \<le> unat (addr - 1) \<and> unat (addr - 1) + unat n \<le> 110) \<Longrightarrow>
    eMBRegInputCB mem p addr n r = Some (MB_ENOREG, mem, r)"
  by (auto simp: eMBRegHoldingCB_def eMBRegInputCB_def Let_def slave_range_defs)

interpretation hold: word_callback eMBRegHoldingCB regs_guarded
proof
  fix s p and n :: u16 and mem :: "u8 list" and a :: u16
  let ?a = "unat (a - 1)" and ?n = "unat n"
  assume s: "regs_guarded s" and room: "p + 2 * ?n \<le> length mem"
  have t: "tables_declared s"
    using s by (simp add: regs_guarded_def)
  show "yields (eMBRegHoldingCB mem p a n MB_REG_READ s) (\<lambda>(e, mem', s'). regs_guarded s'
      \<and> length mem' = length mem \<and> (\<forall>i. i < p \<or> p + 2 * ?n \<le> i \<longrightarrow> mem' ! i = mem ! i)
      \<and> (e \<noteq> MB_ENOERR \<longrightarrow> mem' = mem \<and> s' = s))"
  proof (cases "100 \<le> ?a \<and> ?a + ?n \<le> 110")
    case True
    with HoldingCB_in(1) [OF t refl refl _ _ room] s room t show ?thesis
      by (auto simp: guarded_defs wp_simps Let_def nth_splice)
  next
    case False
    with HoldingCB_out(1) [OF False, of mem p _ s] s show ?thesis by (simp add: wp_simps)
  qed
  show "yields (eMBRegHoldingCB mem p a n MB_REG_WRITE s)
      (\<lambda>(e, mem', s'). mem' = mem \<and> regs_guarded s' \<and> (e \<noteq> MB_ENOERR \<longrightarrow> s' = s))"
  proof (cases "100 \<le> ?a \<and> ?a + ?n \<le> 110")
    case True
    with HoldingCB_in(2) [OF t refl refl _ _ room] s room t show ?thesis
      by (auto simp: guarded_defs wp_simps Let_def)
  next
    case False
    with HoldingCB_out(1) [OF False, of mem p _ s] s show ?thesis by (simp add: wp_simps)
  qed
qed

interpretation inp: word_source eMBRegInputCB regs_guarded
proof
  fix s p and n :: u16 and mem :: "u8 list" and a :: u16
  let ?a = "unat (a - 1)" and ?n = "unat n"
  assume s: "regs_guarded s" and room: "p + 2 * ?n \<le> length mem"
  have t: "tables_declared s"
    using s by (simp add: regs_guarded_def)
  show "yields (eMBRegInputCB mem p a n s) (\<lambda>(e, mem', s'). regs_guarded s'
      \<and> length mem' = length mem \<and> (\<forall>i. i < p \<or> p + 2 * ?n \<le> i \<longrightarrow> mem' ! i = mem ! i)
      \<and> (e \<noteq> MB_ENOERR \<longrightarrow> mem' = mem \<and> s' = s))"
  proof (cases "100 \<le> ?a \<and> ?a + ?n \<le> 110")
    case True
    with InputCB_in [OF t refl refl _ _ room] s room t show ?thesis
      by (auto simp: guarded_defs wp_simps Let_def nth_splice)
  next
    case False
    with HoldingCB_out(2) [OF False, of mem p s] s show ?thesis by (simp add: wp_simps)
  qed
qed

lemma CoilsCB_out:
  "\<not> unat (addr - 1) + unat n \<le> 16 \<Longrightarrow> eMBRegCoilsCB mem p addr n m r = Some (MB_ENOREG, mem, r)"
  "\<not> unat (addr - 1) + unat n \<le> 16 \<Longrightarrow> eMBRegDiscreteCB mem p addr n r = Some (MB_ENOREG, mem, r)"
  by (auto simp: eMBRegCoilsCB_def eMBRegDiscreteCB_def Let_def slave_range_defs)

lemma two_bytes: "a + n \<le> 16 \<Longrightarrow> a div 8 + n div 8 \<le> (2 :: nat)"
  using times_div_less_eq_dividend [of 8 a] times_div_less_eq_dividend [of 8 n] by linarith

lemma read_bits_yields:
  assumes "4 \<le> length buf" "a + n \<le> 16" "p + (n div 8 + 1) \<le> length mem"
  shows "yields (read_bits buf (a div 8) (of_nat (a mod 8)) mem p n)
    (\<lambda>mem'. length mem' = length mem \<and> (\<forall>i. i < p \<or> p + (n div 8 + 1) \<le> i \<longrightarrow> mem' ! i = mem ! i))"
proof -
  have "a div 8 + n div 8 \<le> 2"
    by (rule two_bytes [OF assms(2)])
  then have "a div 8 + n div 8 + 1 < length buf"
    using assms(1,2) by simp
  from read_bits_eq [OF this bit_index(2) [of a], of p mem] assms(3) show ?thesis
    by (auto simp: yields_iff nth_splice)
qed

lemma write_bits_yields:
  assumes "4 \<le> length buf" "a + n \<le> 16" "p + (n div 8 + 1) \<le> length mem"
  shows "yields (write_bits buf (a div 8) (of_nat (a mod 8)) mem p n) (\<lambda>buf'. length buf' = length buf)"
proof -
  have "a div 8 + n div 8 \<le> 2"
    by (rule two_bytes [OF assms(2)])
  moreover have "coil_bytes n \<le> n div 8 + 1"
    by (simp add: coil_bytes_def)
  ultimately show ?thesis
    using write_bits_eq [of "a div 8" n buf "of_nat (a mod 8)" p mem] bit_index(2) [of a] assms
    by (auto simp: yields_iff)
qed

lemma yields_map [wp_simps]: "yields (map_option f m) P = yields m (\<lambda>x. P (f x))"
  by (auto simp: yields_iff)

interpretation coils: bit_callback eMBRegCoilsCB regs_guarded
proof
  fix s p and n :: u16 and mem :: "u8 list" and a :: u16
  let ?a = "unat (a - 1)" and ?n = "unat n"
  assume s: "regs_guarded s" and room: "p + (?n div 8 + 1) \<le> length mem"
  have b: "4 \<le> length (ucSCoilBuf s)"
    using s by (simp add: guarded_defs)
  show "yields (eMBRegCoilsCB mem p a n MB_REG_READ s) (\<lambda>(e, mem', s'). regs_guarded s'
      \<and> length mem' = length mem \<and> (\<forall>i. i < p \<or> p + (?n div 8 + 1) \<le> i \<longrightarrow> mem' ! i = mem ! i)
      \<and> (e \<noteq> MB_ENOERR \<longrightarrow> mem' = mem \<and> s' = s))"
  proof (cases "?a + ?n \<le> 16")
    case True
    show ?thesis
      unfolding CoilsCB_in(1) [OF refl refl True] yields_map
      by (rule yields_mono [OF read_bits_yields [OF b True room]]) (use s in auto)
  next
    case False
    with s show ?thesis by (simp add: wp_simps CoilsCB_out)
  qed
  show "yields (eMBRegCoilsCB mem p a n MB_REG_WRITE s)
      (\<lambda>(e, mem', s'). mem' = mem \<and> regs_guarded s' \<and> (e \<noteq> MB_ENOERR \<longrightarrow> s' = s))"
  proof (cases "?a + ?n \<le> 16")
    case True
    show ?thesis
      unfolding CoilsCB_in(2) [OF refl refl True] yields_map
      by (rule yields_mono [OF write_bits_yields [OF b True room]]) (use s in \<open>auto simp: guarded_defs\<close>)
  next
    case False
    with s show ?thesis by (simp add: wp_simps CoilsCB_out)
  qed
qed

interpretation discs: bit_source eMBRegDiscreteCB regs_guarded
proof
  fix s p and n :: u16 and mem :: "u8 list" and a :: u16
  let ?a = "unat (a - 1)" and ?n = "unat n"
  assume s: "regs_guarded s" and room: "p + (?n div 8 + 1) \<le> length mem"
  have b: "4 \<le> length (ucSDiscInBuf s)"
    using s by (simp add: guarded_defs)
  show "yields (eMBRegDiscreteCB mem p a n s) (\<lambda>(e, mem', s'). regs_guarded s'
      \<and> length mem' = length mem \<and> (\<forall>i. i < p \<or> p + (?n div 8 + 1) \<le> i \<longrightarrow> mem' ! i = mem ! i)
      \<and> (e \<noteq> MB_ENOERR \<longrightarrow> mem' = mem \<and> s' = s))"
  proof (cases "?a + ?n \<le> 16")
    case True
    show ?thesis
      unfolding CoilsCB_in(3) [OF refl refl True] yields_map
      by (rule yields_mono [OF read_bits_yields [OF b True room]]) (use s in auto)
  next
    case False
    with s show ?thesis by (simp add: wp_simps CoilsCB_out)
  qed
qed

end
