(* ===== verification/Mb_Slave.thy ===== *)
theory Mb_Slave
  imports Mb_Rtu Mb_Func Mb_Regs
begin

text \<open>
  \<^verbatim>\<open>components/net/freemodbus/modbus/mb.c\<close>, the life cycle and the poll loop of the Modbus
  slave, and \<open>xMBPortEventGet\<close> of \<^verbatim>\<open>port/portevent.c\<close>. Only the RTU transport is compiled in
  (\<^verbatim>\<open>include/mbconfig.h\<close>) and \<open>MB_PORT_HAS_CLOSE\<close> is 0.

  The static variables of \<^verbatim>\<open>mb.c\<close> and of \<open>eMBPoll\<close> are the fields of \<open>slave_state\<close>, next to the
  states of the framing layer and of the application. Function pointers to request handlers
  are values of \<open>handler\<close>; a null pointer is \<open>None\<close>, and calling it is not defined.
\<close>

section \<open>State\<close>

datatype handler =
  H_ReportSlaveID | H_ReadInputRegister | H_ReadHoldingRegister | H_WriteMultipleHoldingRegister
| H_WriteHoldingRegister | H_ReadWriteMultipleHoldingRegister | H_ReadCoils | H_WriteCoil
| H_WriteMultipleCoils | H_ReadDiscreteInputs

record slave_app =
  regs :: slave_regs
  sid :: slave_id

definition on_regs ::
  "(u8 list \<Rightarrow> nat \<Rightarrow> u16 \<Rightarrow> slave_regs \<Rightarrow> slave_regs pdu_result)
    \<Rightarrow> u8 list \<Rightarrow> nat \<Rightarrow> u16 \<Rightarrow> slave_app \<Rightarrow> slave_app pdu_result" where
  "on_regs h mem p len a = do {
     (ex, mem, len, r) \<leftarrow> h mem p len (regs a);
     Some (ex, mem, len, a\<lparr>regs := r\<rparr>)
   }"

definition on_sid ::
  "(u8 list \<Rightarrow> nat \<Rightarrow> u16 \<Rightarrow> slave_id \<Rightarrow> slave_id pdu_result)
    \<Rightarrow> u8 list \<Rightarrow> nat \<Rightarrow> u16 \<Rightarrow> slave_app \<Rightarrow> slave_app pdu_result" where
  "on_sid h mem p len a = do {
     (ex, mem, len, i) \<leftarrow> h mem p len (sid a);
     Some (ex, mem, len, a\<lparr>sid := i\<rparr>)
   }"

fun pxHandler :: "handler \<Rightarrow> u8 list \<Rightarrow> nat \<Rightarrow> u16 \<Rightarrow> slave_app \<Rightarrow> slave_app pdu_result" where
  "pxHandler H_ReportSlaveID = on_sid eMBFuncReportSlaveID"
| "pxHandler H_ReadInputRegister = on_regs (eMBFuncReadInputRegister eMBRegInputCB)"
| "pxHandler H_ReadHoldingRegister = on_regs (eMBFuncReadHoldingRegister eMBRegHoldingCB)"
| "pxHandler H_WriteMultipleHoldingRegister = on_regs (eMBFuncWriteMultipleHoldingRegister eMBRegHoldingCB)"
| "pxHandler H_WriteHoldingRegister = on_regs (eMBFuncWriteHoldingRegister eMBRegHoldingCB)"
| "pxHandler H_ReadWriteMultipleHoldingRegister = on_regs (eMBFuncReadWriteMultipleHoldingRegister eMBRegHoldingCB)"
| "pxHandler H_ReadCoils = on_regs (eMBFuncReadCoils eMBRegCoilsCB)"
| "pxHandler H_WriteCoil = on_regs (eMBFuncWriteCoil eMBRegCoilsCB)"
| "pxHandler H_WriteMultipleCoils = on_regs (eMBFuncWriteMultipleCoils eMBRegCoilsCB)"
| "pxHandler H_ReadDiscreteInputs = on_regs (eMBFuncReadDiscreteInputs eMBRegDiscreteCB)"

definition MB_FUNC_HANDLERS_MAX :: nat where "MB_FUNC_HANDLERS_MAX = 16"

definition xFuncHandlers_init :: "(u8 \<times> handler option) list" where
  "xFuncHandlers_init =
    [(MB_FUNC_OTHER_REPORT_SLAVEID, Some H_ReportSlaveID),
     (MB_FUNC_READ_INPUT_REGISTER, Some H_ReadInputRegister),
     (MB_FUNC_READ_HOLDING_REGISTER, Some H_ReadHoldingRegister),
     (MB_FUNC_WRITE_MULTIPLE_REGISTERS, Some H_WriteMultipleHoldingRegister),
     (MB_FUNC_WRITE_REGISTER, Some H_WriteHoldingRegister),
     (MB_FUNC_READWRITE_MULTIPLE_REGISTERS, Some H_ReadWriteMultipleHoldingRegister),
     (MB_FUNC_READ_COILS, Some H_ReadCoils),
     (MB_FUNC_WRITE_SINGLE_COIL, Some H_WriteCoil),
     (MB_FUNC_WRITE_MULTIPLE_COILS, Some H_WriteMultipleCoils),
     (MB_FUNC_READ_DISCRETE_INPUTS, Some H_ReadDiscreteInputs)]
    @ replicate 6 (0, None)"

datatype eMBState_t = STATE_ENABLED | STATE_DISABLED | STATE_NOT_INITIALIZED

record slave_state =
  ucMBAddress :: u8
  eMBCurrentMode :: eMBMode
  eMBState :: eMBState_t
  frame_functions :: bool \<comment> \<open>\<open>peMBFrameSendCur\<close> and its companions point to \<^verbatim>\<open>mbrtu.c\<close>\<close>
  xFuncHandlers :: "(u8 \<times> handler option) list"
  ucMBFrame :: "nat option"
  ucRcvAddress :: u8
  ucFunctionCode :: u8
  usLength :: u16
  eException :: eMBException
  rtu :: rtu_state
  app :: slave_app

section \<open>Life cycle\<close>

text \<open>\<open>opened\<close> tells whether the serial device opens.\<close>

definition eMBInit ::
  "bool \<Rightarrow> eMBMode \<Rightarrow> u8 \<Rightarrow> u8 \<Rightarrow> u32 \<Rightarrow> eMBParity \<Rightarrow> slave_state \<Rightarrow> (eMBErrorCode \<times> slave_state) option" where
  "eMBInit opened eMode ucSlaveAddress ucPort ulBaudRate eParity s =
     (if ucSlaveAddress = MB_ADDRESS_BROADCAST \<or> ucSlaveAddress < MB_ADDRESS_MIN
         \<or> ucSlaveAddress > MB_ADDRESS_MAX
      then Some (MB_EINVAL, s)
      else do {
        let s = s\<lparr>ucMBAddress := ucSlaveAddress\<rparr>;
        (eStatus, s) \<leftarrow>
          (case eMode of
             MB_RTU \<Rightarrow> do {
               (e, r) \<leftarrow> eMBRTUInit opened ucSlaveAddress ucPort ulBaudRate eParity (rtu s);
               Some (e, s\<lparr>frame_functions := True, rtu := r\<rparr>)
             }
           | _ \<Rightarrow> Some (MB_EINVAL, s));
        if eStatus = MB_ENOERR
        then
          let (ok, r) = xMBPortEventInit (rtu s) in
          if \<not> ok then Some (MB_EPORTERR, s\<lparr>rtu := r\<rparr>)
          else Some (eStatus, s\<lparr>rtu := r, eMBCurrentMode := eMode, eMBState := STATE_DISABLED\<rparr>)
        else Some (eStatus, s)
      })"

definition eMBClose :: "slave_state \<Rightarrow> eMBErrorCode \<times> slave_state" where
  "eMBClose s = (if eMBState s = STATE_DISABLED then (MB_ENOERR, s) else (MB_EILLSTATE, s))"

definition eMBEnable :: "slave_state \<Rightarrow> (eMBErrorCode \<times> slave_state) option" where
  "eMBEnable s =
     (if eMBState s = STATE_DISABLED
      then do {
        c_assert (frame_functions s);
        Some (MB_ENOERR, s\<lparr>rtu := eMBRTUStart (rtu s), eMBState := STATE_ENABLED\<rparr>)
      }
      else Some (MB_EILLSTATE, s))"

definition eMBDisable :: "slave_state \<Rightarrow> (eMBErrorCode \<times> slave_state) option" where
  "eMBDisable s =
     (if eMBState s = STATE_ENABLED
      then do {
        c_assert (frame_functions s);
        Some (MB_ENOERR, s\<lparr>rtu := eMBRTUStop (rtu s), eMBState := STATE_DISABLED\<rparr>)
      }
      else if eMBState s = STATE_DISABLED then Some (MB_ENOERR, s)
      else Some (MB_EILLSTATE, s))"

section \<open>The handler table\<close>

text \<open>The two loops of \<open>eMBRegisterCB\<close>; \<open>None\<close>: the index ran to the end of the table.\<close>

fun register_loop :: "(u8 \<times> 'h option) list \<Rightarrow> u8 \<Rightarrow> 'h \<Rightarrow> (u8 \<times> 'h option) list option" where
  "register_loop [] code h = None"
| "register_loop ((c, k) # t) code h =
     (if k = None \<or> k = Some h then Some ((code, Some h) # t)
      else map_option (Cons (c, k)) (register_loop t code h))"

fun remove_loop :: "(u8 \<times> 'h option) list \<Rightarrow> u8 \<Rightarrow> (u8 \<times> 'h option) list" where
  "remove_loop [] code = []"
| "remove_loop ((c, k) # t) code =
     (if c = code then (0, None) # t else (c, k) # remove_loop t code)"

definition eMBRegisterCB ::
  "u8 \<Rightarrow> 'h option \<Rightarrow> (u8 \<times> 'h option) list \<Rightarrow> eMBErrorCode \<times> (u8 \<times> 'h option) list" where
  "eMBRegisterCB code px t =
     (if 0 < code \<and> code \<le> 127
      then case px of
        Some h \<Rightarrow> (case register_loop t code h of
                    Some t' \<Rightarrow> (MB_ENOERR, t') | None \<Rightarrow> (MB_ENORES, t))
      | None \<Rightarrow> (MB_ENOERR, remove_loop t code)
      else (MB_EINVAL, t))"

text \<open>
  The search of \<open>eMBPoll\<close>: an entry with code 0 ends it. The result is the pointer of the
  entry, if there is one.
\<close>

fun find_handler :: "(u8 \<times> 'h option) list \<Rightarrow> u8 \<Rightarrow> 'h option option" where
  "find_handler [] code = None"
| "find_handler ((c, k) # t) code =
     (if c = 0 then None else if c = code then Some k else find_handler t code)"

section \<open>The poll loop\<close>

text \<open>
  \<open>xMBPortEventGet\<close> waits until a flag is set, takes all flags out of the event set and
  translates the value if it is exactly one flag; otherwise the caller's variable keeps the
  value it had (\<open>None\<close>: not initialised). Nothing set: the thread stays blocked.
\<close>

datatype 'a blocking = Blocked | Returned 'a

definition event_of :: "u32 \<Rightarrow> eMBEventType option" where
  "event_of recvedEvent =
     (if recvedEvent = 1 then Some EV_READY else if recvedEvent = 2 then Some EV_FRAME_RECEIVED
      else if recvedEvent = 4 then Some EV_EXECUTE else if recvedEvent = 8 then Some EV_FRAME_SENT
      else None)"

definition xMBPortEventGet :: "rtu_state \<Rightarrow> eMBEventType option blocking \<times> rtu_state" where
  "xMBPortEventGet r =
     (let recvedEvent = slave_event r AND 15 in
      if recvedEvent = 0 then (Blocked, r)
      else (Returned (event_of recvedEvent), r\<lparr>slave_event := slave_event r AND NOT 15\<rparr>))"

text \<open>The frame the handlers work on is \<open>ucRTUBuf\<close>; the reply is built in it.\<close>

definition poll_reply :: "slave_state \<Rightarrow> nat \<Rightarrow> slave_state option" where
  "poll_reply s p =
     (if ucRcvAddress s \<noteq> MB_ADDRESS_BROADCAST
      then do {
        s \<leftarrow> (if eException s \<noteq> MB_EX_NONE
              then do {
                mem \<leftarrow> wr (ucRTUBuf (rtu s)) p (ucFunctionCode s OR MB_FUNC_ERROR);
                mem \<leftarrow> wr mem (p + 1) (ex_code (eException s));
                Some (s\<lparr>usLength := 2, rtu := (rtu s)\<lparr>ucRTUBuf := mem\<rparr>\<rparr>)
              }
              else Some s);
        (_, r) \<leftarrow> eMBRTUSend (ucMBAddress s) p (usLength s) (rtu s);
        Some (s\<lparr>rtu := r\<rparr>)
      }
      else Some s)"

definition poll_execute :: "slave_state \<Rightarrow> slave_state option" where
  "poll_execute s = do {
     p \<leftarrow> ucMBFrame s;
     code \<leftarrow> rd (ucRTUBuf (rtu s)) (p + MB_PDU_FUNC_OFF);
     let s = s\<lparr>ucFunctionCode := code, eException := MB_EX_ILLEGAL_FUNCTION\<rparr>;
     s \<leftarrow> (case find_handler (xFuncHandlers s) code of
             None \<Rightarrow> Some s
           | Some px \<Rightarrow> do {
               h \<leftarrow> px;
               (ex, mem, len, a) \<leftarrow> pxHandler h (ucRTUBuf (rtu s)) p (usLength s) (app s);
               Some (s\<lparr>eException := ex, usLength := len, app := a, rtu := (rtu s)\<lparr>ucRTUBuf := mem\<rparr>\<rparr>)
             });
     poll_reply s p
   }"

text \<open>The \<open>switch\<close> of \<open>eMBPoll\<close>.\<close>

fun poll_switch :: "eMBEventType \<Rightarrow> slave_state \<Rightarrow> slave_state option" where
  "poll_switch EV_READY s = Some s"
| "poll_switch EV_FRAME_RECEIVED s = do {
     (eStatus, out) \<leftarrow> eMBRTUReceive (rtu s);
     case out of
       None \<Rightarrow> Some s
     | Some (addr, frame, len) \<Rightarrow> do {
         let s = s\<lparr>ucRcvAddress := addr, ucMBFrame := Some frame, usLength := len\<rparr>;
         Some (if eStatus = MB_ENOERR \<and> (addr = ucMBAddress s \<or> addr = MB_ADDRESS_BROADCAST)
               then s\<lparr>rtu := snd (xMBPortEventPost EV_EXECUTE (rtu s))\<rparr> else s)
       }
   }"
| "poll_switch EV_EXECUTE s = poll_execute s"
| "poll_switch EV_FRAME_SENT s = Some s"

definition eMBPoll :: "slave_state \<Rightarrow> (eMBErrorCode blocking \<times> slave_state) option" where
  "eMBPoll s =
     (if eMBState s \<noteq> STATE_ENABLED then Some (Returned MB_EILLSTATE, s)
      else case xMBPortEventGet (rtu s) of
        (Blocked, _) \<Rightarrow> Some (Blocked, s)
      | (Returned ev, r) \<Rightarrow> do {
          eEvent \<leftarrow> ev;
          s \<leftarrow> poll_switch eEvent (s\<lparr>rtu := r\<rparr>);
          Some (Returned MB_ENOERR, s)
        })"

lemma eMBPoll_event:
  assumes "eMBState s = STATE_ENABLED" "slave_event (rtu s) AND 15 = m" "m \<noteq> 0"
  shows "eMBPoll s = do {
    e \<leftarrow> event_of m;
    s \<leftarrow> poll_switch e (s\<lparr>rtu := (rtu s)\<lparr>slave_event := slave_event (rtu s) AND NOT 15\<rparr>\<rparr>);
    Some (Returned MB_ENOERR, s) }"
  using assms by (simp add: eMBPoll_def xMBPortEventGet_def)

section \<open>Every handler returns\<close>

definition app_ok :: "slave_app \<Rightarrow> bool" where
  "app_ok a \<longleftrightarrow> regs_guarded (regs a) \<and> slave_id_ok (sid a)"

lemma on_regs_ok: "handler_ok regs_guarded h \<Longrightarrow> handler_ok app_ok (on_regs h)"
  by (fastforce simp: handler_ok_def app_ok_def on_regs_def wp_simps elim!: yields_mono split: prod.splits)

lemma on_sid_ok: "handler_ok slave_id_ok h \<Longrightarrow> handler_ok app_ok (on_sid h)"
  by (fastforce simp: handler_ok_def app_ok_def on_sid_def wp_simps elim!: yields_mono split: prod.splits)

lemma on_regs_refuses: "refuses_clean regs_guarded h \<Longrightarrow> refuses_clean app_ok (on_regs h)"
  by (fastforce simp: refuses_clean_def app_ok_def on_regs_def wp_simps elim!: yields_mono split: prod.splits)

lemma on_sid_refuses: "refuses_clean slave_id_ok h \<Longrightarrow> refuses_clean app_ok (on_sid h)"
  by (fastforce simp: refuses_clean_def app_ok_def on_sid_def wp_simps elim!: yields_mono split: prod.splits)

lemmas handlers_ok =
  hold.ReadHolding_ok hold.WriteHolding_ok hold.WriteMultipleHolding_ok hold.ReadWriteMultipleHolding_ok
  inp.ReadInput_ok coils.ReadCoils_ok coils.WriteCoil_ok coils.WriteMultipleCoils_ok discs.ReadDiscrete_ok

lemmas handlers_refuse =
  hold.ReadHolding_refuses hold.WriteHolding_refuses hold.WriteMultipleHolding_refuses
  inp.ReadInput_refuses coils.ReadCoils_refuses coils.WriteCoil_refuses
  coils.WriteMultipleCoils_refuses discs.ReadDiscrete_refuses

lemma pxHandler_ok: "handler_ok app_ok (pxHandler h)"
  by (cases h) (simp_all add: on_regs_ok on_sid_ok handlers_ok ReportSlaveID_ok)

lemma pxHandler_refuses:
  "h \<noteq> H_ReadWriteMultipleHoldingRegister \<Longrightarrow> refuses_clean app_ok (pxHandler h)"
  by (cases h) (simp_all add: on_regs_refuses on_sid_refuses handlers_refuse ReportSlaveID_refuses)

lemma pxHandler_wp:
  assumes "app_ok a" "p + 253 \<le> length mem" "len \<le> 253"
    and "\<And>ex mem' len' a'. app_ok a' \<Longrightarrow> length mem' = length mem \<Longrightarrow> len' \<le> 253 \<Longrightarrow>
      (\<And>i. i < p \<Longrightarrow> mem' ! i = mem ! i) \<Longrightarrow> P (ex, mem', len', a')"
  shows "yields (pxHandler h mem p len a) P"
  using pxHandler_ok [of h] assms by (fastforce simp: handler_ok_def elim!: yields_mono)


definition app_boot :: slave_app where
  "app_boot = \<lparr>regs = \<lparr>ucSDiscInBuf = replicate 4 0, ucSCoilBuf = replicate 4 0, usSRegInBuf = replicate 10 0,
      usSRegHoldBuf = replicate 10 0, zhuodu_data = replicate 68 0\<rparr>,
    sid = \<lparr>ucMBSlaveID = replicate 32 0, usMBSlaveIDLen = 0\<rparr>\<rparr>"

lemma app_boot_ok: "app_ok app_boot"
  by (simp add: app_ok_def app_boot_def guarded_defs slave_id_ok_def zhuodu_size_def
      MB_FUNC_OTHER_REP_SLAVEID_BUF_def)


section \<open>Serving a request\<close>

text \<open>
  One request on an idle line, as the interrupt, the timer and the threads make the calls:
  the bytes arrive, the t3.5 timer expires, the poll thread takes the event, takes the
  execute event it posted itself, the transmit thread sends the reply (300 rounds are more
  than the 257 the largest reply takes) and the poll thread takes the event of its end. A
  poll with no event set blocks and changes nothing.
\<close>

definition slave_serve :: "u8 list \<Rightarrow> slave_state \<Rightarrow> slave_state option" where
  "slave_serve frame s = do {
     r \<leftarrow> rtu_feed frame (rtu s);
     (_, r) \<leftarrow> xMBRTUTimerT35Expired r;
     (_, s) \<leftarrow> eMBPoll (s\<lparr>rtu := r\<rparr>);
     (_, s) \<leftarrow> eMBPoll s;
     r \<leftarrow> rtu_transmit 300 (rtu s);
     (_, s) \<leftarrow> eMBPoll (s\<lparr>rtu := r\<rparr>);
     Some s
   }"

definition slave_idle :: "slave_state \<Rightarrow> bool" where
  "slave_idle s \<longleftrightarrow> eMBState s = STATE_ENABLED \<and> eSndState (rtu s) = STATE_TX_IDLE
     \<and> eRcvState (rtu s) = STATE_RX_IDLE \<and> length (ucRTUBuf (rtu s)) = 256
     \<and> slave_event (rtu s) = 0 \<and> rx_enabled (rtu s) \<and> \<not> tx_start (rtu s)"

text \<open>The state in which the poll thread finds a complete frame, and the one after it took it.\<close>

definition frame_received :: "u8 \<Rightarrow> u8 list \<Rightarrow> rtu_state \<Rightarrow> rtu_state" where
  "frame_received addr pdu r = r\<lparr>ucRTUBuf := seal_frame crc16 (addr # pdu) @ drop (length pdu + 3) (ucRTUBuf r),
     usRcvBufferPos := of_nat (length pdu + 3), t35_running := False, slave_event := 2\<rparr>"

lemma feed_request:
  assumes "slave_idle s" "1 \<le> length pdu" "length pdu \<le> 252"
  shows "\<exists>r1 b. rtu_feed (seal_frame crc16 (addr # pdu)) (rtu s) = Some r1
    \<and> xMBRTUTimerT35Expired r1 = Some (b, frame_received addr pdu (rtu s))"
proof -
  let ?f = "seal_frame crc16 (addr # pdu)" and ?r = "rtu s"
  let ?r1 = "?r\<lparr>ucRTUBuf := ?f @ drop (length pdu + 3) (ucRTUBuf ?r),
    usRcvBufferPos := of_nat (length pdu + 3), eRcvState := STATE_RX_RCV, t35_running := True\<rparr>"
  have "rtu_feed ?f ?r = Some ?r1"
    using feed_idle [of ?r ?f] assms by (simp add: slave_idle_def numeral_3_eq_3)
  moreover have "xMBRTUTimerT35Expired ?r1 = Some (True, frame_received addr pdu ?r)"
    using assms by (simp add: xMBRTUTimerT35Expired_def port_defs frame_received_def slave_idle_def)
  ultimately show ?thesis by blast
qed

lemma poll_received:
  assumes "slave_idle s" "1 \<le> length pdu" "length pdu \<le> 252"
  shows "eMBPoll (s\<lparr>rtu := frame_received addr pdu (rtu s)\<rparr>) = Some (Returned MB_ENOERR,
    s\<lparr>ucRcvAddress := addr, ucMBFrame := Some 1, usLength := of_nat (length pdu),
      rtu := (frame_received addr pdu (rtu s))\<lparr>slave_event :=
        (if addr = ucMBAddress s \<or> addr = MB_ADDRESS_BROADCAST then 4 else 0)\<rparr>\<rparr>)"
proof -
  let ?r = "(frame_received addr pdu (rtu s))\<lparr>slave_event := 0\<rparr>"
  have "eMBRTUReceive ?r = Some (MB_ENOERR, Some (addr, 1, of_nat (length pdu)))"
    using assms by (intro receive_sealed) (simp_all add: frame_received_def slave_idle_def)
  moreover have "slave_event (frame_received addr pdu (rtu s)) = 2"
    by (simp add: frame_received_def)
  ultimately show ?thesis
    using assms(1)
    by (simp add: eMBPoll_def xMBPortEventGet_def event_of_def slave_idle_def xMBPortEventPost_def)
qed

text \<open>
  What a request does to the buffer and the application, and the reply PDU: the handler's,
  or the function code with its top bit set and the exception code.
\<close>

definition handle_request ::
  "(u8 \<times> handler option) list \<Rightarrow> u8 list \<Rightarrow> u16 \<Rightarrow> slave_app \<Rightarrow> slave_app pdu_result" where
  "handle_request t mem len a =
     (case find_handler t (mem ! 1) of
        None \<Rightarrow> Some (MB_EX_ILLEGAL_FUNCTION, mem, len, a)
      | Some px \<Rightarrow> do { h \<leftarrow> px; pxHandler h mem 1 len a })"

definition reply_pdu :: "u8 \<Rightarrow> eMBException \<Rightarrow> u8 list \<Rightarrow> u16 \<Rightarrow> u8 list" where
  "reply_pdu code ex mem len =
     (if ex = MB_EX_NONE then take (unat len) (drop 1 mem) else [code OR MB_FUNC_ERROR, ex_code ex])"

lemma length_reply: "length mem = 256 \<Longrightarrow> len \<le> 253 \<Longrightarrow> length (reply_pdu code ex mem len) \<le> 253"
  by (simp add: reply_pdu_def word_le_nat_alt)

lemma execute_reply:
  assumes "ucMBFrame s = Some 1" "ucRcvAddress s \<noteq> 0" "eRcvState (rtu s) = STATE_RX_IDLE"
    and "length (ucRTUBuf (rtu s)) = 256"
    and h: "handle_request (xFuncHandlers s) (ucRTUBuf (rtu s)) (usLength s) (app s) = Some (ex, mem, len, a)"
    and "length mem = 256" "len \<le> 253"
  defines "code \<equiv> ucRTUBuf (rtu s) ! 1"
  shows "\<exists>s'. poll_execute s = Some s' \<and> app s' = a \<and> eMBState s' = eMBState s
    \<and> xFuncHandlers s' = xFuncHandlers s \<and> ucMBAddress s' = ucMBAddress s
    \<and> rtu s' = (rtu s)\<lparr>rx_enabled := False, tx_start := True, eSndState := STATE_TX_XMIT,
        pucSndBufferCur := 0, usSndBufferCount := of_nat (length (reply_pdu code ex mem len) + 3),
        ucRTUBuf := seal_frame crc16 (ucMBAddress s # reply_pdu code ex mem len)
          @ drop (length (reply_pdu code ex mem len) + 3) mem\<rparr>"
proof -
  let ?c = "ucRTUBuf (rtu s) ! 1"
  let ?s = "s\<lparr>ucFunctionCode := ?c, eException := ex, usLength := len, app := a,
    rtu := (rtu s)\<lparr>ucRTUBuf := mem\<rparr>\<rparr>"
  have found: "(case find_handler (xFuncHandlers s) ?c of
             None \<Rightarrow> Some (s\<lparr>ucFunctionCode := ?c, eException := MB_EX_ILLEGAL_FUNCTION\<rparr>)
           | Some px \<Rightarrow> do {
               h \<leftarrow> px;
               (ex, mem, len, a) \<leftarrow> pxHandler h (ucRTUBuf (rtu s)) 1 (usLength s) (app s);
               Some (s\<lparr>ucFunctionCode := ?c, eException := ex, usLength := len, app := a,
                 rtu := (rtu s)\<lparr>ucRTUBuf := mem\<rparr>\<rparr>)
             }) = Some ?s"
    using h by (auto simp: handle_request_def bind_eq_Some_conv split: option.splits)
  have le: "unat len \<le> 253"
    using assms(7) by (simp add: word_le_nat_alt)
  show ?thesis
  proof (cases "ex = MB_EX_NONE")
    case True
    let ?pdu = "take (unat len) (drop 1 mem)"
    have "eMBRTUSend (ucMBAddress s) 1 (of_nat (length ?pdu)) ((rtu s)\<lparr>ucRTUBuf := mem\<rparr>) = Some (MB_ENOERR,
      ((rtu s)\<lparr>ucRTUBuf := mem\<rparr>)\<lparr>rx_enabled := False, tx_start := True, eSndState := STATE_TX_XMIT, pucSndBufferCur := 0,
        usSndBufferCount := of_nat (length ?pdu + 3),
        ucRTUBuf := seal_frame crc16 (ucMBAddress s # ?pdu) @ drop (length ?pdu + 3) mem\<rparr>)"
      using assms le by (subst send_ok) simp_all
    then show ?thesis
      using True assms(1-6) le found
      by (simp add: poll_execute_def poll_reply_def rd_in pdu_defs MB_ADDRESS_BROADCAST_def reply_pdu_def code_def min_def
          cong: option.case_cong)
  next
    case False
    let ?pdu = "[?c OR MB_FUNC_ERROR, ex_code ex]"
    let ?mem = "mem[1 := ?c OR MB_FUNC_ERROR, 2 := ex_code ex]"
    have d: "drop 5 ?mem = drop 5 mem"
      by simp
    have tk: "take (length ?pdu) (drop 1 ?mem) = ?pdu"
      using assms(6) by (cases mem; cases "tl mem"; cases "tl (tl mem)") (auto simp: numeral_2_eq_2)
    have "eMBRTUSend (ucMBAddress s) 1 (of_nat (length ?pdu)) ((rtu s)\<lparr>ucRTUBuf := ?mem\<rparr>) = Some (MB_ENOERR,
      ((rtu s)\<lparr>ucRTUBuf := ?mem\<rparr>)\<lparr>rx_enabled := False, tx_start := True, eSndState := STATE_TX_XMIT, pucSndBufferCur := 0,
        usSndBufferCount := of_nat (length ?pdu + 3),
        ucRTUBuf := seal_frame crc16 (ucMBAddress s # ?pdu) @ drop (length ?pdu + 3) ?mem\<rparr>)"
      using assms le tk by (subst send_ok) simp_all
    then show ?thesis
      using False assms(1-6) le found d
      by (simp add: poll_execute_def poll_reply_def rd_in wr_in pdu_defs MB_ADDRESS_BROADCAST_def reply_pdu_def code_def
          numeral_2_eq_2 cong: option.case_cong)
  qed
qed

lemma serve_request:
  assumes idle: "slave_idle s" and pdu: "1 \<le> length pdu" "length pdu \<le> 252"
    and addr: "ucMBAddress s \<noteq> 0"
    and h: "handle_request (xFuncHandlers s)
        (seal_frame crc16 (ucMBAddress s # pdu) @ drop (length pdu + 3) (ucRTUBuf (rtu s)))
        (of_nat (length pdu)) (app s) = Some (ex, mem, len, a)"
    and mem: "length mem = 256" "len \<le> 253"
  shows "\<exists>s'. slave_serve (seal_frame crc16 (ucMBAddress s # pdu)) s = Some s' \<and> slave_idle s' \<and> app s' = a
    \<and> xFuncHandlers s' = xFuncHandlers s \<and> ucMBAddress s' = ucMBAddress s
    \<and> line_out (rtu s') = line_out (rtu s)
        @ seal_frame crc16 (ucMBAddress s # reply_pdu (hd pdu) ex mem len)"
proof -
  let ?a = "ucMBAddress s" and ?r = "reply_pdu (hd pdu) ex mem len"
  let ?n = "length ?r + 3"
  obtain c cs where c: "pdu = c # cs"
    using pdu(1) by (cases pdu) auto
  let ?s1 = "s\<lparr>ucRcvAddress := ?a, ucMBFrame := Some 1, usLength := of_nat (length pdu),
      rtu := (frame_received ?a pdu (rtu s))\<lparr>slave_event := 4\<rparr>\<rparr>"
  let ?s1' = "?s1\<lparr>rtu := (rtu ?s1)\<lparr>slave_event := 0\<rparr>\<rparr>"
  obtain r1 b where feed: "rtu_feed (seal_frame crc16 (?a # pdu)) (rtu s) = Some r1"
      "xMBRTUTimerT35Expired r1 = Some (b, frame_received ?a pdu (rtu s))"
    using feed_request [OF idle pdu] by blast
  have p1: "eMBPoll (s\<lparr>rtu := frame_received ?a pdu (rtu s)\<rparr>) = Some (Returned MB_ENOERR, ?s1)"
    using poll_received [OF idle pdu, of ?a] by simp
  have buf: "ucRTUBuf (rtu ?s1') = seal_frame crc16 (?a # pdu) @ drop (length pdu + 3) (ucRTUBuf (rtu s))"
    "length (ucRTUBuf (rtu ?s1')) = 256"
    using idle pdu by (simp_all add: frame_received_def slave_idle_def)
  have code: "ucRTUBuf (rtu ?s1') ! 1 = hd pdu"
    unfolding buf by (simp add: c seal_frame_def)
  obtain s2 where s2: "poll_execute ?s1' = Some s2" "app s2 = a" "eMBState s2 = STATE_ENABLED"
      "xFuncHandlers s2 = xFuncHandlers s" "ucMBAddress s2 = ?a"
      "rtu s2 = (rtu ?s1')\<lparr>rx_enabled := False, tx_start := True, eSndState := STATE_TX_XMIT,
        pucSndBufferCur := 0, usSndBufferCount := of_nat ?n,
        ucRTUBuf := seal_frame crc16 (?a # ?r) @ drop ?n mem\<rparr>"
    using execute_reply [of ?s1' ex mem len a] idle addr h mem buf code
    by (auto simp: slave_idle_def frame_received_def)
  have p2: "eMBPoll ?s1 = Some (Returned MB_ENOERR, s2)"
    using idle s2(1) by (simp add: eMBPoll_def xMBPortEventGet_def event_of_def slave_idle_def)
  have n: "?n \<le> 256"
    using length_reply [OF mem, of "hd pdu" ex] by simp
  let ?r3 = "(rtu s2)\<lparr>line_out := line_out (rtu s) @ seal_frame crc16 (?a # ?r), pucSndBufferCur := ?n,
      usSndBufferCount := 0, slave_event := 8, rx_enabled := True, tx_start := False, eSndState := STATE_TX_IDLE\<rparr>"
  have "rtu_transmit (Suc ?n) (rtu s2) = Some ?r3"
    using transmit_all [of "rtu s2" ?n] n mem idle
    by (simp add: s2(6) frame_received_def slave_idle_def numeral_3_eq_3)
  moreover have "300 = Suc ?n + (299 - ?n)"
    using n by simp
  ultimately have p3: "rtu_transmit 300 (rtu s2) = Some ?r3"
    using rtu_transmit_add [of "Suc ?n" "299 - ?n" "rtu s2"] by (simp add: rtu_transmit_stopped)
  have p4: "eMBPoll (s2\<lparr>rtu := ?r3\<rparr>) = Some (Returned MB_ENOERR, s2\<lparr>rtu := ?r3\<lparr>slave_event := 0\<rparr>\<rparr>)"
    using s2(3) by (simp add: eMBPoll_def xMBPortEventGet_def event_of_def)
  have "slave_serve (seal_frame crc16 (?a # pdu)) s = Some (s2\<lparr>rtu := ?r3\<lparr>slave_event := 0\<rparr>\<rparr>)"
    by (simp add: slave_serve_def feed p1 p2 p3 p4 del: One_nat_def)
  moreover have "slave_idle (s2\<lparr>rtu := ?r3\<lparr>slave_event := 0\<rparr>\<rparr>)"
    using idle s2 n mem by (simp add: slave_idle_def frame_received_def)
  ultimately show ?thesis
    using s2 by simp
qed

text \<open>The standard table, as a search finds it.\<close>

lemma find_empty: "find_handler (replicate n (0, None)) code = None"
  by (cases n) simp_all

lemma find_standard:
  "find_handler xFuncHandlers_init code =
    (if code = 17 then Some (Some H_ReportSlaveID) else if code = 4 then Some (Some H_ReadInputRegister)
     else if code = 3 then Some (Some H_ReadHoldingRegister)
     else if code = 16 then Some (Some H_WriteMultipleHoldingRegister)
     else if code = 6 then Some (Some H_WriteHoldingRegister)
     else if code = 23 then Some (Some H_ReadWriteMultipleHoldingRegister)
     else if code = 1 then Some (Some H_ReadCoils) else if code = 5 then Some (Some H_WriteCoil)
     else if code = 15 then Some (Some H_WriteMultipleCoils)
     else if code = 2 then Some (Some H_ReadDiscreteInputs) else None)"
  by (simp add: xFuncHandlers_init_def mb_func_defs find_empty)

text \<open>
  A request with a function code that is not in the table is answered with the code, its
  top bit set, and exception 1; the application is not touched and the slave is idle again.
\<close>

theorem unknown_function_refused:
  assumes "slave_idle s" "1 \<le> length pdu" "length pdu \<le> 252" "ucMBAddress s \<noteq> 0"
    and "find_handler (xFuncHandlers s) (hd pdu) = None"
  shows "\<exists>s'. slave_serve (seal_frame crc16 (ucMBAddress s # pdu)) s = Some s' \<and> slave_idle s' \<and> app s' = app s
    \<and> line_out (rtu s') = line_out (rtu s)
        @ seal_frame crc16 [ucMBAddress s, hd pdu OR MB_FUNC_ERROR, ex_code MB_EX_ILLEGAL_FUNCTION]"
proof -
  let ?mem = "seal_frame crc16 (ucMBAddress s # pdu) @ drop (length pdu + 3) (ucRTUBuf (rtu s))"
  obtain c cs where pdu: "pdu = c # cs"
    using assms(2) by (cases pdu) auto
  have "?mem ! 1 = hd pdu"
    by (simp add: pdu seal_frame_def)
  then have h: "handle_request (xFuncHandlers s) ?mem (of_nat (length pdu)) (app s)
      = Some (MB_EX_ILLEGAL_FUNCTION, ?mem, of_nat (length pdu), app s)"
    unfolding handle_request_def using assms(5) by simp
  have len: "length ?mem = 256"
    using assms(1,3) by (simp add: slave_idle_def)
  have "(of_nat (length pdu) :: u16) \<le> 253"
    using assms(3) by (simp add: word_le_nat_alt unat16_of_nat)
  from serve_request [OF assms(1-4) h len this] show ?thesis
    by (auto simp: reply_pdu_def)
qed

definition slave_boot :: slave_state where
  "slave_boot = \<lparr>ucMBAddress = 0, eMBCurrentMode = MB_RTU, eMBState = STATE_NOT_INITIALIZED,
     frame_functions = False, xFuncHandlers = xFuncHandlers_init, ucMBFrame = None, ucRcvAddress = 0,
     ucFunctionCode = 0, usLength = 0, eException = MB_EX_NONE, rtu = rtu_boot, app = app_boot\<rparr>"

definition slave_ready :: slave_state where
  "slave_ready = slave_boot\<lparr>ucMBAddress := 5, eMBState := STATE_ENABLED, frame_functions := True,
     rtu := rtu_boot\<lparr>eRcvState := STATE_RX_IDLE, rx_enabled := True\<rparr>\<rparr>"

lemma slave_ready_idle: "slave_idle slave_ready"
  by (simp add: slave_idle_def slave_ready_def slave_boot_def rtu_boot_def)

lemma slave_ready_simps [simp]: "ucMBAddress slave_ready = 5" "xFuncHandlers slave_ready = xFuncHandlers_init"
  "app slave_ready = app_boot" "line_out (rtu slave_ready) = []"
  by (simp_all add: slave_ready_def slave_boot_def rtu_boot_def)

theorem unknown_function_refused_witness:
  "\<exists>s'. slave_serve (seal_frame crc16 [5, 43, 14]) slave_ready = Some s' \<and> slave_idle s' \<and> app s' = app_boot
    \<and> line_out (rtu s') = seal_frame crc16 [5, 43 OR MB_FUNC_ERROR, ex_code MB_EX_ILLEGAL_FUNCTION]"
  using unknown_function_refused [OF slave_ready_idle, of "[43, 14]"] by (simp add: find_standard)

section \<open>Reading and writing holding registers\<close>

text \<open>A request with two words behind the function code, in a frame addressed to \<open>addr\<close>.\<close>

definition two_word_pdu :: "u8 \<Rightarrow> u16 \<Rightarrow> u16 \<Rightarrow> u8 list" where
  "two_word_pdu code v w = [code, hi8 v, lo8 v, hi8 w, lo8 w]"

lemma two_word_frame:
  assumes "mem = addr # two_word_pdu code v w @ rest"
  shows "mem ! 1 = code" "frame_word mem 2 = Some v" "frame_word mem 4 = Some w"
  by (simp_all add: assms two_word_pdu_def frame_word_def rd_def byte_simps)

lemma read_holding_reply:
  assumes r: "tables_declared r" and a: "100 \<le> unat ra" "unat ra + unat rn \<le> 110" "1 \<le> unat rn"
    and mem: "mem = addr # two_word_pdu 3 ra rn @ rest" "length mem = 256"
  defines "buf \<equiv> with_turbidity (zhuodu_data r) (usSRegHoldBuf r)"
  defines "bytes \<equiv> be_bytes (take (unat rn) (drop (unat ra - 100) buf))"
  shows "\<exists>mem'. eMBFuncReadHoldingRegister eMBRegHoldingCB mem 1 5 r
      = Some (MB_EX_NONE, mem', 2 + rn * 2, r\<lparr>usSRegHoldBuf := buf\<rparr>)
    \<and> length mem' = 256 \<and> take (unat (2 + rn * 2)) (drop 1 mem') = 3 # ucast (rn * 2) # bytes"
proof -
  let ?m = "mem[1 := 3, 2 := ucast (rn * 2)]"
  have n: "unat (2 + rn * 2) = 2 + 2 * unat rn"
    using a by (simp add: unat_word_ariths)
  have lb: "length bytes = 2 * unat rn"
    using r a by (simp add: bytes_def buf_def tables_declared_def)
  have cb: "eMBRegHoldingCB ?m 3 (ra + 1) rn MB_REG_READ r
      = Some (MB_ENOERR, splice ?m 3 bytes, r\<lparr>usSRegHoldBuf := buf\<rparr>)"
    using HoldingCB_in(1) [OF r, of "ra + 1" "unat ra" rn "unat rn" 3 ?m] a mem(2)
    by (simp add: bytes_def buf_def Let_def)
  have "1 \<le> rn" "rn \<le> 0x7D"
    using a by (simp_all add: word_le_nat_alt)
  moreover have "take (unat (2 + rn * 2)) (drop 1 (splice ?m 3 bytes)) = 3 # ucast (rn * 2) # bytes"
    unfolding n using mem lb by (simp add: splice_def two_word_pdu_def numeral_3_eq_3 numeral_2_eq_2)
  ultimately show ?thesis
    using cb mem(2) two_word_frame [OF mem(1)] lb a
    by (simp add: eMBFuncReadHoldingRegister_def pdu_defs MB_FUNC_READ_HOLDING_REGISTER_def wr_in
        eval_nat_numeral)
qed

lemma holding_read_served:
  assumes idle: "slave_idle s" "ucMBAddress s \<noteq> 0" "xFuncHandlers s = xFuncHandlers_init"
    and r: "tables_declared (regs (app s))"
    and range: "100 \<le> unat ra" "unat ra + unat rn \<le> 110" "1 \<le> unat rn"
  defines "hold \<equiv> with_turbidity (zhuodu_data (regs (app s))) (usSRegHoldBuf (regs (app s)))"
  shows "\<exists>s'. slave_serve (seal_frame crc16 (ucMBAddress s # two_word_pdu 3 ra rn)) s = Some s'
    \<and> slave_idle s' \<and> usSRegHoldBuf (regs (app s')) = hold
    \<and> line_out (rtu s') = line_out (rtu s) @ seal_frame crc16
        (ucMBAddress s # 3 # ucast (rn * 2) # be_bytes (take (unat rn) (drop (unat ra - 100) hold)))"
proof -
  let ?pdu = "two_word_pdu 3 ra rn"
  define M where "M = seal_frame crc16 (ucMBAddress s # ?pdu) @ drop (length ?pdu + 3) (ucRTUBuf (rtu s))"
  have lp: "length ?pdu = 5" "hd ?pdu = 3"
    by (simp_all add: two_word_pdu_def)
  have len: "length M = 256"
    using idle(1) lp by (simp add: slave_idle_def M_def)
  obtain rest where mem: "M = ucMBAddress s # ?pdu @ rest"
    by (simp add: seal_frame_def M_def)
  from read_holding_reply [OF r range mem len] obtain mem' where m:
      "eMBFuncReadHoldingRegister eMBRegHoldingCB M 1 5 (regs (app s))
        = Some (MB_EX_NONE, mem', 2 + rn * 2, (regs (app s))\<lparr>usSRegHoldBuf := hold\<rparr>)"
      "length mem' = 256"
      "take (unat (2 + rn * 2)) (drop 1 mem')
        = 3 # ucast (rn * 2) # be_bytes (take (unat rn) (drop (unat ra - 100) hold))"
    unfolding hold_def by blast
  have h: "handle_request (xFuncHandlers s) M (of_nat (length ?pdu)) (app s)
      = Some (MB_EX_NONE, mem', 2 + rn * 2, (app s)\<lparr>regs := (regs (app s))\<lparr>usSRegHoldBuf := hold\<rparr>\<rparr>)"
    unfolding handle_request_def two_word_frame(1) [OF mem] idle(3) find_standard lp
    by (simp add: on_regs_def m(1) del: One_nat_def)
  have "2 + rn * 2 \<le> 253"
    using range by (intro reply_length) (simp add: word_le_nat_alt)
  from serve_request [OF idle(1) _ _ idle(2) h [unfolded M_def] m(2) this] show ?thesis
    by (auto simp: lp reply_pdu_def m(3) simp del: One_nat_def)
qed

text \<open>
  C1. The slave end to end: a master's request to read \<open>n\<close> holding registers from address
  \<open>a\<close> on, both inside 100 to 109, is answered on the line with a frame of the slave's address,
  function code 3, the byte count and the registers high byte first, registers 100 and 101
  being the current turbidity; the CRC is correct and the slave is ready for the next request.
\<close>

theorem read_holding_served:
  assumes idle: "slave_idle s" "ucMBAddress s \<noteq> 0" "xFuncHandlers s = xFuncHandlers_init"
    and r: "tables_declared (regs (app s))"
    and range: "100 \<le> unat ra" "unat ra + unat rn \<le> 110" "1 \<le> unat rn"
  defines "hold \<equiv> with_turbidity (zhuodu_data (regs (app s))) (usSRegHoldBuf (regs (app s)))"
  shows "\<exists>s'. slave_serve (seal_frame crc16 (ucMBAddress s # two_word_pdu 3 ra rn)) s = Some s'
    \<and> slave_idle s' \<and> usSRegHoldBuf (regs (app s')) = hold
    \<and> line_out (rtu s') = line_out (rtu s) @ seal_frame crc16
        (ucMBAddress s # 3 # ucast (rn * 2) # be_bytes (take (unat rn) (drop (unat ra - 100) hold)))"
  unfolding hold_def by (rule holding_read_served [OF assms(1-7)])

theorem read_holding_served_witness:
  "\<exists>s'. slave_serve (seal_frame crc16 (ucMBAddress slave_ready # two_word_pdu 3 100 2)) slave_ready = Some s'
    \<and> slave_idle s'
    \<and> usSRegHoldBuf (regs (app s'))
        = with_turbidity (zhuodu_data (regs (app slave_ready))) (usSRegHoldBuf (regs (app slave_ready)))
    \<and> line_out (rtu s') = line_out (rtu slave_ready) @ seal_frame crc16
        (ucMBAddress slave_ready # 3 # ucast (2 * 2 :: u16) # be_bytes (take (unat (2 :: u16)) (drop (unat (100 :: u16) - 100)
          (with_turbidity (zhuodu_data (regs (app slave_ready))) (usSRegHoldBuf (regs (app slave_ready)))))))"
  by (rule read_holding_served [OF slave_ready_idle])
     (use app_boot_ok in \<open>simp_all add: app_ok_def regs_guarded_def\<close>)

text \<open>
  A frame for another station is ignored: no reply, no change of the application.
\<close>

theorem other_station_ignored:
  assumes "slave_idle s" "1 \<le> length pdu" "length pdu \<le> 252"
    and "addr \<noteq> ucMBAddress s" "addr \<noteq> MB_ADDRESS_BROADCAST"
  shows "\<exists>s'. slave_serve (seal_frame crc16 (addr # pdu)) s = Some s' \<and> slave_idle s' \<and> app s' = app s
    \<and> line_out (rtu s') = line_out (rtu s)"
proof -
  obtain r1 b where "rtu_feed (seal_frame crc16 (addr # pdu)) (rtu s) = Some r1"
      "xMBRTUTimerT35Expired r1 = Some (b, frame_received addr pdu (rtu s))"
    using feed_request [OF assms(1-3)] by blast
  moreover have "eMBPoll (s\<lparr>rtu := frame_received addr pdu (rtu s)\<rparr>) = Some (Returned MB_ENOERR,
    s\<lparr>ucRcvAddress := addr, ucMBFrame := Some 1, usLength := of_nat (length pdu),
      rtu := (frame_received addr pdu (rtu s))\<lparr>slave_event := 0\<rparr>\<rparr>)"
    using poll_received [OF assms(1-3), of addr] assms(4,5) by simp
  ultimately show ?thesis
    using assms(1,3)
    by (simp add: slave_serve_def eMBPoll_def xMBPortEventGet_def slave_idle_def rtu_transmit_stopped
        frame_received_def)
qed

theorem other_station_ignored_witness:
  "\<exists>s'. slave_serve (seal_frame crc16 (9 # [3, 0, 100, 0, 1])) slave_ready = Some s' \<and> slave_idle s'
    \<and> app s' = app slave_ready \<and> line_out (rtu s') = line_out (rtu slave_ready)"
  by (rule other_station_ignored [OF slave_ready_idle]) (simp_all add: MB_ADDRESS_BROADCAST_def)

lemma execute_silent:
  assumes "ucMBFrame s = Some 1" "ucRcvAddress s = MB_ADDRESS_BROADCAST" "length (ucRTUBuf (rtu s)) = 256"
    and h: "handle_request (xFuncHandlers s) (ucRTUBuf (rtu s)) (usLength s) (app s) = Some (ex, mem, len, a)"
  shows "\<exists>s'. poll_execute s = Some s' \<and> app s' = a \<and> eMBState s' = eMBState s
    \<and> rtu s' = (rtu s)\<lparr>ucRTUBuf := mem\<rparr>"
proof (cases "find_handler (xFuncHandlers s) (ucRTUBuf (rtu s) ! 1)")
  case None
  with h assms(1-3) show ?thesis
    by (simp add: handle_request_def poll_execute_def poll_reply_def rd_in MB_PDU_FUNC_OFF_def)
next
  case (Some px)
  with h obtain f where "px = Some f" "pxHandler f (ucRTUBuf (rtu s)) 1 (usLength s) (app s) = Some (ex, mem, len, a)"
    by (auto simp: handle_request_def bind_eq_Some_conv)
  with Some assms(1-3) show ?thesis
    by (simp add: poll_execute_def poll_reply_def rd_in MB_PDU_FUNC_OFF_def)
qed

text \<open>
  A broadcast request is executed and never answered.
\<close>

theorem broadcast_executed_silently:
  assumes "slave_idle s" "1 \<le> length pdu" "length pdu \<le> 252"
    and "handle_request (xFuncHandlers s)
        (seal_frame crc16 (MB_ADDRESS_BROADCAST # pdu) @ drop (length pdu + 3) (ucRTUBuf (rtu s)))
        (of_nat (length pdu)) (app s) = Some (ex, mem, len, a)"
    and "length mem = 256"
  shows "\<exists>s'. slave_serve (seal_frame crc16 (MB_ADDRESS_BROADCAST # pdu)) s = Some s' \<and> slave_idle s'
    \<and> app s' = a \<and> line_out (rtu s') = line_out (rtu s)"
proof -
  let ?b = MB_ADDRESS_BROADCAST
  let ?s1 = "s\<lparr>ucRcvAddress := ?b, ucMBFrame := Some 1, usLength := of_nat (length pdu),
      rtu := (frame_received ?b pdu (rtu s))\<lparr>slave_event := 4\<rparr>\<rparr>"
  let ?s1' = "?s1\<lparr>rtu := (rtu ?s1)\<lparr>slave_event := 0\<rparr>\<rparr>"
  obtain r1 b where "rtu_feed (seal_frame crc16 (?b # pdu)) (rtu s) = Some r1"
      "xMBRTUTimerT35Expired r1 = Some (b, frame_received ?b pdu (rtu s))"
    using feed_request [OF assms(1-3)] by blast
  moreover have "eMBPoll (s\<lparr>rtu := frame_received ?b pdu (rtu s)\<rparr>) = Some (Returned MB_ENOERR, ?s1)"
    using poll_received [OF assms(1-3), of ?b] by simp
  moreover obtain s2 where "poll_execute ?s1' = Some s2" and s2: "app s2 = a"
      "eMBState s2 = STATE_ENABLED" "rtu s2 = (rtu ?s1')\<lparr>ucRTUBuf := mem\<rparr>"
    using execute_silent [of ?s1' ex mem len a] assms(1,3,4)
    by (auto simp: slave_idle_def frame_received_def MB_ADDRESS_BROADCAST_def)
  moreover from this have "eMBPoll ?s1 = Some (Returned MB_ENOERR, s2)"
    using assms(1) by (simp add: eMBPoll_def xMBPortEventGet_def event_of_def slave_idle_def)
  moreover have "eMBPoll (s2\<lparr>rtu := rtu s2\<rparr>) = Some (Blocked, s2)"
    using s2 by (simp add: eMBPoll_def xMBPortEventGet_def)
  moreover have "rtu_transmit 300 (rtu s2) = Some (rtu s2)"
    using s2 assms(1) by (intro rtu_transmit_stopped) (simp add: frame_received_def slave_idle_def)
  moreover have "slave_idle s2" "line_out (rtu s2) = line_out (rtu s)"
    using s2 assms(1,5) by (simp_all add: slave_idle_def frame_received_def)
  ultimately show ?thesis
    by (simp add: slave_serve_def del: One_nat_def)
qed

theorem broadcast_executed_silently_witness:
  "\<exists>s'. slave_serve (seal_frame crc16 (MB_ADDRESS_BROADCAST # [43, 14])) slave_ready = Some s' \<and> slave_idle s'
    \<and> app s' = app slave_ready \<and> line_out (rtu s') = line_out (rtu slave_ready)"
proof (rule broadcast_executed_silently [OF slave_ready_idle])
  let ?mem = "seal_frame crc16 (MB_ADDRESS_BROADCAST # [43, 14])
    @ drop (length [43, 14 :: u8] + 3) (ucRTUBuf (rtu slave_ready))"
  have "?mem ! 1 = 43"
    by (simp add: seal_frame_def)
  then show "handle_request (xFuncHandlers slave_ready) ?mem (of_nat (length [43, 14 :: u8])) (app slave_ready)
      = Some (MB_EX_ILLEGAL_FUNCTION, ?mem, 2, app slave_ready)"
    unfolding handle_request_def by (simp add: find_standard)
  show "length ?mem = 256"
    using slave_ready_idle by (simp add: slave_idle_def)
qed simp_all

section \<open>Interleavings of the whole slave\<close>

text \<open>
  The steps of the enabled slave: the interrupt, the timer and the transmit thread when the
  port lets them run, and the poll thread at any time. A blocked poll is no step.
\<close>

inductive slave_step :: "slave_state \<Rightarrow> slave_state \<Rightarrow> bool" where
  rx: "rx_enabled (rtu s) \<Longrightarrow> xMBRTUReceiveFSM b (rtu s) = Some (np, r) \<Longrightarrow> slave_step s (s\<lparr>rtu := r\<rparr>)"
| timer: "t35_running (rtu s) \<Longrightarrow> xMBRTUTimerT35Expired (rtu s) = Some (np, r) \<Longrightarrow> slave_step s (s\<lparr>rtu := r\<rparr>)"
| tx: "tx_start (rtu s) \<Longrightarrow> xMBRTUTransmitFSM (rtu s) = Some (np, r) \<Longrightarrow> slave_step s (s\<lparr>rtu := r\<rparr>)"
| poll: "eMBPoll s = Some (Returned e, s') \<Longrightarrow> slave_step s s'"

inductive slave_reachable :: "slave_state \<Rightarrow> slave_state \<Rightarrow> bool" for s0 where
  enabled: "eMBEnable s0 = Some (MB_ENOERR, s) \<Longrightarrow> slave_reachable s0 s"
| stepped: "slave_reachable s0 s \<Longrightarrow> slave_step s s' \<Longrightarrow> slave_reachable s0 s'"

definition table_ok :: "(u8 \<times> 'h option) list \<Rightarrow> bool" where
  "table_ok t \<longleftrightarrow> (\<forall>c px. (c, px) \<in> set t \<longrightarrow> c \<noteq> 0 \<longrightarrow> px \<noteq> None)"

definition slave_inv :: "slave_state \<Rightarrow> bool" where
  "slave_inv s \<longleftrightarrow> rtu_inv (rtu s) \<and> app_ok (app s) \<and> table_ok (xFuncHandlers s)
     \<and> (slave_event (rtu s) AND 4 \<noteq> 0 \<longrightarrow> ucMBFrame s = Some 1 \<and> usLength s \<le> 253)"

text \<open>At most one event is pending, and no 256-byte frame waits to be read.\<close>

definition poll_expected :: "rtu_state \<Rightarrow> bool" where
  "poll_expected r \<longleftrightarrow> slave_event r AND 15 \<in> {0, 1, 2, 4, 8} \<and> usRcvBufferPos r < 256"

lemma find_table_ok: "table_ok t \<Longrightarrow> find_handler t c = Some px \<Longrightarrow> \<exists>h. px = Some h"
  by (induction t c rule: find_handler.induct) (auto simp: table_ok_def split: if_splits)

lemma standard_table_ok: "table_ok xFuncHandlers_init"
  by (auto simp: table_ok_def xFuncHandlers_init_def)

lemma or_and_4: "(x OR 1) AND 4 = x AND (4 :: u32)" "(x OR 2) AND 4 = x AND (4 :: u32)"
  "(x OR 8) AND 4 = x AND (4 :: u32)" "(x AND - 16) AND 4 = (0 :: u32)"
  by (simp_all add: bit.conj_disj_distrib2 bit.conj_disj_distrib and.assoc)

lemma rx_event: "xMBRTUReceiveFSM b r = Some (np, r') \<Longrightarrow> slave_event r' = slave_event r"
  by (auto simp: xMBRTUReceiveFSM_def port_defs bind_eq_Some_conv split: eMBRcvState.splits if_splits)

lemma timer_event: "xMBRTUTimerT35Expired r = Some (np, r') \<Longrightarrow> slave_event r' AND 4 = slave_event r AND 4"
  by (auto simp: xMBRTUTimerT35Expired_def port_defs bind_eq_Some_conv or_and_4 split: eMBRcvState.splits)

lemma tx_event: "xMBRTUTransmitFSM r = Some (np, r') \<Longrightarrow> slave_event r' AND 4 = slave_event r AND 4"
  by (auto simp: xMBRTUTransmitFSM_def port_defs bind_eq_Some_conv or_and_4
      split: eMBSndState.splits if_splits)

lemma rtu_inv_event [simp]: "rtu_inv (r\<lparr>slave_event := e\<rparr>) = rtu_inv r"
  by (simp add: rtu_inv_def)

lemma rtu_inv_buf: "rtu_inv r \<Longrightarrow> length mem = 256 \<Longrightarrow> rtu_inv (r\<lparr>ucRTUBuf := mem\<rparr>)"
  by (simp add: rtu_inv_def)

lemma send_event: "eMBRTUSend a p len r = Some (e, r') \<Longrightarrow> slave_event r' = slave_event r"
  by (auto simp: eMBRTUSend_def port_defs Let_def bind_eq_Some_conv split: if_splits)

lemma send_wp:
  assumes "rtu_inv r" "len \<le> 253"
    and "\<And>e r'. rtu_inv r' \<Longrightarrow> slave_event r' = slave_event r \<Longrightarrow> P (e, r')"
  shows "yields (eMBRTUSend a 1 len r) P"
proof -
  have "unat len \<le> 253"
    using assms(2) by (simp add: word_le_nat_alt)
  from rtu_inv_send [OF assms(1) this, of a] send_event [of a 1 len r] assms(3) show ?thesis
    by (auto simp: yields_iff)
qed

definition executed :: "slave_state \<Rightarrow> slave_state \<Rightarrow> bool" where
  "executed s s' \<longleftrightarrow> rtu_inv (rtu s') \<and> app_ok (app s') \<and> xFuncHandlers s' = xFuncHandlers s
     \<and> slave_event (rtu s') = slave_event (rtu s)"

lemma execute_tail:
  assumes "rtu_inv (rtu s)" "app_ok (app s)" "usLength s \<le> 253"
    and "xFuncHandlers s = xFuncHandlers s0" "slave_event (rtu s) = slave_event (rtu s0)"
  shows "yields (poll_reply s 1) (executed s0)"
  using assms
  by (auto simp: poll_reply_def wp_simps executed_def rtu_inv_buf rtu_inv_def [of "rtu s"] simp del: One_nat_def
      intro!: send_wp)

lemma execute_wp:
  assumes "ucMBFrame s = Some 1" "usLength s \<le> 253"
    and "rtu_inv (rtu s)" "app_ok (app s)" "table_ok (xFuncHandlers s)"
  shows "yields (poll_execute s) (executed s)"
proof -
  have len: "length (ucRTUBuf (rtu s)) = 256"
    using assms(3) by (simp add: rtu_inv_def)
  have rd1: "rd (ucRTUBuf (rtu s)) 1 = Some (ucRTUBuf (rtu s) ! 1)"
    using len by (intro rd_in) simp
  show ?thesis
  proof (cases "find_handler (xFuncHandlers s) (ucRTUBuf (rtu s) ! 1)")
    case None
    with assms show ?thesis
      by (simp add: poll_execute_def MB_PDU_FUNC_OFF_def rd1 wp_simps execute_tail del: One_nat_def)
  next
    case (Some px)
    then obtain h where "px = Some h"
      using find_table_ok [OF assms(5)] by blast
    with Some assms len show ?thesis
      by (auto simp: poll_execute_def MB_PDU_FUNC_OFF_def rd1 yields_bind yields_Some rtu_inv_buf
          simp del: One_nat_def intro!: pxHandler_wp execute_tail)
  qed
qed

lemma receive_length:
  assumes "eMBRTUReceive r = Some (e, Some (addr, p, len))"
  shows "p = 1 \<and> len \<le> 253"
proof -
  have pos: "usRcvBufferPos r < 256" "4 \<le> usRcvBufferPos r" and out: "p = 1" "len = usRcvBufferPos r - 1 - 2"
    using assms
    by (auto simp: eMBRTUReceive_def ser_pdu_defs bind_eq_Some_conv c_assert_Some_iff split: if_splits)
  have "unat (usRcvBufferPos r - 1 - 2) = unat (usRcvBufferPos r) - 3"
    using pos(2) by (simp add: unat_sub word_le_nat_alt)
  with pos out show ?thesis
    by (simp add: word_le_nat_alt word_less_nat_alt)
qed

lemma event_bit_4: "x AND 15 = (4 :: u32) \<Longrightarrow> x AND 4 \<noteq> 0"
proof -
  assume "x AND 15 = 4"
  moreover have "(x AND 15) AND 4 = x AND 4"
    by (simp add: and.assoc)
  ultimately show ?thesis by simp
qed

lemma clear_events: "slave_inv s \<Longrightarrow>
  slave_inv (s\<lparr>rtu := (rtu s)\<lparr>slave_event := slave_event (rtu s) AND NOT 15\<rparr>\<rparr>)"
  by (simp add: slave_inv_def or_and_4)

lemma switch_inv:
  assumes "slave_inv s" "poll_switch ev s = Some s'" and clear: "slave_event (rtu s) AND 4 = 0"
    and "ev = EV_EXECUTE \<Longrightarrow> ucMBFrame s = Some 1 \<and> usLength s \<le> 253"
  shows "slave_inv s'"
proof (cases ev)
  case EV_FRAME_RECEIVED
  show ?thesis
  proof (cases "eMBRTUReceive (rtu s)")
    case None
    with EV_FRAME_RECEIVED assms(2) show ?thesis by simp
  next
    case (Some res)
    show ?thesis
    proof (cases "snd res")
      case None
      with Some EV_FRAME_RECEIVED assms(1,2) show ?thesis by (cases res) simp
    next
      case out: (Some out)
      obtain e addr p len where res: "res = (e, Some (addr, p, len))"
        using out by (cases res; cases out) auto
      from receive_length Some res have "p = 1" "len \<le> 253" by blast+
      with Some res EV_FRAME_RECEIVED assms(1,2) show ?thesis
        by (auto simp: slave_inv_def xMBPortEventPost_def Let_def split: if_splits)
    qed
  qed
next
  case EV_EXECUTE
  with assms have "yields (poll_execute s) (executed s)"
    by (intro execute_wp) (auto simp: slave_inv_def)
  with EV_EXECUTE assms show ?thesis
    by (auto simp: yields_iff executed_def slave_inv_def)
qed (use assms in auto)

lemma poll_inv:
  assumes inv: "slave_inv s" and p: "eMBPoll s = Some (e, s')"
  shows "slave_inv s'"
proof (cases "eMBState s = STATE_ENABLED \<and> slave_event (rtu s) AND 15 \<noteq> 0")
  case False
  with assms show ?thesis
    by (auto simp: eMBPoll_def xMBPortEventGet_def Let_def split: if_splits)
next
  case True
  let ?s = "s\<lparr>rtu := (rtu s)\<lparr>slave_event := slave_event (rtu s) AND NOT 15\<rparr>\<rparr>"
  from p True obtain ev where ev: "event_of (slave_event (rtu s) AND 15) = Some ev" "poll_switch ev ?s = Some s'"
    using eMBPoll_event [of s] by (auto simp: bind_eq_Some_conv simp del: poll_switch.simps)
  have "ucMBFrame ?s = Some 1 \<and> usLength ?s \<le> 253" if "ev = EV_EXECUTE"
  proof -
    have "slave_event (rtu s) AND 15 = 4"
      using ev that by (auto simp: event_of_def split: if_splits)
    with inv show ?thesis
      by (simp add: slave_inv_def event_bit_4)
  qed
  then show ?thesis
    by (intro switch_inv [OF clear_events [OF inv] ev(2)]) (simp_all add: or_and_4)
qed

lemma step_inv:
  assumes "slave_step s s'" "slave_inv s"
  shows "slave_inv s'"
  using assms
proof (cases rule: slave_step.cases)
  case (rx b np r)
  with rtu_inv_rx [of "rtu s" b] rx_event [of b "rtu s"] assms(2) show ?thesis
    by (auto simp: slave_inv_def)
next
  case (timer np r)
  with rtu_inv_timer [of "rtu s"] timer_event [of "rtu s"] assms(2) show ?thesis
    by (auto simp: slave_inv_def)
next
  case (tx np r)
  with rtu_inv_tx [of "rtu s"] tx_event [of "rtu s"] assms(2) show ?thesis
    by (auto simp: slave_inv_def)
next
  case (poll e)
  with poll_inv assms(2) show ?thesis by blast
qed

text \<open>The slave as \<open>eMBInit\<close> leaves it.\<close>

definition slave_stopped :: "slave_state \<Rightarrow> bool" where
  "slave_stopped s \<longleftrightarrow> eMBState s = STATE_DISABLED \<and> length (ucRTUBuf (rtu s)) = 256
     \<and> unat (usRcvBufferPos (rtu s)) \<le> 256 \<and> eSndState (rtu s) = STATE_TX_IDLE
     \<and> slave_event (rtu s) = 0 \<and> app_ok (app s) \<and> table_ok (xFuncHandlers s)"

lemma enable_inv: "slave_stopped s \<Longrightarrow> eMBEnable s = Some (e, s') \<Longrightarrow> slave_inv s'"
  using rtu_inv_start [of "rtu s"]
  by (auto simp: slave_stopped_def eMBEnable_def slave_inv_def bind_eq_Some_conv eMBRTUStart_def port_defs)

lemma slave_reachable_inv: "slave_reachable s0 s \<Longrightarrow> slave_stopped s0 \<Longrightarrow> slave_inv s"
  by (induction rule: slave_reachable.induct) (auto intro: enable_inv step_inv)



text \<open>
  Two different events that are posted before the poll thread runs are both taken out of
  the event set by one \<open>xMBPortEventGet\<close>, which then leaves the event of \<open>eMBPoll\<close> uninitialised.
\<close>

theorem two_events_undefined:
  assumes "eMBState s = STATE_ENABLED" "slave_event (rtu s) = 0" "e1 \<noteq> e2"
  shows "\<exists>r r'. r = snd (xMBPortEventPost e2 (snd (xMBPortEventPost e1 (rtu s))))
    \<and> xMBPortEventGet r = (Returned None, r') \<and> slave_event r' = 0 \<and> eMBPoll (s\<lparr>rtu := r\<rparr>) = None"
  using assms
  by (cases e1; cases e2)
     (simp_all add: xMBPortEventPost_def xMBPortEventGet_def event_of_def eMBPoll_def)

theorem two_events_undefined_witness:
  "\<exists>r r'. r = snd (xMBPortEventPost EV_EXECUTE (snd (xMBPortEventPost EV_FRAME_SENT (rtu slave_ready))))
    \<and> xMBPortEventGet r = (Returned None, r') \<and> slave_event r' = 0 \<and> eMBPoll (slave_ready\<lparr>rtu := r\<rparr>) = None"
  by (rule two_events_undefined) (simp_all add: slave_ready_def slave_boot_def rtu_boot_def)

section \<open>Registering handlers\<close>

text \<open>
  Removing a handler hides every handler behind it: \<open>eMBRegisterCB\<close> leaves a hole with
  function code 0 in the table, at which the search of \<open>eMBPoll\<close> ends.
\<close>

theorem remove_hides_the_rest:
  assumes "0 < code" "code \<le> 127" "0 \<notin> fst ` set xs" "code \<notin> fst ` set xs"
  shows "eMBRegisterCB code None (xs @ (code, px) # ys) = (MB_ENOERR, xs @ (0, None) # ys)
    \<and> (\<forall>c. find_handler (xs @ (0, None) # ys) c = find_handler xs c)"
proof
  have "remove_loop (xs @ (code, px) # ys) code = xs @ (0, None) # ys"
    using assms(4) by (induction xs) auto
  then show "eMBRegisterCB code None (xs @ (code, px) # ys) = (MB_ENOERR, xs @ (0, None) # ys)"
    using assms(1,2) by (simp add: eMBRegisterCB_def)
  have "find_handler (xs @ (0, None) # ys) c = find_handler xs c" for c
    using assms(3) by (induction xs) auto
  then show "\<forall>c. find_handler (xs @ (0, None) # ys) c = find_handler xs c" by blast
qed

theorem remove_hides_the_rest_witness:
  "\<exists>t. eMBRegisterCB MB_FUNC_READ_INPUT_REGISTER None xFuncHandlers_init = (MB_ENOERR, t)
    \<and> find_handler t MB_FUNC_READ_HOLDING_REGISTER = None"
proof -
  obtain ys where t: "xFuncHandlers_init
      = [(17, Some H_ReportSlaveID)] @ (4, Some H_ReadInputRegister) # ys"
    by (simp add: xFuncHandlers_init_def mb_func_defs)
  show ?thesis
    using remove_hides_the_rest [of 4 "[(17, Some H_ReportSlaveID)]" "Some H_ReadInputRegister" ys]
    unfolding t by (auto simp: mb_func_defs)
qed

text \<open>
  Registering a handler that the table does not hold, under a code it does not use,
  while there is room, makes exactly that code dispatch to it and changes no other code.
\<close>

theorem register_adds:
  assumes "0 < code" "code \<le> 127" "0 < n" "0 \<notin> fst ` set xs" "code \<notin> fst ` set xs"
    "None \<notin> snd ` set xs" "Some h \<notin> snd ` set xs"
  shows "\<exists>t. eMBRegisterCB code (Some h) (xs @ replicate n (0, None)) = (MB_ENOERR, t)
    \<and> length t = length xs + n
    \<and> (\<forall>c. find_handler t c = (if c = code then Some (Some h) else find_handler (xs @ replicate n (0, None)) c))"
proof -
  obtain m where n: "n = Suc m"
    using assms(3) by (cases n) auto
  let ?t = "xs @ (code, Some h) # replicate m (0, None)"
  have "register_loop (xs @ replicate n (0, None)) code h = Some ?t"
    using assms(6,7) by (induction xs) (auto simp: n)
  moreover have "find_handler ?t c
      = (if c = code then Some (Some h) else find_handler (xs @ replicate n (0, None)) c)" for c
    using assms(1,4,5) by (induction xs) (auto simp: n find_empty)
  ultimately show ?thesis
    using assms(1,2) by (intro exI [of _ ?t]) (simp add: eMBRegisterCB_def n)
qed

theorem register_adds_witness:
  "\<exists>t. eMBRegisterCB 65 (Some H_ReadCoils) ([(3, Some H_ReadHoldingRegister)] @ replicate 2 (0, None)) = (MB_ENOERR, t)
    \<and> length t = length [(3 :: u8, Some H_ReadHoldingRegister)] + 2
    \<and> (\<forall>c. find_handler t c = (if c = 65 then Some (Some H_ReadCoils)
        else find_handler ([(3, Some H_ReadHoldingRegister)] @ replicate 2 (0, None)) c))"
  by (rule register_adds) simp_all

section \<open>Starting the slave\<close>

lemmas address_defs = MB_ADDRESS_BROADCAST_def MB_ADDRESS_MIN_def MB_ADDRESS_MAX_def

text \<open>
  \<open>eMBInit\<close> in RTU mode with a legal address, one of the three ports and a baud rate other
  than zero succeeds when the serial device opens; after \<open>eMBEnable\<close>, one t3.5 of silence and
  one poll the slave is idle and ready for requests.
\<close>

theorem slave_starts:
  assumes "1 \<le> addr" "addr \<le> 247" "port \<in> {1, 2, 3}" "baud \<noteq> 0"
    and "length (ucRTUBuf (rtu s)) = 256" "eSndState (rtu s) = STATE_TX_IDLE"
  shows "\<exists>s1 s2 r s3. eMBInit True MB_RTU addr port baud parity s = Some (MB_ENOERR, s1)
      \<and> eMBEnable s1 = Some (MB_ENOERR, s2)
      \<and> xMBRTUTimerT35Expired (rtu s2) = Some (True, r)
      \<and> eMBPoll (s2\<lparr>rtu := r\<rparr>) = Some (Returned MB_ENOERR, s3)
      \<and> slave_idle s3 \<and> ucMBAddress s3 = addr \<and> app s3 = app s"
proof -
  have a: "addr \<noteq> 0" "\<not> addr < 1" "\<not> 247 < addr"
    using assms(1,2) by auto
  obtain r1 where r1: "eMBRTUInit True addr port baud parity (rtu s) = Some (MB_ENOERR, r1)"
      "ucRTUBuf r1 = ucRTUBuf (rtu s)" "eSndState r1 = eSndState (rtu s)"
    using assms(3,4) by (auto simp: eMBRTUInit_def xMBPortSerialInit_def xMBPortTimersInit_def)
  let ?s1 = "s\<lparr>ucMBAddress := addr, frame_functions := True, rtu := r1\<lparr>slave_event := 0\<rparr>,
    eMBCurrentMode := MB_RTU, eMBState := STATE_DISABLED\<rparr>"
  have "eMBInit True MB_RTU addr port baud parity s = Some (MB_ENOERR, ?s1)"
    using a r1 by (simp add: eMBInit_def address_defs xMBPortEventInit_def)
  then show ?thesis
    using assms(5,6) r1
    by (simp add: eMBEnable_def eMBRTUStart_def port_defs xMBRTUTimerT35Expired_def eMBPoll_def
        xMBPortEventGet_def event_of_def slave_idle_def)
qed

theorem slave_starts_witness:
  "\<exists>s1 s2 r s3. eMBInit True MB_RTU 5 3 9600 MB_PAR_NONE slave_boot = Some (MB_ENOERR, s1)
      \<and> eMBEnable s1 = Some (MB_ENOERR, s2)
      \<and> xMBRTUTimerT35Expired (rtu s2) = Some (True, r)
      \<and> eMBPoll (s2\<lparr>rtu := r\<rparr>) = Some (Returned MB_ENOERR, s3)
      \<and> slave_idle s3 \<and> ucMBAddress s3 = 5 \<and> app s3 = app slave_boot"
  by (rule slave_starts) (simp_all add: slave_boot_def rtu_boot_def)

text \<open>
  The ASCII format that the communication menu of the device offers is refused by
  \<open>eMBInit\<close>, because only RTU is compiled in; a slave initialised that way first answers
  nothing: \<open>eMBEnable\<close> and \<open>eMBPoll\<close> return \<open>MB_EILLSTATE\<close> at once and for ever.
\<close>

theorem ascii_never_starts:
  assumes "eMBState s = STATE_NOT_INITIALIZED"
  shows "\<exists>s1. eMBInit opened MB_ASCII addr port baud parity s = Some (MB_EINVAL, s1)
      \<and> eMBEnable s1 = Some (MB_EILLSTATE, s1) \<and> eMBPoll s1 = Some (Returned MB_EILLSTATE, s1)"
  using assms by (simp add: eMBInit_def eMBEnable_def eMBPoll_def)

theorem ascii_never_starts_witness:
  "\<exists>s1. eMBInit True MB_ASCII 5 3 9600 MB_PAR_NONE slave_boot = Some (MB_EINVAL, s1)
      \<and> eMBEnable s1 = Some (MB_EILLSTATE, s1) \<and> eMBPoll s1 = Some (Returned MB_EILLSTATE, s1)"
  by (rule ascii_never_starts) (simp add: slave_boot_def)

end
