(* ===== verification/Fifo.thy ===== *)
theory Fifo
  imports Prelude
begin

text \<open>
  The contract of the bounded first-in first-out queues of the program: the ring buffer of
  the device framework and the key buffer of the button driver.

  A queue is a concrete state with an abstraction \<open>elems\<close> to the list of its elements, oldest
  first. \<open>fifo\<close> promises correct behaviour as long as the queue is not full when something is
  put; \<open>bounded_fifo\<close> adds that a put into a full queue is refused. The client's view is a
  run of operations, compared with the same run on a list.
\<close>

datatype 'a qop = Put 'a | Get

text \<open>The run on a list: what the gets return, and what is left.\<close>

fun list_run :: "nat \<Rightarrow> 'a qop list \<Rightarrow> 'a list \<Rightarrow> 'a option list \<times> 'a list" where
  "list_run cap [] xs = ([], xs)"
| "list_run cap (Put a # ops) xs = list_run cap ops (if length xs < cap then xs @ [a] else xs)"
| "list_run cap (Get # ops) xs =
     (case xs of
        [] \<Rightarrow> (let (os, ys) = list_run cap ops [] in (None # os, ys))
      | x # xs \<Rightarrow> (let (os, ys) = list_run cap ops xs in (Some x # os, ys)))"

fun queue_run ::
  "('a \<Rightarrow> 'q \<Rightarrow> 'q option) \<Rightarrow> ('q \<Rightarrow> ('a option \<times> 'q) option) \<Rightarrow> 'a qop list \<Rightarrow> 'q
    \<Rightarrow> ('a option list \<times> 'q) option" where
  "queue_run put get [] q = Some ([], q)"
| "queue_run put get (Put a # ops) q = do { q \<leftarrow> put a q; queue_run put get ops q }"
| "queue_run put get (Get # ops) q = do {
     (r, q) \<leftarrow> get q;
     (rs, q) \<leftarrow> queue_run put get ops q;
     Some (r # rs, q)
   }"

text \<open>No put of the run finds the queue full.\<close>

fun fits :: "nat \<Rightarrow> 'a qop list \<Rightarrow> nat \<Rightarrow> bool" where
  "fits cap [] n = True"
| "fits cap (Put a # ops) n = (n < cap \<and> fits cap ops (n + 1))"
| "fits cap (Get # ops) n = fits cap ops (n - 1)"

locale fifo =
  fixes put :: "'a \<Rightarrow> 'q \<Rightarrow> 'q option" and get :: "'q \<Rightarrow> ('a option \<times> 'q) option"
    and legal :: "'q \<Rightarrow> bool" and elems :: "'q \<Rightarrow> 'a list" and cap :: nat
  assumes put_ok: "legal q \<Longrightarrow> length (elems q) < cap \<Longrightarrow>
      yields (put a q) (\<lambda>q'. legal q' \<and> elems q' = elems q @ [a])"
    and get_ok: "legal q \<Longrightarrow>
      yields (get q) (\<lambda>(r, q'). legal q' \<and> elems q' = tl (elems q)
        \<and> r = (if elems q = [] then None else Some (hd (elems q))))"
begin

lemma run_refines:
  "legal q \<Longrightarrow> fits cap ops (length (elems q)) \<Longrightarrow>
    yields (queue_run put get ops q)
      (\<lambda>(rs, q'). legal q' \<and> list_run cap ops (elems q) = (rs, elems q'))"
proof (induction ops arbitrary: q)
  case Nil
  then show ?case by (simp add: wp_simps)
next
  case (Cons op ops)
  show ?case
  proof (cases op)
    case (Put a)
    with Cons.prems have "length (elems q) < cap" "fits cap ops (length (elems q) + 1)"
      by simp_all
    with Put Cons.prems(1) show ?thesis
      by (auto simp: wp_simps intro!: yields_mono [OF put_ok] Cons.IH [THEN yields_mono])
  next
    case Get
    show ?thesis
      using Get Cons.prems
      by (auto simp: wp_simps neq_Nil_conv split: prod.splits
          intro!: yields_mono [OF get_ok] Cons.IH [THEN yields_mono])
  qed
qed

end

locale bounded_fifo = fifo +
  assumes put_full: "legal q \<Longrightarrow> cap \<le> length (elems q) \<Longrightarrow> put a q = Some q"
begin

lemma bounded_run_refines:
  "legal q \<Longrightarrow>
    yields (queue_run put get ops q)
      (\<lambda>(rs, q'). legal q' \<and> list_run cap ops (elems q) = (rs, elems q'))"
proof (induction ops arbitrary: q)
  case Nil
  then show ?case by (simp add: wp_simps)
next
  case (Cons op ops)
  show ?case
  proof (cases op)
    case (Put a)
    show ?thesis
    proof (cases "length (elems q) < cap")
      case True
      with Put Cons.prems show ?thesis
        by (auto simp: wp_simps intro!: yields_mono [OF put_ok] Cons.IH [THEN yields_mono])
    next
      case False
      with Put Cons.prems put_full [of q a] Cons.IH [of q] show ?thesis
        by (simp add: wp_simps)
    qed
  next
    case Get
    show ?thesis
      using Get Cons.prems
      by (auto simp: wp_simps neq_Nil_conv split: prod.splits
          intro!: yields_mono [OF get_ok] Cons.IH [THEN yields_mono])
  qed
qed

end

end
