(* ===== verification/Ring_Buffer.thy ===== *)
theory Ring_Buffer
  imports Fifo
begin

text \<open>
  \<^verbatim>\<open>components/drivers/src/ringbuffer.c\<close> and the inline functions of
  \<^verbatim>\<open>components/drivers/include/rtdevice.h\<close>: the byte ring buffer of the device framework.

  The two indices are 15-bit fields (the stores reduce modulo \<open>2 ^ 15\<close>), the mirrors are
  one-bit fields, so \<open>bool\<close>. The pool is the list \<open>buffer_ptr\<close>. Differences of lengths are
  computed in \<open>int\<close> by the code; \<open>rb_inv\<close> implies that none is negative.
\<close>

section \<open>State\<close>

record rt_ringbuffer =
  buffer_ptr :: "u8 list"
  read_mirror :: bool
  read_index :: nat
  write_mirror :: bool
  write_index :: nat
  buffer_size :: nat

datatype rt_ringbuffer_state = RT_RINGBUFFER_EMPTY | RT_RINGBUFFER_FULL | RT_RINGBUFFER_HALFFULL

definition to15 :: "nat \<Rightarrow> nat" where
  "to15 n = n mod 32768"

definition RT_ALIGN_SIZE :: nat where "RT_ALIGN_SIZE = 4"

text \<open>\<open>size\<close> is an \<open>rt_int16_t\<close>; it must be positive.\<close>

definition rt_ringbuffer_init :: "u8 list \<Rightarrow> int \<Rightarrow> rt_ringbuffer option" where
  "rt_ringbuffer_init pool sz = do {
     c_assert (sz > 0);
     Some \<lparr>buffer_ptr = pool, read_mirror = False, read_index = 0, write_mirror = False,
           write_index = 0, buffer_size = nat sz - nat sz mod RT_ALIGN_SIZE\<rparr>
   }"

definition rt_ringbuffer_status :: "rt_ringbuffer \<Rightarrow> rt_ringbuffer_state" where
  "rt_ringbuffer_status rb =
     (if read_index rb = write_index rb
      then if read_mirror rb = write_mirror rb then RT_RINGBUFFER_EMPTY else RT_RINGBUFFER_FULL
      else RT_RINGBUFFER_HALFFULL)"

definition rt_ringbuffer_data_len :: "rt_ringbuffer \<Rightarrow> nat" where
  "rt_ringbuffer_data_len rb =
     (case rt_ringbuffer_status rb of
        RT_RINGBUFFER_EMPTY \<Rightarrow> 0
      | RT_RINGBUFFER_FULL \<Rightarrow> buffer_size rb
      | RT_RINGBUFFER_HALFFULL \<Rightarrow>
          if write_index rb > read_index rb then write_index rb - read_index rb
          else buffer_size rb - (read_index rb - write_index rb))"

definition rt_ringbuffer_space_len :: "rt_ringbuffer \<Rightarrow> nat" where
  "rt_ringbuffer_space_len rb = buffer_size rb - rt_ringbuffer_data_len rb"

section \<open>Blocks\<close>

text \<open>
  The copy of \<open>length\<close> bytes to the write index, in one piece or in two. \<open>ptr\<close> is the
  caller's object from the pointer on.
\<close>

definition put_block :: "rt_ringbuffer \<Rightarrow> u8 list \<Rightarrow> nat \<Rightarrow> rt_ringbuffer option" where
  "put_block rb ptr n =
     (let wi = write_index rb; room = buffer_size rb - wi in
      if room > n
      then do {
        buf \<leftarrow> copy_bytes (buffer_ptr rb) wi ptr 0 n;
        Some (rb\<lparr>buffer_ptr := buf, write_index := to15 (wi + n)\<rparr>)
      }
      else do {
        buf \<leftarrow> copy_bytes (buffer_ptr rb) wi ptr 0 room;
        buf \<leftarrow> copy_bytes buf 0 ptr room (n - room);
        Some (rb\<lparr>buffer_ptr := buf, write_mirror := \<not> write_mirror rb, write_index := to15 (n - room)\<rparr>)
      })"

definition rt_ringbuffer_put :: "rt_ringbuffer \<Rightarrow> u8 list \<Rightarrow> u16 \<Rightarrow> (nat \<times> rt_ringbuffer) option" where
  "rt_ringbuffer_put rb ptr len =
     (let size = rt_ringbuffer_space_len rb in
      if size = 0 then Some (0, rb)
      else do {
        let n = (if size < unat len then size else unat len);
        rb \<leftarrow> put_block rb ptr n;
        Some (n, rb)
      })"

text \<open>
  When the data does not fit, the length becomes the size of the whole buffer, and the read
  index is moved to the write index after the copy.
\<close>

definition rt_ringbuffer_put_force ::
  "rt_ringbuffer \<Rightarrow> u8 list \<Rightarrow> u16 \<Rightarrow> (nat \<times> rt_ringbuffer) option" where
  "rt_ringbuffer_put_force rb ptr len =
     (let space_length = rt_ringbuffer_space_len rb;
          n = (if unat len > space_length then buffer_size rb else unat len) in
      if buffer_size rb - write_index rb > n
      then do {
        rb \<leftarrow> put_block rb ptr n;
        Some (n, if n > space_length then rb\<lparr>read_index := write_index rb\<rparr> else rb)
      }
      else do {
        rb \<leftarrow> put_block rb ptr n;
        Some (n, if n > space_length
                 then rb\<lparr>read_mirror := \<not> read_mirror rb, read_index := write_index rb\<rparr> else rb)
      })"

definition get_block :: "rt_ringbuffer \<Rightarrow> u8 list \<Rightarrow> nat \<Rightarrow> (u8 list \<times> rt_ringbuffer) option" where
  "get_block rb ptr n =
     (let ri = read_index rb; room = buffer_size rb - ri in
      if room > n
      then do {
        ptr \<leftarrow> copy_bytes ptr 0 (buffer_ptr rb) ri n;
        Some (ptr, rb\<lparr>read_index := to15 (ri + n)\<rparr>)
      }
      else do {
        ptr \<leftarrow> copy_bytes ptr 0 (buffer_ptr rb) ri room;
        ptr \<leftarrow> copy_bytes ptr room (buffer_ptr rb) 0 (n - room);
        Some (ptr, rb\<lparr>read_mirror := \<not> read_mirror rb, read_index := to15 (n - room)\<rparr>)
      })"

definition rt_ringbuffer_get ::
  "rt_ringbuffer \<Rightarrow> u8 list \<Rightarrow> u16 \<Rightarrow> (nat \<times> u8 list \<times> rt_ringbuffer) option" where
  "rt_ringbuffer_get rb ptr len =
     (let size = rt_ringbuffer_data_len rb in
      if size = 0 then Some (0, ptr, rb)
      else do {
        let n = (if size < unat len then size else unat len);
        (ptr, rb) \<leftarrow> get_block rb ptr n;
        Some (n, ptr, rb)
      })"

section \<open>Single bytes\<close>

definition rt_ringbuffer_putchar :: "rt_ringbuffer \<Rightarrow> u8 \<Rightarrow> (nat \<times> rt_ringbuffer) option" where
  "rt_ringbuffer_putchar rb ch =
     (if rt_ringbuffer_space_len rb = 0 then Some (0, rb)
      else do {
        buf \<leftarrow> wr (buffer_ptr rb) (write_index rb) ch;
        let rb = rb\<lparr>buffer_ptr := buf\<rparr>;
        Some (1, if int (write_index rb) = int (buffer_size rb) - 1
                 then rb\<lparr>write_mirror := \<not> write_mirror rb, write_index := 0\<rparr>
                 else rb\<lparr>write_index := to15 (write_index rb + 1)\<rparr>)
      })"

definition rt_ringbuffer_putchar_force :: "rt_ringbuffer \<Rightarrow> u8 \<Rightarrow> (nat \<times> rt_ringbuffer) option" where
  "rt_ringbuffer_putchar_force rb ch = do {
     let old_state = rt_ringbuffer_status rb;
     buf \<leftarrow> wr (buffer_ptr rb) (write_index rb) ch;
     let rb = rb\<lparr>buffer_ptr := buf\<rparr>;
     if int (write_index rb) = int (buffer_size rb) - 1
     then do {
       let rb = rb\<lparr>write_mirror := \<not> write_mirror rb, write_index := 0\<rparr>;
       Some (1, if old_state = RT_RINGBUFFER_FULL
                then rb\<lparr>read_mirror := \<not> read_mirror rb, read_index := write_index rb\<rparr> else rb)
     }
     else do {
       let rb = rb\<lparr>write_index := to15 (write_index rb + 1)\<rparr>;
       Some (1, if old_state = RT_RINGBUFFER_FULL then rb\<lparr>read_index := write_index rb\<rparr> else rb)
     }
   }"

text \<open>The byte read, \<open>None\<close> when the buffer is empty (and \<open>*ch\<close> is not written).\<close>

definition rt_ringbuffer_getchar :: "rt_ringbuffer \<Rightarrow> (u8 option \<times> rt_ringbuffer) option" where
  "rt_ringbuffer_getchar rb =
     (if rt_ringbuffer_data_len rb = 0 then Some (None, rb)
      else do {
        ch \<leftarrow> rd (buffer_ptr rb) (read_index rb);
        Some (Some ch, if int (read_index rb) = int (buffer_size rb) - 1
                       then rb\<lparr>read_mirror := \<not> read_mirror rb, read_index := 0\<rparr>
                       else rb\<lparr>read_index := to15 (read_index rb + 1)\<rparr>)
      })"

section \<open>Abstraction and invariant\<close>

definition rb_inv :: "rt_ringbuffer \<Rightarrow> bool" where
  "rb_inv rb \<longleftrightarrow> 0 < buffer_size rb \<and> buffer_size rb \<le> length (buffer_ptr rb) \<and> buffer_size rb < 32768
     \<and> read_index rb < buffer_size rb \<and> write_index rb < buffer_size rb
     \<and> (if read_mirror rb = write_mirror rb then read_index rb \<le> write_index rb
        else write_index rb \<le> read_index rb)"

text \<open>The index \<open>i\<close> places behind \<open>a\<close> in a ring of \<open>m\<close>.\<close>

definition ring :: "nat \<Rightarrow> nat \<Rightarrow> nat \<Rightarrow> nat" where
  "ring m a i = (if a + i < m then a + i else a + i - m)"

definition contents :: "rt_ringbuffer \<Rightarrow> u8 list" where
  "contents rb = map (\<lambda>i. buffer_ptr rb ! ring (buffer_size rb) (read_index rb) i)
     [0..<rt_ringbuffer_data_len rb]"

lemma length_contents [simp]: "length (contents rb) = rt_ringbuffer_data_len rb"
  by (simp add: contents_def)

lemma data_len_eq:
  "rb_inv rb \<Longrightarrow> rt_ringbuffer_data_len rb =
    (if read_mirror rb = write_mirror rb then write_index rb - read_index rb
     else buffer_size rb - (read_index rb - write_index rb))"
  by (auto simp: rb_inv_def rt_ringbuffer_data_len_def rt_ringbuffer_status_def split: if_splits)

lemma data_len_le: "rb_inv rb \<Longrightarrow> rt_ringbuffer_data_len rb \<le> buffer_size rb"
  by (auto simp: data_len_eq rb_inv_def)

lemma ring_less: "a < m \<Longrightarrow> i \<le> m \<Longrightarrow> ring m a i < m"
  by (auto simp: ring_def)

lemma ring_eq_iff: "a < m \<Longrightarrow> i < m \<Longrightarrow> j < m \<Longrightarrow> ring m a i = ring m a j \<longleftrightarrow> i = j"
  by (auto simp: ring_def)

lemma write_at: "rb_inv rb \<Longrightarrow>
    write_index rb = ring (buffer_size rb) (read_index rb) (rt_ringbuffer_data_len rb)"
  by (auto simp: data_len_eq rb_inv_def ring_def)


text \<open>
  Storing \<open>ys\<close> at the write index and advancing it appends \<open>ys\<close>; dropping elements at the
  read index drops them from the front.
\<close>

lemma contents_append:
  assumes inv: "rb_inv rb" and n: "rt_ringbuffer_data_len rb + length ys \<le> buffer_size rb"
    and eq: "buffer_size rb' = buffer_size rb" "read_index rb' = read_index rb"
    and len: "rt_ringbuffer_data_len rb' = rt_ringbuffer_data_len rb + length ys"
    and new: "\<And>j. j < length ys \<Longrightarrow> buffer_ptr rb' ! ring (buffer_size rb) (write_index rb) j = ys ! j"
    and old: "\<And>k. (\<forall>j < length ys. k \<noteq> ring (buffer_size rb) (write_index rb) j) \<Longrightarrow>
      buffer_ptr rb' ! k = buffer_ptr rb ! k"
  shows "contents rb' = contents rb @ ys"
proof (rule nth_equalityI)
  let ?m = "buffer_size rb" and ?r = "read_index rb" and ?d = "rt_ringbuffer_data_len rb"
  have r: "?r < ?m"
    using inv by (simp add: rb_inv_def)
  have w: "ring ?m (write_index rb) j = ring ?m ?r (?d + j)" if "j < length ys" for j
    using that n r inv by (auto simp: write_at ring_def data_len_le)
  fix i assume "i < length (contents rb')"
  then have i: "i < ?d + length ys" by (simp add: len)
  show "contents rb' ! i = (contents rb @ ys) ! i"
  proof (cases "i < ?d")
    case True
    have "ring ?m ?r i \<noteq> ring ?m (write_index rb) j" if "j < length ys" for j
      using True that n r w [OF that] by (simp add: ring_eq_iff)
    with True i show ?thesis
      by (simp add: contents_def eq len nth_append old)
  next
    case False
    then have "ring ?m ?r i = ring ?m (write_index rb) (i - ?d)" "i - ?d < length ys"
      using i w [of "i - ?d"] by auto
    with False i new [of "i - ?d"] show ?thesis
      by (simp add: contents_def eq len nth_append)
  qed
qed (simp add: len)

lemma contents_drop:
  assumes inv: "rb_inv rb" and n: "n \<le> rt_ringbuffer_data_len rb"
    and eq: "buffer_size rb' = buffer_size rb" "buffer_ptr rb' = buffer_ptr rb"
    and len: "rt_ringbuffer_data_len rb' = rt_ringbuffer_data_len rb - n"
    and ri: "read_index rb' = ring (buffer_size rb) (read_index rb) n"
  shows "contents rb' = drop n (contents rb)"
proof (rule nth_equalityI)
  let ?m = "buffer_size rb" and ?r = "read_index rb" and ?d = "rt_ringbuffer_data_len rb"
  have r: "?r < ?m" "?d \<le> ?m"
    using inv data_len_le [OF inv] by (simp_all add: rb_inv_def)
  fix i assume "i < length (contents rb')"
  then have i: "n + i < ?d" "i < ?d - n" by (simp_all add: len)
  then have "ring ?m (ring ?m ?r n) i = ring ?m ?r (n + i)"
    using r by (auto simp: ring_def)
  with i show "contents rb' ! i = drop n (contents rb) ! i"
    by (simp add: contents_def eq len ri)
qed (simp add: len)

lemma to15_less: "n < 32768 \<Longrightarrow> to15 n = n"
  by (simp add: to15_def)

lemma putchar_yields:
  assumes inv: "rb_inv rb"
  shows "yields (rt_ringbuffer_putchar rb ch) (\<lambda>(n, rb'). rb_inv rb' \<and> buffer_size rb' = buffer_size rb
    \<and> (if rt_ringbuffer_data_len rb < buffer_size rb then n = 1 \<and> contents rb' = contents rb @ [ch]
       else n = 0 \<and> rb' = rb))"
proof (cases "rt_ringbuffer_data_len rb < buffer_size rb")
  case False
  with inv show ?thesis
    by (simp add: rt_ringbuffer_putchar_def rt_ringbuffer_space_len_def wp_simps)
next
  case True
  let ?w = "write_index rb" and ?m = "buffer_size rb"
  define rb' where "rb' = (if int ?w = int ?m - 1
    then rb\<lparr>buffer_ptr := (buffer_ptr rb)[?w := ch], write_mirror := \<not> write_mirror rb, write_index := 0\<rparr>
    else rb\<lparr>buffer_ptr := (buffer_ptr rb)[?w := ch], write_index := to15 (?w + 1)\<rparr>)"
  have w: "?w < ?m" "?w < length (buffer_ptr rb)"
    using inv by (auto simp: rb_inv_def)
  have "rt_ringbuffer_putchar rb ch = Some (1, rb')"
    using True w by (simp add: rt_ringbuffer_putchar_def rt_ringbuffer_space_len_def rb'_def wr_in)
  moreover have inv': "rb_inv rb'"
    using inv True by (auto simp: rb'_def rb_inv_def data_len_eq [OF inv] to15_less split: if_splits)
  moreover have eq: "buffer_size rb' = ?m" "read_index rb' = read_index rb"
    by (simp_all add: rb'_def)
  moreover have "contents rb' = contents rb @ [ch]"
  proof (rule contents_append [OF inv])
    show "rt_ringbuffer_data_len rb' = rt_ringbuffer_data_len rb + length [ch]"
      using inv True unfolding data_len_eq [OF inv'] data_len_eq [OF inv]
      by (auto simp: rb'_def rb_inv_def to15_less split: if_splits)
  qed (use True w eq in \<open>auto simp: rb'_def ring_def\<close>)
  ultimately show ?thesis
    using True by (simp add: wp_simps)
qed


lemma hd_contents: "rb_inv rb \<Longrightarrow> 0 < rt_ringbuffer_data_len rb \<Longrightarrow>
    hd (contents rb) = buffer_ptr rb ! read_index rb"
  by (simp add: contents_def upt_conv_Cons ring_def rb_inv_def)

lemma getchar_yields:
  assumes inv: "rb_inv rb"
  shows "yields (rt_ringbuffer_getchar rb) (\<lambda>(r, rb'). rb_inv rb' \<and> buffer_size rb' = buffer_size rb
    \<and> contents rb' = tl (contents rb)
    \<and> r = (if contents rb = [] then None else Some (hd (contents rb))))"
proof (cases "rt_ringbuffer_data_len rb = 0")
  case True
  then have "contents rb = []"
    by (simp add: contents_def)
  with True inv show ?thesis
    by (simp add: rt_ringbuffer_getchar_def wp_simps)
next
  case False
  let ?r = "read_index rb" and ?m = "buffer_size rb"
  define rb' where "rb' = (if int ?r = int ?m - 1
    then rb\<lparr>read_mirror := \<not> read_mirror rb, read_index := 0\<rparr> else rb\<lparr>read_index := to15 (?r + 1)\<rparr>)"
  have r: "?r < ?m" "?r < length (buffer_ptr rb)"
    using inv by (auto simp: rb_inv_def)
  have "rt_ringbuffer_getchar rb = Some (Some (hd (contents rb)), rb')"
    using False r inv by (simp add: rt_ringbuffer_getchar_def rb'_def rd_in hd_contents)
  moreover have inv': "rb_inv rb'"
    using inv False by (auto simp: rb'_def rb_inv_def data_len_eq [OF inv] to15_less split: if_splits)
  moreover have eq: "buffer_size rb' = ?m"
    by (simp add: rb'_def)
  moreover have "contents rb' = drop 1 (contents rb)"
  proof (rule contents_drop [OF inv])
    show "rt_ringbuffer_data_len rb' = rt_ringbuffer_data_len rb - 1"
      using inv False unfolding data_len_eq [OF inv'] data_len_eq [OF inv]
      by (auto simp: rb'_def rb_inv_def to15_less split: if_splits)
    show "read_index rb' = ring ?m ?r 1"
      using inv by (auto simp: rb'_def rb_inv_def to15_less ring_def)
  qed (use False eq in \<open>auto simp: rb'_def\<close>)
  moreover have "contents rb \<noteq> []"
    using False by (simp add: contents_def)
  ultimately show ?thesis
    by (simp add: wp_simps drop_Suc)
qed

text \<open>A put of one byte that overwrites the oldest when the buffer is full.\<close>

lemma putchar_force_yields:
  assumes inv: "rb_inv rb"
  shows "yields (rt_ringbuffer_putchar_force rb ch) (\<lambda>(n, rb'). n = 1 \<and> rb_inv rb'
    \<and> buffer_size rb' = buffer_size rb
    \<and> contents rb' = (if rt_ringbuffer_data_len rb < buffer_size rb then contents rb
                      else tl (contents rb)) @ [ch])"
proof (cases "rt_ringbuffer_data_len rb < buffer_size rb")
  case True
  then have "rt_ringbuffer_status rb \<noteq> RT_RINGBUFFER_FULL"
    by (auto simp: rt_ringbuffer_data_len_def split: if_splits)
  then have "rt_ringbuffer_putchar_force rb ch = rt_ringbuffer_putchar rb ch"
    using True
    by (cases "wr (buffer_ptr rb) (write_index rb) ch")
       (simp_all add: rt_ringbuffer_putchar_force_def rt_ringbuffer_putchar_def rt_ringbuffer_space_len_def
          Let_def)
  with putchar_yields [OF inv, of ch] True show ?thesis
    by (auto simp: yields_iff)
next
  case False
  let ?w = "write_index rb" and ?m = "buffer_size rb"
  have d: "rt_ringbuffer_data_len rb = ?m"
    using False data_len_le [OF inv] by simp
  have full: "read_mirror rb \<noteq> write_mirror rb" "read_index rb = ?w"
    using d inv by (auto simp: data_len_eq rb_inv_def split: if_splits)
  text \<open>The oldest byte goes first, then the new one is appended.\<close>
  define rb1 where "rb1 = (if int ?w = int ?m - 1
    then rb\<lparr>read_mirror := \<not> read_mirror rb, read_index := 0\<rparr> else rb\<lparr>read_index := to15 (?w + 1)\<rparr>)"
  have g: "rt_ringbuffer_getchar rb = Some (Some (hd (contents rb)), rb1)"
    using inv d full by (auto simp: rt_ringbuffer_getchar_def rb1_def rb_inv_def rd_in hd_contents [OF inv])
  have inv1: "rb_inv rb1" and c1: "contents rb1 = tl (contents rb)" and m1: "buffer_size rb1 = ?m"
    using getchar_yields [OF inv] g by (auto simp: wp_simps)
  have "length (contents rb1) < ?m"
    using c1 d inv by (simp add: rb_inv_def)
  then have d1: "rt_ringbuffer_data_len rb1 < buffer_size rb1"
    by (simp add: m1)
  have "rt_ringbuffer_putchar_force rb ch = rt_ringbuffer_putchar rb1 ch"
    using d1 inv full
    by (auto simp: rt_ringbuffer_putchar_force_def rt_ringbuffer_putchar_def rt_ringbuffer_space_len_def
        rt_ringbuffer_status_def rb1_def rb_inv_def wr_in)
  with putchar_yields [OF inv1, of ch] d1 c1 m1 False show ?thesis
    by (auto simp: yields_iff)
qed


lemma put_block_yields:
  assumes inv: "rb_inv rb" and n: "rt_ringbuffer_data_len rb + n \<le> buffer_size rb" "n \<le> length ptr"
  shows "yields (put_block rb ptr n) (\<lambda>rb'. rb_inv rb' \<and> buffer_size rb' = buffer_size rb
    \<and> contents rb' = contents rb @ take n ptr)"
proof -
  let ?w = "write_index rb" and ?m = "buffer_size rb" and ?b = "buffer_ptr rb"
  let ?k = "?m - ?w"
  have w: "?w < ?m" "?m \<le> length ?b" "?m < 32768"
    using inv by (auto simp: rb_inv_def)
  show ?thesis
  proof (cases "?k > n")
    case True
    let ?rb = "rb\<lparr>buffer_ptr := splice ?b ?w (take n ptr), write_index := ?w + n\<rparr>"
    have "put_block rb ptr n = Some ?rb"
      using True w n by (simp add: put_block_def copy_bytes_eq to15_less Let_def)
    moreover have inv': "rb_inv ?rb"
      using inv True n w by (auto simp: rb_inv_def data_len_eq [OF inv] split: if_splits)
    moreover have "contents ?rb = contents rb @ take n ptr"
    proof (rule contents_append [OF inv])
      show "rt_ringbuffer_data_len ?rb = rt_ringbuffer_data_len rb + length (take n ptr)"
        using inv True n unfolding data_len_eq [OF inv'] data_len_eq [OF inv]
        by (auto simp: rb_inv_def split: if_splits)
      fix k assume k: "\<forall>j < length (take n ptr). k \<noteq> ring ?m ?w j"
      have "\<not> (?w \<le> k \<and> k < ?w + n)"
      proof
        assume "?w \<le> k \<and> k < ?w + n"
        then have "ring ?m ?w (k - ?w) = k" "k - ?w < length (take n ptr)"
          using n True by (auto simp: ring_def)
        with k show False by metis
      qed
      then show "buffer_ptr ?rb ! k = ?b ! k"
        using n w True by (auto simp: nth_splice)
    qed (use n w True in \<open>auto simp: ring_def nth_splice\<close>)
    ultimately show ?thesis
      by (simp add: wp_simps)
  next
    case False
    let ?b1 = "splice ?b ?w (take ?k ptr)"
    let ?b2 = "splice ?b1 0 (take (n - ?k) (drop ?k ptr))"
    let ?rb = "rb\<lparr>buffer_ptr := ?b2, write_mirror := \<not> write_mirror rb, write_index := n - ?k\<rparr>"
    have fits: "n - ?k \<le> ?w"
      using inv n w by (auto simp: rb_inv_def data_len_eq [OF inv] split: if_splits)
    have len: "length ?b1 = length ?b"
      using n w False by simp
    have nth: "?b2 ! i = (if i < n - ?k then ptr ! (?k + i) else if ?w \<le> i \<and> i < ?m then ptr ! (i - ?w) else ?b ! i)" for i
      using n w False fits by (auto simp: nth_splice)
    have "put_block rb ptr n = Some ?rb"
      using False w n len by (simp add: put_block_def copy_bytes_eq to15_less Let_def)
    moreover have inv': "rb_inv ?rb"
      using inv False n w fits len by (auto simp: rb_inv_def data_len_eq [OF inv] split: if_splits)
    moreover have "contents ?rb = contents rb @ take n ptr"
    proof (rule contents_append [OF inv])
      show "rt_ringbuffer_data_len ?rb = rt_ringbuffer_data_len rb + length (take n ptr)"
        using inv False n w unfolding data_len_eq [OF inv'] data_len_eq [OF inv]
        by (auto simp: rb_inv_def split: if_splits)
      fix k assume k: "\<forall>j < length (take n ptr). k \<noteq> ring ?m ?w j"
      have "\<not> k < n - ?k"
      proof
        assume "k < n - ?k"
        then have "ring ?m ?w (?k + k) = k" "?k + k < length (take n ptr)"
          using n w by (auto simp: ring_def)
        with k show False by metis
      qed
      moreover have "\<not> (?w \<le> k \<and> k < ?m)"
      proof
        assume "?w \<le> k \<and> k < ?m"
        then have "ring ?m ?w (k - ?w) = k" "k - ?w < length (take n ptr)"
          using n w False by (auto simp: ring_def)
        with k show False by metis
      qed
      ultimately show "buffer_ptr ?rb ! k = ?b ! k"
        by (auto simp: nth)
    next
      fix j assume "j < length (take n ptr)"
      then have j: "j < n" by simp
      have "ring ?m ?w j = (if j < ?k then ?w + j else j - ?k)"
        using w by (auto simp: ring_def)
      moreover have "?b2 ! (?w + j) = ptr ! j" if "j < ?k"
        using nth [of "?w + j"] j that w fits by auto
      moreover have "?b2 ! (j - ?k) = ptr ! j" if "\<not> j < ?k"
        using nth [of "j - ?k"] j that w by auto
      ultimately show "buffer_ptr ?rb ! ring ?m ?w j = take n ptr ! j"
        using j by (cases "j < ?k") simp_all
    qed (use n in simp_all)
    ultimately show ?thesis
      by (simp add: wp_simps)
  qed
qed

lemma space_len_eq: "rb_inv rb \<Longrightarrow>
    rt_ringbuffer_data_len rb + rt_ringbuffer_space_len rb = buffer_size rb"
  by (simp add: rt_ringbuffer_space_len_def data_len_le)

lemma put_yields:
  assumes inv: "rb_inv rb" and ptr: "unat len \<le> length ptr"
  shows "yields (rt_ringbuffer_put rb ptr len) (\<lambda>(n, rb'). rb_inv rb' \<and> buffer_size rb' = buffer_size rb
    \<and> n = min (unat len) (rt_ringbuffer_space_len rb) \<and> contents rb' = contents rb @ take n ptr)"
proof (cases "rt_ringbuffer_space_len rb = 0")
  case True
  with inv show ?thesis by (simp add: rt_ringbuffer_put_def wp_simps)
next
  case False
  let ?n = "min (unat len) (rt_ringbuffer_space_len rb)"
  have "rt_ringbuffer_put rb ptr len = do { rb \<leftarrow> put_block rb ptr ?n; Some (?n, rb) }"
    using False by (auto simp: rt_ringbuffer_put_def Let_def min_def)
  then show ?thesis
    using put_block_yields [OF inv, of ?n ptr] space_len_eq [OF inv] ptr
    by (auto simp: wp_simps elim!: yields_mono)
qed

lemma take_contents:
  assumes inv: "rb_inv rb" and n: "n \<le> rt_ringbuffer_data_len rb"
  shows "take n (contents rb) = map (\<lambda>i. buffer_ptr rb ! ring (buffer_size rb) (read_index rb) i) [0..<n]"
  using n by (simp add: contents_def take_map)

lemma get_block_yields:
  assumes inv: "rb_inv rb" and dl: "n \<le> rt_ringbuffer_data_len rb" and ptr: "n \<le> length ptr"
  shows "yields (get_block rb ptr n) (\<lambda>(ptr', rb'). rb_inv rb' \<and> buffer_size rb' = buffer_size rb
    \<and> ptr' = splice ptr 0 (take n (contents rb)) \<and> contents rb' = drop n (contents rb))"
proof -
  let ?r = "read_index rb" and ?m = "buffer_size rb" and ?b = "buffer_ptr rb"
  let ?k = "?m - ?r"
  have r: "?r < ?m" "?m \<le> length ?b" "?m < 32768" "n \<le> ?m"
    using inv data_len_le [OF inv] dl by (auto simp: rb_inv_def)
  define rb' where "rb' = (if ?k > n then rb\<lparr>read_index := ?r + n\<rparr>
    else rb\<lparr>read_mirror := \<not> read_mirror rb, read_index := n - ?k\<rparr>)"
  have inv': "rb_inv rb'"
    using inv dl r by (auto simp: rb'_def rb_inv_def data_len_eq [OF inv] split: if_splits)
  have c: "contents rb' = drop n (contents rb)"
  proof (rule contents_drop [OF inv dl])
    show "rt_ringbuffer_data_len rb' = rt_ringbuffer_data_len rb - n"
      using inv dl r unfolding data_len_eq [OF inv']
      by (auto simp: rb'_def rb_inv_def data_len_eq [OF inv] split: if_splits)
    show "read_index rb' = ring ?m ?r n"
      using r by (auto simp: rb'_def ring_def)
  qed (simp_all add: rb'_def)
  have tc: "take n (contents rb) = map (\<lambda>i. ?b ! ring ?m ?r i) [0..<n]"
    by (rule take_contents [OF inv dl])
  have "get_block rb ptr n = Some (splice ptr 0 (take n (contents rb)), rb')"
  proof (cases "?k > n")
    case True
    have "take n (drop ?r ?b) = take n (contents rb)"
      unfolding tc using True r by (intro nth_equalityI) (auto simp: ring_def)
    with True r ptr show ?thesis
      by (simp add: get_block_def Let_def copy_bytes_eq to15_less rb'_def)
  next
    case False
    have "take ?k (drop ?r ?b) @ take (n - ?k) ?b = take n (contents rb)"
      unfolding tc using False r by (intro nth_equalityI) (auto simp: ring_def nth_append add.commute)
    moreover have "splice (splice ptr 0 (take ?k (drop ?r ?b))) ?k (take (n - ?k) ?b)
        = splice ptr 0 (take ?k (drop ?r ?b) @ take (n - ?k) ?b)"
      using False r ptr splice_append [of 0 "take ?k (drop ?r ?b)" ptr "take (n - ?k) ?b"] by simp
    ultimately show ?thesis
      using False r ptr by (simp add: get_block_def Let_def copy_bytes_eq to15_less rb'_def)
  qed
  with inv' c show ?thesis
    by (simp add: wp_simps rb'_def)
qed

lemma get_yields:
  assumes inv: "rb_inv rb" and ptr: "unat len \<le> length ptr"
  shows "yields (rt_ringbuffer_get rb ptr len) (\<lambda>(n, ptr', rb'). rb_inv rb'
    \<and> buffer_size rb' = buffer_size rb \<and> n = min (unat len) (rt_ringbuffer_data_len rb)
    \<and> ptr' = splice ptr 0 (take n (contents rb)) \<and> contents rb' = drop n (contents rb))"
proof (cases "rt_ringbuffer_data_len rb = 0")
  case True
  then have "contents rb = []"
    by (simp add: contents_def)
  with True inv show ?thesis by (simp add: rt_ringbuffer_get_def wp_simps)
next
  case False
  define n where "n = min (unat len) (rt_ringbuffer_data_len rb)"
  have n: "n \<le> rt_ringbuffer_data_len rb" "n \<le> length ptr"
    using ptr by (auto simp: n_def)
  have "rt_ringbuffer_get rb ptr len = do { (ptr, rb) \<leftarrow> get_block rb ptr n; Some (n, ptr, rb) }"
    using False by (auto simp: rt_ringbuffer_get_def Let_def min_def n_def)
  then show ?thesis
    using get_block_yields [OF inv n] by (auto simp: wp_simps n_def elim!: yields_mono)
qed

section \<open>Properties\<close>

definition put_byte :: "u8 \<Rightarrow> rt_ringbuffer \<Rightarrow> rt_ringbuffer option" where
  "put_byte ch rb = map_option snd (rt_ringbuffer_putchar rb ch)"

text \<open>The byte operations of a ring buffer of size \<open>m\<close> are a bounded queue of \<open>m\<close> bytes.\<close>

interpretation ringq: bounded_fifo put_byte rt_ringbuffer_getchar
  "\<lambda>rb. rb_inv rb \<and> buffer_size rb = m" contents m for m
proof
  fix rb :: rt_ringbuffer and ch :: u8
  assume rb: "rb_inv rb \<and> buffer_size rb = m"
  note p = putchar_yields [OF rb [THEN conjunct1], of ch]
  show "yields (put_byte ch rb) (\<lambda>rb'. (rb_inv rb' \<and> buffer_size rb' = m) \<and> contents rb' = contents rb @ [ch])"
    if "length (contents rb) < m"
    using p rb that by (auto simp: put_byte_def yields_iff)
  show "put_byte ch rb = Some rb" if "m \<le> length (contents rb)"
    using p rb that by (auto simp: put_byte_def yields_iff)
  show "yields (rt_ringbuffer_getchar rb) (\<lambda>(r, rb'). (rb_inv rb' \<and> buffer_size rb' = m)
      \<and> contents rb' = tl (contents rb) \<and> r = (if contents rb = [] then None else Some (hd (contents rb))))"
    using getchar_yields [of rb] rb by (auto elim!: yields_mono)
qed

text \<open>
  C18. Every sequence of byte operations on a ring buffer returns, with the bytes a bounded
  first-in first-out queue of its size returns: no byte is lost, reordered or repeated, a put
  into the full buffer is refused and a get from the empty one returns nothing.
\<close>

theorem ringbuffer_is_queue:
  assumes "rb_inv rb"
  shows "\<exists>rs rb'. queue_run put_byte rt_ringbuffer_getchar ops rb = Some (rs, rb') \<and> rb_inv rb'
    \<and> list_run (buffer_size rb) ops (contents rb) = (rs, contents rb')"
  using ringq.bounded_run_refines [of rb "buffer_size rb" ops] assms by (auto simp: yields_iff)

definition rb_demo :: rt_ringbuffer where
  "rb_demo = \<lparr>buffer_ptr = [1, 2, 3, 4], read_mirror = False, read_index = 1, write_mirror = False,
     write_index = 3, buffer_size = 4\<rparr>"

lemma rb_demo_inv: "rb_inv rb_demo"
  by (simp add: rb_demo_def rb_inv_def)

theorem ringbuffer_is_queue_witness:
  "\<exists>rs rb'. queue_run put_byte rt_ringbuffer_getchar [Put 7, Get, Get, Get, Get] rb_demo = Some (rs, rb')
    \<and> rs = [Some 2, Some 3, Some 7, None]"
proof -
  have "contents rb_demo = [2, 3]"
    by (simp add: contents_def rt_ringbuffer_data_len_def rt_ringbuffer_status_def rb_demo_def ring_def
        upt_rec)
  moreover have "rt_ringbuffer_data_len rb_demo = 2" "buffer_size rb_demo = 4"
    by (simp_all add: rt_ringbuffer_data_len_def rt_ringbuffer_status_def rb_demo_def)
  ultimately show ?thesis
    using ringbuffer_is_queue [OF rb_demo_inv, of "[Put 7, Get, Get, Get, Get]"] by auto
qed

text \<open>
  Blocks: \<open>rt_ringbuffer_put\<close> appends as much of the data as fits, in order, and
  \<open>rt_ringbuffer_get\<close> takes as much as is there from the front; the return value is that count.
\<close>

theorem ringbuffer_blocks:
  assumes "rb_inv rb" "unat len \<le> length ptr"
  shows "(\<exists>rb'. rt_ringbuffer_put rb ptr len = Some (min (unat len) (rt_ringbuffer_space_len rb), rb')
      \<and> rb_inv rb' \<and> contents rb' = contents rb @ take (min (unat len) (rt_ringbuffer_space_len rb)) ptr)
    \<and> (\<exists>ptr' rb'. rt_ringbuffer_get rb ptr len = Some (min (unat len) (rt_ringbuffer_data_len rb), ptr', rb')
      \<and> rb_inv rb' \<and> ptr' = splice ptr 0 (take (unat len) (contents rb))
      \<and> contents rb' = drop (unat len) (contents rb))"
proof -
  have "take (min (unat len) (rt_ringbuffer_data_len rb)) (contents rb) = take (unat len) (contents rb)"
    "drop (min (unat len) (rt_ringbuffer_data_len rb)) (contents rb) = drop (unat len) (contents rb)"
    by (simp_all add: min_def)
  with put_yields [OF assms] get_yields [OF assms] show ?thesis
    by (auto simp: yields_iff)
qed

theorem ringbuffer_blocks_witness:
  "\<exists>rb'. rt_ringbuffer_put rb_demo [7, 8, 9] 3 = Some (min (unat (3 :: u16)) (rt_ringbuffer_space_len rb_demo), rb')
    \<and> rb_inv rb'"
  using ringbuffer_blocks [OF rb_demo_inv, of 3 "[7, 8, 9]"] by auto

text \<open>
  A forced put of one byte always stores it and drops the oldest byte only when the
  buffer is full.
\<close>

theorem putchar_force_overwrites_oldest:
  assumes "rb_inv rb"
  shows "\<exists>rb'. rt_ringbuffer_putchar_force rb ch = Some (1, rb') \<and> rb_inv rb'
    \<and> contents rb' = (if rt_ringbuffer_space_len rb = 0 then tl (contents rb) else contents rb) @ [ch]"
  using putchar_force_yields [OF assms, of ch] space_len_eq [OF assms] by (auto simp: yields_iff)

theorem putchar_force_overwrites_oldest_witness:
  "\<exists>rb'. rt_ringbuffer_putchar_force rb_demo 9 = Some (1, rb') \<and> rb_inv rb'
    \<and> contents rb' = (if rt_ringbuffer_space_len rb_demo = 0 then tl (contents rb_demo) else contents rb_demo) @ [9]"
  by (rule putchar_force_overwrites_oldest [OF rb_demo_inv])

text \<open>
  A forced put of a block that does not fit, into a buffer whose data does not wrap and
  is not empty, empties the buffer instead of filling it: both mirrors are flipped, so that
  equal indices mean "empty". It also copies the size of the whole buffer out of the caller's
  data, whatever its length, and so reads behind data that is shorter.
\<close>

theorem put_force_loses_everything:
  assumes "rb_inv rb" "read_mirror rb = write_mirror rb" "0 < rt_ringbuffer_data_len rb"
    and "rt_ringbuffer_space_len rb < unat len"
  shows "if buffer_size rb \<le> length ptr
    then \<exists>rb'. rt_ringbuffer_put_force rb ptr len = Some (buffer_size rb, rb') \<and> contents rb' = []
    else rt_ringbuffer_put_force rb ptr len = None"
proof -
  let ?w = "write_index rb" and ?m = "buffer_size rb" and ?b = "buffer_ptr rb"
  have w: "?w < ?m" "?m \<le> length ?b" "?m < 32768" "0 < ?w"
    using assms by (auto simp: rb_inv_def data_len_eq)
  have sp: "rt_ringbuffer_space_len rb < ?m"
    using assms(1,3) space_len_eq [OF assms(1)] by linarith
  show ?thesis
  proof (cases "?m \<le> length ptr")
    case True
    let ?b2 = "splice (splice ?b ?w (take (?m - ?w) ptr)) 0 (take ?w (drop (?m - ?w) ptr))"
    have "put_block rb ptr ?m = Some (rb\<lparr>buffer_ptr := ?b2, write_mirror := \<not> write_mirror rb, write_index := ?w\<rparr>)"
      using True w by (simp add: put_block_def Let_def copy_bytes_eq to15_less)
    moreover have "\<not> ?m < ?m - ?w"
      by simp
    ultimately show ?thesis
      using True assms(2,4) sp w
      by (simp add: rt_ringbuffer_put_force_def Let_def contents_def rt_ringbuffer_data_len_def
          rt_ringbuffer_status_def)
  next
    case False
    have "put_block rb ptr ?m = None"
    proof (cases "?m - ?w \<le> length ptr")
      case True
      then have "copy_bytes ?b ?w ptr 0 (?m - ?w) = Some (splice ?b ?w (take (?m - ?w) ptr))"
        using w by (simp add: copy_bytes_eq)
      with False w show ?thesis
        by (simp add: put_block_def Let_def copy_bytes_fault)
    next
      case short: False
      with w show ?thesis
        by (simp add: put_block_def Let_def copy_bytes_fault)
    qed
    with False assms(4) sp w show ?thesis
      by (simp add: rt_ringbuffer_put_force_def Let_def)
  qed
qed

theorem put_force_loses_everything_witness:
  "\<exists>rb'. rt_ringbuffer_put_force rb_demo [7, 8, 9, 10] 3 = Some (buffer_size rb_demo, rb') \<and> contents rb' = []"
  using put_force_loses_everything [OF rb_demo_inv, of 3 "[7, 8, 9, 10]"]
  by (simp add: rb_demo_def rt_ringbuffer_space_len_def rt_ringbuffer_data_len_def rt_ringbuffer_status_def)

end
