(* ===== verification/Keys.thy ===== *)
theory Keys
  imports Fifo
begin

text \<open>
  \<^verbatim>\<open>drivers/my_driver/bsp_button.c\<close>, \<^verbatim>\<open>bsp_button.h\<close>: the key buffer and the button scanner of
  the front panel. \<open>KeyPro\<close> runs every 10 ms; \<open>pins\<close> are the levels of the four keys during
  one scan (they do not change within a scan). The GPIO set-up is not modelled.
\<close>

section \<open>State\<close>

definition KEY_NONE :: u8 where "KEY_NONE = 0"
definition KEY_DOWN_UP :: u8 where "KEY_DOWN_UP = 1"
definition KEY_UP_UP :: u8 where "KEY_UP_UP = 2"
definition KEY_DOWN_DOWN :: u8 where "KEY_DOWN_DOWN = 4"
definition KEY_UP_DOWN :: u8 where "KEY_UP_DOWN = 5"
definition KEY_DOWN_MENU :: u8 where "KEY_DOWN_MENU = 7"
definition KEY_UP_MENU :: u8 where "KEY_UP_MENU = 8"
definition KEY_DOWN_OK :: u8 where "KEY_DOWN_OK = 10"
definition KEY_UP_OK :: u8 where "KEY_UP_OK = 11"
definition KEY_DOWN_MENU_AND_OK :: u8 where "KEY_DOWN_MENU_AND_OK = 13"
definition KEY_UP_MENU_AND_OK :: u8 where "KEY_UP_MENU_AND_OK = 14"
definition KEY_COMB_MENU_PRIM_UP :: u8 where "KEY_COMB_MENU_PRIM_UP = 16"
definition KEY_COMB_UP_PRIM_MENU :: u8 where "KEY_COMB_UP_PRIM_MENU = 17"
definition KEY_COMB_MENU_PRIM_DOWN :: u8 where "KEY_COMB_MENU_PRIM_DOWN = 18"
definition KEY_COMB_DOWN_PRIM_MENU :: u8 where "KEY_COMB_DOWN_PRIM_MENU = 19"

lemmas key_defs = KEY_NONE_def KEY_DOWN_UP_def KEY_UP_UP_def KEY_DOWN_DOWN_def KEY_UP_DOWN_def
  KEY_DOWN_MENU_def KEY_UP_MENU_def KEY_DOWN_OK_def KEY_UP_OK_def KEY_DOWN_MENU_AND_OK_def
  KEY_UP_MENU_AND_OK_def KEY_COMB_MENU_PRIM_UP_def KEY_COMB_UP_PRIM_MENU_def
  KEY_COMB_MENU_PRIM_DOWN_def KEY_COMB_DOWN_PRIM_MENU_def

definition KEY_FIFO_SIZE :: nat where "KEY_FIFO_SIZE = 5"
definition BUTTON_FILTER_TIME :: u8 where "BUTTON_FILTER_TIME = 2"
definition BUTTON_LONG_TIME :: u16 where "BUTTON_LONG_TIME = 100"

record KEY_FIFO_T =
  Buf :: "u8 list"
  Read :: u8
  Write :: u8

record pins =
  UpKeyDown :: bool
  DownKeyDown :: bool
  OkKeyDown :: bool
  MenuKeyDown :: bool

datatype key_func = StatUp | StatDown | StatOk | StatMenu | StatMenuUp | StatMenuDown | StatMenuOk

record BUTTON_T =
  IsKeyDownFunc :: "key_func option"
  Count :: u8
  FilterTime :: u8
  LongCount :: u16
  LongTime :: u16
  State :: u8
  KeyCodeUp :: u8
  KeyCodeDown :: u8
  KeyCodeLong :: u8
  keyCodeCombPrime1_2 :: u8
  keyCodeCombPrime2_1 :: u8

section \<open>The key buffer\<close>

text \<open>There is no check for a full buffer.\<close>

definition PutKey :: "u8 \<Rightarrow> KEY_FIFO_T \<Rightarrow> KEY_FIFO_T option" where
  "PutKey KeyCode s_Key = do {
     buf \<leftarrow> wr (Buf s_Key) (unat (Write s_Key)) KeyCode;
     let w = Write s_Key + 1;
     Some (s_Key\<lparr>Buf := buf, Write := (if unat w \<ge> KEY_FIFO_SIZE then 0 else w)\<rparr>)
   }"

definition GetKey :: "KEY_FIFO_T \<Rightarrow> (u8 \<times> KEY_FIFO_T) option" where
  "GetKey s_Key =
     (if Read s_Key = Write s_Key then Some (KEY_NONE, s_Key)
      else do {
        ret \<leftarrow> rd (Buf s_Key) (unat (Read s_Key));
        let r = Read s_Key + 1;
        Some (ret, s_Key\<lparr>Read := (if unat r \<ge> KEY_FIFO_SIZE then 0 else r)\<rparr>)
      })"

section \<open>Key levels\<close>

definition combined :: "bool \<Rightarrow> bool \<Rightarrow> u8" where
  "combined menu other =
     (if menu \<and> other then 1 else if menu \<and> \<not> other then 2 else if \<not> menu \<and> other then 3 else 0)"

fun stat_of :: "key_func \<Rightarrow> pins \<Rightarrow> u8" where
  "stat_of StatUp p = (if UpKeyDown p then 1 else 0)"
| "stat_of StatDown p = (if DownKeyDown p then 1 else 0)"
| "stat_of StatOk p = (if OkKeyDown p then 1 else 0)"
| "stat_of StatMenu p = (if MenuKeyDown p then 1 else 0)"
| "stat_of StatMenuUp p = combined (MenuKeyDown p) (UpKeyDown p)"
| "stat_of StatMenuDown p = combined (MenuKeyDown p) (DownKeyDown p)"
| "stat_of StatMenuOk p = combined (MenuKeyDown p) (OkKeyDown p)"

section \<open>Debouncing\<close>

text \<open>
  The two counting patterns: down to 0 (\<open>None\<close>: the counter is at 0), and up to twice the
  filter time (\<open>None\<close>: it is there). \<open>2 * FilterTime\<close> is an \<open>int\<close>.
\<close>

definition count_down :: "BUTTON_T \<Rightarrow> BUTTON_T option" where
  "count_down b =
     (if Count b > FilterTime b then Some (b\<lparr>Count := FilterTime b\<rparr>)
      else if Count b \<noteq> 0 then Some (b\<lparr>Count := Count b - 1\<rparr>)
      else None)"

definition count_up :: "BUTTON_T \<Rightarrow> BUTTON_T option" where
  "count_up b =
     (if Count b < FilterTime b then Some (b\<lparr>Count := FilterTime b\<rparr>)
      else if unat (Count b) < 2 * unat (FilterTime b) then Some (b\<lparr>Count := Count b + 1\<rparr>)
      else None)"

definition put_if :: "u8 \<Rightarrow> KEY_FIFO_T \<Rightarrow> KEY_FIFO_T option" where
  "put_if code k = (if code > 0 then PutKey code k else Some k)"

text \<open>The key events of a button that has just been recognised as pressed.\<close>

definition report_down :: "BUTTON_T \<Rightarrow> KEY_FIFO_T \<Rightarrow> KEY_FIFO_T option" where
  "report_down b k =
     (if State b = 0 then
        if KeyCodeDown b > 0 then
          if KeyCodeDown b = KEY_DOWN_MENU_AND_OK then PutKey (KeyCodeDown b) (k\<lparr>Read := 0, Write := 0\<rparr>)
          else PutKey (KeyCodeDown b) k
        else Some k
      else if State b = 2 then put_if (keyCodeCombPrime1_2 b) k
      else if State b = 3 then put_if (keyCodeCombPrime2_1 b) k
      else Some k)"

definition DetectButton :: "pins \<Rightarrow> BUTTON_T \<Rightarrow> KEY_FIFO_T \<Rightarrow> (BUTTON_T \<times> KEY_FIFO_T) option" where
  "DetectButton p b k = do {
     f \<leftarrow> IsKeyDownFunc b;
     let stat = stat_of f p;
     if stat = 0 then
       if State b \<noteq> 0 then
         case count_down b of
           Some b \<Rightarrow> Some (b, k)
         | None \<Rightarrow> do {
             let b = b\<lparr>LongCount := 0, State := 0\<rparr>;
             k \<leftarrow> put_if (KeyCodeUp b) k;
             Some (b, k)
           }
       else Some (b, k)
     else if stat = 1 then
       if State b \<noteq> 1 then
         case count_up b of
           Some b \<Rightarrow> Some (b, k)
         | None \<Rightarrow> do { k \<leftarrow> report_down b k; Some (b\<lparr>State := 1\<rparr>, k) }
       else if LongTime b > 0 \<and> LongCount b < LongTime b then do {
         let b = b\<lparr>LongCount := LongCount b + 1\<rparr>;
         k \<leftarrow> (if LongCount b = LongTime b then PutKey (KeyCodeLong b) k else Some k);
         Some (b, k)
       }
       else Some (b, k)
     else if stat = 2 \<or> stat = 3 then
       if State b = 0 then
         case count_up b of Some b \<Rightarrow> Some (b, k) | None \<Rightarrow> Some (b\<lparr>State := stat\<rparr>, k)
       else if State b = 1 then
         case count_down b of Some b \<Rightarrow> Some (b, k) | None \<Rightarrow> Some (b\<lparr>State := stat\<rparr>, k)
       else Some (b, k)
     else Some (b, k)
   }"

section \<open>The scanner\<close>

record key_state =
  s_Key :: KEY_FIFO_T
  s_BtnUp :: BUTTON_T
  s_BtnDown :: BUTTON_T
  s_BtnOk :: BUTTON_T
  s_BtnMenu :: BUTTON_T
  s_BtnMenuUp :: BUTTON_T
  s_BtnMenuDown :: BUTTON_T
  s_BtnMenuOk :: BUTTON_T
  key_flag :: u8

text \<open>
  The members that \<open>InitButtonVar\<close> assigns for every button. The counters of the first two
  combinations start from the filter time of \<open>s_BtnMenu\<close>.
\<close>

definition init_button :: "key_func \<Rightarrow> u16 \<Rightarrow> u8 \<Rightarrow> u8 \<Rightarrow> u8 \<Rightarrow> BUTTON_T \<Rightarrow> BUTTON_T" where
  "init_button f long cnt down up b = b\<lparr>IsKeyDownFunc := Some f, FilterTime := BUTTON_FILTER_TIME,
     LongTime := long, Count := cnt, State := 0, KeyCodeDown := down, KeyCodeUp := up, KeyCodeLong := 0\<rparr>"

definition InitButtonVar :: "key_state \<Rightarrow> key_state" where
  "InitButtonVar s =
     (let half = BUTTON_FILTER_TIME div 2 in
      s\<lparr>s_Key := (s_Key s)\<lparr>Read := 0, Write := 0\<rparr>,
        s_BtnUp := init_button StatUp BUTTON_LONG_TIME half KEY_DOWN_UP KEY_UP_UP (s_BtnUp s),
        s_BtnDown := init_button StatDown BUTTON_LONG_TIME half KEY_DOWN_DOWN KEY_UP_DOWN (s_BtnDown s),
        s_BtnOk := init_button StatOk (2 * BUTTON_LONG_TIME) half KEY_DOWN_OK KEY_UP_OK (s_BtnOk s),
        s_BtnMenu := init_button StatMenu BUTTON_LONG_TIME half KEY_DOWN_MENU KEY_UP_MENU (s_BtnMenu s),
        s_BtnMenuUp := (init_button StatMenuUp 0 half 0 0 (s_BtnMenuUp s))
          \<lparr>keyCodeCombPrime1_2 := KEY_COMB_MENU_PRIM_UP, keyCodeCombPrime2_1 := KEY_COMB_UP_PRIM_MENU\<rparr>,
        s_BtnMenuDown := (init_button StatMenuDown 0 half 0 0 (s_BtnMenuDown s))
          \<lparr>keyCodeCombPrime1_2 := KEY_COMB_MENU_PRIM_DOWN, keyCodeCombPrime2_1 := KEY_COMB_DOWN_PRIM_MENU\<rparr>,
        s_BtnMenuOk := (init_button StatMenuOk 0 half 0 KEY_UP_MENU_AND_OK (s_BtnMenuOk s))
          \<lparr>keyCodeCombPrime1_2 := KEY_DOWN_MENU_AND_OK, keyCodeCombPrime2_1 := 0\<rparr>\<rparr>)"

definition KeyPro :: "pins \<Rightarrow> key_state \<Rightarrow> key_state option" where
  "KeyPro p s = do {
     let s = (if key_flag s = 0 then InitButtonVar (s\<lparr>key_flag := 1\<rparr>) else s);
     (b, k) \<leftarrow> DetectButton p (s_BtnUp s) (s_Key s);
     let s = s\<lparr>s_BtnUp := b, s_Key := k\<rparr>;
     (b, k) \<leftarrow> DetectButton p (s_BtnDown s) (s_Key s);
     let s = s\<lparr>s_BtnDown := b, s_Key := k\<rparr>;
     (b, k) \<leftarrow> DetectButton p (s_BtnOk s) (s_Key s);
     let s = s\<lparr>s_BtnOk := b, s_Key := k\<rparr>;
     (b, k) \<leftarrow> DetectButton p (s_BtnMenu s) (s_Key s);
     let s = s\<lparr>s_BtnMenu := b, s_Key := k\<rparr>;
     (b, k) \<leftarrow> DetectButton p (s_BtnMenuUp s) (s_Key s);
     let s = s\<lparr>s_BtnMenuUp := b, s_Key := k\<rparr>;
     (b, k) \<leftarrow> DetectButton p (s_BtnMenuDown s) (s_Key s);
     let s = s\<lparr>s_BtnMenuDown := b, s_Key := k\<rparr>;
     (b, k) \<leftarrow> DetectButton p (s_BtnMenuOk s) (s_Key s);
     Some (s\<lparr>s_BtnMenuOk := b, s_Key := k\<rparr>)
   }"

section \<open>The key buffer as a queue of four\<close>

definition key_legal :: "KEY_FIFO_T \<Rightarrow> bool" where
  "key_legal k \<longleftrightarrow> length (Buf k) = KEY_FIFO_SIZE \<and> unat (Read k) < KEY_FIFO_SIZE
     \<and> unat (Write k) < KEY_FIFO_SIZE"

definition keys :: "KEY_FIFO_T \<Rightarrow> u8 list" where
  "keys k = (let r = unat (Read k); w = unat (Write k) in
     if r \<le> w then take (w - r) (drop r (Buf k)) else drop r (Buf k) @ take w (Buf k))"

text \<open>The client's view of \<open>GetKey\<close>: no key when the indices agree.\<close>

definition get_key :: "KEY_FIFO_T \<Rightarrow> (u8 option \<times> KEY_FIFO_T) option" where
  "get_key k = do {
     (c, k') \<leftarrow> GetKey k;
     Some (if Read k = Write k then None else Some c, k')
   }"

lemma length_keys:
  "key_legal k \<Longrightarrow> length (keys k) =
    (if unat (Read k) \<le> unat (Write k) then unat (Write k) - unat (Read k)
     else KEY_FIFO_SIZE - unat (Read k) + unat (Write k))"
  by (auto simp: key_legal_def keys_def Let_def)

lemma key_wrap:
  "unat (x :: u8) < KEY_FIFO_SIZE \<Longrightarrow> unat (x + 1) = unat x + 1"
  by (simp add: KEY_FIFO_SIZE_def unat_word_ariths)

lemma PutKey_eq:
  "key_legal k \<Longrightarrow> PutKey c k = Some (k\<lparr>Buf := (Buf k)[unat (Write k) := c],
     Write := (if Write k = 4 then 0 else Write k + 1)\<rparr>)"
proof -
  assume "key_legal k"
  then have k: "length (Buf k) = 5" "unat (Write k) < 5"
    by (simp_all add: key_legal_def KEY_FIFO_SIZE_def)
  have "5 \<le> unat (Write k) + 1 \<longleftrightarrow> Write k = 4"
    using k(2) by (auto simp: word_unat_eq_iff)
  with k show ?thesis
    by (simp add: PutKey_def wr_in key_wrap KEY_FIFO_SIZE_def)
qed

lemma PutKey_legal: "key_legal k \<Longrightarrow> yields (PutKey c k) key_legal"
  by (auto simp: PutKey_eq wp_simps key_legal_def KEY_FIFO_SIZE_def unat_word_ariths word_unat_eq_iff)

lemma key_legal_cases:
  assumes "key_legal k"
  obtains a b c d e where "Buf k = [a, b, c, d, e]"
    and "Read k \<in> {0, 1, 2, 3, 4}" and "Write k \<in> {0, 1, 2, 3, 4}"
proof -
  have "x \<in> {0, 1, 2, 3, 4}" if "unat x < 5" for x :: u8
  proof -
    have "unat x = 0 \<or> unat x = 1 \<or> unat x = 2 \<or> unat x = 3 \<or> unat x = 4"
      using that by linarith
    then show ?thesis
      by (auto simp: word_unat_eq_iff)
  qed
  moreover from assms obtain a b c d e where "Buf k = [a, b, c, d, e]"
    by (auto simp: key_legal_def KEY_FIFO_SIZE_def length_Suc_conv eval_nat_numeral)
  ultimately show ?thesis
    using that assms by (auto simp: key_legal_def KEY_FIFO_SIZE_def)
qed

lemma PutKey_keys:
  assumes "key_legal k"
  shows "yields (PutKey c k) (\<lambda>k'. key_legal k'
    \<and> keys k' = (if length (keys k) < 4 then keys k @ [c] else []))"
proof -
  obtain b0 b1 b2 b3 b4 where k: "Buf k = [b0, b1, b2, b3, b4]"
    "Read k \<in> {0, 1, 2, 3, 4}" "Write k \<in> {0, 1, 2, 3, 4}"
    using key_legal_cases [OF assms] .
  then show ?thesis
    using PutKey_legal [OF assms, of c]
    by (auto simp: PutKey_eq [OF assms] wp_simps keys_def)
qed

lemma get_key_keys:
  assumes "key_legal k"
  shows "yields (get_key k) (\<lambda>(r, k'). key_legal k' \<and> keys k' = tl (keys k)
    \<and> r = (if keys k = [] then None else Some (hd (keys k))))"
proof -
  obtain b0 b1 b2 b3 b4 where k: "Buf k = [b0, b1, b2, b3, b4]"
    "Read k \<in> {0, 1, 2, 3, 4}" "Write k \<in> {0, 1, 2, 3, 4}"
    using key_legal_cases [OF assms] .
  then show ?thesis
    using assms
    by (auto simp: get_key_def GetKey_def wp_simps keys_def key_legal_def KEY_FIFO_SIZE_def)
qed

interpretation keyq: fifo PutKey get_key key_legal keys 4
proof
  fix k c
  assume k: "key_legal k"
  show "length (keys k) < 4 \<Longrightarrow> yields (PutKey c k) (\<lambda>k'. key_legal k' \<and> keys k' = keys k @ [c])"
    using PutKey_keys [OF k, of c] by simp
  show "yields (get_key k) (\<lambda>(r, k'). key_legal k' \<and> keys k' = tl (keys k)
      \<and> r = (if keys k = [] then None else Some (hd (keys k))))"
    by (rule get_key_keys [OF k])
qed

section \<open>Debouncing\<close>

fun scan :: "pins list \<Rightarrow> BUTTON_T \<Rightarrow> KEY_FIFO_T \<Rightarrow> (BUTTON_T \<times> KEY_FIFO_T) option" where
  "scan [] b k = Some (b, k)"
| "scan (p # ps) b k = do { (b, k) \<leftarrow> DetectButton p b k; scan ps b k }"

lemma scan_append: "scan (ps @ qs) b k = do { (b, k) \<leftarrow> scan ps b k; scan qs b k }"
  by (induction ps arbitrary: b k) (auto simp: bind_eq_Some_conv split: Option.bind_split)

lemma scan_then: "scan ps b k = Some (b', k') \<Longrightarrow> scan (ps @ qs) b k = scan qs b' k'"
  by (simp add: scan_append)

text \<open>A plain key: not one of the combinations.\<close>

definition plain :: "BUTTON_T \<Rightarrow> (pins \<Rightarrow> bool) \<Rightarrow> bool" where
  "plain b down \<longleftrightarrow> (case IsKeyDownFunc b of
       Some StatUp \<Rightarrow> down = UpKeyDown | Some StatDown \<Rightarrow> down = DownKeyDown
     | Some StatOk \<Rightarrow> down = OkKeyDown | Some StatMenu \<Rightarrow> down = MenuKeyDown | _ \<Rightarrow> False)
     \<and> 0 < FilterTime b \<and> FilterTime b < 128"

lemma plain_stat: "plain b down \<Longrightarrow> \<exists>f. IsKeyDownFunc b = Some f \<and> stat_of f p = (if down p then 1 else 0)"
  by (auto simp: plain_def split: option.splits key_func.splits)

text \<open>The counter after \<open>n\<close> down scans in state 0, and after \<open>n\<close> up scans in state 1.\<close>

definition rising :: "BUTTON_T \<Rightarrow> nat \<Rightarrow> u8" where
  "rising b n = (if n = 0 then Count b else FilterTime b + of_nat (n - 1))"

definition falling :: "BUTTON_T \<Rightarrow> nat \<Rightarrow> u8" where
  "falling b n = (if n = 0 then Count b else FilterTime b - of_nat (n - 1))"

lemma unat_add_small: "unat x + n < 256 \<Longrightarrow> unat (x + of_nat n :: u8) = unat x + n"
  by (simp add: unat_word_ariths unat_of_nat take_bit_eq_mod)

lemma unat_sub_small: "n \<le> unat x \<Longrightarrow> unat (x - of_nat n :: u8) = unat x - n"
proof -
  assume n: "n \<le> unat x"
  moreover have "unat x < 256"
    using unsigned_less [of x] by simp
  ultimately have "n < 256"
    by linarith
  then have "unat (of_nat n :: u8) = n"
    by (simp add: unat_of_nat take_bit_eq_mod)
  with n show ?thesis
    by (simp add: unat_sub word_le_nat_alt)
qed

lemma count_up_rising:
  assumes F: "0 < FilterTime b" "FilterTime b < 128" and c: "Count b < FilterTime b"
  shows "count_up (b\<lparr>Count := rising b n\<rparr>) =
    (if n \<le> unat (FilterTime b) then Some (b\<lparr>Count := rising b (Suc n)\<rparr>)
     else if n = unat (FilterTime b) + 1 then None
     else count_up (b\<lparr>Count := rising b n\<rparr>))"
proof (cases n)
  case 0
  with c show ?thesis by (simp add: count_up_def rising_def)
next
  case (Suc i)
  let ?F = "unat (FilterTime b)"
  have "?F < 128"
    using F by (simp add: word_less_nat_alt)
  then have "i \<le> ?F \<Longrightarrow> unat (FilterTime b + of_nat i) = ?F + i"
    by (intro unat_add_small) simp
  with Suc show ?thesis
    by (auto simp: count_up_def rising_def word_less_nat_alt add.assoc add.commute [of 1])
qed

lemma count_down_falling:
  assumes c: "FilterTime b < Count b"
  shows "count_down (b\<lparr>Count := falling b n\<rparr>) =
    (if n \<le> unat (FilterTime b) then Some (b\<lparr>Count := falling b (Suc n)\<rparr>)
     else if n = unat (FilterTime b) + 1 then None
     else count_down (b\<lparr>Count := falling b n\<rparr>))"
proof (cases n)
  case 0
  with c show ?thesis by (simp add: count_down_def falling_def)
next
  case (Suc i)
  let ?F = "unat (FilterTime b)"
  have "i \<le> ?F \<Longrightarrow> unat (FilterTime b - of_nat i) = ?F - i"
    by (rule unat_sub_small)
  moreover have "i < ?F \<Longrightarrow> FilterTime b - of_nat i \<noteq> 0"
    using unat_sub_small [of i "FilterTime b"] by (metis less_imp_le unat_0 zero_less_diff less_irrefl)
  ultimately show ?thesis
    using Suc by (auto simp: count_down_def falling_def word_less_nat_alt diff_diff_eq add.commute [of 1])
qed

lemma rising_scans:
  assumes b: "plain b down" "State b = 0" "Count b < FilterTime b"
  shows "length (filter down ps) \<le> unat (FilterTime b) + 1 \<Longrightarrow>
    scan ps b k = Some (b\<lparr>Count := rising b (length (filter down ps))\<rparr>, k)"
proof (induction ps rule: rev_induct)
  case Nil
  then show ?case by (simp add: rising_def)
next
  case (snoc p ps)
  obtain f where f: "IsKeyDownFunc b = Some f" "stat_of f p = (if down p then 1 else 0)"
    using plain_stat [OF b(1)] by blast
  have F: "0 < FilterTime b" "FilterTime b < 128"
    using b(1) by (simp_all add: plain_def)
  show ?case
    using snoc f b count_up_rising [OF F b(3), of "length (filter down ps)"]
    by (auto simp: scan_append DetectButton_def split: if_splits)
qed

text \<open>The down scan after which the key counts as pressed, whatever was between the others.\<close>

lemma press_scan:
  assumes b: "plain b down" "State b = 0" "Count b < FilterTime b"
    and n: "length (filter down ps) = unat (FilterTime b) + 1" and p: "down p"
  shows "scan (ps @ [p]) b k = do {
     k \<leftarrow> report_down b k;
     Some (b\<lparr>Count := rising b (unat (FilterTime b) + 1), State := 1\<rparr>, k) }"
proof -
  let ?b = "b\<lparr>Count := rising b (unat (FilterTime b) + 1)\<rparr>"
  obtain f where f: "IsKeyDownFunc b = Some f" "stat_of f p = 1"
    using plain_stat [OF b(1), of p] p by auto
  have F: "0 < FilterTime b" "FilterTime b < 128"
    using b(1) by (simp_all add: plain_def)
  have "count_up ?b = None"
    using count_up_rising [OF F b(3), of "unat (FilterTime b) + 1"] by simp
  moreover have "report_down ?b k = report_down b k"
    by (simp add: report_down_def)
  ultimately show ?thesis
    using rising_scans [OF b, of ps k] n f b(2) by (simp add: scan_append DetectButton_def)
qed

lemma falling_scans:
  assumes b: "plain b down" "State b = 1" "FilterTime b < Count b" and up: "\<forall>p \<in> set ps. \<not> down p"
  shows "length ps \<le> unat (FilterTime b) + 1 \<Longrightarrow>
    scan ps b k = Some (b\<lparr>Count := falling b (length ps)\<rparr>, k)"
  using up
proof (induction ps rule: rev_induct)
  case Nil
  then show ?case by (simp add: falling_def)
next
  case (snoc p ps)
  obtain f where f: "IsKeyDownFunc b = Some f" "stat_of f p = 0"
    using plain_stat [OF b(1), of p] snoc.prems by auto
  show ?case
    using snoc f b count_down_falling [OF b(3), of "length ps"]
    by (auto simp: scan_append DetectButton_def split: if_splits)
qed

lemma falling_end: "falling b (unat (FilterTime b) + 1) = 0"
  by (simp add: falling_def)

lemma release_scan:
  assumes b: "plain b down" "State b = 1" "FilterTime b < Count b"
    and up: "\<forall>p \<in> set ps. \<not> down p" "length ps = unat (FilterTime b) + 2"
  shows "scan ps b k = do {
     k \<leftarrow> put_if (KeyCodeUp b) k;
     Some (b\<lparr>Count := 0, LongCount := 0, State := 0\<rparr>, k) }"
proof -
  obtain qs p where ps: "ps = qs @ [p]"
    using up(2) by (cases ps rule: rev_cases) auto
  let ?b = "b\<lparr>Count := falling b (unat (FilterTime b) + 1)\<rparr>"
  obtain f where f: "IsKeyDownFunc b = Some f" "stat_of f p = 0"
    using plain_stat [OF b(1), of p] up ps by auto
  have "count_down ?b = None"
    using count_down_falling [OF b(3), of "unat (FilterTime b) + 1"] by simp
  then show ?thesis
    using falling_scans [OF b, of qs k] up f b(2) falling_end [of b]
    by (simp add: ps scan_append DetectButton_def)
qed

lemma idle_scans:
  assumes b: "plain b down" "State b = 0" and up: "\<forall>p \<in> set ps. \<not> down p"
  shows "scan ps b k = Some (b, k)"
  using up
proof (induction ps)
  case (Cons p ps)
  obtain f where f: "IsKeyDownFunc b = Some f" "stat_of f p = 0"
    using plain_stat [OF b(1), of p] Cons.prems by auto
  with Cons b(2) show ?case by (simp add: DetectButton_def)
qed simp

lemma hold_scans:
  assumes b: "plain b down" "State b = 1" and dn: "\<forall>p \<in> set ps. down p"
    and l: "LongTime b = 0 \<or> unat (LongCount b) + length ps < unat (LongTime b)"
  shows "scan ps b k = Some (b\<lparr>LongCount :=
    (if LongTime b = 0 then LongCount b else LongCount b + of_nat (length ps))\<rparr>, k)"
  using assms
proof (induction ps arbitrary: b)
  case (Cons p ps)
  obtain f where f: "IsKeyDownFunc b = Some f" "stat_of f p = 1"
    using plain_stat [OF Cons.prems(1), of p] Cons.prems(3) by auto
  show ?case
  proof (cases "LongTime b = 0")
    case True
    with f Cons.prems Cons.IH [of b] show ?thesis by (simp add: DetectButton_def)
  next
    case False
    let ?b = "b\<lparr>LongCount := LongCount b + 1\<rparr>"
    have l: "unat (LongCount b) + Suc (length ps) < unat (LongTime b)"
      using Cons.prems(4) False by simp
    have u: "unat (LongCount b + 1) = unat (LongCount b) + 1"
      using l unat_u16 [of "LongTime b"] by (simp add: unat_word_ariths)
    have "LongCount b + 1 \<noteq> LongTime b"
      using u l by auto
    moreover have "LongCount b < LongTime b" "0 < LongTime b"
      using l False by (simp_all add: word_less_nat_alt word_neq_0_conv)
    ultimately have "DetectButton p b k = Some (?b, k)"
      using f Cons.prems(2) by (simp add: DetectButton_def)
    moreover have "scan ps ?b k = Some (?b\<lparr>LongCount := LongCount ?b + of_nat (length ps)\<rparr>, k)"
      using Cons.prems u l False by (subst Cons.IH) (simp_all add: plain_def)
    ultimately show ?thesis
      using False by (simp add: add.assoc)
  qed
qed simp

section \<open>The panel never faults\<close>

definition panel_inv :: "key_state \<Rightarrow> bool" where
  "panel_inv s \<longleftrightarrow> key_legal (s_Key s) \<and> (key_flag s \<noteq> 0 \<longrightarrow>
     (\<forall>b \<in> {s_BtnUp s, s_BtnDown s, s_BtnOk s, s_BtnMenu s, s_BtnMenuUp s, s_BtnMenuDown s, s_BtnMenuOk s}.
        IsKeyDownFunc b \<noteq> None \<and> State b \<le> 3))"

lemma DetectButton_yields:
  assumes "key_legal k" "\<exists>f. IsKeyDownFunc b = Some f" "State b \<le> 3"
  shows "yields (DetectButton p b k) (\<lambda>(b', k').
    key_legal k' \<and> IsKeyDownFunc b' = IsKeyDownFunc b \<and> State b' \<le> 3)"
proof -
  obtain f where f: "IsKeyDownFunc b = Some f"
    using assms(2) by blast
  have put: "yields (PutKey c k') Q" if "key_legal k'" "\<And>k''. key_legal k'' \<Longrightarrow> Q k''" for c k' Q
    using PutKey_legal [OF that(1)] that(2) by (auto simp: yields_iff)
  have reset: "key_legal (k\<lparr>Read := 0, Write := 0\<rparr>)"
    using assms(1) by (simp add: key_legal_def KEY_FIFO_SIZE_def)
  have cu: "case count_up b of None \<Rightarrow> True | Some b' \<Rightarrow> IsKeyDownFunc b' = IsKeyDownFunc b \<and> State b' = State b"
    by (simp add: count_up_def)
  have cd: "case count_down b of None \<Rightarrow> True | Some b' \<Rightarrow> IsKeyDownFunc b' = IsKeyDownFunc b \<and> State b' = State b"
    by (simp add: count_down_def)
  show ?thesis
    using assms(1,3) f reset cu cd
    by (auto simp: DetectButton_def report_down_def put_if_def wp_simps Let_def intro!: put
        split: option.splits)
qed

lemma InitButtonVar_inv:
  "key_legal (s_Key s) \<Longrightarrow> panel_inv (InitButtonVar s)"
  by (simp add: InitButtonVar_def init_button_def panel_inv_def key_legal_def KEY_FIFO_SIZE_def Let_def)

lemma key_flag_InitButtonVar [simp]: "key_flag (InitButtonVar s) = key_flag s"
  by (simp add: InitButtonVar_def Let_def)

lemma KeyPro_yields:
  assumes "panel_inv s"
  shows "yields (KeyPro p s) panel_inv"
proof -
  let ?s = "if key_flag s = 0 then InitButtonVar (s\<lparr>key_flag := 1\<rparr>) else s"
  have "panel_inv ?s" "key_flag ?s \<noteq> 0"
    using assms InitButtonVar_inv [of "s\<lparr>key_flag := 1\<rparr>"] by (simp_all add: panel_inv_def)
  then obtain s' where s: "s' = ?s" "panel_inv s'" "key_flag s' \<noteq> 0"
    by blast
  then show ?thesis
    unfolding KeyPro_def s(1) [symmetric]
    by (auto simp: wp_simps panel_inv_def intro!: DetectButton_yields [THEN yields_mono])
qed

fun scans :: "pins list \<Rightarrow> key_state \<Rightarrow> key_state option" where
  "scans [] s = Some s"
| "scans (p # ps) s = do { s \<leftarrow> KeyPro p s; scans ps s }"

definition button_zero :: BUTTON_T where
  "button_zero = \<lparr>IsKeyDownFunc = None, Count = 0, FilterTime = 0, LongCount = 0, LongTime = 0, State = 0,
     KeyCodeUp = 0, KeyCodeDown = 0, KeyCodeLong = 0, keyCodeCombPrime1_2 = 0, keyCodeCombPrime2_1 = 0\<rparr>"

text \<open>Static storage is zero at reset.\<close>

definition key_reset :: key_state where
  "key_reset = \<lparr>s_Key = \<lparr>Buf = replicate KEY_FIFO_SIZE 0, Read = 0, Write = 0\<rparr>, s_BtnUp = button_zero,
     s_BtnDown = button_zero, s_BtnOk = button_zero, s_BtnMenu = button_zero, s_BtnMenuUp = button_zero,
     s_BtnMenuDown = button_zero, s_BtnMenuOk = button_zero, key_flag = 0\<rparr>"

lemma key_reset_inv: "panel_inv key_reset"
  by (simp add: panel_inv_def key_reset_def key_legal_def KEY_FIFO_SIZE_def)

lemma scans_yields: "panel_inv s \<Longrightarrow> yields (scans ps s) panel_inv"
  by (induction ps arbitrary: s) (auto simp: wp_simps intro: KeyPro_yields [THEN yields_mono])

section \<open>Properties\<close>

text \<open>
  Refinement: as long as no put finds four codes waiting, any run of \<open>PutKey\<close> and
  \<open>GetKey\<close> returns what a first-in first-out list returns.
\<close>

theorem key_buffer_is_queue:
  assumes "key_legal k" "fits 4 ops (length (keys k))"
  shows "\<exists>rs k'. queue_run PutKey get_key ops k = Some (rs, k') \<and> key_legal k'
    \<and> list_run 4 ops (keys k) = (rs, keys k')"
  using keyq.run_refines [OF assms] by (auto simp: yields_iff)

lemma key_reset_legal: "key_legal (s_Key key_reset)" "keys (s_Key key_reset) = []"
  by (simp_all add: key_reset_def key_legal_def KEY_FIFO_SIZE_def keys_def)

theorem key_buffer_is_queue_witness:
  "\<exists>rs k'. queue_run PutKey get_key [Put 7, Put 8, Get, Get, Get] (s_Key key_reset) = Some (rs, k') \<and> key_legal k'
    \<and> list_run 4 [Put 7, Put 8, Get, Get, Get] (keys (s_Key key_reset)) = (rs, keys k')"
  by (rule key_buffer_is_queue) (simp_all add: key_reset_legal)

text \<open>
  A put into the full key buffer is not refused: it makes the buffer empty, and all five
  codes are lost. Every other put appends.
\<close>

theorem key_buffer_overflow:
  assumes "key_legal k"
  shows "\<exists>k'. PutKey c k = Some k' \<and> key_legal k'
    \<and> keys k' = (if length (keys k) = 4 then [] else keys k @ [c])"
proof -
  have "length (keys k) \<le> 4"
    using assms by (auto simp: length_keys KEY_FIFO_SIZE_def key_legal_def)
  then show ?thesis
    using PutKey_keys [OF assms, of c] by (auto simp: yields_iff)
qed

theorem key_buffer_overflow_witness:
  "\<exists>k'. PutKey 1 \<lparr>Buf = [5, 6, 7, 8, 9], Read = 1, Write = 0\<rparr> = Some k' \<and> key_legal k'
    \<and> keys k' = (if length (keys \<lparr>Buf = [5, 6, 7, 8, 9], Read = 1, Write = 0\<rparr>) = 4 then []
                 else keys \<lparr>Buf = [5, 6, 7, 8, 9], Read = 1, Write = 0\<rparr> @ [1])"
  by (rule key_buffer_overflow) (simp add: key_legal_def KEY_FIFO_SIZE_def)

text \<open>
  C37. Invariant: from reset, whatever the pins do in whatever sequence of scans, \<open>KeyPro\<close>
  never calls through a null pointer and never leaves the key buffer.
\<close>

theorem panel_never_faults:
  "\<exists>s. scans ps key_reset = Some s \<and> panel_inv s"
  using scans_yields [OF key_reset_inv, of ps] by (auto simp: yields_iff)

text \<open>
  A press of a plain key that is held for at least \<open>FilterTime + 2\<close> scans, less than the
  long time more, and then released for at least \<open>FilterTime + 2\<close> scans gives exactly the
  down code and the up code, and leaves the button as it was.
\<close>

theorem press_release_once:
  assumes b: "plain b down" "State b = 0" "Count b < FilterTime b" "LongCount b = 0"
    and code: "0 < KeyCodeDown b" "KeyCodeDown b \<noteq> KEY_DOWN_MENU_AND_OK" "0 < KeyCodeUp b"
    and k: "key_legal k" "length (keys k) + 2 \<le> 4"
    and dn: "\<forall>p \<in> set ds. down p" "unat (FilterTime b) + 2 \<le> length ds"
      "LongTime b = 0 \<or> length ds < unat (FilterTime b) + 2 + unat (LongTime b)"
    and up: "\<forall>p \<in> set us. \<not> down p" "unat (FilterTime b) + 2 \<le> length us"
  shows "\<exists>k'. scan (ds @ us) b k = Some (b\<lparr>Count := 0\<rparr>, k') \<and> key_legal k'
    \<and> keys k' = keys k @ [KeyCodeDown b, KeyCodeUp b]"
proof -
  let ?F = "unat (FilterTime b)"
  let ?b1 = "b\<lparr>Count := rising b (?F + 1), State := 1\<rparr>"
  have F: "0 < ?F" "?F < 128"
    using b(1) by (simp_all add: plain_def word_less_nat_alt)
  obtain k1 where k1: "PutKey (KeyCodeDown b) k = Some k1" "key_legal k1"
    "keys k1 = keys k @ [KeyCodeDown b]"
    using PutKey_keys [OF k(1), of "KeyCodeDown b"] k(2) by (auto simp: yields_iff)
  obtain k2 where k2: "PutKey (KeyCodeUp b) k1 = Some k2" "key_legal k2"
    "keys k2 = keys k1 @ [KeyCodeUp b]"
    using PutKey_keys [OF k1(2), of "KeyCodeUp b"] k1(3) k(2) by (auto simp: yields_iff)
  define d1 d2 d3 where d: "d1 = take (?F + 1) ds" "d2 = ds ! (?F + 1)" "d3 = drop (?F + 2) ds"
  have ds: "ds = (d1 @ [d2]) @ d3"
    using dn(2) by (simp add: d id_take_nth_drop [symmetric])
  have "filter down d1 = d1"
    using dn(1) by (auto simp: d filter_id_conv dest: in_set_takeD)
  have "scan (d1 @ [d2]) b k = Some (?b1, k1)"
  proof (subst press_scan [OF b(1-3)])
    show "length (filter down d1) = ?F + 1" "down d2"
      using dn(1,2) \<open>filter down d1 = d1\<close> by (simp_all add: d)
  qed (simp add: report_down_def b(2) code k1(1))
  moreover obtain b2 where "b2 = ?b1\<lparr>LongCount := (if LongTime b = 0 then 0 else of_nat (length d3))\<rparr>"
    by blast
  moreover have "plain ?b1 down" "\<forall>p \<in> set d3. down p"
    using b(1) dn(1) by (auto simp: plain_def d dest: in_set_dropD)
  then have "scan d3 ?b1 k1 = Some (b2, k1)"
    using dn(2,3) b(4) calculation(2) by (subst hold_scans) (auto simp: d)
  moreover define u1 u2 where u: "u1 = take (?F + 2) us" "u2 = drop (?F + 2) us"
  then have us: "us = u1 @ u2" by simp
  have "unat (rising b (?F + 1)) = ?F + ?F"
    using F by (simp add: rising_def unat_word_ariths)
  then have "FilterTime b < rising b (?F + 1)"
    using F by (simp add: word_less_nat_alt)
  then have "scan u1 b2 k1 = Some (b\<lparr>Count := 0\<rparr>, k2)"
    using b up calculation(2) k2(1) code(3)
    by (subst release_scan) (auto simp: u plain_def put_if_def dest: in_set_takeD)
  moreover have "scan u2 (b\<lparr>Count := 0\<rparr>) k2 = Some (b\<lparr>Count := 0\<rparr>, k2)"
    using b up(1) by (intro idle_scans) (auto simp: u plain_def dest: in_set_dropD)
  ultimately have "scan (ds @ us) b k = Some (b\<lparr>Count := 0\<rparr>, k2)"
    by (simp only: ds us append_assoc [of "d1 @ [d2]"] scan_then)
  then show ?thesis
    using k2(2,3) k1(3) by simp
qed

definition button_up :: BUTTON_T where
  "button_up = s_BtnUp (InitButtonVar key_reset)"

lemma button_up_eq:
  "button_up = button_zero\<lparr>IsKeyDownFunc := Some StatUp, FilterTime := 2, LongTime := 100, Count := 1,
     KeyCodeDown := KEY_DOWN_UP, KeyCodeUp := KEY_UP_UP\<rparr>"
  by (simp add: button_up_def InitButtonVar_def init_button_def key_reset_def button_zero_def Let_def
      BUTTON_FILTER_TIME_def BUTTON_LONG_TIME_def)

definition up_pin :: pins where
  "up_pin = \<lparr>UpKeyDown = True, DownKeyDown = False, OkKeyDown = False, MenuKeyDown = False\<rparr>"

definition no_pin :: pins where
  "no_pin = up_pin\<lparr>UpKeyDown := False\<rparr>"

lemma button_up_plain: "plain button_up UpKeyDown"
  by (simp add: plain_def button_up_eq)

lemmas button_up_simps = button_up_eq button_zero_def up_pin_def no_pin_def key_defs

theorem press_release_once_witness:
  "\<exists>k'. scan (replicate 20 up_pin @ replicate 9 no_pin) button_up (s_Key key_reset)
      = Some (button_up\<lparr>Count := 0\<rparr>, k') \<and> key_legal k'
    \<and> keys k' = keys (s_Key key_reset) @ [KeyCodeDown button_up, KeyCodeUp button_up]"
  by (rule press_release_once [OF button_up_plain]) (simp_all add: key_reset_legal, simp_all add: button_up_simps)

text \<open>
  The debouncing counts the down scans and never forgets them while the key is up: the
  key counts as pressed at exactly the scan that is its \<open>FilterTime + 2\<close>nd down scan since
  it was idle, however many up scans lie in between.
\<close>

theorem glitches_are_presses:
  assumes b: "plain b down" "State b = 0" "Count b < FilterTime b"
    and code: "0 < KeyCodeDown b" "KeyCodeDown b \<noteq> KEY_DOWN_MENU_AND_OK"
    and k: "key_legal k" "length (keys k) < 4"
    and p: "down p" "length (filter down ps) \<le> unat (FilterTime b) + 1"
  shows "\<exists>b' k'. scan (ps @ [p]) b k = Some (b', k')
    \<and> (if length (filter down ps) = unat (FilterTime b) + 1
       then State b' = 1 \<and> keys k' = keys k @ [KeyCodeDown b]
       else State b' = 0 \<and> k' = k)"
proof (cases "length (filter down ps) = unat (FilterTime b) + 1")
  case True
  obtain k' where "PutKey (KeyCodeDown b) k = Some k'" "keys k' = keys k @ [KeyCodeDown b]"
    using PutKey_keys [OF k(1), of "KeyCodeDown b"] k(2) by (auto simp: yields_iff)
  with True press_scan [OF b True p(1), of k] b(2) code show ?thesis
    by (simp add: report_down_def)
next
  case False
  with rising_scans [OF b, of "ps @ [p]" k] p b(2) show ?thesis
    by simp
qed

theorem glitches_are_presses_witness:
  "\<exists>b' k'. scan ([up_pin, no_pin, no_pin, up_pin, no_pin, up_pin, no_pin] @ [up_pin]) button_up (s_Key key_reset) = Some (b', k')
    \<and> (if length (filter UpKeyDown [up_pin, no_pin, no_pin, up_pin, no_pin, up_pin, no_pin]) = unat (FilterTime button_up) + 1
       then State b' = 1 \<and> keys k' = keys (s_Key key_reset) @ [KeyCodeDown button_up]
       else State b' = 0 \<and> k' = s_Key key_reset)"
  by (rule glitches_are_presses [OF button_up_plain])
    (simp_all add: key_reset_legal, simp_all add: button_up_simps)

end
