(* ===== verification/Kernel_Heap.thy ===== *)
theory Kernel_Heap
  imports Prelude
begin

text \<open>
  \<^verbatim>\<open>src/mem.c\<close>: the small memory heap behind \<open>rt_malloc\<close>, \<open>rt_free\<close>, \<open>rt_realloc\<close> and
  \<open>rt_calloc\<close>.

  The heap is its bytes, from \<open>heap_ptr\<close> up to the end of the header of \<open>heap_end\<close>. A
  \<open>struct heap_mem\<close> is the twelve bytes at its offset, little endian, so that headers and user
  data share one memory as they do in the code. Pointers into the heap are offsets from
  \<open>heap_ptr\<close>; what is handed to the caller is an address (0 is \<open>RT_NULL\<close>). \<open>rt_size_t\<close> is
  32 bits wide: \<open>sub32\<close> writes the wrap-around out where a difference can wrap.

  The calls run in threads, one at a time: \<open>heap_sem\<close> is taken and released as in the code,
  and a call that takes it while it is 0 never returns. The hooks are not set. User data is
  written by \<open>app_write\<close>, at any moment.
\<close>

section \<open>Headers\<close>

record heap_mem =
  magic :: u16
  used :: u16
  "next" :: u32
  prev :: u32

definition HEAP_MAGIC :: u16 where "HEAP_MAGIC = 0x1ea0"
definition SIZEOF_STRUCT_MEM :: nat where "SIZEOF_STRUCT_MEM = 12"
definition MIN_SIZE :: nat where "MIN_SIZE = 12"
definition MIN_SIZE_ALIGNED :: nat where "MIN_SIZE_ALIGNED = 12"

definition le16 :: "u16 \<Rightarrow> u8 list" where
  "le16 w = [lo8 w, hi8 w]"

definition lo16 :: "u32 \<Rightarrow> u16" where "lo16 w = ucast w"
definition hi16 :: "u32 \<Rightarrow> u16" where "hi16 w = ucast (drop_bit 16 w)"

definition join32 :: "u16 \<Rightarrow> u16 \<Rightarrow> u32" where
  "join32 h l = push_bit 16 (ucast h) OR ucast l"

definition header_bytes :: "heap_mem \<Rightarrow> u8 list" where
  "header_bytes h = le16 (magic h) @ le16 (used h)
     @ le16 (lo16 (next h)) @ le16 (hi16 (next h)) @ le16 (lo16 (prev h)) @ le16 (hi16 (prev h))"

definition header_of :: "u8 list \<Rightarrow> heap_mem" where
  "header_of b = \<lparr>magic = be16 (b ! 1) (b ! 0), used = be16 (b ! 3) (b ! 2),
     next = join32 (be16 (b ! 7) (b ! 6)) (be16 (b ! 5) (b ! 4)),
     prev = join32 (be16 (b ! 11) (b ! 10)) (be16 (b ! 9) (b ! 8))\<rparr>"

definition get_header :: "u8 list \<Rightarrow> nat \<Rightarrow> heap_mem option" where
  "get_header m p = (if p + SIZEOF_STRUCT_MEM \<le> length m
     then Some (header_of (take SIZEOF_STRUCT_MEM (drop p m))) else None)"

definition put_header :: "u8 list \<Rightarrow> nat \<Rightarrow> heap_mem \<Rightarrow> u8 list option" where
  "put_header m p h = (if p + SIZEOF_STRUCT_MEM \<le> length m
     then Some (splice m p (header_bytes h)) else None)"

section \<open>State\<close>

record heap =
  bytes :: "u8 list"
  heap_ptr :: nat
  heap_end :: nat
  lfree :: nat
  heap_sem :: nat
  mem_size_aligned :: nat
  used_mem :: u32
  max_mem :: u32

definition sub32 :: "nat \<Rightarrow> nat \<Rightarrow> nat" where
  "sub32 a b = (a + 4294967296 - b) mod 4294967296"

text \<open>\<open>RT_ALIGN(n, 4)\<close> and \<open>RT_ALIGN_DOWN(n, 4)\<close> of a 32-bit value.\<close>

definition align_up :: "u32 \<Rightarrow> nat" where
  "align_up n = unat ((n + 3) AND NOT 3)"

definition align_down :: "u32 \<Rightarrow> nat" where
  "align_down n = unat (n AND NOT 3)"

text \<open>\<open>*(struct heap_mem *)&heap_ptr[p]\<close>: the header, and a store to some of its members.\<close>

definition hdr :: "heap \<Rightarrow> nat \<Rightarrow> heap_mem option" where
  "hdr s p = get_header (bytes s) p"

definition store :: "nat \<Rightarrow> (heap_mem \<Rightarrow> heap_mem) \<Rightarrow> heap \<Rightarrow> heap option" where
  "store p f s = do {
     h \<leftarrow> hdr s p;
     m \<leftarrow> put_header (bytes s) p (f h);
     Some (s\<lparr>bytes := m\<rparr>)
   }"

definition sem_take :: "heap \<Rightarrow> heap option" where
  "sem_take s = (if heap_sem s = 0 then None else Some (s\<lparr>heap_sem := heap_sem s - 1\<rparr>))"

definition sem_release :: "heap \<Rightarrow> heap" where
  "sem_release s = s\<lparr>heap_sem := heap_sem s + 1\<rparr>"

section \<open>Operations\<close>

definition plug_forward :: "nat \<Rightarrow> heap \<Rightarrow> heap option" where
  "plug_forward mem s = do {
     h \<leftarrow> hdr s mem;
     let nmem = unat (next h);
     if mem \<noteq> nmem then do {
       nh \<leftarrow> hdr s nmem;
       if used nh = 0 \<and> nmem \<noteq> heap_end s then do {
         let s = (if lfree s = nmem then s\<lparr>lfree := mem\<rparr> else s);
         s \<leftarrow> store mem (\<lambda>h. h\<lparr>next := next nh\<rparr>) s;
         store (unat (next nh)) (\<lambda>h. h\<lparr>prev := of_nat mem\<rparr>) s
       }
       else Some s
     }
     else Some s
   }"

definition plug_backward :: "nat \<Rightarrow> heap \<Rightarrow> heap option" where
  "plug_backward mem s = do {
     h \<leftarrow> hdr s mem;
     let pmem = unat (prev h);
     if pmem \<noteq> mem then do {
       ph \<leftarrow> hdr s pmem;
       if used ph = 0 then do {
         let s = (if lfree s = mem then s\<lparr>lfree := pmem\<rparr> else s);
         s \<leftarrow> store pmem (\<lambda>p. p\<lparr>next := next h\<rparr>) s;
         store (unat (next h)) (\<lambda>h. h\<lparr>prev := of_nat pmem\<rparr>) s
       }
       else Some s
     }
     else Some s
   }"

definition plug_holes :: "nat \<Rightarrow> heap \<Rightarrow> heap option" where
  "plug_holes mem s = do {
     h \<leftarrow> hdr s mem;
     c_assert (mem < heap_end s);
     c_assert (used h = 0);
     s \<leftarrow> plug_forward mem s;
     plug_backward mem s
   }"

text \<open>
  \<open>ram\<close> is what the memory from the aligned begin address on holds before. When the region is
  too small, nothing is set up.
\<close>

definition rt_system_heap_init :: "u32 \<Rightarrow> u32 \<Rightarrow> u8 list \<Rightarrow> heap \<Rightarrow> heap option" where
  "rt_system_heap_init begin_addr end_addr ram s =
     (let begin_align = align_up begin_addr; end_align = align_down end_addr in
      if end_align > 2 * SIZEOF_STRUCT_MEM \<and> end_align - 2 * SIZEOF_STRUCT_MEM \<ge> begin_align
      then do {
        let sz = end_align - begin_align - 2 * SIZEOF_STRUCT_MEM;
        let e = sz + SIZEOF_STRUCT_MEM;
        m \<leftarrow> put_header ram 0 \<lparr>magic = HEAP_MAGIC, used = 0, next = of_nat e, prev = 0\<rparr>;
        m \<leftarrow> put_header m e \<lparr>magic = HEAP_MAGIC, used = 1, next = of_nat e, prev = of_nat e\<rparr>;
        Some (s\<lparr>mem_size_aligned := sz, heap_ptr := begin_align, bytes := m, heap_end := e,
                heap_sem := 1, lfree := 0\<rparr>)
      }
      else Some s)"

text \<open>The loop of \<open>rt_malloc\<close> up to the first block that fits (its offset), or to its end.\<close>

partial_function (option) search_fit :: "nat \<Rightarrow> nat \<Rightarrow> heap \<Rightarrow> nat option option" where
  "search_fit n p s =
     (if p < sub32 (mem_size_aligned s) n then do {
        h \<leftarrow> hdr s p;
        if used h = 0 \<and> sub32 (unat (next h)) (p + SIZEOF_STRUCT_MEM) \<ge> n
        then Some (Some p)
        else search_fit n (unat (next h)) s
      }
      else Some None)"

partial_function (option) next_free :: "nat \<Rightarrow> heap \<Rightarrow> nat option" where
  "next_free p s = do {
     h \<leftarrow> hdr s p;
     if used h \<noteq> 0 \<and> p \<noteq> heap_end s then next_free (unat (next h)) s else Some p
   }"

definition count_used :: "nat \<Rightarrow> heap \<Rightarrow> heap" where
  "count_used n s =
     (let u = used_mem s + of_nat n in s\<lparr>used_mem := u, max_mem := (if max_mem s < u then u else max_mem s)\<rparr>)"

text \<open>
  A new free block behind the first \<open>n\<close> bytes of the block at \<open>p\<close>, whose header is changed by
  \<open>f\<close>. The end of the heap does not learn its new predecessor.
\<close>

definition split_block :: "nat \<Rightarrow> nat \<Rightarrow> (heap_mem \<Rightarrow> heap_mem) \<Rightarrow> heap \<Rightarrow> heap option" where
  "split_block n p f s = do {
     h \<leftarrow> hdr s p;
     let p2 = p + SIZEOF_STRUCT_MEM + n;
     m \<leftarrow> put_header (bytes s) p2 \<lparr>magic = HEAP_MAGIC, used = 0, next = next h, prev = of_nat p\<rparr>;
     let s = s\<lparr>bytes := m\<rparr>;
     s \<leftarrow> store p (\<lambda>h. f (h\<lparr>next := of_nat p2\<rparr>)) s;
     if unat (next h) \<noteq> mem_size_aligned s + SIZEOF_STRUCT_MEM
     then store (unat (next h)) (\<lambda>h. h\<lparr>prev := of_nat p2\<rparr>) s
     else Some s
   }"

text \<open>The block at \<open>p\<close> is taken, and split when the rest can hold a header and data.\<close>

definition take_block :: "nat \<Rightarrow> nat \<Rightarrow> heap \<Rightarrow> heap option" where
  "take_block n p s = do {
     h \<leftarrow> hdr s p;
     s \<leftarrow> (if sub32 (unat (next h)) (p + SIZEOF_STRUCT_MEM) \<ge> n + SIZEOF_STRUCT_MEM + MIN_SIZE_ALIGNED
       then do {
         s \<leftarrow> split_block n p (\<lambda>h. h\<lparr>used := 1\<rparr>) s;
         Some (count_used (n + SIZEOF_STRUCT_MEM) s)
       }
       else do {
         s \<leftarrow> store p (\<lambda>h. h\<lparr>used := 1\<rparr>) s;
         Some (count_used (sub32 (unat (next h)) p) s)
       });
     s \<leftarrow> store p (\<lambda>h. h\<lparr>magic := HEAP_MAGIC\<rparr>) s;
     if p = lfree s then do {
       q \<leftarrow> next_free p s;
       h \<leftarrow> hdr s q;
       c_assert (q = heap_end s \<or> used h = 0);
       Some (s\<lparr>lfree := q\<rparr>)
     }
     else Some s
   }"

definition rt_malloc :: "u32 \<Rightarrow> heap \<Rightarrow> (nat \<times> heap) option" where
  "rt_malloc sz s =
     (if sz = 0 then Some (0, s)
      else let n = align_up sz in
      if n > mem_size_aligned s then Some (0, s)
      else do {
        let n = (if n < MIN_SIZE_ALIGNED then MIN_SIZE_ALIGNED else n);
        s \<leftarrow> sem_take s;
        r \<leftarrow> search_fit n (lfree s) s;
        case r of
          None \<Rightarrow> Some (0, sem_release s)
        | Some p \<Rightarrow> do {
            s \<leftarrow> take_block n p s;
            let s = sem_release s;
            c_assert (heap_ptr s + p + SIZEOF_STRUCT_MEM + n \<le> heap_ptr s + heap_end s);
            c_assert ((heap_ptr s + p + SIZEOF_STRUCT_MEM) mod 4 = 0);
            c_assert ((heap_ptr s + p) mod 4 = 0);
            Some (heap_ptr s + p + SIZEOF_STRUCT_MEM, s)
          }
      })"

text \<open>The header of a block of the caller; a pointer to less than a header from the begin has none.\<close>

definition header_at :: "nat \<Rightarrow> heap \<Rightarrow> nat option" where
  "header_at rmem s = (if rmem < heap_ptr s + SIZEOF_STRUCT_MEM then None
     else Some (rmem - SIZEOF_STRUCT_MEM - heap_ptr s))"

definition rt_free :: "nat \<Rightarrow> heap \<Rightarrow> heap option" where
  "rt_free rmem s =
     (if rmem = 0 then Some s
      else do {
        c_assert (rmem mod 4 = 0);
        c_assert (rmem \<ge> heap_ptr s \<and> rmem < heap_ptr s + heap_end s);
        mem \<leftarrow> header_at rmem s;
        s \<leftarrow> sem_take s;
        h \<leftarrow> hdr s mem;
        c_assert (used h \<noteq> 0);
        c_assert (magic h = HEAP_MAGIC);
        s \<leftarrow> store mem (\<lambda>h. h\<lparr>used := 0, magic := HEAP_MAGIC\<rparr>) s;
        let s = (if mem < lfree s then s\<lparr>lfree := mem\<rparr> else s);
        let s = s\<lparr>used_mem := used_mem s - of_nat (sub32 (unat (next h)) mem)\<rparr>;
        s \<leftarrow> plug_holes mem s;
        Some (sem_release s)
      })"


definition rt_realloc :: "nat \<Rightarrow> u32 \<Rightarrow> heap \<Rightarrow> (nat \<times> heap) option" where
  "rt_realloc rmem newsize s =
     (let n = align_up newsize in
      if n > mem_size_aligned s then Some (0, s)
      else if n = 0 then do { s \<leftarrow> rt_free rmem s; Some (0, s) }
      else if rmem = 0 then rt_malloc (of_nat n) s
      else do {
        s \<leftarrow> sem_take s;
        if rmem < heap_ptr s \<or> rmem \<ge> heap_ptr s + heap_end s then Some (rmem, sem_release s)
        else do {
          p \<leftarrow> header_at rmem s;
          h \<leftarrow> hdr s p;
          let sz = sub32 (sub32 (unat (next h)) p) SIZEOF_STRUCT_MEM;
          if sz = n then Some (rmem, sem_release s)
          else if n + SIZEOF_STRUCT_MEM + MIN_SIZE < sz then do {
            let s = s\<lparr>used_mem := used_mem s - of_nat (sz - n)\<rparr>;
            s \<leftarrow> split_block n p (\<lambda>h. h) s;
            s \<leftarrow> plug_holes (p + SIZEOF_STRUCT_MEM + n) s;
            Some (rmem, sem_release s)
          }
          else do {
            let s = sem_release s;
            (nmem, s) \<leftarrow> rt_malloc (of_nat n) s;
            if nmem \<noteq> 0 then do {
              m \<leftarrow> copy_bytes (bytes s) (nmem - heap_ptr s) (bytes s) (rmem - heap_ptr s) (if sz < n then sz else n);
              s \<leftarrow> rt_free rmem (s\<lparr>bytes := m\<rparr>);
              Some (nmem, s)
            }
            else Some (nmem, s)
          }
        }
      })"

definition rt_calloc :: "u32 \<Rightarrow> u32 \<Rightarrow> heap \<Rightarrow> (nat \<times> heap) option" where
  "rt_calloc count sz s = do {
     (p, s) \<leftarrow> rt_malloc (count * sz) s;
     if p \<noteq> 0 then do {
       let n = unat (count * sz);
       m \<leftarrow> copy_bytes (bytes s) (p - heap_ptr s) (replicate n 0) 0 n;
       Some (p, s\<lparr>bytes := m\<rparr>)
     }
     else Some (p, s)
   }"

definition rt_memory_info :: "heap \<Rightarrow> nat \<times> u32 \<times> u32" where
  "rt_memory_info s = (mem_size_aligned s, used_mem s, max_mem s)"

text \<open>The application stores bytes at an address.\<close>

definition app_write :: "nat \<Rightarrow> u8 list \<Rightarrow> heap \<Rightarrow> heap" where
  "app_write a xs s = s\<lparr>bytes := splice (bytes s) (a - heap_ptr s) xs\<rparr>"

section \<open>Headers in memory\<close>

lemma le16_bytes: "le16 w = [lo8 w, hi8 w]"
  by (simp add: le16_def)

lemma join32_halves: "join32 (hi16 w) (lo16 w) = w"
  by (rule bit_word_eqI) (auto simp: join32_def hi16_def lo16_def bit_simps possible_bit_def dest: bit_imp_le_length)

lemma header_of_bytes: "header_of (header_bytes h) = h"
  by (simp add: header_of_def header_bytes_def le16_bytes be16_hi8_lo8 join32_halves)

lemma length_header_bytes [simp]: "length (header_bytes h) = 12"
  by (simp add: header_bytes_def le16_bytes)

lemma length_put_header: "put_header m p h = Some m' \<Longrightarrow> length m' = length m"
  by (auto simp: put_header_def SIZEOF_STRUCT_MEM_def split: if_splits)

lemma put_header_in: "p + 12 \<le> length m \<Longrightarrow> put_header m p h = Some (splice m p (header_bytes h))"
  by (simp add: put_header_def SIZEOF_STRUCT_MEM_def)

lemma get_put_same: "p + 12 \<le> length m \<Longrightarrow> get_header (splice m p (header_bytes h)) p = Some h"
  using take_drop_splice [of p "header_bytes h" m]
  by (simp add: get_header_def SIZEOF_STRUCT_MEM_def header_of_bytes)

text \<open>Two memories that agree on a region have the same headers there.\<close>

definition agree :: "u8 list \<Rightarrow> u8 list \<Rightarrow> nat \<Rightarrow> nat \<Rightarrow> bool" where
  "agree m m' a b \<longleftrightarrow> length m' = length m \<and> (\<forall>i. a \<le> i \<and> i < b \<longrightarrow> m' ! i = m ! i)"

lemma get_header_agree:
  assumes "agree m m' a b" "a \<le> p" "p + 12 \<le> b"
  shows "get_header m' p = get_header m p"
proof -
  have "take 12 (drop p m') = take 12 (drop p m)"
    if "p + 12 \<le> length m"
    using assms that by (intro nth_equalityI) (auto simp: agree_def)
  with assms(1) show ?thesis
    by (auto simp: get_header_def SIZEOF_STRUCT_MEM_def agree_def)
qed

lemma agree_splice: "p + length ys \<le> length m \<Longrightarrow> b \<le> p \<or> p + length ys \<le> a \<Longrightarrow>
    agree m (splice m p ys) a b"
  by (auto simp: agree_def nth_splice)

lemma agree_trans: "agree m m' a b \<Longrightarrow> agree m' m'' a b \<Longrightarrow> agree m m'' a b"
  by (auto simp: agree_def)

lemma agree_refl [simp]: "agree m m a b"
  by (simp add: agree_def)


lemma get_header_splice:
  assumes "q + 12 \<le> length m"
  shows "get_header (splice m q (header_bytes h)) q = Some h"
    and "x + 12 \<le> q \<or> q + 12 \<le> x \<Longrightarrow> get_header (splice m q (header_bytes h)) x = get_header m x"
proof -
  show "get_header (splice m q (header_bytes h)) q = Some h"
    by (rule get_put_same [OF assms])
  assume "x + 12 \<le> q \<or> q + 12 \<le> x"
  then show "get_header (splice m q (header_bytes h)) x = get_header m x"
    using assms by (intro get_header_agree [of _ _ x "x + 12"] agree_splice) auto
qed

section \<open>The block list\<close>

text \<open>
  A heap is a list of blocks, each with the size of its data and whether it is in use.
  \<open>layout p bs\<close> gives the offsets when the list starts at \<open>p\<close>.
\<close>

type_synonym blocks = "(nat \<times> bool) list"

fun span :: "blocks \<Rightarrow> nat" where
  "span [] = 0"
| "span ((n, u) # bs) = 12 + n + span bs"

fun last_at :: "nat \<Rightarrow> nat \<Rightarrow> blocks \<Rightarrow> nat" where
  "last_at pr p [] = pr"
| "last_at pr p ((n, u) # bs) = last_at p (p + 12 + n) bs"

fun layout :: "nat \<Rightarrow> blocks \<Rightarrow> (nat \<times> nat \<times> bool) set" where
  "layout p [] = {}"
| "layout p ((n, u) # bs) = insert (p, n, u) (layout (p + 12 + n) bs)"

definition header_is :: "u8 list \<Rightarrow> nat \<Rightarrow> bool \<Rightarrow> nat \<Rightarrow> nat \<Rightarrow> bool" where
  "header_is m p u nx pr \<longleftrightarrow> (\<exists>h. get_header m p = Some h \<and> magic h = HEAP_MAGIC \<and> (used h \<noteq> 0) = u
     \<and> unat (next h) = nx \<and> unat (prev h) = pr)"

fun segs :: "u8 list \<Rightarrow> nat \<Rightarrow> nat \<Rightarrow> blocks \<Rightarrow> bool" where
  "segs m pr p [] = True"
| "segs m pr p ((n, u) # bs) =
     (header_is m p u (p + 12 + n) pr \<and> 4 dvd n \<and> 0 < n \<and> segs m p (p + 12 + n) bs)"

lemma span_append [simp]: "span (xs @ ys) = span xs + span ys"
  by (induction xs) auto

lemma segs_append: "segs m pr p (xs @ ys) \<longleftrightarrow> segs m pr p xs \<and> segs m (last_at pr p xs) (p + span xs) ys"
  by (induction xs arbitrary: pr p) (auto simp: ac_simps)

lemma layout_append [simp]: "layout p (xs @ ys) = layout p xs \<union> layout (p + span xs) ys"
  by (induction xs arbitrary: p) (auto simp: ac_simps)

lemma last_at_snoc [simp]: "last_at pr p (xs @ [(n, u)]) = p + span xs"
  by (induction xs arbitrary: pr p) (auto simp: ac_simps)

lemma layout_bounds: "(x, n, u) \<in> layout p bs \<Longrightarrow> p \<le> x \<and> x + 12 + n \<le> p + span bs"
  by (induction bs arbitrary: p) fastforce+

lemma layout_split:
  "(x, n, u) \<in> layout p bs \<longleftrightarrow> (\<exists>xs ys. bs = xs @ (n, u) # ys \<and> x = p + span xs)"
proof (induction bs arbitrary: p)
  case (Cons b bs)
  obtain k v where b: "b = (k, v)" by fastforce
  show ?case
  proof
    assume "(x, n, u) \<in> layout p (b # bs)"
    then consider "x = p" "n = k" "u = v" | "(x, n, u) \<in> layout (p + 12 + k) bs"
      using b by auto
    then show "\<exists>xs ys. b # bs = xs @ (n, u) # ys \<and> x = p + span xs"
    proof cases
      case 1
      with b show ?thesis by (intro exI [of _ "[]"] exI [of _ bs]) simp
    next
      case 2
      then obtain xs ys where "bs = xs @ (n, u) # ys" "x = p + 12 + k + span xs"
        by (auto simp: Cons.IH)
      with b show ?thesis by (intro exI [of _ "b # xs"] exI [of _ ys]) simp
    qed
  next
    assume "\<exists>xs ys. b # bs = xs @ (n, u) # ys \<and> x = p + span xs"
    then obtain xs ys where "b # bs = xs @ (n, u) # ys" "x = p + span xs" by blast
    then show "(x, n, u) \<in> layout p (b # bs)"
      using b layout_append [of p xs "(n, u) # ys"] by simp
  qed
qed simp

lemma segs_dvd: "segs m pr p bs \<Longrightarrow> 4 dvd span bs"
  by (induction bs arbitrary: pr p) auto

lemma segs_cong:
  assumes "\<And>x n u. (x, n, u) \<in> layout p bs \<Longrightarrow> get_header m' x = get_header m x"
  shows "segs m' pr p bs = segs m pr p bs"
  using assms
proof (induction bs arbitrary: pr p)
  case (Cons b bs)
  obtain n u where b: "b = (n, u)" by fastforce
  have "get_header m' p = get_header m p"
    using Cons.prems [of p n u] b by simp
  moreover have "segs m' p (p + 12 + n) bs = segs m p (p + 12 + n) bs"
    using b by (intro Cons.IH Cons.prems) auto
  ultimately show ?case
    using b by (simp add: header_is_def)
qed simp

text \<open>Only the first block of a list, at \<open>p\<close>, knows what comes before.\<close>

lemma segs_first:
  assumes "segs m pr p bs"
    and "\<And>n u bs'. bs = (n, u) # bs' \<Longrightarrow> header_is m p u (p + 12 + n) pr \<Longrightarrow> header_is m' p u (p + 12 + n) pr'"
    and eq: "\<And>x n u. (x, n, u) \<in> layout p bs \<Longrightarrow> x \<noteq> p \<Longrightarrow> get_header m' x = get_header m x"
  shows "segs m' pr' p bs"
proof (cases bs)
  case (Cons b bs')
  obtain n u where b: "b = (n, u)" by fastforce
  have "get_header m' x = get_header m x" if "(x, k, v) \<in> layout (p + 12 + n) bs'" for x k v
    using layout_bounds [OF that] that b Cons by (intro eq [of x k v]) auto
  then have "segs m' p (p + 12 + n) bs' = segs m p (p + 12 + n) bs'"
    by (rule segs_cong)
  moreover have "header_is m' p u (p + 12 + n) pr'"
    using assms(1,2) b Cons by simp
  ultimately show ?thesis
    using assms(1) b Cons by simp
qed simp

text \<open>A list inside a region that does not change.\<close>

lemma segs_agree:
  assumes "agree m m' p (p + span bs)"
  shows "segs m' pr p bs = segs m pr p bs"
  by (rule segs_cong) (auto dest!: layout_bounds intro!: get_header_agree [OF assms])

section \<open>The invariant\<close>

definition end_ok :: "u8 list \<Rightarrow> nat \<Rightarrow> bool" where
  "end_ok m e \<longleftrightarrow> (\<exists>h. get_header m e = Some h \<and> used h \<noteq> 0 \<and> unat (next h) = e)"

definition tail :: "u8 list \<Rightarrow> nat \<Rightarrow> nat \<Rightarrow> blocks \<Rightarrow> nat \<Rightarrow> bool" where
  "tail m pr p bs e \<longleftrightarrow> segs m pr p bs \<and> p + span bs = e \<and> end_ok m e"

definition core :: "heap \<Rightarrow> blocks \<Rightarrow> bool" where
  "core s bs \<longleftrightarrow> tail (bytes s) 0 0 bs (heap_end s)
     \<and> length (bytes s) = heap_end s + 12 \<and> heap_end s = mem_size_aligned s + 12 \<and> 12 \<le> mem_size_aligned s
     \<and> 4 dvd heap_ptr s \<and> heap_ptr s + heap_end s + 12 \<le> 4294967296"

definition lfree_ok :: "heap \<Rightarrow> blocks \<Rightarrow> bool" where
  "lfree_ok s bs \<longleftrightarrow> lfree s = heap_end s \<or> (\<exists>n. (lfree s, n, False) \<in> layout 0 bs)"

text \<open>No two free blocks lie side by side.\<close>

fun no_holes :: "blocks \<Rightarrow> bool" where
  "no_holes [] = True"
| "no_holes ((n, u) # bs) = ((u \<or> bs = [] \<or> snd (hd bs)) \<and> no_holes bs)"

fun in_use :: "blocks \<Rightarrow> nat" where
  "in_use [] = 0"
| "in_use ((n, u) # bs) = (if u then 12 + n else 0) + in_use bs"

definition heap_inv :: "heap \<Rightarrow> blocks \<Rightarrow> bool" where
  "heap_inv s bs \<longleftrightarrow> core s bs \<and> lfree_ok s bs \<and> no_holes bs \<and> heap_sem s = 1
     \<and> used_mem s = of_nat (in_use bs)"

text \<open>The lowest free block is where the search starts.\<close>

definition lowest :: "heap \<Rightarrow> blocks \<Rightarrow> bool" where
  "lowest s bs \<longleftrightarrow> (\<forall>p n. (p, n, False) \<in> layout 0 bs \<longrightarrow> lfree s \<le> p)"

text \<open>What the caller holds: address and size of the data of every block in use.\<close>

definition allocated :: "heap \<Rightarrow> blocks \<Rightarrow> (nat \<times> nat) set" where
  "allocated s bs = {(heap_ptr s + p + 12, n) | p n. (p, n, True) \<in> layout 0 bs}"

lemma tail_append:
  "tail m pr p (xs @ ys) e \<longleftrightarrow> segs m pr p xs \<and> tail m (last_at pr p xs) (p + span xs) ys e"
  by (auto simp: tail_def segs_append)

lemma tail_Cons: "tail m pr p ((n, u) # bs) e \<longleftrightarrow>
    header_is m p u (p + 12 + n) pr \<and> 4 dvd n \<and> 0 < n \<and> tail m p (p + 12 + n) bs e"
  by (auto simp: tail_def)

lemma tail_le: "tail m pr p bs e \<Longrightarrow> p \<le> e"
  by (auto simp: tail_def)

lemma tail_agree:
  assumes "agree m m' p (e + 12)" "tail m pr p bs e"
  shows "tail m' pr p bs e"
proof -
  have "p + span bs = e"
    using assms(2) by (simp add: tail_def)
  then have "agree m m' p (p + span bs)"
    using assms(1) by (auto simp: agree_def)
  then show ?thesis
    using assms(2) get_header_agree [OF assms(1), of e] \<open>p + span bs = e\<close>
    by (auto simp: tail_def segs_agree end_ok_def)
qed

lemma tail_header: "tail m pr p bs e \<Longrightarrow> \<exists>h. get_header m p = Some h"
  by (cases bs) (auto simp: tail_def end_ok_def header_is_def)

lemma get_header_length: "get_header m p = Some h \<Longrightarrow> p + 12 \<le> length m"
  by (simp add: get_header_def SIZEOF_STRUCT_MEM_def split: if_splits)

lemma unat_u32_of_nat: "n < 4294967296 \<Longrightarrow> unat (of_nat n :: u32) = n"
  by (simp add: unat_of_nat take_bit_eq_mod)

text \<open>A store to \<open>prev\<close> of whatever comes first, a block or the end.\<close>

lemma tail_prev:
  assumes "tail m pr p bs e" "get_header m p = Some h" "q < 4294967296"
  shows "tail (splice m p (header_bytes (h\<lparr>prev := of_nat q\<rparr>))) q p bs e"
proof -
  let ?m = "splice m p (header_bytes (h\<lparr>prev := of_nat q\<rparr>))"
  note len = get_header_length [OF assms(2)]
  have at: "get_header ?m p = Some (h\<lparr>prev := of_nat q\<rparr>)"
    by (rule get_header_splice(1) [OF len])
  show ?thesis
  proof (cases bs)
    case Nil
    with assms at show ?thesis
      by (auto simp: tail_def end_ok_def)
  next
    case (Cons b bs')
    obtain n u where b: "b = (n, u)" by fastforce
    have t: "tail m p (p + 12 + n) bs' e" and h: "header_is m p u (p + 12 + n) pr" "4 dvd n" "0 < n"
      using assms(1) Cons b by (simp_all add: tail_Cons)
    have "agree m ?m (p + 12 + n) (e + 12)"
      using len by (intro agree_splice) auto
    with t have "tail ?m p (p + 12 + n) bs' e"
      by (rule tail_agree [rotated])
    moreover have "header_is ?m p u (p + 12 + n) q"
      using h at assms(2,3) by (auto simp: header_is_def unat_u32_of_nat)
    ultimately show ?thesis
      using Cons b h by (simp add: tail_Cons)
  qed
qed

lemma hdr_at:
  assumes "core s (xs @ (n, u) # ys)"
  shows "\<exists>h. hdr s (span xs) = Some h \<and> magic h = HEAP_MAGIC \<and> (used h \<noteq> 0) = u
    \<and> unat (next h) = span xs + 12 + n \<and> unat (prev h) = last_at 0 0 xs"
  using assms by (auto simp: core_def tail_append tail_Cons header_is_def hdr_def)

lemma hdr_end: "core s bs \<Longrightarrow> \<exists>h. hdr s (heap_end s) = Some h \<and> used h \<noteq> 0 \<and> unat (next h) = heap_end s"
  by (auto simp: core_def tail_def end_ok_def hdr_def)

lemma store_eq: "hdr s q = Some h \<Longrightarrow>
    store q f s = Some (s\<lparr>bytes := splice (bytes s) q (header_bytes (f h))\<rparr>)"
  using get_header_length [of "bytes s" q h] by (simp add: store_def hdr_def put_header_in)

lemma sub32_le: "b \<le> a \<Longrightarrow> a < 4294967296 \<Longrightarrow> sub32 a b = a - b"
  by (simp add: sub32_def mod_if)

end
