(* ===== verification/Heap_Steps.thy ===== *)
theory Heap_Steps
  imports Kernel_Heap
begin

text \<open>
  What the parts of the allocator do to the list of blocks: merging, releasing, splitting and
  taking a block, writing inside it, changing its size.
\<close>

section \<open>Data of the blocks in use\<close>

definition keeps :: "u8 list \<Rightarrow> u8 list \<Rightarrow> blocks \<Rightarrow> bool" where
  "keeps m m' bs \<longleftrightarrow> (\<forall>x n. (x, n, True) \<in> layout 0 bs \<longrightarrow> agree m m' (x + 12) (x + 12 + n))"

lemma keeps_refl [simp]: "keeps m m bs"
  by (simp add: keeps_def)

lemma keeps_trans: "keeps m m' bs \<Longrightarrow> keeps m' m'' bs \<Longrightarrow> keeps m m'' bs"
  unfolding keeps_def by (blast intro: agree_trans)

lemma keeps_header:
  assumes "q + 12 \<le> length m" and "\<And>x n. (x, n, True) \<in> layout 0 bs \<Longrightarrow> q \<le> x \<or> x + 12 + n \<le> q"
  shows "keeps m (splice m q (header_bytes h)) bs"
  unfolding keeps_def
proof (intro allI impI)
  fix x n assume "(x, n, True) \<in> layout 0 bs"
  then show "agree m (splice m q (header_bytes h)) (x + 12) (x + 12 + n)"
    using assms(1) assms(2) [of x n] by (intro agree_splice) auto
qed

text \<open>Nothing overlaps a boundary between blocks.\<close>

lemma boundary: "(x, n, u) \<in> layout 0 (xs @ ys) \<Longrightarrow> span xs \<le> x \<or> x + 12 + n \<le> span xs"
  by (auto dest!: layout_bounds)

text \<open>The header at \<open>p\<close> takes over the free neighbour behind it.\<close>

lemma merge_step:
  assumes c: "core s (xs @ (n, False) # (k, u) # ys)"
    and h: "hdr s (span xs) = Some h" "used h = 0" and nh: "hdr s (span xs + 12 + n) = Some nh"
  shows "\<exists>m. store (span xs) (\<lambda>h. h\<lparr>next := next nh\<rparr>) s \<bind>
        store (unat (next nh)) (\<lambda>h. h\<lparr>prev := of_nat (span xs)\<rparr>) = Some (s\<lparr>bytes := m\<rparr>)
      \<and> core (s\<lparr>bytes := m\<rparr>) (xs @ (n + 12 + k, False) # ys)
      \<and> keeps (bytes s) m (xs @ (n, False) # (k, u) # ys)"
proof -
  let ?p = "span xs" and ?m = "bytes s" and ?e = "heap_end s"
  let ?n1 = "?p + 12 + n" let ?n2 = "?n1 + 12 + k"
  let ?m1 = "splice ?m ?p (header_bytes (h\<lparr>next := next nh\<rparr>))"
  have g: "get_header ?m ?p = Some h" "get_header ?m ?n1 = Some nh"
    using h nh by (simp_all add: hdr_def)
  have t: "segs ?m 0 0 xs" "header_is ?m ?p False ?n1 (last_at 0 0 xs)" "4 dvd n"
    "header_is ?m ?n1 u ?n2 ?p" "4 dvd k" "tail ?m ?n1 ?n2 ys ?e"
    using c by (auto simp: core_def tail_append tail_Cons)
  have geo: "length ?m = ?e + 12" "?e < 4294967296"
    using c by (auto simp: core_def)
  have n2: "unat (next nh) = ?n2" and le: "?n2 \<le> ?e"
    using t(4,6) g(2) by (auto simp: header_is_def dest: tail_le)
  have "agree ?m ?m1 ?n2 (?e + 12)"
    using le geo by (intro agree_splice) auto
  with t(6) have t1: "tail ?m1 ?n1 ?n2 ys ?e"
    by (rule tail_agree [rotated])
  then obtain h2 where h2: "get_header ?m1 ?n2 = Some h2"
    using tail_header by blast
  let ?m2 = "splice ?m1 ?n2 (header_bytes (h2\<lparr>prev := of_nat ?p\<rparr>))"
  have len: "length ?m1 = length ?m"
    using le geo by simp
  have t2: "tail ?m2 ?p ?n2 ys ?e"
    using t1 h2 le geo by (intro tail_prev) auto
  have a2: "agree ?m ?m1 0 ?p" "agree ?m1 ?m2 0 ?p" "agree ?m1 ?m2 ?p (?p + 12)"
    using le geo len by (auto intro!: agree_splice)
  have "segs ?m2 0 0 xs"
    using t(1) a2 segs_agree [of ?m ?m2 0 xs 0] agree_trans [of ?m ?m1 0 ?p ?m2] by simp
  moreover have "get_header ?m2 ?p = Some (h\<lparr>next := next nh\<rparr>)"
    using le geo get_header_agree [OF a2(3), of ?p] by (simp add: get_header_splice)
  then have "header_is ?m2 ?p False ?n2 (last_at 0 0 xs)"
    using t(2) g(1) h(2) n2 by (auto simp: header_is_def)
  ultimately have "core (s\<lparr>bytes := ?m2\<rparr>) (xs @ (n + 12 + k, False) # ys)"
    using c t t2 geo le len by (simp add: core_def tail_append tail_Cons ac_simps)
  moreover have "keeps ?m ?m1 (xs @ (n, False) # (k, u) # ys)"
    using le geo boundary [of _ _ True xs "(n, False) # (k, u) # ys"] by (intro keeps_header) auto
  moreover have "keeps ?m1 ?m2 (xs @ (n, False) # (k, u) # ys)"
    using le geo len boundary [of _ _ True "xs @ [(n, False), (k, u)]" ys]
    by (intro keeps_header) (auto simp: ac_simps)
  ultimately show ?thesis
    using h nh n2 h2 by (intro exI [of _ ?m2]) (auto simp: store_eq hdr_def intro: keeps_trans)
qed


text \<open>A step that only merges free blocks.\<close>

definition merges :: "heap \<Rightarrow> blocks \<Rightarrow> heap \<Rightarrow> blocks \<Rightarrow> bool" where
  "merges s bs s' bs' \<longleftrightarrow> core s' bs' \<and> keeps (bytes s) (bytes s') bs
     \<and> (\<forall>x n. (x, n, True) \<in> layout 0 bs' \<longleftrightarrow> (x, n, True) \<in> layout 0 bs) \<and> in_use bs' = in_use bs
     \<and> (lfree_ok s bs \<longrightarrow> lfree_ok s' bs') \<and> (lowest s bs \<longrightarrow> lowest s' bs')
     \<and> s' = s\<lparr>bytes := bytes s', lfree := lfree s'\<rparr>"

lemma merges_refl: "core s bs \<Longrightarrow> merges s bs s bs"
  by (simp add: merges_def)

lemma merges_trans:
  assumes "merges s bs s' bs'" "merges s' bs' s'' bs''"
  shows "merges s bs s'' bs''"
proof -
  have "keeps (bytes s') (bytes s'') bs"
    using assms by (auto simp: merges_def keeps_def)
  moreover have "s'' = s\<lparr>bytes := bytes s'', lfree := lfree s''\<rparr>"
    using assms unfolding merges_def by (metis heap.surjective heap.update_convs(1,4))
  ultimately show ?thesis
    using assms by (auto simp: merges_def intro: keeps_trans)
qed

lemma in_use_append [simp]: "in_use (xs @ ys) = in_use xs + in_use ys"
  by (induction xs) auto

lemma merge_ok:
  assumes c: "core s (xs @ (n, False) # (k, False) # ys)" (is "core s ?bs")
    and h: "hdr s (span xs) = Some h" "used h = 0" and nh: "hdr s (span xs + 12 + n) = Some nh"
  shows "\<exists>s'. store (span xs) (\<lambda>h. h\<lparr>next := next nh\<rparr>)
        (if lfree s = span xs + 12 + n then s\<lparr>lfree := span xs\<rparr> else s) \<bind>
      store (unat (next nh)) (\<lambda>h. h\<lparr>prev := of_nat (span xs)\<rparr>) = Some s'
    \<and> merges s ?bs s' (xs @ (n + 12 + k, False) # ys)"
proof -
  let ?s = "if lfree s = span xs + 12 + n then s\<lparr>lfree := span xs\<rparr> else s"
  have s: "bytes ?s = bytes s" "heap_end ?s = heap_end s" "core ?s ?bs" "hdr ?s = hdr s"
    using c by (auto simp: core_def hdr_def)
  obtain m where m: "store (span xs) (\<lambda>h. h\<lparr>next := next nh\<rparr>) ?s \<bind>
        store (unat (next nh)) (\<lambda>h. h\<lparr>prev := of_nat (span xs)\<rparr>) = Some (?s\<lparr>bytes := m\<rparr>)"
      "core (?s\<lparr>bytes := m\<rparr>) (xs @ (n + 12 + k, False) # ys)" "keeps (bytes ?s) m ?bs"
    using merge_step [OF s(3)] h nh unfolding s(4) by blast
  have "lfree_ok (?s\<lparr>bytes := m\<rparr>) (xs @ (n + 12 + k, False) # ys)" if "lfree_ok s ?bs"
    using that by (auto simp: lfree_ok_def ac_simps)
  moreover have "lowest (?s\<lparr>bytes := m\<rparr>) (xs @ (n + 12 + k, False) # ys)" if l: "lowest s ?bs"
  proof -
    have "lfree s \<le> span xs"
      using l unfolding lowest_def by (metis Un_iff add_0 insertI1 layout.simps(2) layout_append)
    then show ?thesis
      using l by (auto simp: lowest_def ac_simps)
  qed
  ultimately have "merges s ?bs (?s\<lparr>bytes := m\<rparr>) (xs @ (n + 12 + k, False) # ys)"
    using m s by (auto simp: merges_def ac_simps)
  with m(1) show ?thesis by blast
qed

fun absorb :: "nat \<Rightarrow> blocks \<Rightarrow> blocks" where
  "absorb n ((k, False) # bs) = (n + 12 + k, False) # bs"
| "absorb n bs = (n, False) # bs"

lemma plug_forward_merges:
  assumes c: "core s (xs @ (n, False) # ys)"
  shows "\<exists>s'. plug_forward (span xs) s = Some s' \<and> merges s (xs @ (n, False) # ys) s' (xs @ absorb n ys)"
proof -
  let ?p = "span xs" let ?n1 = "?p + 12 + n"
  obtain h where h: "hdr s ?p = Some h" "used h = 0" "unat (next h) = ?n1"
    using hdr_at [OF c] by auto
  have e: "?n1 + span ys = heap_end s"
    using c by (auto simp: core_def tail_def)
  consider "ys = []" | k zs where "ys = (k, True) # zs" | k zs where "ys = (k, False) # zs"
    by (metis (full_types) list.exhaust surj_pair)
  then show ?thesis
  proof cases
    case 1
    with h e hdr_end [OF c] c show ?thesis
      by (auto simp: plug_forward_def intro: merges_refl)
  next
    case 2
    with c have "core s ((xs @ [(n, False)]) @ (k, True) # zs)" by simp
    from hdr_at [OF this] 2 h c show ?thesis
      by (auto simp: plug_forward_def ac_simps intro: merges_refl)
  next
    case 3
    with c have "core s ((xs @ [(n, False)]) @ (k, False) # zs)" by simp
    from hdr_at [OF this] obtain nh where nh: "hdr s ?n1 = Some nh" "used nh = 0"
      by (auto simp: ac_simps)
    from merge_ok [OF c [unfolded 3] h(1,2) nh(1)]
    show ?thesis
      using 3 h nh e by (simp add: plug_forward_def Let_def)
  qed
qed


text \<open>The same towards the front: the block before takes over.\<close>

definition join_last :: "blocks \<Rightarrow> blocks \<Rightarrow> blocks" where
  "join_last xs zs = (if xs \<noteq> [] \<and> \<not> snd (last xs) then butlast xs @ absorb (fst (last xs)) zs else xs @ zs)"

lemma plug_backward_merges:
  assumes c: "core s (xs @ (n, False) # ys)"
  shows "\<exists>s'. plug_backward (span xs) s = Some s'
    \<and> merges s (xs @ (n, False) # ys) s' (join_last xs ((n, False) # ys))"
proof -
  obtain h where h: "hdr s (span xs) = Some h" "used h = 0" "unat (prev h) = last_at 0 0 xs"
    using hdr_at [OF c] by auto
  consider "xs = []" | k ws where "xs = ws @ [(k, True)]" | k ws where "xs = ws @ [(k, False)]"
    by (metis (full_types) rev_exhaust surj_pair)
  then show ?thesis
  proof cases
    case 1
    with h c show ?thesis
      by (auto simp: plug_backward_def join_last_def intro: merges_refl)
  next
    case 2
    with c have "core s (ws @ (k, True) # (n, False) # ys)" by simp
    from hdr_at [OF this] 2 h c show ?thesis
      by (auto simp: plug_backward_def join_last_def intro: merges_refl)
  next
    case 3
    with c have c': "core s (ws @ (k, False) # (n, False) # ys)" by simp
    from hdr_at [OF this] obtain ph where ph: "hdr s (span ws) = Some ph" "used ph = 0" by auto
    from merge_ok [OF c' ph, of h] 3 h ph show ?thesis
      by (cases "lfree s = span xs") (simp_all add: plug_backward_def join_last_def Let_def ac_simps)
  qed
qed

lemma absorb_first: "\<exists>k zs. absorb n ys = (k, False) # zs"
  by (cases "(n, ys)" rule: absorb.cases) auto

lemma plug_holes_merges:
  assumes c: "core s (xs @ (n, False) # ys)"
  shows "\<exists>s'. plug_holes (span xs) s = Some s'
    \<and> merges s (xs @ (n, False) # ys) s' (join_last xs (absorb n ys))"
proof -
  obtain h where h: "hdr s (span xs) = Some h" "used h = 0"
    using hdr_at [OF c] by auto
  have "span xs < heap_end s"
    using c by (auto simp: core_def tail_def)
  moreover obtain s1 where s1: "plug_forward (span xs) s = Some s1"
    "merges s (xs @ (n, False) # ys) s1 (xs @ absorb n ys)"
    using plug_forward_merges [OF c] by blast
  moreover obtain k zs where k: "absorb n ys = (k, False) # zs"
    using absorb_first by blast
  moreover obtain s2 where "plug_backward (span xs) s1 = Some s2"
    "merges s1 (xs @ absorb n ys) s2 (join_last xs (absorb n ys))"
    using plug_backward_merges [of s1 xs k zs] s1(2) k by (auto simp: merges_def)
  ultimately show ?thesis
    using h by (auto simp: plug_holes_def intro: merges_trans)
qed

lemma no_holes_append_used: "no_holes (xs @ (n, True) # ys) \<longleftrightarrow> no_holes xs \<and> no_holes ys"
  by (induction xs rule: no_holes.induct) (auto simp: hd_append)

lemma no_holes_append:
  "no_holes (xs @ ys) \<longleftrightarrow> no_holes xs \<and> no_holes ys \<and> (xs = [] \<or> ys = [] \<or> snd (last xs) \<or> snd (hd ys))"
  by (induction xs rule: no_holes.induct) (auto simp: hd_append)

lemma no_holes_absorb: "no_holes ys \<Longrightarrow> no_holes (absorb n ys)"
  by (cases "(n, ys)" rule: absorb.cases) auto

lemma no_holes_join:
  assumes "no_holes xs" "no_holes ys"
  shows "no_holes (join_last xs (absorb n ys))"
proof -
  obtain a zs where a: "absorb n ys = (a, False) # zs"
    using absorb_first by blast
  have "no_holes ((a, False) # zs)"
    using no_holes_absorb [OF assms(2), of n] a by simp
  then show ?thesis
    using assms(1) a by (cases xs rule: rev_cases) (auto simp: join_last_def no_holes_append)
qed

section \<open>Releasing a block\<close>

lemma core_cong:
  "core (s\<lparr>lfree := l\<rparr>) bs = core s bs" "core (s\<lparr>used_mem := v\<rparr>) bs = core s bs"
  "core (s\<lparr>heap_sem := c\<rparr>) bs = core s bs" "core (s\<lparr>max_mem := v\<rparr>) bs = core s bs"
  by (simp_all add: core_def)

lemma core_mark:
  assumes c: "core s (xs @ (n, u) # ys)" and h: "hdr s (span xs) = Some h"
    and f: "next f = next h" "prev f = prev h" "magic f = HEAP_MAGIC"
  shows "core (s\<lparr>bytes := splice (bytes s) (span xs) (header_bytes f)\<rparr>) (xs @ (n, used f \<noteq> 0) # ys)"
    and "keeps (bytes s) (splice (bytes s) (span xs) (header_bytes f)) (xs @ (n, v) # ys)"
proof -
  let ?m = "bytes s" and ?p = "span xs"
  let ?m1 = "splice ?m ?p (header_bytes f)"
  have t: "segs ?m 0 0 xs" "header_is ?m ?p u (?p + 12 + n) (last_at 0 0 xs)" "4 dvd n \<and> 0 < n"
    "tail ?m ?p (?p + 12 + n) ys (heap_end s)" and len: "length ?m = heap_end s + 12"
    using c by (auto simp: core_def tail_append tail_Cons)
  then have le: "?p + 12 + n \<le> heap_end s"
    by (auto dest: tail_le)
  have "agree ?m ?m1 0 ?p" "agree ?m ?m1 (?p + 12 + n) (heap_end s + 12)"
    using le len by (auto intro!: agree_splice)
  then have "segs ?m1 0 0 xs" "tail ?m1 ?p (?p + 12 + n) ys (heap_end s)"
    using t segs_agree [of ?m ?m1 0 xs 0] by (auto intro: tail_agree)
  moreover have "get_header ?m1 ?p = Some f"
    using le len by (intro get_header_splice) auto
  then have "header_is ?m1 ?p (used f \<noteq> 0) (?p + 12 + n) (last_at 0 0 xs)"
    using t(2) f h by (auto simp: header_is_def hdr_def)
  ultimately show "core (s\<lparr>bytes := ?m1\<rparr>) (xs @ (n, used f \<noteq> 0) # ys)"
    using c t(3) le len by (simp add: core_def tail_append tail_Cons)
  show "keeps ?m ?m1 (xs @ (n, v) # ys)"
    using le len boundary [of _ _ True xs "(n, v) # ys"] by (intro keeps_header) auto
qed


text \<open>What an operation leaves behind: the same heap area, and the data of the blocks in \<open>bs'\<close>.\<close>

definition same_area :: "heap \<Rightarrow> heap \<Rightarrow> bool" where
  "same_area s s' \<longleftrightarrow> heap_ptr s' = heap_ptr s \<and> heap_end s' = heap_end s
     \<and> mem_size_aligned s' = mem_size_aligned s"

lemma same_area_refl [simp]: "same_area s s"
  by (simp add: same_area_def)

lemma same_area_trans: "same_area s s' \<Longrightarrow> same_area s' s'' \<Longrightarrow> same_area s s''"
  by (simp add: same_area_def)

lemma keeps_mono: "keeps m m' bs \<Longrightarrow> (\<And>x n. (x, n, True) \<in> layout 0 bs' \<Longrightarrow> (x, n, True) \<in> layout 0 bs)
    \<Longrightarrow> keeps m m' bs'"
  by (auto simp: keeps_def)

lemma layout_middle: "(x, k, v) \<in> layout 0 (xs @ (n, u) # ys) \<longleftrightarrow>
    (x, k, v) \<in> layout 0 xs \<or> (x = span xs \<and> k = n \<and> v = u) \<or> (x, k, v) \<in> layout (span xs + 12 + n) ys"
  by (auto simp: ac_simps)

lemma layout_not_middle:
  "(x, k, v) \<in> layout 0 xs \<Longrightarrow> x \<noteq> span xs" "(x, k, v) \<in> layout (span xs + 12 + n) ys \<Longrightarrow> x \<noteq> span xs"
  by (auto dest!: layout_bounds)

lemma free_step:
  assumes inv: "heap_inv s (xs @ (n, True) # ys)"
  shows "\<exists>s' bs'. rt_free (heap_ptr s + span xs + 12) s = Some s' \<and> heap_inv s' bs' \<and> same_area s s'
    \<and> (\<forall>x k. (x, k, True) \<in> layout 0 bs' \<longleftrightarrow> (x, k, True) \<in> layout 0 (xs @ (n, True) # ys) \<and> x \<noteq> span xs)
    \<and> keeps (bytes s) (bytes s') bs' \<and> (lowest s (xs @ (n, True) # ys) \<longrightarrow> lowest s' bs')
    \<and> bs' = join_last xs (absorb n ys)"
proof -
  let ?p = "span xs" and ?bs = "xs @ (n, True) # ys" and ?bs1 = "xs @ (n, False) # ys"
  have c: "core s ?bs" and lf: "lfree_ok s ?bs" and nh: "no_holes xs" "no_holes ys" and sem: "heap_sem s = 1"
    and um: "used_mem s = of_nat (in_use ?bs)"
    using inv by (simp_all add: heap_inv_def no_holes_append_used)
  obtain h where h: "hdr s ?p = Some h" "magic h = HEAP_MAGIC" "used h \<noteq> 0" "unat (next h) = ?p + 12 + n"
    using hdr_at [OF c] by auto
  have le: "?p + 12 + n \<le> heap_end s" "4 dvd heap_ptr s" "heap_end s < 4294967296" "0 < n"
    using c by (auto simp: core_def tail_append tail_Cons dest: tail_le)
  have "4 dvd ?p"
    using c by (auto simp: core_def tail_append segs_dvd)
  then have al: "(heap_ptr s + ?p + 12) mod 4 = 0"
    using le(2) by (simp add: mod_0_imp_dvd dvd_imp_mod_0)
  let ?h = "h\<lparr>used := 0, magic := HEAP_MAGIC\<rparr>"
  let ?s = "s\<lparr>heap_sem := 0, bytes := splice (bytes s) ?p (header_bytes ?h),
     lfree := (if ?p < lfree s then ?p else lfree s), used_mem := used_mem s - of_nat (12 + n)\<rparr>"
  have c1: "core ?s ?bs1" and k1: "keeps (bytes s) (bytes ?s) ?bs1"
    using core_mark(1) [OF c h(1), of ?h] core_mark(2) [OF c h(1), of ?h False] by (auto simp: core_def)
  obtain s' where s': "plug_holes ?p ?s = Some s'" "merges ?s ?bs1 s' (join_last xs (absorb n ys))"
    using plug_holes_merges [OF c1] by blast
  let ?bs' = "join_last xs (absorb n ys)"
  have eq: "s' = ?s\<lparr>bytes := bytes s', lfree := lfree s'\<rparr>"
    using s'(2) by (simp add: merges_def)
  have f: "heap_sem s' = 0" "used_mem s' = of_nat (in_use ?bs1)" "same_area s s'"
    using um by (subst eq, simp add: same_area_def)+
  have lf1: "lfree_ok ?s ?bs1"
    using lf by (auto simp: lfree_ok_def)
  have low1: "lowest s ?bs \<longrightarrow> lowest ?s ?bs1"
    by (auto simp: lowest_def intro: order.trans [OF less_imp_le])
  have "heap_inv (sem_release s') ?bs'"
    using s'(2) f nh lf1 no_holes_join [OF nh, of n]
    by (auto simp: heap_inv_def sem_release_def merges_def core_cong lfree_ok_def)
  moreover have "rt_free (heap_ptr s + ?p + 12) s = Some (sem_release s')"
    using h al le sem s'(1)
    by (cases "?p < lfree s") (simp_all add: rt_free_def header_at_def SIZEOF_STRUCT_MEM_def sem_take_def store_eq hdr_def sub32_le Let_def)
  moreover have "keeps (bytes s) (bytes s') ?bs'"
    using k1 s'(2) by (auto simp: merges_def intro: keeps_trans keeps_mono [OF k1] keeps_mono)
  moreover have "\<forall>x k. (x, k, True) \<in> layout 0 ?bs' \<longleftrightarrow> (x, k, True) \<in> layout 0 ?bs \<and> x \<noteq> ?p"
    using s'(2) layout_not_middle(1) [of _ _ True xs] layout_not_middle(2) [of _ _ True xs n ys]
    by (auto simp: merges_def layout_middle)
  ultimately show ?thesis
    using s'(2) low1 f(3) by (intro exI [of _ "sem_release s'"] exI [of _ ?bs'])
      (auto simp: merges_def sem_release_def lowest_def same_area_def)
qed


section \<open>Taking a block\<close>

lemma keeps_at:
  assumes "q = span xs" "q + 12 \<le> length m"
  shows "keeps m (splice m q (header_bytes h)) (xs @ ys)"
  using assms by (intro keeps_header) (auto dest: boundary simp del: layout_append)

lemma split_step:
  assumes c: "core s (xs @ (k, u) # ys)" and n: "n + 12 < k" "4 dvd n" "0 < n"
    and h: "hdr s (span xs) = Some h"
    and f: "\<And>h. next (f h) = next h" "\<And>h. prev (f h) = prev h" "\<And>h. magic (f h) = magic h"
  shows "\<exists>m. split_block n (span xs) f s = Some (s\<lparr>bytes := m\<rparr>)
    \<and> core (s\<lparr>bytes := m\<rparr>) (xs @ (n, used (f (h\<lparr>next := of_nat (span xs + 12 + n)\<rparr>)) \<noteq> 0) # (k - 12 - n, False) # ys)
    \<and> keeps (bytes s) m (xs @ (n, v) # (k - 12 - n, False) # ys)"
proof -
  let ?p = "span xs" and ?m = "bytes s" and ?e = "heap_end s"
  let ?p2 = "?p + 12 + n" let ?nx = "?p + 12 + k"
  let ?h2 = "\<lparr>magic = HEAP_MAGIC, used = 0, next = next h, prev = of_nat ?p\<rparr>"
  let ?h1 = "f (h\<lparr>next := of_nat ?p2\<rparr>)"
  let ?m1 = "splice ?m ?p2 (header_bytes ?h2)"
  let ?m2 = "splice ?m1 ?p (header_bytes ?h1)"
  have g: "get_header ?m ?p = Some h"
    using h by (simp add: hdr_def)
  have t: "segs ?m 0 0 xs" "header_is ?m ?p u ?nx (last_at 0 0 xs)" "4 dvd k" "tail ?m ?p ?nx ys ?e"
    and geo: "length ?m = ?e + 12" "?e = mem_size_aligned s + 12" "?e < 4294967296"
    using c by (auto simp: core_def tail_append tail_Cons)
  then have le: "?nx \<le> ?e"
    by (auto dest: tail_le)
  have nx: "unat (next h) = ?nx" "unat (prev h) = last_at 0 0 xs" "magic h = HEAP_MAGIC"
    using t(2) g by (auto simp: header_is_def)
  have l1: "length ?m1 = length ?m" "length ?m2 = length ?m"
    using le geo n by simp_all
  have g1: "get_header ?m1 ?p = Some h"
    using g le geo n by (subst get_header_splice(2)) auto
  have "agree ?m ?m1 ?nx (?e + 12)" "agree ?m1 ?m2 ?nx (?e + 12)"
    using le geo l1 n by (auto intro!: agree_splice)
  then have t2: "tail ?m2 ?p ?nx ys ?e"
    using t(4) by (auto intro: tail_agree)
  have split: "split_block n ?p f s = (if ?nx \<noteq> ?e
      then store ?nx (\<lambda>h. h\<lparr>prev := of_nat ?p2\<rparr>) (s\<lparr>bytes := ?m2\<rparr>) else Some (s\<lparr>bytes := ?m2\<rparr>))"
    using h g1 nx(1) le geo n
    by (simp add: split_block_def SIZEOF_STRUCT_MEM_def put_header_in store_eq hdr_def Let_def)
  obtain m3 where m3: "split_block n ?p f s = Some (s\<lparr>bytes := m3\<rparr>)" "tail m3 ?p2 ?nx ys ?e"
    "agree ?m2 m3 0 ?nx" "keeps ?m2 m3 (xs @ (n, v) # (k - 12 - n, False) # ys)"
  proof (cases "?nx = ?e")
    case True
    then have "ys = []"
      using t(4) by (cases ys) (auto simp: tail_def)
    with True t2 split that [of ?m2] show ?thesis
      by (simp add: tail_def)
  next
    case False
    obtain h3 where h3: "get_header ?m2 ?nx = Some h3"
      using tail_header [OF t2] by blast
    let ?m3 = "splice ?m2 ?nx (header_bytes (h3\<lparr>prev := of_nat ?p2\<rparr>))"
    have "tail ?m3 ?p2 ?nx ys ?e"
      using t2 h3 le n geo by (intro tail_prev) auto
    moreover have "agree ?m2 ?m3 0 ?nx"
      using le geo l1 by (intro agree_splice) auto
    moreover have "keeps ?m2 ?m3 (xs @ (n, v) # (k - 12 - n, False) # ys)"
      using le geo l1 n keeps_at [of ?nx "xs @ [(n, v), (k - 12 - n, False)]" ?m2 _ ys] by simp
    ultimately show ?thesis
      using that [of ?m3] split False h3 by (simp add: store_eq hdr_def)
  qed
  have a: "agree ?m ?m1 0 ?p" "agree ?m1 ?m2 0 ?p" "agree ?m1 ?m2 ?p2 (?p2 + 12)"
    using le geo l1 n by (auto intro!: agree_splice)
  have "agree ?m m3 0 ?p"
    using a m3(3) by (auto simp: agree_def)
  then have "segs m3 0 0 xs"
    using t(1) segs_agree [of ?m m3 0 xs 0] by simp
  moreover have "get_header m3 ?p = Some ?h1" "get_header m3 ?p2 = Some ?h2"
    using m3(3) le geo l1 n get_header_agree [OF m3(3), of ?p] get_header_agree [OF m3(3), of ?p2]
      get_header_agree [OF a(3), of ?p2] by (simp_all add: get_header_splice)
  then have "header_is m3 ?p (used ?h1 \<noteq> 0) ?p2 (last_at 0 0 xs)" "header_is m3 ?p2 False ?nx ?p"
    using f nx le geo n unat_u32_of_nat [of ?p2] by (auto simp: header_is_def unat_u32_of_nat)
  moreover have "4 dvd k - 12 - n" "?p2 + 12 + (k - 12 - n) = ?nx" "length m3 = length ?m"
    using t(3) n m3(3) l1 by (auto simp: agree_def intro!: dvd_diff_nat)
  ultimately have "core (s\<lparr>bytes := m3\<rparr>) (xs @ (n, used ?h1 \<noteq> 0) # (k - 12 - n, False) # ys)"
    using c m3(2) n geo by (simp add: core_def tail_append tail_Cons ac_simps)
  moreover have "keeps ?m ?m1 (xs @ (n, v) # (k - 12 - n, False) # ys)"
    using le geo n keeps_at [of ?p2 "xs @ [(n, v)]" ?m _ "(k - 12 - n, False) # ys"] by simp
  moreover have "keeps ?m1 ?m2 (xs @ (n, v) # (k - 12 - n, False) # ys)"
    using le geo l1 n keeps_at [of ?p xs ?m1 _ "(n, v) # (k - 12 - n, False) # ys"] by simp
  ultimately show ?thesis
    using m3 by (intro exI [of _ m3]) (auto intro: keeps_trans)
qed


lemma search_yields:
  assumes "core s (xs @ ys)" "n \<le> mem_size_aligned s"
  shows "\<exists>r. search_fit n (span xs) s = Some r \<and> (case r of
      Some q \<Rightarrow> \<exists>xs' k ys'. xs @ ys = xs' @ (k, False) # ys' \<and> q = span xs' \<and> span xs \<le> q \<and> n \<le> k
        \<and> q < mem_size_aligned s - n
    | None \<Rightarrow> \<forall>q k. (q, k, False) \<in> layout (span xs) ys \<and> n \<le> k \<longrightarrow> mem_size_aligned s - n \<le> q)"
  using assms(1)
proof (induction ys arbitrary: xs)
  case Nil
  then have "span xs = mem_size_aligned s + 12"
    by (auto simp: core_def tail_def)
  moreover have "sub32 (mem_size_aligned s) n = mem_size_aligned s - n"
    using Nil assms(2) by (intro sub32_le) (auto simp: core_def)
  ultimately have "\<not> span xs < sub32 (mem_size_aligned s) n"
    by linarith
  then have "search_fit n (span xs) s = Some None"
    by (subst search_fit.simps) simp
  then show ?case by simp
next
  case (Cons b ys)
  obtain k u where b: "b = (k, u)" by fastforce
  have c: "core s (xs @ (k, u) # ys)"
    using Cons.prems b by simp
  obtain h where h: "hdr s (span xs) = Some h" "(used h \<noteq> 0) = u" "unat (next h) = span xs + 12 + k"
    using hdr_at [OF c] by blast
  have lim: "sub32 (mem_size_aligned s) n = mem_size_aligned s - n"
    using c assms(2) by (intro sub32_le) (auto simp: core_def)
  have "span xs + 12 + k \<le> heap_end s" "heap_end s < 4294967296"
    using c by (auto simp: core_def tail_append tail_Cons dest: tail_le)
  then have sz: "sub32 (unat (next h)) (span xs + 12) = k"
    using h(3) by (simp add: sub32_le)
  consider "mem_size_aligned s - n \<le> span xs" | "span xs < mem_size_aligned s - n" "\<not> u" "n \<le> k"
    | "span xs < mem_size_aligned s - n" "u \<or> k < n"
    by linarith
  then show ?case
  proof cases
    case 1
    then have "search_fit n (span xs) s = Some None"
      using lim by (subst search_fit.simps) simp
    with 1 show ?thesis by (fastforce dest: layout_bounds)
  next
    case 2
    then have "search_fit n (span xs) s = Some (Some (span xs))"
      using h sz lim by (subst search_fit.simps) (simp add: SIZEOF_STRUCT_MEM_def)
    with 2 b show ?thesis by auto
  next
    case 3
    have "search_fit n (span xs) s = search_fit n (span (xs @ [(k, u)])) s"
      using 3 h sz lim by (subst search_fit.simps) (auto simp: SIZEOF_STRUCT_MEM_def ac_simps)
    moreover have sp: "span (xs @ [(k, u)]) = span xs + 12 + k" by simp
    moreover obtain r where r: "search_fit n (span (xs @ [(k, u)])) s = Some r" and
      R: "case r of
        Some q \<Rightarrow> \<exists>xs' k' ys'. (xs @ [(k, u)]) @ ys = xs' @ (k', False) # ys' \<and> q = span xs'
          \<and> span (xs @ [(k, u)]) \<le> q \<and> n \<le> k' \<and> q < mem_size_aligned s - n
      | None \<Rightarrow> \<forall>q k'. (q, k', False) \<in> layout (span (xs @ [(k, u)])) ys \<and> n \<le> k' \<longrightarrow> mem_size_aligned s - n \<le> q"
      using Cons.IH [of "xs @ [(k, u)]"] c by auto
    ultimately have eq: "search_fit n (span xs) s = Some r" by simp
    show ?thesis
    proof (cases r)
      case None
      with R 3 b show ?thesis by (intro exI [of _ r] conjI eq) (auto simp: ac_simps)
    next
      case (Some q)
      with R obtain xs' k' ys' where "xs @ b # ys = xs' @ (k', False) # ys'" "q = span xs'" "span xs \<le> q"
        "n \<le> k'" "q < mem_size_aligned s - n"
        using b by auto
      with Some show ?thesis by (intro exI [of _ r] conjI eq) auto
    qed
  qed
qed

lemma next_free_yields:
  assumes "core s (xs @ ys)"
  shows "\<exists>q h. next_free (span xs) s = Some q \<and> hdr s q = Some h \<and> (q = heap_end s \<or> used h = 0)
    \<and> (q = heap_end s \<or> (\<exists>k. (q, k, False) \<in> layout (span xs) ys))
    \<and> (\<forall>x k. (x, k, False) \<in> layout (span xs) ys \<longrightarrow> q \<le> x)"
  using assms
proof (induction ys arbitrary: xs)
  case Nil
  then have e: "span xs = heap_end s"
    by (auto simp: core_def tail_def)
  then show ?case
    using hdr_end [OF Nil] by (subst next_free.simps) auto
next
  case (Cons b ys)
  obtain k u where b: "b = (k, u)" by fastforce
  have c: "core s (xs @ (k, u) # ys)"
    using Cons.prems b by simp
  obtain h where h: "hdr s (span xs) = Some h" "(used h \<noteq> 0) = u" "unat (next h) = span xs + 12 + k"
    using hdr_at [OF c] by blast
  have ne: "span xs \<noteq> heap_end s"
    using c by (auto simp: core_def tail_append tail_Cons dest: tail_le)
  show ?case
  proof (cases u)
    case False
    with h b show ?thesis
      by (subst next_free.simps) (auto dest!: layout_bounds)
  next
    case True
    have "next_free (span xs) s = next_free (span (xs @ [(k, u)])) s"
      using True h ne by (subst next_free.simps) (simp add: ac_simps)
    with Cons.IH [of "xs @ [(k, u)]"] c b True show ?thesis
      by (auto simp: ac_simps)
  qed
qed


text \<open>\<open>take_block\<close> up to the update of \<open>lfree\<close>.\<close>

definition take_mark :: "nat \<Rightarrow> nat \<Rightarrow> heap \<Rightarrow> heap option" where
  "take_mark n p s = do {
     h \<leftarrow> hdr s p;
     s \<leftarrow> (if sub32 (unat (next h)) (p + SIZEOF_STRUCT_MEM) \<ge> n + SIZEOF_STRUCT_MEM + MIN_SIZE_ALIGNED
       then do { s \<leftarrow> split_block n p (\<lambda>h. h\<lparr>used := 1\<rparr>) s; Some (count_used (n + SIZEOF_STRUCT_MEM) s) }
       else do { s \<leftarrow> store p (\<lambda>h. h\<lparr>used := 1\<rparr>) s; Some (count_used (sub32 (unat (next h)) p) s) });
     store p (\<lambda>h. h\<lparr>magic := HEAP_MAGIC\<rparr>) s
   }"

definition take_lfree :: "nat \<Rightarrow> heap \<Rightarrow> heap option" where
  "take_lfree p s =
     (if p = lfree s then do {
        q \<leftarrow> next_free p s;
        h \<leftarrow> hdr s q;
        c_assert (q = heap_end s \<or> used h = 0);
        Some (s\<lparr>lfree := q\<rparr>)
      }
      else Some s)"

lemma take_block_eq: "take_block n p s = do { s \<leftarrow> take_mark n p s; take_lfree p s }"
  by (simp add: take_block_def take_mark_def take_lfree_def bind_assoc)

lemma count_used_simps [simp]:
  "bytes (count_used n s) = bytes s" "hdr (count_used n s) = hdr s" "lfree (count_used n s) = lfree s"
  "heap_sem (count_used n s) = heap_sem s" "used_mem (count_used n s) = used_mem s + of_nat n"
  "heap_end (count_used n s) = heap_end s" "heap_ptr (count_used n s) = heap_ptr s"
  "mem_size_aligned (count_used n s) = mem_size_aligned s" "core (count_used n s) bs = core s bs"
  "count_used n s\<lparr>bytes := m\<rparr> = count_used n (s\<lparr>bytes := m\<rparr>)"
  by (simp_all add: count_used_def Let_def hdr_def fun_eq_iff core_def)

lemma take_mark_step:
  assumes c: "core s (xs @ (k, False) # ys)" and n: "12 \<le> n" "n \<le> k" "4 dvd n"
  shows "\<exists>m c n' rest. take_mark n (span xs) s = Some (count_used c (s\<lparr>bytes := m\<rparr>))
    \<and> core (s\<lparr>bytes := m\<rparr>) (xs @ (n', True) # rest) \<and> keeps (bytes s) m (xs @ (k, False) # ys)
    \<and> c = 12 + n' \<and> n \<le> n' \<and> n' < n + 24
    \<and> (rest = ys \<and> n' = k \<or> n' = n \<and> n + 24 \<le> k \<and> rest = (k - 12 - n, False) # ys)"
proof -
  let ?p = "span xs"
  obtain h where h: "hdr s ?p = Some h" "magic h = HEAP_MAGIC" "unat (next h) = ?p + 12 + k"
    using hdr_at [OF c] by auto
  have le: "?p + 12 + k < 4294967296"
    using c by (auto simp: core_def tail_append tail_Cons dest: tail_le)
  show ?thesis
  proof (cases "n + 24 \<le> k")
    case True
    obtain m where m: "split_block n ?p (\<lambda>h. h\<lparr>used := 1\<rparr>) s = Some (s\<lparr>bytes := m\<rparr>)"
      "core (s\<lparr>bytes := m\<rparr>) (xs @ (n, True) # (k - 12 - n, False) # ys)"
      "keeps (bytes s) m (xs @ (n, False) # (k - 12 - n, False) # ys)"
      using split_step [OF c _ n(3) _ h(1), of "\<lambda>h. h\<lparr>used := 1\<rparr>" False] True n by auto
    obtain g where g: "hdr (s\<lparr>bytes := m\<rparr>) ?p = Some g"
      using hdr_at [OF m(2)] by auto
    let ?g = "g\<lparr>magic := HEAP_MAGIC\<rparr>"
    let ?m = "splice m ?p (header_bytes ?g)"
    have "used ?g \<noteq> 0"
      using hdr_at [OF m(2)] g by auto
    then have "core (s\<lparr>bytes := ?m\<rparr>) (xs @ (n, True) # (k - 12 - n, False) # ys)"
      using core_mark(1) [OF m(2) g, of ?g] by simp
    moreover have "keeps m ?m (xs @ (n, False) # (k - 12 - n, False) # ys)"
      using core_mark(2) [OF m(2) g, of ?g False] by simp
    moreover have "take_mark n ?p s = Some (count_used (12 + n) (s\<lparr>bytes := ?m\<rparr>))"
      using h le m(1) g True
      by (simp add: take_mark_def SIZEOF_STRUCT_MEM_def MIN_SIZE_ALIGNED_def sub32_le store_eq ac_simps)
    moreover have "keeps (bytes s) ?m (xs @ (k, False) # ys)"
      using True by (intro keeps_mono [OF keeps_trans [OF m(3)]]) (use calculation in \<open>auto simp: ac_simps\<close>)
    ultimately show ?thesis
      using True by (intro exI [of _ ?m] exI [of _ "12 + n"] exI [of _ n]) auto
  next
    case False
    let ?h = "h\<lparr>used := 1\<rparr>"
    let ?m = "splice (bytes s) ?p (header_bytes ?h)"
    have c1: "core (s\<lparr>bytes := ?m\<rparr>) (xs @ (k, True) # ys)"
      using core_mark(1) [OF c h(1), of ?h] h(2) by simp
    have k1: "keeps (bytes s) ?m (xs @ (k, False) # ys)"
      using core_mark(2) [OF c h(1), of ?h False] h(2) by simp
    obtain g where g: "hdr (s\<lparr>bytes := ?m\<rparr>) ?p = Some g" "magic g = HEAP_MAGIC" "used g \<noteq> 0"
      using hdr_at [OF c1] by auto
    let ?g = "g\<lparr>magic := HEAP_MAGIC\<rparr>"
    let ?m2 = "splice ?m ?p (header_bytes ?g)"
    have "core (s\<lparr>bytes := ?m2\<rparr>) (xs @ (k, True) # ys)"
      using core_mark(1) [OF c1 g(1), of ?g] g by simp
    moreover have "keeps ?m ?m2 (xs @ (k, False) # ys)"
      using core_mark(2) [OF c1 g(1), of ?g False] g by simp
    moreover have "take_mark n ?p s = Some (count_used (12 + k) (s\<lparr>bytes := ?m2\<rparr>))"
      using h le g False
      by (simp add: take_mark_def SIZEOF_STRUCT_MEM_def MIN_SIZE_ALIGNED_def sub32_le store_eq ac_simps)
    ultimately show ?thesis
      using False n k1 by (intro exI [of _ ?m2] exI [of _ "12 + k"] exI [of _ k]) (auto intro: keeps_trans)
  qed
qed


lemma take_lfree_step:
  assumes c: "core s (xs @ (n, True) # rest)" and lf: "lfree s \<noteq> span xs \<longrightarrow> lfree_ok s (xs @ (n, True) # rest)"
  shows "\<exists>q. take_lfree (span xs) s = Some (s\<lparr>lfree := q\<rparr>) \<and> lfree_ok (s\<lparr>lfree := q\<rparr>) (xs @ (n, True) # rest)
    \<and> (lowest s (xs @ (n, True) # rest) \<longrightarrow> lowest (s\<lparr>lfree := q\<rparr>) (xs @ (n, True) # rest))"
proof (cases "span xs = lfree s")
  case False
  with lf show ?thesis
    by (intro exI [of _ "lfree s"]) (auto simp: take_lfree_def)
next
  case True
  obtain q h where q: "next_free (span xs) s = Some q" "hdr s q = Some h" "q = heap_end s \<or> used h = 0"
    "q = heap_end s \<or> (\<exists>k. (q, k, False) \<in> layout (span xs) ((n, True) # rest))"
    "\<forall>x k. (x, k, False) \<in> layout (span xs) ((n, True) # rest) \<longrightarrow> q \<le> x"
    using next_free_yields [OF c] by blast
  have "lowest (s\<lparr>lfree := q\<rparr>) (xs @ (n, True) # rest)" if l: "lowest s (xs @ (n, True) # rest)"
    unfolding lowest_def
  proof (intro allI impI)
    fix p k assume p: "(p, k, False) \<in> layout 0 (xs @ (n, True) # rest)"
    then have "span xs \<le> p"
      using l True unfolding lowest_def by metis
    then have "(p, k, False) \<notin> layout 0 xs"
      by (auto dest!: layout_bounds)
    with p have "(p, k, False) \<in> layout (span xs) ((n, True) # rest)"
      by simp
    with q(5) show "lfree (s\<lparr>lfree := q\<rparr>) \<le> p"
      by auto
  qed
  moreover have "lfree_ok (s\<lparr>lfree := q\<rparr>) (xs @ (n, True) # rest)"
    using q(4) by (auto simp: lfree_ok_def)
  moreover have "take_lfree (span xs) s = Some (s\<lparr>lfree := q\<rparr>)"
    using True q(1-3) by (simp add: take_lfree_def)
  ultimately show ?thesis by blast
qed

text \<open>The block list when \<open>n\<close> bytes of the free block at \<open>p\<close> have been taken.\<close>

definition taken :: "blocks \<Rightarrow> nat \<Rightarrow> nat \<Rightarrow> blocks \<Rightarrow> bool" where
  "taken bs p n bs' \<longleftrightarrow> (\<exists>ws k zs rest. bs = ws @ (k, False) # zs \<and> p = span ws \<and> bs' = ws @ (n, True) # rest
     \<and> (rest = zs \<and> n = k \<or> n + 24 \<le> k \<and> rest = (k - 12 - n, False) # zs))"

lemma take_step:
  assumes c: "core s (xs @ (k, False) # ys)" and lf: "lfree_ok s (xs @ (k, False) # ys)" and nh: "no_holes (xs @ (k, False) # ys)"
    and um: "used_mem s = of_nat (in_use (xs @ (k, False) # ys))" and n: "12 \<le> n" "n \<le> k" "4 dvd n"
  shows "\<exists>s' bs' n'. take_block n (span xs) s = Some s' \<and> core s' bs' \<and> lfree_ok s' bs' \<and> no_holes bs'
    \<and> used_mem s' = of_nat (in_use bs') \<and> n \<le> n' \<and> n' < n + 24
    \<and> (\<forall>x j. (x, j, True) \<in> layout 0 bs' \<longleftrightarrow> (x, j, True) \<in> layout 0 (xs @ (k, False) # ys) \<or> x = span xs \<and> j = n')
    \<and> keeps (bytes s) (bytes s') (xs @ (k, False) # ys) \<and> (lowest s (xs @ (k, False) # ys) \<longrightarrow> lowest s' bs') \<and> same_area s s' \<and> heap_sem s' = heap_sem s
    \<and> taken (xs @ (k, False) # ys) (span xs) n' bs'"
proof -
  let ?bs = "xs @ (k, False) # ys"
  obtain m d n' rest where t: "take_mark n (span xs) s = Some (count_used d (s\<lparr>bytes := m\<rparr>))"
    "core (s\<lparr>bytes := m\<rparr>) (xs @ (n', True) # rest)" "keeps (bytes s) m ?bs" "d = 12 + n'" "n \<le> n'" "n' < n + 24"
    "rest = ys \<and> n' = k \<or> n' = n \<and> n + 24 \<le> k \<and> rest = (k - 12 - n, False) # ys"
    using take_mark_step [OF c n] by blast
  let ?bs' = "xs @ (n', True) # rest" and ?s = "count_used d (s\<lparr>bytes := m\<rparr>)"
  have c1: "core ?s ?bs'"
    using t(2) by simp
  have "lfree ?s \<noteq> span xs \<longrightarrow> lfree_ok ?s ?bs'"
    using lf t(7) by (auto simp: lfree_ok_def ac_simps)
  from take_lfree_step [OF c1 this] obtain q where q: "take_lfree (span xs) ?s = Some (?s\<lparr>lfree := q\<rparr>)"
    "lfree_ok (?s\<lparr>lfree := q\<rparr>) ?bs'" "lowest ?s ?bs' \<longrightarrow> lowest (?s\<lparr>lfree := q\<rparr>) ?bs'"
    by blast
  have "lowest ?s ?bs'" if l: "lowest s ?bs"
  proof -
    have "lfree s \<le> span xs"
      using l unfolding lowest_def layout_middle by blast
    then show ?thesis
      using l t(7) by (auto simp: lowest_def ac_simps)
  qed
  moreover have "no_holes ?bs'"
    using nh t(7) by (auto simp: no_holes_append)
  moreover have "used_mem (?s\<lparr>lfree := q\<rparr>) = of_nat (in_use ?bs')"
    using um t(4,7) by auto
  moreover have "\<forall>x j. (x, j, True) \<in> layout 0 ?bs' \<longleftrightarrow> (x, j, True) \<in> layout 0 ?bs \<or> x = span xs \<and> j = n'"
    using t(7) by (auto simp: ac_simps)
  moreover have "same_area s (?s\<lparr>lfree := q\<rparr>)"
    by (simp add: same_area_def)
  moreover have "core (?s\<lparr>lfree := q\<rparr>) ?bs'"
    using c1 by (simp only: core_cong)
  moreover have "taken ?bs (span xs) n' ?bs'"
    unfolding taken_def using t(7) by blast
  ultimately show ?thesis
    using t q by (intro exI [of _ "?s\<lparr>lfree := q\<rparr>"] exI [of _ ?bs'] exI [of _ n']) (auto simp: take_block_eq)
qed

text \<open>The size that is looked for.\<close>

definition request :: "u32 \<Rightarrow> nat" where
  "request sz = (if align_up sz < 12 then 12 else align_up sz)"

lemma align_up_eq: "align_up w = unat (w + 3) div 4 * 4"
proof -
  have m: "(3 :: u32) = mask 2"
    by (simp add: mask_eq_exp_minus_1)
  have "(w + 3) AND NOT 3 = push_bit 2 (drop_bit 2 (w + 3))"
    unfolding m by (rule bit_word_eqI) (auto simp: bit_simps possible_bit_def le_add_diff_inverse2 simp flip: add_2_eq_Suc')
  moreover have "unat (push_bit 2 (drop_bit 2 v)) = unat v div 4 * 4" for v :: u32
    using unat_u32 [of v] div_times_less_eq_dividend [of "unat v" 4]
    by (simp add: push_bit_eq_mult drop_bit_eq_div unat_word_ariths unat_div del: div_times_less_eq_dividend)
  ultimately show ?thesis
    by (simp add: align_up_def)
qed

lemma align_up_dvd: "4 dvd align_up w"
  by (simp add: align_up_eq)

lemma align_up_ge: "unat w + 3 < 4294967296 \<Longrightarrow> unat w \<le> align_up w"
  by (simp add: align_up_eq unat_word_ariths)


lemma lfree_position:
  assumes "core s bs" "lfree_ok s bs"
  shows "\<exists>xs ys. bs = xs @ ys \<and> span xs = lfree s"
proof (cases "lfree s = heap_end s")
  case True
  with assms(1) have "span bs = lfree s"
    by (simp add: core_def tail_def)
  then show ?thesis by (intro exI [of _ bs] exI [of _ "[]"]) simp
next
  case False
  with assms(2) obtain n where "(lfree s, n, False) \<in> layout 0 bs"
    by (auto simp: lfree_ok_def)
  then show ?thesis by (auto simp: layout_split)
qed

lemma core_cong_mem:
  assumes "core s bs"
  shows "core (s\<lparr>heap_sem := c\<rparr>) bs" "lfree_ok (s\<lparr>heap_sem := c\<rparr>) bs = lfree_ok s bs"
    "lowest (s\<lparr>heap_sem := c\<rparr>) bs = lowest s bs"
  using assms by (auto simp: core_def lfree_ok_def lowest_def)

text \<open>No block that the search looks at would do.\<close>

definition no_fit :: "heap \<Rightarrow> blocks \<Rightarrow> nat \<Rightarrow> bool" where
  "no_fit s bs n \<longleftrightarrow> (\<forall>q k. (q, k, False) \<in> layout 0 bs \<and> lfree s \<le> q \<and> n \<le> k \<longrightarrow> mem_size_aligned s - n \<le> q)"

lemma malloc_step:
  assumes inv: "heap_inv s bs"
  shows "(rt_malloc sz s = Some (0, s) \<and> (sz = 0 \<or> mem_size_aligned s < align_up sz \<or> no_fit s bs (request sz)))
    \<or> (\<exists>p n s' bs'. rt_malloc sz s = Some (heap_ptr s + p + 12, s') \<and> sz \<noteq> 0 \<and> heap_inv s' bs' \<and> same_area s s'
      \<and> request sz \<le> n \<and> n < request sz + 24 \<and> (\<forall>j. (p, j, True) \<notin> layout 0 bs)
      \<and> (\<forall>x j. (x, j, True) \<in> layout 0 bs' \<longleftrightarrow> (x, j, True) \<in> layout 0 bs \<or> x = p \<and> j = n)
      \<and> keeps (bytes s) (bytes s') bs \<and> (lowest s bs \<longrightarrow> lowest s' bs') \<and> taken bs p n bs' \<and> lfree s \<le> p)"
proof (cases "sz = 0 \<or> mem_size_aligned s < align_up sz")
  case True
  then show ?thesis by (auto simp: rt_malloc_def Let_def)
next
  case False
  let ?n = "request sz" and ?s = "s\<lparr>heap_sem := 0\<rparr>"
  have c: "core s bs" and lf: "lfree_ok s bs" and nh: "no_holes bs" and sem: "heap_sem s = 1"
    and um: "used_mem s = of_nat (in_use bs)"
    using inv by (simp_all add: heap_inv_def)
  have n: "12 \<le> ?n" "4 dvd ?n" "?n \<le> mem_size_aligned s"
    using False c align_up_dvd [of sz] by (auto simp: request_def core_def)
  obtain xs ys where bs: "bs = xs @ ys" "span xs = lfree s"
    using lfree_position [OF c lf] by blast
  have c0: "core ?s (xs @ ys)"
    using core_cong_mem(1) [OF c] bs by simp
  obtain r where r: "search_fit ?n (lfree s) ?s = Some r" and
    R: "case r of
      Some q \<Rightarrow> \<exists>xs' k ys'. xs @ ys = xs' @ (k, False) # ys' \<and> q = span xs' \<and> span xs \<le> q \<and> ?n \<le> k
        \<and> q < mem_size_aligned ?s - ?n
    | None \<Rightarrow> \<forall>q k. (q, k, False) \<in> layout (span xs) ys \<and> ?n \<le> k \<longrightarrow> mem_size_aligned ?s - ?n \<le> q"
    using search_yields [OF c0, of ?n] n(3) bs(2) by auto
  have m: "rt_malloc sz s = (case r of None \<Rightarrow> Some (0, sem_release ?s) | Some p \<Rightarrow> do {
      s \<leftarrow> take_block ?n p ?s;
      let s = sem_release s;
      c_assert (heap_ptr s + p + 12 + ?n \<le> heap_ptr s + heap_end s);
      c_assert ((heap_ptr s + p + 12) mod 4 = 0);
      c_assert ((heap_ptr s + p) mod 4 = 0);
      Some (heap_ptr s + p + 12, s) })"
    using False sem r
    by (cases "align_up sz < 12"; cases r)
      (simp_all add: rt_malloc_def Let_def sem_take_def request_def MIN_SIZE_ALIGNED_def SIZEOF_STRUCT_MEM_def
        ac_simps)
  show ?thesis
  proof (cases r)
    case None
    have "no_fit s bs ?n"
      using R None bs unfolding no_fit_def
      by (auto simp: bs dest: layout_bounds)
    with None m sem show ?thesis by (simp add: sem_release_def)
  next
    case (Some q)
    then obtain ws k zs where w: "bs = ws @ (k, False) # zs" "q = span ws" "?n \<le> k"
      "q < mem_size_aligned s - ?n" "lfree s \<le> q"
      using R bs by auto
    have pre: "core ?s (ws @ (k, False) # zs)" "lfree_ok ?s (ws @ (k, False) # zs)"
      "used_mem ?s = of_nat (in_use (ws @ (k, False) # zs))"
      using core_cong_mem [OF c] lf um w(1) by simp_all
    obtain s' bs' n' where s': "take_block ?n q ?s = Some s'" "core s' bs'" "lfree_ok s' bs'" "no_holes bs'"
      "used_mem s' = of_nat (in_use bs')" "?n \<le> n'" "n' < ?n + 24"
      "\<forall>x j. (x, j, True) \<in> layout 0 bs' \<longleftrightarrow> (x, j, True) \<in> layout 0 bs \<or> x = q \<and> j = n'"
      "keeps (bytes ?s) (bytes s') bs" "lowest ?s bs \<longrightarrow> lowest s' bs'" "same_area ?s s'" "heap_sem s' = 0"
      "taken bs q n' bs'"
      using take_step [OF pre(1,2) _ pre(3) n(1) w(3) n(2)] nh w by auto
    have "4 dvd span ws"
      using c w(1) by (auto simp: core_def tail_append segs_dvd)
    then have al: "(heap_ptr s + q + 12) mod 4 = 0" "(heap_ptr s + q) mod 4 = 0"
      using c w(2) by (auto simp: core_def mod_eq_0_iff_dvd)
    have "q + ?n \<le> mem_size_aligned s"
      using w(4) n(3) by linarith
    then have m': "rt_malloc sz s = Some (heap_ptr s + q + 12, sem_release s')"
      using m Some s'(1,11) al c by (simp add: sem_release_def same_area_def core_def)
    have "heap_inv (sem_release s') bs'"
      using s' core_cong_mem [OF s'(2)] by (simp add: heap_inv_def sem_release_def)
    moreover have "\<forall>j. (q, j, True) \<notin> layout 0 bs"
      using w by (auto simp: layout_middle dest!: layout_bounds)
    ultimately show ?thesis
      using m' s' w(5) False core_cong_mem [OF c] core_cong_mem [OF s'(2)]
      by (intro disjI2 exI [of _ q] exI [of _ n'] exI [of _ "sem_release s'"] exI [of _ bs'])
        (auto simp: sem_release_def same_area_def)
  qed
qed


section \<open>Writing inside a block\<close>

lemma write_step:
  assumes c: "core s (ws @ (n, True) # zs)" and q: "span ws + 12 \<le> q" "q + length xs \<le> span ws + 12 + n"
  shows "core (s\<lparr>bytes := splice (bytes s) q xs\<rparr>) (ws @ (n, True) # zs)"
    and "\<And>x k. (x, k, True) \<in> layout 0 (ws @ (n, True) # zs) \<Longrightarrow> x \<noteq> span ws \<Longrightarrow>
      agree (bytes s) (splice (bytes s) q xs) (x + 12) (x + 12 + k)"
proof -
  let ?m = "bytes s" and ?e = "heap_end s" let ?m' = "splice ?m q xs"
  have t: "segs ?m 0 0 ws" "header_is ?m (span ws) True (span ws + 12 + n) (last_at 0 0 ws)" "4 dvd n" "0 < n"
    "tail ?m (span ws) (span ws + 12 + n) zs ?e" and geo: "length ?m = ?e + 12"
    using c by (auto simp: core_def tail_append tail_Cons)
  have le: "span ws + 12 + n \<le> ?e"
    using t(5) by (auto dest: tail_le)
  have a: "agree ?m ?m' 0 (span ws)" "agree ?m ?m' (span ws) (span ws + 12)"
    "agree ?m ?m' (span ws + 12 + n) (?e + 12)"
    using q le geo by (auto intro!: agree_splice)
  have "segs ?m' 0 0 ws"
    using t(1) a(1) segs_agree [of ?m ?m' 0 ws 0] by simp
  moreover have "header_is ?m' (span ws) True (span ws + 12 + n) (last_at 0 0 ws)"
    using t(2) get_header_agree [OF a(2), of "span ws"] by (simp add: header_is_def)
  moreover have "tail ?m' (span ws) (span ws + 12 + n) zs ?e"
    by (rule tail_agree [OF a(3) t(5)])
  moreover have "length ?m' = length ?m"
    using a(1) by (simp add: agree_def)
  ultimately show "core (s\<lparr>bytes := ?m'\<rparr>) (ws @ (n, True) # zs)"
    using c t geo by (simp add: core_def tail_append tail_Cons)
  fix x k assume x: "(x, k, True) \<in> layout 0 (ws @ (n, True) # zs)" "x \<noteq> span ws"
  then have "x + 12 + k \<le> span ws \<or> span ws + 12 + n \<le> x"
    by (auto simp: layout_middle dest!: layout_bounds)
  with q le geo show "agree ?m ?m' (x + 12) (x + 12 + k)"
    by (intro agree_splice) auto
qed

lemma heap_inv_write:
  assumes "heap_inv s bs" "(p, n, True) \<in> layout 0 bs" "p + 12 \<le> q" "q + length xs \<le> p + 12 + n"
  shows "heap_inv (s\<lparr>bytes := splice (bytes s) q xs\<rparr>) bs"
proof -
  obtain ws zs where w: "bs = ws @ (n, True) # zs" "p = span ws"
    using assms(2) by (auto simp: layout_split)
  with assms write_step(1) [of s ws n zs q xs] show ?thesis
    by (auto simp: heap_inv_def lfree_ok_def)
qed

section \<open>Changing the size of a block\<close>

lemma align_up_again: "n < 4294967296 \<Longrightarrow> 4 dvd n \<Longrightarrow> align_up (of_nat n) = n"
proof -
  assume n: "n < 4294967296" "4 dvd n"
  then obtain k where k: "n = 4 * k" by blast
  have "unat (of_nat n + 3 :: u32) = n + 3"
  proof -
    have "n + 3 < 4294967296"
      using n(1) k by presburger
    then have "unat (of_nat (n + 3) :: u32) = n + 3"
      by (rule unat_u32_of_nat)
    then show ?thesis by (simp add: ac_simps)
  qed
  with k show ?thesis
    by (simp add: align_up_eq)
qed

lemma shrink_step:
  assumes inv: "heap_inv s (xs @ (k, True) # ys)" and n: "n + 24 < k" "0 < n" "4 dvd n"
  shows "\<exists>m s' bs'. split_block n (span xs) (\<lambda>h. h)
        (s\<lparr>heap_sem := 0, used_mem := used_mem s - of_nat (k - n)\<rparr>)
      = Some (s\<lparr>heap_sem := 0, used_mem := used_mem s - of_nat (k - n), bytes := m\<rparr>)
    \<and> plug_holes (span xs + 12 + n) (s\<lparr>heap_sem := 0, used_mem := used_mem s - of_nat (k - n), bytes := m\<rparr>) = Some s'
    \<and> heap_inv (sem_release s') bs' \<and> same_area s s' \<and> bs' = xs @ (n, True) # absorb (k - 12 - n) ys
    \<and> (\<forall>x j. (x, j, True) \<in> layout 0 bs' \<longleftrightarrow>
        (x, j, True) \<in> layout 0 (xs @ (k, True) # ys) \<and> x \<noteq> span xs \<or> x = span xs \<and> j = n)
    \<and> keeps (bytes s) (bytes s') bs'"
proof -
  let ?p = "span xs" and ?s = "s\<lparr>heap_sem := 0, used_mem := used_mem s - of_nat (k - n)\<rparr>"
  let ?bs1 = "xs @ (n, True) # (k - 12 - n, False) # ys"
  have c: "core s (xs @ (k, True) # ys)" and lf: "lfree_ok s (xs @ (k, True) # ys)"
    and nh: "no_holes xs" "no_holes ys"
    and um: "used_mem s = of_nat (in_use (xs @ (k, True) # ys))"
    using inv by (simp_all add: heap_inv_def no_holes_append_used)
  have c0: "core ?s (xs @ (k, True) # ys)"
    using c by (auto simp: core_def)
  obtain h where h: "hdr ?s ?p = Some h" "used h \<noteq> 0"
    using hdr_at [OF c0] by auto
  obtain m where m: "split_block n ?p (\<lambda>h. h) ?s = Some (?s\<lparr>bytes := m\<rparr>)"
    "core (?s\<lparr>bytes := m\<rparr>) ?bs1" "keeps (bytes s) m ?bs1"
    using split_step [OF c0 _ n(3,2) h(1), of "\<lambda>h. h" True] h(2) n(1) by auto
  have "core (?s\<lparr>bytes := m\<rparr>) ((xs @ [(n, True)]) @ (k - 12 - n, False) # ys)"
    using m(2) by simp
  from plug_holes_merges [OF this] obtain s' where s':
    "plug_holes (?p + 12 + n) (?s\<lparr>bytes := m\<rparr>) = Some s'"
    "merges (?s\<lparr>bytes := m\<rparr>) ?bs1 s' (xs @ (n, True) # absorb (k - 12 - n) ys)"
    by (auto simp: join_last_def ac_simps)
  let ?bs' = "xs @ (n, True) # absorb (k - 12 - n) ys"
  have eq: "s' = ?s\<lparr>bytes := bytes s', lfree := lfree s'\<rparr>"
    using s'(2) by (simp add: merges_def)
  have f: "heap_sem s' = 0" "used_mem s' = used_mem s - of_nat (k - n)" "same_area s s'"
    by (subst eq, simp add: same_area_def)+
  have "in_use (xs @ (k, True) # ys) = in_use ?bs' + (k - n)"
    using s'(2) n(1) by (simp add: merges_def)
  then have um': "used_mem s' = of_nat (in_use ?bs')"
    using um f(2) by (simp only: of_nat_add add_diff_cancel_right')
  have "lfree_ok (?s\<lparr>bytes := m\<rparr>) ?bs1"
    using lf n by (auto simp: lfree_ok_def ac_simps)
  then have "lfree_ok s' ?bs'"
    using s'(2) by (simp add: merges_def)
  moreover have "no_holes ?bs'"
    using nh no_holes_absorb by (simp add: no_holes_append_used)
  ultimately have "heap_inv (sem_release s') ?bs'"
    using s'(2) f um' by (auto simp: heap_inv_def merges_def sem_release_def core_cong lfree_ok_def)
  moreover have "keeps (bytes s) (bytes s') ?bs'"
    using m(3) s'(2) by (auto simp: merges_def intro: keeps_trans keeps_mono [OF m(3)] keeps_mono)
  moreover have "\<forall>x j. (x, j, True) \<in> layout 0 ?bs1 \<longleftrightarrow>
        (x, j, True) \<in> layout 0 (xs @ (k, True) # ys) \<and> x \<noteq> span xs \<or> x = span xs \<and> j = n"
    using layout_not_middle(1) [of _ _ True xs] layout_not_middle(2) [of _ _ True xs k ys] n(1)
    by (auto simp: layout_middle ac_simps)
  ultimately show ?thesis
    using m(1) s' f(3) by (intro exI [of _ m] exI [of _ s'] exI [of _ ?bs']) (auto simp: merges_def)
qed


text \<open>The bytes of a block, and what a resized block must keep of them.\<close>

definition content :: "heap \<Rightarrow> nat \<Rightarrow> nat \<Rightarrow> u8 list" where
  "content s p n = take n (drop (p + 12) (bytes s))"

lemma content_agree: "agree (bytes s) (bytes s') (p + 12) (p + 12 + n) \<Longrightarrow> p + 12 + n \<le> length (bytes s)
    \<Longrightarrow> content s' p n = content s p n"
  unfolding content_def by (intro nth_equalityI) (auto simp: agree_def)

lemma block_bounds:
  assumes "core s bs" "(p, n, u) \<in> layout 0 bs"
  shows "p + 12 + n \<le> heap_end s" "length (bytes s) = heap_end s + 12" "heap_end s < 4294967296" "0 < n"
    "4 dvd p" "4 dvd n" "heap_ptr s + heap_end s + 12 \<le> 4294967296" "4 dvd heap_ptr s"
proof -
  obtain xs ys where w: "bs = xs @ (n, u) # ys" "p = span xs"
    using assms(2) by (auto simp: layout_split)
  with assms(1) show "p + 12 + n \<le> heap_end s" "length (bytes s) = heap_end s + 12" "heap_end s < 4294967296"
    "0 < n" "4 dvd p" "4 dvd n" "heap_ptr s + heap_end s + 12 \<le> 4294967296" "4 dvd heap_ptr s"
    by (auto simp: core_def tail_append tail_Cons segs_dvd dest: tail_le)
qed

lemma keeps_content:
  assumes "core s bs" "keeps (bytes s) (bytes s') bs'" "(p, n, True) \<in> layout 0 bs" "(p, n, True) \<in> layout 0 bs'"
  shows "content s' p n = content s p n"
  using assms block_bounds [OF assms(1,3)] by (intro content_agree) (auto simp: keeps_def)

lemma content_le: "m \<le> n \<Longrightarrow> content s p m = take m (content s p n)"
  by (simp add: content_def min_def)

lemma layout_unique: "(p, n, u) \<in> layout 0 bs \<Longrightarrow> (p, k, v) \<in> layout 0 bs \<Longrightarrow> n = k \<and> u = v"
proof -
  assume a: "(p, n, u) \<in> layout 0 bs" and b: "(p, k, v) \<in> layout 0 bs"
  from a obtain xs ys where w: "bs = xs @ (n, u) # ys" "p = span xs"
    by (auto simp: layout_split)
  with b show ?thesis
    by (auto simp: layout_middle dest!: layout_bounds)
qed

lemma copy_step:
  assumes inv: "heap_inv s bs" and new: "(p', n', True) \<in> layout 0 bs" and old: "(p, k, True) \<in> layout 0 bs"
    and ne: "p' \<noteq> p" and m: "m \<le> n'" "m \<le> k"
  shows "\<exists>b. copy_bytes (bytes s) (p' + 12) (bytes s) (p + 12) m = Some b \<and> heap_inv (s\<lparr>bytes := b\<rparr>) bs
    \<and> content (s\<lparr>bytes := b\<rparr>) p' m = content s p m
    \<and> (\<forall>x j. (x, j, True) \<in> layout 0 bs \<and> x \<noteq> p' \<longrightarrow> content (s\<lparr>bytes := b\<rparr>) x j = content s x j)"
proof -
  have c: "core s bs"
    using inv by (simp add: heap_inv_def)
  note nb = block_bounds [OF c new] and ob = block_bounds [OF c old]
  let ?ys = "content s p m" let ?b = "splice (bytes s) (p' + 12) ?ys"
  have len: "length ?ys = m"
    using ob m by (simp add: content_def)
  have "copy_bytes (bytes s) (p' + 12) (bytes s) (p + 12) m = Some ?b"
    using nb ob m by (subst copy_bytes_eq) (simp_all add: content_def)
  moreover have "heap_inv (s\<lparr>bytes := ?b\<rparr>) bs"
    using heap_inv_write [OF inv new, of "p' + 12" ?ys] len m by simp
  moreover have "content (s\<lparr>bytes := ?b\<rparr>) p' m = ?ys"
    using take_drop_splice [of "p' + 12" ?ys "bytes s"] len nb m by (simp add: content_def)
  moreover have "content (s\<lparr>bytes := ?b\<rparr>) x j = content s x j" if x: "(x, j, True) \<in> layout 0 bs" "x \<noteq> p'" for x j
  proof -
    obtain ws zs where w: "bs = ws @ (n', True) # zs" "p' = span ws"
      using new by (auto simp: layout_split)
    have "agree (bytes s) ?b (x + 12) (x + 12 + j)"
      using write_step(2) [of s ws n' zs "p' + 12" ?ys x j] c w x len m by simp
    then show ?thesis
      using block_bounds [OF c x(1)] by (intro content_agree) auto
  qed
  ultimately show ?thesis by blast
qed

end
