(* ===== verification/Heap_Calls.thy ===== *)
theory Heap_Calls
  imports Heap_Steps
begin

text \<open>
  The effect of the calls of \<^verbatim>\<open>src/mem.c\<close> on the blocks their callers hold, sequences of calls,
  and the properties of the heap.
\<close>

section \<open>The effect of a call\<close>

text \<open>The blocks the callers hold, as offset and size, and how a call changes them.\<close>

definition live :: "blocks \<Rightarrow> (nat \<times> nat) set" where
  "live bs = {(p, n). (p, n, True) \<in> layout 0 bs}"

definition effect :: "heap \<Rightarrow> blocks \<Rightarrow> (nat \<times> nat) set \<Rightarrow> (nat \<times> nat) set \<Rightarrow> heap \<Rightarrow> blocks \<Rightarrow> bool" where
  "effect s bs gone new s' bs' \<longleftrightarrow> heap_inv s' bs' \<and> same_area s s' \<and> live bs' = live bs - gone \<union> new
     \<and> (\<forall>(p, n) \<in> live bs - gone. content s' p n = content s p n)"

lemma live_iff [simp]: "(p, n) \<in> live bs \<longleftrightarrow> (p, n, True) \<in> layout 0 bs"
  by (simp add: live_def)

lemma effect_content: "effect s bs gone new s' bs' \<Longrightarrow> (p, n, True) \<in> layout 0 bs \<Longrightarrow> (p, n) \<notin> gone
    \<Longrightarrow> content s' p n = content s p n"
  unfolding effect_def by (auto simp: live_def)

lemma effect_inv: "effect s bs gone new s' bs' \<Longrightarrow> heap_inv s' bs'"
  by (simp add: effect_def)

lemma keep_sem: "heap_sem s = c \<Longrightarrow> s\<lparr>heap_sem := c\<rparr> = s"
  by simp

lemma effect_refl: "heap_inv s bs \<Longrightarrow> effect s bs {} {} s bs"
  by (simp add: effect_def)

lemma malloc_effect:
  assumes inv: "heap_inv s bs"
  shows "(rt_malloc sz s = Some (0, s) \<and> (sz = 0 \<or> mem_size_aligned s < align_up sz \<or> no_fit s bs (request sz)))
    \<or> (\<exists>p n s' bs'. rt_malloc sz s = Some (heap_ptr s + p + 12, s') \<and> sz \<noteq> 0
      \<and> effect s bs {} {(p, n)} s' bs' \<and> request sz \<le> n \<and> n < request sz + 24 \<and> (\<forall>j. (p, j) \<notin> live bs)
      \<and> (lowest s bs \<longrightarrow> lowest s' bs') \<and> taken bs p n bs' \<and> lfree s \<le> p)"
  using malloc_step [OF inv, of sz]
proof (elim disjE exE conjE, goal_cases)
  case (4 p n s' bs')
  have "live bs' = live bs - {} \<union> {(p, n)}"
    using 4 by (auto simp: live_def)
  moreover have "content s' x j = content s x j" if "(x, j) \<in> live bs" for x j
    using inv 4 that by (intro keeps_content [of s bs _ bs]) (auto simp: heap_inv_def)
  ultimately have "effect s bs {} {(p, n)} s' bs'"
    using 4 by (auto simp: effect_def)
  with 4 show ?case by auto
qed simp_all

lemma free_effect:
  assumes inv: "heap_inv s bs" and p: "(p, n) \<in> live bs"
  shows "\<exists>s' bs'. rt_free (heap_ptr s + p + 12) s = Some s' \<and> effect s bs {(p, n)} {} s' bs'
    \<and> (lowest s bs \<longrightarrow> lowest s' bs')"
proof -
  obtain xs ys where w: "bs = xs @ (n, True) # ys" "p = span xs"
    using p by (auto simp: layout_split)
  obtain s' bs' where s': "rt_free (heap_ptr s + p + 12) s = Some s'" "heap_inv s' bs'" "same_area s s'"
    "\<forall>x k. (x, k, True) \<in> layout 0 bs' \<longleftrightarrow> (x, k, True) \<in> layout 0 bs \<and> x \<noteq> p"
    "keeps (bytes s) (bytes s') bs'" "lowest s bs \<longrightarrow> lowest s' bs'"
    using free_step [of s xs n ys] inv w by auto
  have only: "(p, j, True) \<in> layout 0 bs \<longleftrightarrow> j = n" for j
    using p layout_unique [of p n True bs j True] by auto
  have "live bs' = live bs - {(p, n)}"
    unfolding live_def using s'(4) only by blast
  moreover have "content s' x j = content s x j" if "(x, j) \<in> live bs'" for x j
    using inv s' that by (intro keeps_content [of s bs _ bs']) (auto simp: heap_inv_def)
  ultimately have "effect s bs {(p, n)} {} s' bs'"
    using s' by (auto simp: effect_def)
  with s' show ?thesis by blast
qed

lemma realloc_effect:
  assumes inv: "heap_inv s bs" and p: "(p, k) \<in> live bs"
  shows "\<exists>a s' bs'. rt_realloc (heap_ptr s + p + 12) sz s = Some (a, s') \<and>
    (if align_up sz = 0 then a = 0 \<and> effect s bs {(p, k)} {} s' bs'
     else if a = 0 then s' = s \<and> bs' = bs
     else \<exists>q n. a = heap_ptr s + q + 12 \<and> effect s bs {(p, k)} {(q, n)} s' bs' \<and> align_up sz \<le> n
       \<and> content s' q (min k (align_up sz)) = content s p (min k (align_up sz)))"
proof -
  let ?n = "align_up sz" and ?r = "heap_ptr s + p + 12"
  have c: "core s bs" and sem: "heap_sem s = 1"
    using inv by (simp_all add: heap_inv_def)
  note pb = block_bounds [OF c p [unfolded live_iff]]
  obtain xs ys where w: "bs = xs @ (k, True) # ys" "p = span xs"
    using p by (auto simp: layout_split)
  obtain h where h: "hdr s p = Some h" "unat (next h) = p + 12 + k"
    using hdr_at [of s xs k True ys] c w by auto
  have h0: "hdr (s\<lparr>heap_sem := 0\<rparr>) p = Some h"
    using h(1) by (simp add: hdr_def)
  have sz: "sub32 (sub32 (unat (next h)) p) 12 = k"
    using pb h(2) by (simp add: sub32_le)
  have only: "(p, j, True) \<in> layout 0 bs \<longleftrightarrow> j = k" for j
    using p layout_unique [of p k True bs j True] by auto
  consider "mem_size_aligned s < ?n" | "?n = 0" | "?n \<le> mem_size_aligned s" "0 < ?n" "k = ?n"
    | "?n \<le> mem_size_aligned s" "0 < ?n" "?n + 24 < k"
    | "?n \<le> mem_size_aligned s" "0 < ?n" "k \<noteq> ?n" "k \<le> ?n + 24"
    by linarith
  then show ?thesis
  proof cases
    case 1
    then show ?thesis
      by (intro exI [of _ 0] exI [of _ s] exI [of _ bs]) (auto simp: rt_realloc_def Let_def)
  next
    case 2
    obtain s' bs' where "rt_free ?r s = Some s'" "effect s bs {(p, k)} {} s' bs'"
      using free_effect [OF inv p] by blast
    with 2 show ?thesis
      by (intro exI [of _ 0] exI [of _ s'] exI [of _ bs']) (simp add: rt_realloc_def Let_def)
  next
    case 3
    then have "rt_realloc ?r sz s = Some (?r, s)"
      using pb sem h0 sz
      by (simp add: rt_realloc_def Let_def sem_take_def header_at_def SIZEOF_STRUCT_MEM_def sem_release_def)
    moreover have "effect s bs {(p, k)} {(p, k)} s bs"
      using inv p by (auto simp: effect_def)
    ultimately show ?thesis
      using 3 by (intro exI [of _ ?r] exI [of _ s] exI [of _ bs]) auto
  next
    case 4
    obtain m s' bs' where m: "split_block ?n p (\<lambda>h. h)
          (s\<lparr>heap_sem := 0, used_mem := used_mem s - of_nat (k - ?n)\<rparr>)
        = Some (s\<lparr>heap_sem := 0, used_mem := used_mem s - of_nat (k - ?n), bytes := m\<rparr>)"
      "plug_holes (p + 12 + ?n) (s\<lparr>heap_sem := 0, used_mem := used_mem s - of_nat (k - ?n), bytes := m\<rparr>) = Some s'"
      "heap_inv (sem_release s') bs'" "same_area s s'"
      "\<forall>x j. (x, j, True) \<in> layout 0 bs' \<longleftrightarrow> (x, j, True) \<in> layout 0 bs \<and> x \<noteq> p \<or> x = p \<and> j = ?n"
      "keeps (bytes s) (bytes s') bs'"
      using shrink_step [of s xs k ys ?n] inv w 4 align_up_dvd by blast
    have "rt_realloc ?r sz s = Some (?r, sem_release s')"
      using 4 pb sem h0 sz m(1,2)
      by (simp add: rt_realloc_def Let_def sem_take_def header_at_def SIZEOF_STRUCT_MEM_def MIN_SIZE_def)
    moreover have "live bs' = live bs - {(p, k)} \<union> {(p, ?n)}"
      unfolding live_def using m(5) only by blast
    moreover have "content (sem_release s') x j = content s x j" if "(x, j) \<in> live bs" "x \<noteq> p" for x j
      using keeps_content [OF c, of s' bs' x j] m(5,6) that by (auto simp: content_def sem_release_def)
    moreover have "content (sem_release s') p ?n = content s p ?n"
      using m(5,6) pb 4 content_agree [of s s' p ?n] by (auto simp: keeps_def content_def sem_release_def)
    moreover have "x \<noteq> p" if "(x, j) \<in> live bs - {(p, k)}" for x j
      using that only by auto
    moreover have "same_area s (sem_release s')"
      using m(4) by (simp add: same_area_def sem_release_def)
    ultimately have "effect s bs {(p, k)} {(p, ?n)} (sem_release s') bs'"
      using m(3) unfolding effect_def by blast
    moreover have "content (sem_release s') p (min k ?n) = content s p (min k ?n)"
      using \<open>content (sem_release s') p ?n = content s p ?n\<close> 4 by simp
    moreover note \<open>rt_realloc ?r sz s = Some (?r, sem_release s')\<close>
    moreover have "?r \<noteq> 0" "?n \<noteq> 0"
      using 4 by simp_all
    ultimately show ?thesis by auto
  next
    case 5
    define m where "m = (if k < ?n then k else ?n)"
    then have m: "m \<le> ?n" "m \<le> k" "m = min k ?n"
      by auto
    have nn: "align_up (of_nat ?n) = ?n"
      using 5(1) pb c align_up_dvd by (intro align_up_again) (auto simp: core_def)
    have r: "rt_realloc ?r sz s = do {
        (nmem, s) \<leftarrow> rt_malloc (of_nat ?n) s;
        if nmem \<noteq> 0 then do {
          m \<leftarrow> copy_bytes (bytes s) (nmem - heap_ptr s) (bytes s) (?r - heap_ptr s) m;
          s \<leftarrow> rt_free ?r (s\<lparr>bytes := m\<rparr>);
          Some (nmem, s)
        }
        else Some (nmem, s) }"
      using 5 pb sem h0 sz
      by (simp add: rt_realloc_def Let_def sem_take_def header_at_def SIZEOF_STRUCT_MEM_def MIN_SIZE_def
          sem_release_def keep_sem m_def cong: if_cong)
    from malloc_effect [OF inv, of "of_nat ?n"] show ?thesis
    proof (elim disjE exE conjE, goal_cases)
      case (4 q n1 s1 bs1)
      note e1 = 4(3)
      have q: "q \<noteq> p" and n1: "?n \<le> n1"
        using 4 p nn by (auto simp: request_def split: if_splits)
      have i1: "heap_inv s1 bs1" "heap_ptr s1 = heap_ptr s" and l1: "live bs1 = insert (q, n1) (live bs)"
        and k1: "content s1 p k = content s p k"
        using e1 p by (auto simp: effect_def same_area_def)
      obtain b where b: "copy_bytes (bytes s1) (q + 12) (bytes s1) (p + 12) m = Some b"
        "heap_inv (s1\<lparr>bytes := b\<rparr>) bs1" "content (s1\<lparr>bytes := b\<rparr>) q m = content s1 p m"
        "\<forall>x j. (x, j) \<in> live bs1 \<and> x \<noteq> q \<longrightarrow> content (s1\<lparr>bytes := b\<rparr>) x j = content s1 x j"
        using copy_step [OF i1(1), unfolded live_iff [symmetric], of q n1 p k m] q n1 m l1 p by auto
      let ?s2 = "s1\<lparr>bytes := b\<rparr>"
      obtain s3 bs3 where s3: "rt_free (heap_ptr s1 + p + 12) ?s2 = Some s3" "effect ?s2 bs1 {(p, k)} {} s3 bs3"
        using free_effect [OF b(2), of p k] l1 p by auto
      have live3: "live bs3 = live bs - {(p, k)} \<union> {(q, n1)}"
        using s3(2) l1 q by (auto simp: effect_def)
      have "content s3 x j = content s x j" if "(x, j) \<in> live bs - {(p, k)}" for x j
      proof -
        have "x \<noteq> q" and "(x, j) \<in> live bs1"
          using that 4(6) l1 by auto
        then have "content s3 x j = content s1 x j"
          using that b(4) effect_content [OF s3(2), of x j] by auto
        then show ?thesis
          using effect_content [OF e1, of x j] that by auto
      qed
      then have e: "effect s bs {(p, k)} {(q, n1)} s3 bs3"
        using s3(2) e1 live3 by (auto simp: effect_def same_area_def)
      have "content s3 q n1 = content ?s2 q n1"
        using s3(2) l1 q by (auto simp: effect_def)
      then have "content s3 q m = content s1 p m"
        using b(3) n1 m content_le [of m n1] by simp
      then have "content s3 q (min k ?n) = content s p (min k ?n)"
        using k1 m content_le [of m k s1 p] content_le [of m k s p] by simp
      moreover have "rt_realloc ?r sz s = Some (heap_ptr s + q + 12, s3)"
        using r 4(1) b(1) s3(1) i1(2) by (simp add: ac_simps)
      ultimately show ?case
        using 5 e n1 by auto
    qed (use r 5 in \<open>auto intro!: exI [of _ s] exI [of _ bs]\<close>)
  qed
qed


section \<open>Starting the heap\<close>

definition heap_reset :: heap where
  "heap_reset = \<lparr>bytes = [], heap_ptr = 0, heap_end = 0, lfree = 0, heap_sem = 0, mem_size_aligned = 0,
     used_mem = 0, max_mem = 0\<rparr>"

lemma align_down_eq: "align_down w = unat w div 4 * 4"
proof -
  have m: "(3 :: u32) = mask 2"
    by (simp add: mask_eq_exp_minus_1)
  have "w AND NOT 3 = push_bit 2 (drop_bit 2 w)"
    unfolding m by (rule bit_word_eqI)
      (auto simp: bit_simps possible_bit_def le_add_diff_inverse2 simp flip: add_2_eq_Suc')
  then show ?thesis
    using unat_u32 [of w] div_times_less_eq_dividend [of "unat w" 4]
    by (simp add: align_down_def push_bit_eq_mult drop_bit_eq_div unat_word_ariths unat_div
        del: div_times_less_eq_dividend)
qed

lemma init_step:
  assumes sz: "align_down e = align_up b + sz + 24" "12 \<le> sz" "length ram = sz + 24" "used_mem s = 0"
  shows "\<exists>s'. rt_system_heap_init b e ram s = Some s' \<and> heap_inv s' [(sz, False)]
    \<and> lowest s' [(sz, False)] \<and> heap_ptr s' = align_up b \<and> mem_size_aligned s' = sz"
proof -
  let ?e = "sz + 12"
  let ?h1 = "\<lparr>magic = HEAP_MAGIC, used = 0, next = of_nat ?e, prev = 0\<rparr>"
  let ?h2 = "\<lparr>magic = HEAP_MAGIC, used = 1, next = of_nat ?e, prev = of_nat ?e\<rparr>"
  let ?m1 = "splice ram 0 (header_bytes ?h1)" let ?m2 = "splice ?m1 ?e (header_bytes ?h2)"
  let ?s = "s\<lparr>mem_size_aligned := sz, heap_ptr := align_up b, bytes := ?m2, heap_end := ?e, heap_sem := 1, lfree := 0\<rparr>"
  have lim: "align_down e < 4294967296"
    using unat_u32 by (simp add: align_down_def)
  have len: "length ram = sz + 24" "length ?m1 = sz + 24" "length ?m2 = sz + 24"
    using assms by simp_all
  have "?e < 4294967296"
    using lim sz(1) by linarith
  then have u: "unat (of_nat ?e :: u32) = ?e"
    by (rule unat_u32_of_nat)
  have "get_header ?m2 0 = Some ?h1" "get_header ?m2 ?e = Some ?h2"
    using len by (simp_all add: get_header_splice)
  then have "header_is ?m2 0 False ?e 0" "end_ok ?m2 ?e"
    using u by (auto simp: header_is_def end_ok_def)
  moreover have "4 dvd align_up b + sz + 24"
    unfolding sz(1) [symmetric] by (simp add: align_down_eq)
  then have "4 dvd align_up b" "4 dvd sz"
    using align_up_dvd [of b] by presburger+
  moreover have "align_up b + ?e + 12 \<le> 4294967296"
    using sz(1) lim by linarith
  ultimately have "core ?s [(sz, False)]"
    using len sz(2) by (simp add: core_def tail_def ac_simps)
  then have "heap_inv ?s [(sz, False)]" "lowest ?s [(sz, False)]"
    using sz(4) by (simp_all add: heap_inv_def lfree_ok_def lowest_def)
  moreover have "rt_system_heap_init b e ram s = Some ?s"
    using sz len by (simp add: rt_system_heap_init_def Let_def SIZEOF_STRUCT_MEM_def put_header_in)
  ultimately show ?thesis
    by (intro exI [of _ ?s]) simp
qed

section \<open>Any sequence of calls\<close>

text \<open>
  The ledger \<open>A\<close> of the callers: the addresses they hold, with the sizes they asked for. They
  release and resize only what they hold, and store only inside it. Sizes that the rounding
  to a multiple of 4 would wrap to 0 are left out here.
\<close>

inductive heap_reach :: "heap \<Rightarrow> (nat \<Rightarrow> nat option) \<Rightarrow> bool" where
  start: "rt_system_heap_init b e ram heap_reset = Some s \<Longrightarrow> align_up b + 36 \<le> align_down e \<Longrightarrow>
    length ram = align_down e - align_up b \<Longrightarrow> heap_reach s Map.empty"
| malloc: "heap_reach s A \<Longrightarrow> unat sz \<le> 4294967292 \<Longrightarrow> rt_malloc sz s = Some (a, s') \<Longrightarrow>
    heap_reach s' (if a = 0 then A else A(a \<mapsto> unat sz))"
| calloc: "heap_reach s A \<Longrightarrow> unat n * unat sz \<le> 4294967292 \<Longrightarrow> rt_calloc n sz s = Some (a, s') \<Longrightarrow>
    heap_reach s' (if a = 0 then A else A(a \<mapsto> unat n * unat sz))"
| free: "heap_reach s A \<Longrightarrow> a \<in> dom A \<or> a = 0 \<Longrightarrow> rt_free a s = Some s' \<Longrightarrow> heap_reach s' (A(a := None))"
| realloc: "heap_reach s A \<Longrightarrow> a \<in> dom A \<Longrightarrow> unat sz \<le> 4294967292 \<Longrightarrow> rt_realloc a sz s = Some (c, s') \<Longrightarrow>
    heap_reach s' (if c \<noteq> 0 then A(a := None, c \<mapsto> unat sz) else if sz = 0 then A(a := None) else A)"
| store: "heap_reach s A \<Longrightarrow> A a = Some k \<Longrightarrow> i + length xs \<le> k \<Longrightarrow> heap_reach (app_write (a + i) xs s) A"

definition ledger :: "heap \<Rightarrow> blocks \<Rightarrow> (nat \<Rightarrow> nat option) \<Rightarrow> bool" where
  "ledger s bs A \<longleftrightarrow> (\<forall>a k. A a = Some k \<longrightarrow> (\<exists>p n. a = heap_ptr s + p + 12 \<and> (p, n) \<in> live bs \<and> k \<le> n))
     \<and> (\<forall>p n. (p, n) \<in> live bs \<longrightarrow> heap_ptr s + p + 12 \<in> dom A)"

lemma ledgerD: "ledger s bs A \<Longrightarrow> A a = Some k \<Longrightarrow> \<exists>p n. a = heap_ptr s + p + 12 \<and> (p, n) \<in> live bs \<and> k \<le> n"
  by (simp add: ledger_def)

lemma ledger_dom: "ledger s bs A \<Longrightarrow> (p, n) \<in> live bs \<Longrightarrow> heap_ptr s + p + 12 \<in> dom A"
  unfolding ledger_def by blast

lemma ledger_add:
  assumes led: "ledger s bs A" and e: "effect s bs {} {(p, n)} s' bs'" and k: "k \<le> n"
  shows "ledger s' bs' (A(heap_ptr s + p + 12 \<mapsto> k))"
proof -
  have l: "live bs' = insert (p, n) (live bs)" "heap_ptr s' = heap_ptr s"
    using e by (auto simp: effect_def same_area_def)
  show ?thesis
    unfolding ledger_def l
  proof (intro conjI allI impI)
    fix a j assume a: "(A(heap_ptr s + p + 12 \<mapsto> k)) a = Some j"
    show "\<exists>q m. a = heap_ptr s + q + 12 \<and> (q, m) \<in> insert (p, n) (live bs) \<and> j \<le> m"
    proof (cases "a = heap_ptr s + p + 12")
      case True
      with a k show ?thesis by (intro exI [of _ p] exI [of _ n]) simp
    next
      case False
      with a ledgerD [OF led, of a j] show ?thesis by auto
    qed
  next
    fix q m assume "(q, m) \<in> insert (p, n) (live bs)"
    then show "heap_ptr s + q + 12 \<in> dom (A(heap_ptr s + p + 12 \<mapsto> k))"
      using ledger_dom [OF led, of q m] by auto
  qed
qed

lemma ledger_drop:
  assumes led: "ledger s bs A" and e: "effect s bs {(p, n)} {} s' bs'" and p: "(p, n) \<in> live bs"
  shows "ledger s' bs' (A(heap_ptr s + p + 12 := None))"
proof -
  have l: "live bs' = live bs - {(p, n)}" "heap_ptr s' = heap_ptr s"
    using e by (auto simp: effect_def same_area_def)
  have only: "(p, j) \<in> live bs \<longleftrightarrow> j = n" for j
    using p layout_unique [of p n True bs j True] by auto
  show ?thesis
    unfolding ledger_def l
  proof (intro conjI allI impI)
    fix a j assume a: "(A(heap_ptr s + p + 12 := None)) a = Some j"
    then have ne: "a \<noteq> heap_ptr s + p + 12" and "A a = Some j"
      by (auto split: if_splits)
    then obtain q m where "a = heap_ptr s + q + 12" "(q, m) \<in> live bs" "j \<le> m"
      using ledgerD [OF led] by blast
    with ne show "\<exists>q m. a = heap_ptr s + q + 12 \<and> (q, m) \<in> live bs - {(p, n)} \<and> j \<le> m"
      by (intro exI [of _ q] exI [of _ m]) auto
  next
    fix q m assume "(q, m) \<in> live bs - {(p, n)}"
    then show "heap_ptr s + q + 12 \<in> dom (A(heap_ptr s + p + 12 := None))"
      using ledger_dom [OF led, of q m] only by auto
  qed
qed

lemma ledger_same: "ledger s bs A \<Longrightarrow> heap_ptr s' = heap_ptr s \<Longrightarrow> ledger s' bs A"
  by (simp add: ledger_def)

lemma size_granted: "unat sz \<le> 4294967292 \<Longrightarrow> request sz \<le> n \<Longrightarrow> unat sz \<le> n"
  using align_up_ge [of sz] by (auto simp: request_def split: if_splits)


lemma write_effect:
  assumes inv: "heap_inv s bs" and p: "(p, n) \<in> live bs" and q: "p + 12 \<le> q" "q + length xs \<le> p + 12 + n"
  shows "heap_inv (s\<lparr>bytes := splice (bytes s) q xs\<rparr>) bs"
    and "(x, j, True) \<in> layout 0 bs \<Longrightarrow> x \<noteq> p \<Longrightarrow> content (s\<lparr>bytes := splice (bytes s) q xs\<rparr>) x j = content s x j"
proof -
  have c: "core s bs"
    using inv by (simp add: heap_inv_def)
  show "heap_inv (s\<lparr>bytes := splice (bytes s) q xs\<rparr>) bs"
    using p by (intro heap_inv_write [OF inv _ q]) simp
  assume x: "(x, j, True) \<in> layout 0 bs" "x \<noteq> p"
  obtain ws zs where "bs = ws @ (n, True) # zs" "p = span ws"
    using p by (auto simp: layout_split)
  then have "agree (bytes s) (splice (bytes s) q xs) (x + 12) (x + 12 + j)"
    using write_step(2) [of s ws n zs q xs x j] c q x by simp
  then show "content (s\<lparr>bytes := splice (bytes s) q xs\<rparr>) x j = content s x j"
    using block_bounds [OF c x(1)] by (intro content_agree) auto
qed

lemma calloc_effect:
  assumes inv: "heap_inv s bs" and fits: "unat (n * sz) \<le> 4294967292"
  shows "rt_calloc n sz s = Some (0, s)
    \<or> (\<exists>p k s' bs'. rt_calloc n sz s = Some (heap_ptr s + p + 12, s') \<and> effect s bs {} {(p, k)} s' bs'
      \<and> unat (n * sz) \<le> k \<and> content s' p (unat (n * sz)) = replicate (unat (n * sz)) 0)"
  using malloc_effect [OF inv, of "n * sz"]
proof (elim disjE exE conjE, goal_cases)
  case (4 p k s1 bs1)
  let ?z = "replicate (unat (n * sz)) (0 :: u8)"
  have k: "unat (n * sz) \<le> k"
    using size_granted [OF fits] 4 by simp
  have i: "heap_inv s1 bs1" "heap_ptr s1 = heap_ptr s" "(p, k) \<in> live bs1"
    using 4(3) by (auto simp: effect_def same_area_def)
  have c: "core s1 bs1"
    using i(1) by (simp add: heap_inv_def)
  note pb = block_bounds [OF c i(3) [unfolded live_iff]]
  let ?s2 = "s1\<lparr>bytes := splice (bytes s1) (p + 12) ?z\<rparr>"
  have w: "heap_inv ?s2 bs1" "(x, j, True) \<in> layout 0 bs1 \<Longrightarrow> x \<noteq> p \<Longrightarrow> content ?s2 x j = content s1 x j" for x j
    using write_effect [OF i(1,3), of "p + 12" ?z] k by auto
  have "content ?s2 x j = content s x j" if "(x, j) \<in> live bs" for x j
  proof -
    have "x \<noteq> p" "(x, j) \<in> live bs1"
      using that 4 by (auto simp: effect_def)
    then show ?thesis
      using w(2) [of x j] effect_content [OF 4(3), of x j] that by simp
  qed
  then have "effect s bs {} {(p, k)} ?s2 bs1"
    using w(1) 4(3) by (auto simp: effect_def same_area_def)
  moreover have "rt_calloc n sz s = Some (heap_ptr s + p + 12, ?s2)"
    using 4(1) i(2) pb k by (simp add: rt_calloc_def copy_bytes_eq)
  moreover have "content ?s2 p (unat (n * sz)) = ?z"
    using take_drop_splice [of "p + 12" ?z "bytes s1"] pb k by (simp add: content_def)
  ultimately show ?case
    using k by blast
qed (simp_all add: rt_calloc_def)

lemma unat_times_small: "unat n * unat sz \<le> 4294967292 \<Longrightarrow> unat (n * sz :: u32) = unat n * unat sz"
  by (simp add: unat_word_ariths)

lemma ledger_move:
  assumes led: "ledger s bs A" and e: "effect s bs {(p, k)} {(q, n)} s' bs'" and p: "(p, k) \<in> live bs" and m: "m \<le> n"
  shows "ledger s' bs' (A(heap_ptr s + p + 12 := None, heap_ptr s + q + 12 \<mapsto> m))"
proof -
  have l: "live bs' = insert (q, n) (live bs - {(p, k)})" "heap_ptr s' = heap_ptr s"
    using e by (auto simp: effect_def same_area_def)
  have only: "(p, j) \<in> live bs \<longleftrightarrow> j = k" for j
    using p layout_unique [of p k True bs j True] by auto
  show ?thesis
    unfolding ledger_def l
  proof (intro conjI allI impI)
    fix a j assume a: "(A(heap_ptr s + p + 12 := None, heap_ptr s + q + 12 \<mapsto> m)) a = Some j"
    show "\<exists>x i. a = heap_ptr s + x + 12 \<and> (x, i) \<in> insert (q, n) (live bs - {(p, k)}) \<and> j \<le> i"
    proof (cases "a = heap_ptr s + q + 12")
      case True
      with a m show ?thesis by (intro exI [of _ q] exI [of _ n]) simp
    next
      case False
      with a have ne: "a \<noteq> heap_ptr s + p + 12" and "A a = Some j"
        by (auto split: if_splits)
      then obtain x i where "a = heap_ptr s + x + 12" "(x, i) \<in> live bs" "j \<le> i"
        using ledgerD [OF led] by blast
      with ne show ?thesis by (intro exI [of _ x] exI [of _ i]) auto
    qed
  next
    fix x i assume "(x, i) \<in> insert (q, n) (live bs - {(p, k)})"
    then show "heap_ptr s + x + 12 \<in> dom (A(heap_ptr s + p + 12 := None, heap_ptr s + q + 12 \<mapsto> m))"
      using ledger_dom [OF led, of x i] only by auto
  qed
qed

lemma heap_reach_inv: "heap_reach s A \<Longrightarrow> \<exists>bs. heap_inv s bs \<and> ledger s bs A"
proof (induction rule: heap_reach.induct)
  case (start b e ram s)
  define sz where "sz = align_down e - align_up b - 24"
  then have sz: "align_down e = align_up b + sz + 24" "12 \<le> sz" "length ram = sz + 24"
    using start by simp_all
  from init_step [OF sz, of heap_reset] start(1) show ?case
    by (auto simp: heap_reset_def ledger_def live_def)
next
  case (malloc s A sz a s')
  then obtain bs where i: "heap_inv s bs" "ledger s bs A" by blast
  from malloc_effect [OF i(1), of sz] show ?case
  proof (elim disjE exE conjE, goal_cases)
    case (4 p n s1 bs1)
    have "ledger s1 bs1 (A(heap_ptr s + p + 12 \<mapsto> unat sz))"
      by (rule ledger_add [OF i(2) 4(3) size_granted [OF malloc.hyps(2) 4(4)]])
    moreover have "a = heap_ptr s + p + 12" "s' = s1"
      using 4(1) malloc.hyps(3) by simp_all
    ultimately show ?case
      using 4(3) by (intro exI [of _ bs1]) (simp add: effect_def fun_upd_def)
  qed (use i malloc.hyps(3) in auto)
next
  case (calloc s A n sz a s')
  then obtain bs where i: "heap_inv s bs" "ledger s bs A" by blast
  have u: "unat (n * sz) = unat n * unat sz"
    by (rule unat_times_small [OF calloc.hyps(2)])
  have "unat (n * sz) \<le> 4294967292"
    using u calloc.hyps(2) by simp
  from calloc_effect [OF i(1) this, unfolded u] show ?case
  proof (elim disjE exE conjE, goal_cases)
    case (2 p k s1 bs1)
    have "ledger s1 bs1 (A(heap_ptr s + p + 12 \<mapsto> unat n * unat sz))"
      by (rule ledger_add [OF i(2) 2(2,3)])
    moreover have "a = heap_ptr s + p + 12" "s' = s1"
      using 2(1) calloc.hyps(3) by simp_all
    ultimately show ?case
      using 2(2) by (intro exI [of _ bs1]) (simp add: effect_def fun_upd_def)
  qed (use i calloc.hyps(3) in auto)
next
  case (free s A a s')
  then obtain bs where i: "heap_inv s bs" "ledger s bs A" by blast
  show ?case
  proof (cases "a = 0")
    case True
    then have "A a = None"
      using i(2) ledgerD [OF i(2), of a] by (cases "A a") auto
    with True i free.hyps show ?thesis
      by (auto simp: rt_free_def fun_upd_idem)
  next
    case False
    then obtain k where "A a = Some k"
      using free.hyps(2) by blast
    then obtain p n where p: "a = heap_ptr s + p + 12" "(p, n) \<in> live bs"
      using ledgerD [OF i(2)] by blast
    obtain s1 bs1 where f: "rt_free a s = Some s1" "effect s bs {(p, n)} {} s1 bs1"
      using free_effect [OF i(1) p(2)] p(1) by blast
    have "s' = s1"
      using f(1) free.hyps(3) by simp
    with ledger_drop [OF i(2) f(2) p(2)] effect_inv [OF f(2)] p(1) show ?thesis
      by blast
  qed
next
  case (realloc s A a sz c s')
  then obtain bs where i: "heap_inv s bs" "ledger s bs A" by blast
  moreover obtain l where "A a = Some l"
    using realloc.hyps(2) by blast
  ultimately obtain p k where p: "a = heap_ptr s + p + 12" "(p, k) \<in> live bs"
    using ledgerD by blast
  have z: "align_up sz = 0 \<longleftrightarrow> sz = 0" and ge: "unat sz \<le> align_up sz"
    using align_up_ge [of sz] realloc.hyps(3) by (auto simp: align_up_eq unat_eq_0)
  obtain c' s1 bs1 where r: "rt_realloc a sz s = Some (c', s1)" and
    R: "if align_up sz = 0 then c' = 0 \<and> effect s bs {(p, k)} {} s1 bs1
     else if c' = 0 then s1 = s \<and> bs1 = bs
     else \<exists>q n. c' = heap_ptr s + q + 12 \<and> effect s bs {(p, k)} {(q, n)} s1 bs1 \<and> align_up sz \<le> n
       \<and> content s1 q (min k (align_up sz)) = content s p (min k (align_up sz))"
    using realloc_effect [OF i(1) p(2), of sz] p(1) by blast
  have eq: "c' = c" "s1 = s'"
    using r realloc.hyps(4) by simp_all
  consider "sz = 0" | "sz \<noteq> 0" "c = 0" | "sz \<noteq> 0" "c \<noteq> 0" by blast
  then show ?case
  proof cases
    case 1
    then have c: "c = 0" "effect s bs {(p, k)} {} s' bs1"
      using R z eq by simp_all
    with 1 ledger_drop [OF i(2) c(2) p(2)] effect_inv [OF c(2)] p(1) show ?thesis
      by (intro exI [of _ bs1]) (simp add: fun_upd_def)
  next
    case 2
    with R z eq i show ?thesis by auto
  next
    case 3
    then obtain q n where q: "c = heap_ptr s + q + 12" "effect s bs {(p, k)} {(q, n)} s' bs1" "align_up sz \<le> n"
      using R z eq by auto
    have "ledger s' bs1 (A(a := None, c \<mapsto> unat sz))"
      using ledger_move [OF i(2) q(2) p(2), of "unat sz"] ge q(1,3) p(1) by simp
    with 3 effect_inv [OF q(2)] show ?thesis
      by (intro exI [of _ bs1]) (simp add: fun_upd_def)
  qed
next
  case (store s A a k j xs)
  then obtain bs where i: "heap_inv s bs" "ledger s bs A" by blast
  then obtain p n where p: "a = heap_ptr s + p + 12" "(p, n) \<in> live bs" "k \<le> n"
    using store.hyps(2) ledgerD [OF i(2)] by blast
  have "app_write (a + j) xs s = s\<lparr>bytes := splice (bytes s) (p + 12 + j) xs\<rparr>"
    using p(1) by (simp add: app_write_def ac_simps)
  moreover have "heap_inv (s\<lparr>bytes := splice (bytes s) (p + 12 + j) xs\<rparr>) bs"
    using p store.hyps(3) by (intro write_effect(1) [OF i(1) p(2)]) auto
  moreover have "ledger (s\<lparr>bytes := splice (bytes s) (p + 12 + j) xs\<rparr>) bs A"
    by (rule ledger_same [OF i(2)]) simp
  ultimately show ?case by auto
qed

section \<open>Properties\<close>

text \<open>
  C7. In every state that any sequence of legal calls and stores can reach from a heap of at
  least 36 bytes, every next call returns: no assertion of the allocator fails, no loop runs
  for ever, no access leaves the heap, whatever the application has written into its blocks.
  The blocks the callers hold are aligned, lie inside the heap and do not overlap.
\<close>

theorem heap_calls_return:
  assumes "heap_reach s A"
  shows "rt_malloc sz s \<noteq> None \<and> (unat n * unat sz \<le> 4294967292 \<longrightarrow> rt_calloc n sz s \<noteq> None)
    \<and> (a \<in> dom A \<or> a = 0 \<longrightarrow> rt_free a s \<noteq> None) \<and> (a \<in> dom A \<longrightarrow> rt_realloc a sz s \<noteq> None)
    \<and> (A a = Some k \<longrightarrow> 4 dvd a \<and> heap_ptr s + 12 \<le> a \<and> a + k \<le> heap_ptr s + heap_end s)
    \<and> (A a = Some k \<and> A b = Some l \<and> a \<noteq> b \<longrightarrow> a + k \<le> b \<or> b + l \<le> a)"
proof -
  obtain bs where inv: "heap_inv s bs" and led: "ledger s bs A"
    using heap_reach_inv [OF assms] by blast
  have c: "core s bs"
    using inv by (simp add: heap_inv_def)
  have "rt_free a s \<noteq> None" "rt_realloc a sz s \<noteq> None" if dom: "a \<in> dom A" for a
  proof -
    obtain k where "A a = Some k"
      using dom by blast
    then obtain p n where p: "a = heap_ptr s + p + 12" "(p, n) \<in> live bs"
      using ledgerD [OF led] by blast
    show "rt_free a s \<noteq> None"
      using free_effect [OF inv p(2)] p(1) by auto
    show "rt_realloc a sz s \<noteq> None"
      using realloc_effect [OF inv p(2), of sz] p(1) by auto
  qed
  moreover have "rt_malloc sz s \<noteq> None"
    using malloc_effect [OF inv, of sz] by auto
  moreover have "rt_calloc n sz s \<noteq> None" if "unat n * unat sz \<le> 4294967292"
    using calloc_effect [OF inv, of n sz] unat_times_small [OF that] that by auto
  moreover have "4 dvd a \<and> heap_ptr s + 12 \<le> a \<and> a + k \<le> heap_ptr s + heap_end s" if ak: "A a = Some k"
  proof -
    obtain p n where "a = heap_ptr s + p + 12" "(p, n) \<in> live bs" "k \<le> n"
      using ledgerD [OF led ak] by blast
    with block_bounds [OF c, of p n True] show ?thesis
      by auto
  qed
  moreover have "a + k \<le> b \<or> b + l \<le> a" if ab: "A a = Some k" "A b = Some l" "a \<noteq> b"
  proof -
    obtain p n where p: "a = heap_ptr s + p + 12" "(p, n) \<in> live bs" "k \<le> n"
      using ledgerD [OF led ab(1)] by blast
    obtain q m where q: "b = heap_ptr s + q + 12" "(q, m) \<in> live bs" "l \<le> m"
      using ledgerD [OF led ab(2)] by blast
    obtain ws zs where "bs = ws @ (n, True) # zs" "p = span ws"
      using p(2) by (auto simp: layout_split)
    then have "q + 12 + m \<le> p \<or> p + 12 + n \<le> q"
      using q(2) p(1) q(1) ab(3) by (auto simp: layout_middle dest!: layout_bounds)
    with p q show ?thesis by auto
  qed
  ultimately show ?thesis
    by (auto simp: rt_free_def)
qed


lemma heap_demo:
  "\<exists>s. heap_reach s Map.empty \<and> heap_inv s [(232, False)] \<and> lowest s [(232, False)]
    \<and> heap_ptr s = 0x20000000 \<and> mem_size_aligned s = 232"
proof -
  have a: "align_up 0x20000000 = 0x20000000" "align_down 0x20000100 = 0x20000100"
    by (simp_all add: align_up_eq align_down_eq)
  have "\<exists>s. rt_system_heap_init 0x20000000 0x20000100 (replicate 256 0) heap_reset = Some s \<and> heap_inv s [(232, False)]
    \<and> lowest s [(232, False)] \<and> heap_ptr s = align_up 0x20000000 \<and> mem_size_aligned s = 232"
    by (rule init_step) (simp_all add: a heap_reset_def)
  then obtain s where s: "rt_system_heap_init 0x20000000 0x20000100 (replicate 256 0) heap_reset = Some s"
    "heap_inv s [(232, False)]" "lowest s [(232, False)]" "heap_ptr s = align_up 0x20000000" "mem_size_aligned s = 232"
    by blast
  from heap_reach.start [OF s(1)] have "heap_reach s Map.empty"
    by (simp add: a)
  with s a show ?thesis by auto
qed

theorem heap_calls_return_witness:
  "\<exists>s. heap_reach s Map.empty \<and> rt_malloc 20 s \<noteq> None \<and> rt_free 0 s \<noteq> None \<and> rt_calloc 3 20 s \<noteq> None"
proof -
  obtain s where "heap_reach s Map.empty"
    using heap_demo by blast
  with heap_calls_return [OF this, of 20 3 0 0 0 0] show ?thesis by auto
qed

text \<open>
  C16. \<open>rt_malloc\<close> returns a block at least as large as asked for that nobody holds, and the
  contents of all blocks in use stay as they are; or it returns \<open>RT_NULL\<close>, changes nothing,
  and then the size was 0 or larger than the heap, or every free block at or above \<open>lfree\<close>
  is too small or starts at the last place where the size could just fit.
\<close>

theorem malloc_fresh:
  assumes "heap_inv s bs" "unat sz \<le> 4294967292"
  shows "\<exists>a s'. rt_malloc sz s = Some (a, s') \<and>
    (if a = 0 then s' = s \<and> (sz = 0 \<or> mem_size_aligned s < align_up sz \<or> no_fit s bs (request sz))
     else \<exists>p n bs'. a = heap_ptr s + p + 12 \<and> unat sz \<le> n \<and> heap_inv s' bs'
       \<and> live bs' = insert (p, n) (live bs) \<and> (\<forall>j. (p, j) \<notin> live bs)
       \<and> (\<forall>q m. (q, m) \<in> live bs \<longrightarrow> content s' q m = content s q m))"
  using malloc_effect [OF assms(1), of sz]
proof (elim disjE exE conjE, goal_cases)
  case (4 p n s' bs')
  have "unat sz \<le> n"
    by (rule size_granted [OF assms(2) 4(4)])
  moreover have "\<forall>q m. (q, m) \<in> live bs \<longrightarrow> content s' q m = content s q m"
    using effect_content [OF 4(3)] by simp
  moreover have "live bs' = insert (p, n) (live bs)"
    using 4(3) by (simp add: effect_def)
  ultimately show ?case
    using 4 effect_inv [OF 4(3)] by auto
qed simp_all

theorem malloc_fresh_witness:
  "\<exists>s a s'. heap_inv s [(232, False)] \<and> rt_malloc 20 s = Some (a, s') \<and>
    (if a = 0 then s' = s \<and> ((20 :: u32) = 0 \<or> mem_size_aligned s < align_up 20 \<or> no_fit s [(232, False)] (request 20))
     else \<exists>p n bs'. a = heap_ptr s + p + 12 \<and> unat (20 :: u32) \<le> n \<and> heap_inv s' bs'
       \<and> live bs' = insert (p, n) (live [(232, False)]) \<and> (\<forall>j. (p, j) \<notin> live [(232, False)])
       \<and> (\<forall>q m. (q, m) \<in> live [(232, False)] \<longrightarrow> content s' q m = content s q m))"
proof -
  obtain s where "heap_inv s [(232, False)]"
    using heap_demo by blast
  with malloc_fresh [OF this, of 20] show ?thesis
    by (intro exI [of _ s]) simp
qed


text \<open>
  C29. Round trip: releasing what \<open>rt_malloc\<close> has just returned restores the list of blocks
  exactly: the block is merged with its free neighbours, and nothing is fragmented or lost.
\<close>

theorem malloc_free_restores:
  assumes "heap_inv s bs" "rt_malloc sz s = Some (a, s1)" "a \<noteq> 0"
  shows "\<exists>s2. rt_free a s1 = Some s2 \<and> heap_inv s2 bs \<and> used_mem s2 = used_mem s
    \<and> (\<forall>q m. (q, m) \<in> live bs \<longrightarrow> content s2 q m = content s q m)"
proof -
  obtain p n bs1 where m: "a = heap_ptr s + p + 12" "effect s bs {} {(p, n)} s1 bs1" "\<forall>j. (p, j) \<notin> live bs"
    "taken bs p n bs1"
    using malloc_effect [OF assms(1), of sz] assms(2,3) by auto
  obtain ws k zs rest where w: "bs = ws @ (k, False) # zs" "p = span ws" "bs1 = ws @ (n, True) # rest"
    "rest = zs \<and> n = k \<or> n + 24 \<le> k \<and> rest = (k - 12 - n, False) # zs"
    using m(4) unfolding taken_def by blast
  have nh: "no_holes bs"
    using assms(1) by (simp add: heap_inv_def)
  then have "absorb n rest = (k, False) # zs"
    using w(4) by (cases "(n, rest)" rule: absorb.cases) (auto simp: w(1) no_holes_append)
  moreover have "join_last ws ((k, False) # zs) = bs"
    using nh by (auto simp: join_last_def w(1) no_holes_append)
  ultimately have eq: "join_last ws (absorb n rest) = bs"
    by simp
  have i1: "heap_inv s1 (ws @ (n, True) # rest)" and hp: "heap_ptr s1 = heap_ptr s"
    using m(2) w(3) by (auto simp: effect_def same_area_def)
  obtain s2 where s2: "rt_free (heap_ptr s1 + span ws + 12) s1 = Some s2" "heap_inv s2 bs"
    "keeps (bytes s1) (bytes s2) bs"
    using free_step [OF i1] eq by auto
  have "content s2 q j = content s q j" if q: "(q, j) \<in> live bs" for q j
  proof -
    have "(q, j, True) \<in> layout 0 bs1"
      using m(2) q by (auto simp: effect_def simp flip: live_iff)
    then have "content s2 q j = content s1 q j"
      using s2(3) q i1 w(3) by (intro keeps_content [of s1 bs1 s2 bs]) (auto simp: heap_inv_def)
    then show ?thesis
      using effect_content [OF m(2), of q j] q by simp
  qed
  moreover have "used_mem s2 = used_mem s"
    using s2(2) assms(1) by (simp add: heap_inv_def)
  ultimately show ?thesis
    using s2 m(1) w(2) hp by auto
qed

theorem malloc_free_restores_witness:
  "\<exists>s a s1 s2. rt_malloc 20 s = Some (a, s1) \<and> a \<noteq> 0 \<and> rt_free a s1 = Some s2 \<and> heap_inv s2 [(232, False)]"
proof -
  obtain s where s: "heap_inv s [(232, False)]" "lowest s [(232, False)]" "mem_size_aligned s = 232"
    using heap_demo by blast
  have "lfree s = 0"
    using s(2) by (auto simp: lowest_def)
  moreover have "request 20 = 20" "align_up 20 = 20"
    by (simp_all add: request_def align_up_eq)
  ultimately obtain a s1 where "rt_malloc 20 s = Some (a, s1)" "a \<noteq> 0"
    using malloc_effect [OF s(1), of 20] s(3) by (auto simp: no_fit_def)
  with malloc_free_restores [OF s(1) this] show ?thesis by blast
qed

text \<open>
  C30. \<open>rt_realloc\<close> of a block keeps the data: as much of it as both the old block and the
  new size hold is at the address it returns, and the contents of all other blocks stay as
  they are; when it returns \<open>RT_NULL\<close> for a size other than 0, nothing has changed.
\<close>

theorem realloc_keeps_data:
  assumes "heap_inv s bs" "(p, k) \<in> live bs"
  shows "\<exists>a s' bs'. rt_realloc (heap_ptr s + p + 12) sz s = Some (a, s') \<and> heap_inv s' bs' \<and>
    (if align_up sz = 0 then a = 0 \<and> live bs' = live bs - {(p, k)}
     else if a = 0 then s' = s
     else \<exists>q n. a = heap_ptr s + q + 12 \<and> align_up sz \<le> n \<and> live bs' = insert (q, n) (live bs - {(p, k)})
       \<and> content s' q (min k (align_up sz)) = content s p (min k (align_up sz))
       \<and> (\<forall>x j. (x, j) \<in> live bs - {(p, k)} \<longrightarrow> content s' x j = content s x j))"
proof -
  obtain a s' bs' where r: "rt_realloc (heap_ptr s + p + 12) sz s = Some (a, s')" and
    R: "if align_up sz = 0 then a = 0 \<and> effect s bs {(p, k)} {} s' bs'
     else if a = 0 then s' = s \<and> bs' = bs
     else \<exists>q n. a = heap_ptr s + q + 12 \<and> effect s bs {(p, k)} {(q, n)} s' bs' \<and> align_up sz \<le> n
       \<and> content s' q (min k (align_up sz)) = content s p (min k (align_up sz))"
    using realloc_effect [OF assms, of sz] by blast
  consider "align_up sz = 0" | "align_up sz \<noteq> 0" "a = 0" | "align_up sz \<noteq> 0" "a \<noteq> 0" by blast
  then show ?thesis
  proof cases
    case 1
    with R r show ?thesis by (auto simp: effect_def)
  next
    case 2
    with R r assms(1) show ?thesis by auto
  next
    case 3
    then obtain q n where q: "a = heap_ptr s + q + 12" "effect s bs {(p, k)} {(q, n)} s' bs'" "align_up sz \<le> n"
      "content s' q (min k (align_up sz)) = content s p (min k (align_up sz))"
      using R by auto
    have "live bs' = insert (q, n) (live bs - {(p, k)})"
      using q(2) by (simp add: effect_def)
    moreover have "\<forall>x j. (x, j) \<in> live bs - {(p, k)} \<longrightarrow> content s' x j = content s x j"
      using effect_content [OF q(2)] by simp
    ultimately show ?thesis
      using 3 r q effect_inv [OF q(2)] by (intro exI [of _ a] exI [of _ s'] exI [of _ bs']) auto
  qed
qed


theorem realloc_keeps_data_witness:
  "\<exists>s bs p k a s' bs'. heap_inv s bs \<and> (p, k) \<in> live bs \<and> rt_realloc (heap_ptr s + p + 12) 40 s = Some (a, s')
    \<and> heap_inv s' bs' \<and> (a = 0 \<longrightarrow> s' = s)"
proof -
  obtain s where s: "heap_inv s [(232, False)]" "lowest s [(232, False)]" "mem_size_aligned s = 232"
    using heap_demo by blast
  have "lfree s = 0"
    using s(2) by (auto simp: lowest_def)
  moreover have "request 20 = 20" "align_up 20 = 20"
    by (simp_all add: request_def align_up_eq)
  ultimately obtain p n s1 bs1 where "effect s [(232, False)] {} {(p, n)} s1 bs1"
    using malloc_effect [OF s(1), of 20] s(3) by (auto simp: no_fit_def)
  then have i: "heap_inv s1 bs1" "(p, n) \<in> live bs1"
    by (auto simp: effect_def)
  have "align_up 40 \<noteq> 0"
    by (simp add: align_up_eq)
  then obtain a s' bs' where "rt_realloc (heap_ptr s1 + p + 12) 40 s1 = Some (a, s')" "heap_inv s' bs'"
    "a = 0 \<longrightarrow> s' = s1"
    using realloc_keeps_data [OF i, of 40] by (auto split: if_splits)
  with i show ?thesis by blast
qed

section \<open>Two defects\<close>

text \<open>Nothing to merge with on either side.\<close>

lemma plug_holes_id:
  assumes c: "core s (xs @ (n, True) # (m, False) # ys)" and ys: "ys = [] \<or> snd (hd ys)"
  shows "plug_holes (span xs + 12 + n) s = Some s"
proof -
  let ?p = "span xs + 12 + n"
  have c1: "core s ((xs @ [(n, True)]) @ (m, False) # ys)"
    using c by simp
  obtain h where h: "hdr s ?p = Some h" "used h = 0" "unat (next h) = ?p + 12 + m" "unat (prev h) = span xs"
    using hdr_at [OF c1] by (auto simp: ac_simps)
  obtain pr where pr: "hdr s (span xs) = Some pr" "used pr \<noteq> 0"
    using hdr_at [OF c] by auto
  have e: "?p + 12 + m + span ys = heap_end s"
    using c by (auto simp: core_def tail_def)
  have "\<exists>g. hdr s (?p + 12 + m) = Some g \<and> (used g \<noteq> 0)"
  proof (cases ys)
    case Nil
    with hdr_end [OF c] e show ?thesis by auto
  next
    case (Cons b zs)
    then obtain j where "ys = (j, True) # zs"
      using ys by (cases b) auto
    with c have "core s ((xs @ [(n, True), (m, False)]) @ (j, True) # zs)"
      by simp
    from hdr_at [OF this] show ?thesis by (auto simp: ac_simps)
  qed
  then show ?thesis
    using h pr e by (auto simp: plug_holes_def plug_forward_def plug_backward_def)
qed

text \<open>
  A defect of \<open>rt_realloc\<close>: in a full heap a block is made smaller. The rest of it becomes
  a free block, but \<open>lfree\<close> is not moved down to it, and every following \<open>rt_malloc\<close> returns
  \<open>RT_NULL\<close>, however much has been given back.
\<close>

theorem realloc_hides_memory:
  assumes "heap_inv s (xs @ (k, True) # ys)" "\<forall>b \<in> set xs \<union> set ys. snd b"
    and "0 < align_up sz" "align_up sz + 24 < k"
  shows "\<exists>s'. rt_realloc (heap_ptr s + span xs + 12) sz s = Some (heap_ptr s + span xs + 12, s')
    \<and> heap_inv s' (xs @ (align_up sz, True) # (k - 12 - align_up sz, False) # ys)
    \<and> (\<forall>m. rt_malloc m s' = Some (0, s'))"
proof -
  let ?n = "align_up sz" and ?bs = "xs @ (k, True) # ys" and ?p = "span xs"
  let ?bs' = "xs @ (?n, True) # (k - 12 - ?n, False) # ys"
  let ?s = "s\<lparr>heap_sem := 0, used_mem := used_mem s - of_nat (k - ?n)\<rparr>"
  have c: "core s ?bs" and lf: "lfree_ok s ?bs" and sem: "heap_sem s = 1"
    using assms(1) by (simp_all add: heap_inv_def)
  have ys: "ys = [] \<or> snd (hd ys)"
    using assms(2) by (cases ys) auto
  have "(x, j, False) \<notin> layout 0 ?bs" for x j
    using assms(2) by (auto simp: layout_split)
  then have full: "lfree s = heap_end s"
    using lf by (auto simp: lfree_ok_def)
  obtain m s' bs' where m: "split_block ?n ?p (\<lambda>h. h) ?s = Some (?s\<lparr>bytes := m\<rparr>)"
    "plug_holes (?p + 12 + ?n) (?s\<lparr>bytes := m\<rparr>) = Some s'" "heap_inv (sem_release s') bs'"
    "bs' = xs @ (?n, True) # absorb (k - 12 - ?n) ys"
    using shrink_step [OF assms(1,4,3) align_up_dvd] by blast
  have bs': "bs' = ?bs'"
    using m(4) ys by (cases "(k - 12 - ?n, ys)" rule: absorb.cases) auto
  have h: "\<exists>h. hdr s ?p = Some h \<and> unat (next h) = ?p + 12 + k"
    using hdr_at [OF c] by auto
  then obtain h where h: "hdr ?s ?p = Some h" "unat (next h) = ?p + 12 + k"
    by (auto simp: hdr_def)
  have le: "?p + 12 + k \<le> heap_end s" "heap_end s < 4294967296" "heap_end s = mem_size_aligned s + 12"
    using c by (auto simp: core_def tail_append tail_Cons dest: tail_le)
  have h0: "hdr (s\<lparr>heap_sem := 0\<rparr>) ?p = Some h"
    using h(1) by (simp add: hdr_def)
  have sz: "sub32 (sub32 (unat (next h)) ?p) 12 = k"
    using le h(2) by (simp add: sub32_le)
  have "rt_realloc (heap_ptr s + ?p + 12) sz s = Some (heap_ptr s + ?p + 12, sem_release s')"
    using assms(3,4) le sem h0 sz m(1,2)
    by (simp add: rt_realloc_def Let_def sem_take_def header_at_def SIZEOF_STRUCT_MEM_def MIN_SIZE_def)
  moreover have "rt_malloc j (sem_release s') = Some (0, sem_release s')" for j
  proof -
    have "core (?s\<lparr>bytes := m\<rparr>) ?bs'"
    proof -
      have c0: "core ?s ?bs"
        using c by (auto simp: core_def)
      have "used h \<noteq> 0"
        using hdr_at [OF c0] h(1) by auto
      then show ?thesis
        using split_step [OF c0 _ align_up_dvd assms(3) h(1), of "\<lambda>h. h" True] assms(4) m(1) by auto
    qed
    then have "s' = ?s\<lparr>bytes := m\<rparr>"
      using plug_holes_id [OF _ ys] m(2) by simp
    then have "lfree (sem_release s') = heap_end (sem_release s')"
      using full by (simp add: sem_release_def)
    moreover have "x + 12 + i \<le> heap_end (sem_release s')" if "taken bs' x i zs" for x i zs
      using that m(3) block_bounds [of "sem_release s'" bs' x _ False]
      by (force simp: taken_def heap_inv_def layout_middle)
    ultimately show ?thesis
      using malloc_effect [OF m(3), of j] by fastforce
  qed
  ultimately show ?thesis
    using m(3) bs' by auto
qed


text \<open>A heap with one block in use and nothing else.\<close>

lemma full_demo: "\<exists>s. heap_inv s [(232, True)]"
proof -
  obtain s where s: "heap_inv s [(232, False)]" "lowest s [(232, False)]" "mem_size_aligned s = 232"
    using heap_demo by blast
  have "lfree s = 0"
    using s(2) by (auto simp: lowest_def)
  moreover have "request 228 = 228" "align_up 228 = 228"
    by (simp_all add: request_def align_up_eq)
  ultimately obtain p n s1 bs1 where m: "effect s [(232, False)] {} {(p, n)} s1 bs1" "228 \<le> n"
    "taken [(232, False)] p n bs1"
    using malloc_effect [OF s(1), of 228] s(3) by (auto simp: no_fit_def)
  have "bs1 = [(232, True)]"
    using m(2,3) by (auto simp: taken_def Cons_eq_append_conv)
  with effect_inv [OF m(1)] show ?thesis by auto
qed

theorem realloc_hides_memory_witness:
  "\<exists>s s'. rt_realloc (heap_ptr s + 12) 20 s = Some (heap_ptr s + 12, s')
    \<and> heap_inv s' [(20, True), (200, False)] \<and> (\<forall>m. rt_malloc m s' = Some (0, s'))"
proof -
  obtain s where "heap_inv s ([] @ (232, True) # [])"
    using full_demo by auto
  from realloc_hides_memory [OF this, of 20] show ?thesis
    by (auto simp: align_up_eq)
qed

text \<open>
  A defect of \<open>rt_malloc\<close>: a size above \<open>0xFFFFFFFC\<close> is rounded up to 0, which passes
  the check against the size of the heap, and the caller gets a block of at most 35 bytes.
\<close>

theorem malloc_size_wraps:
  assumes "heap_inv s bs" "4294967292 < unat sz" "\<not> no_fit s bs 12"
  shows "\<exists>p n s' bs'. rt_malloc sz s = Some (heap_ptr s + p + 12, s') \<and> heap_inv s' bs'
    \<and> live bs' = insert (p, n) (live bs) \<and> n < 36"
proof -
  have "unat sz \<in> {4294967293, 4294967294, 4294967295}"
    using assms(2) unat_u32 [of sz] by auto
  then have "align_up sz = 0"
    by (auto simp: align_up_eq unat_word_ariths)
  then have "request sz = 12"
    by (simp add: request_def)
  moreover have "sz \<noteq> 0"
    using assms(2) by auto
  ultimately show ?thesis
    using malloc_effect [OF assms(1), of sz] \<open>align_up sz = 0\<close> assms(3)
    by (auto simp: effect_def)
qed

theorem malloc_size_wraps_witness:
  "\<exists>s p n s' bs'. rt_malloc 0xFFFFFFFE s = Some (heap_ptr s + p + 12, s') \<and> heap_inv s' bs'
    \<and> live bs' = insert (p, n) (live [(232, False)]) \<and> n < 36"
proof -
  obtain s where s: "heap_inv s [(232, False)]" "lowest s [(232, False)]" "mem_size_aligned s = 232"
    using heap_demo by blast
  then have "\<not> no_fit s [(232, False)] 12"
    by (auto simp: lowest_def no_fit_def)
  with malloc_size_wraps [OF s(1), of "0xFFFFFFFE"] show ?thesis
    by (intro exI [of _ s]) simp
qed

end
