(* ===== verification/Kernel_Timer.thy ===== *)
theory Kernel_Timer
  imports Prelude
begin

text \<open>
  \<^verbatim>\<open>src/timer.c\<close> and \<^verbatim>\<open>src/clock.c\<close>: the timers of the kernel and the tick.

  A timer is named by a number; \<open>timer_of\<close> gives its \<open>struct rt_timer\<close>. The lists
  \<open>rt_timer_list\<close> and \<open>rt_soft_timer_list\<close> have one level (\<open>RT_TIMER_SKIP_LIST_LEVEL\<close> is 1) and
  are modelled by the sequence of the timers in them; a timer in no list is linked to itself.
  The timeout functions are a parameter \<open>call\<close>: they may do anything to the state, \<open>world\<close>
  being what they act on besides the timers. The object bookkeeping and the hooks are not
  modelled. Ticks are 32-bit and wrap.
\<close>

section \<open>State\<close>

record rt_timer =
  flag :: u8
  init_tick :: u32
  timeout_tick :: u32

record 'w timers =
  timer_of :: "nat \<Rightarrow> rt_timer"
  rt_timer_list :: "nat list"
  rt_soft_timer_list :: "nat list"
  rt_tick :: u32
  timer_thread_ready :: bool
  thread_init_tick :: u32
  remaining_tick :: u32
  yields_done :: nat
  random_nr :: u32
  world :: 'w

type_synonym 'w timeout_func = "nat \<Rightarrow> 'w timers \<Rightarrow> 'w timers option"

definition RT_TICK_MAX :: u32 where "RT_TICK_MAX = 0xFFFFFFFF"
definition RT_TIMER_FLAG_ACTIVATED :: u8 where "RT_TIMER_FLAG_ACTIVATED = 1"
definition RT_TIMER_FLAG_PERIODIC :: u8 where "RT_TIMER_FLAG_PERIODIC = 2"
definition RT_TIMER_FLAG_SOFT_TIMER :: u8 where "RT_TIMER_FLAG_SOFT_TIMER = 4"

datatype rt_err = RT_EOK | RT_ERROR | RT_ETIMEOUT | RT_EFULL | RT_EEMPTY

definition has :: "u8 \<Rightarrow> nat \<Rightarrow> 'w timers \<Rightarrow> bool" where
  "has fl t s \<longleftrightarrow> flag (timer_of s t) AND fl \<noteq> 0"

definition change :: "nat \<Rightarrow> (rt_timer \<Rightarrow> rt_timer) \<Rightarrow> 'w timers \<Rightarrow> 'w timers" where
  "change t f s = s\<lparr>timer_of := (timer_of s)(t := f (timer_of s t))\<rparr>"

definition set_active :: "nat \<Rightarrow> 'w timers \<Rightarrow> 'w timers" where
  "set_active t = change t (\<lambda>x. x\<lparr>flag := flag x OR RT_TIMER_FLAG_ACTIVATED\<rparr>)"

definition clear_active :: "nat \<Rightarrow> 'w timers \<Rightarrow> 'w timers" where
  "clear_active t = change t (\<lambda>x. x\<lparr>flag := flag x AND NOT RT_TIMER_FLAG_ACTIVATED\<rparr>)"

section \<open>Setting up and removing\<close>

definition rt_timer_init :: "nat \<Rightarrow> u32 \<Rightarrow> u8 \<Rightarrow> 'w timers \<Rightarrow> 'w timers" where
  "rt_timer_init t time fl s = s\<lparr>timer_of := (timer_of s)(t :=
     \<lparr>flag = fl AND NOT RT_TIMER_FLAG_ACTIVATED, init_tick = time, timeout_tick = 0\<rparr>)\<rparr>"

definition rt_timer_remove :: "nat \<Rightarrow> 'w timers \<Rightarrow> 'w timers" where
  "rt_timer_remove t s = s\<lparr>rt_timer_list := removeAll t (rt_timer_list s),
     rt_soft_timer_list := removeAll t (rt_soft_timer_list s)\<rparr>"

definition rt_timer_list_next_timeout :: "nat list \<Rightarrow> 'w timers \<Rightarrow> u32" where
  "rt_timer_list_next_timeout ts s = (case ts of [] \<Rightarrow> RT_TICK_MAX | t # _ \<Rightarrow> timeout_tick (timer_of s t))"

definition rt_timer_next_timeout_tick :: "'w timers \<Rightarrow> u32" where
  "rt_timer_next_timeout_tick s = rt_timer_list_next_timeout (rt_timer_list s) s"

definition rt_system_timer_init :: "'w timers \<Rightarrow> 'w timers" where
  "rt_system_timer_init s = s\<lparr>rt_timer_list := []\<rparr>"

definition rt_timer_detach :: "nat \<Rightarrow> 'w timers \<Rightarrow> rt_err \<times> 'w timers" where
  "rt_timer_detach t s = (RT_EOK, rt_timer_remove t s)"

text \<open>\<open>alloc\<close> is what \<open>rt_object_allocate\<close> returns: a timer, or nothing when there is no memory.\<close>

definition rt_timer_create :: "nat option \<Rightarrow> u32 \<Rightarrow> u8 \<Rightarrow> 'w timers \<Rightarrow> nat option \<times> 'w timers" where
  "rt_timer_create alloc time fl s =
     (case alloc of None \<Rightarrow> (None, s) | Some t \<Rightarrow> (Some t, rt_timer_init t time fl s))"

definition rt_timer_delete :: "nat \<Rightarrow> 'w timers \<Rightarrow> rt_err \<times> 'w timers" where
  "rt_timer_delete t s = (RT_EOK, rt_timer_remove t s)"

definition rt_system_timer_thread_init :: "'w timers \<Rightarrow> 'w timers" where
  "rt_system_timer_thread_init s = s\<lparr>rt_soft_timer_list := [], timer_thread_ready := True\<rparr>"

section \<open>Starting and stopping\<close>

text \<open>
  The search for the place of a timer with timeout \<open>x\<close>: behind the timers with the same
  timeout, before the first one that is later by less than half the range.
\<close>

fun insert_timer :: "(nat \<Rightarrow> u32) \<Rightarrow> nat \<Rightarrow> nat list \<Rightarrow> nat list" where
  "insert_timer tm x [] = [x]"
| "insert_timer tm x (t # ts) =
     (if tm t - tm x = 0 then t # insert_timer tm x ts
      else if tm t - tm x < RT_TICK_MAX div 2 then x # t # ts
      else t # insert_timer tm x ts)"

abbreviation timeouts :: "'w timers \<Rightarrow> nat \<Rightarrow> u32" where
  "timeouts s t \<equiv> timeout_tick (timer_of s t)"

definition rt_timer_start :: "nat \<Rightarrow> 'w timers \<Rightarrow> (rt_err \<times> 'w timers) option" where
  "rt_timer_start t s = do {
     let s = clear_active t (rt_timer_remove t s);
     c_assert (init_tick (timer_of s t) < RT_TICK_MAX div 2);
     let s = change t (\<lambda>x. x\<lparr>timeout_tick := rt_tick s + init_tick x\<rparr>) s;
     let s = (if has RT_TIMER_FLAG_SOFT_TIMER t s
              then s\<lparr>rt_soft_timer_list := insert_timer (timeouts s) t (rt_soft_timer_list s)\<rparr>
              else s\<lparr>rt_timer_list := insert_timer (timeouts s) t (rt_timer_list s)\<rparr>);
     let s = set_active t (s\<lparr>random_nr := random_nr s + 1\<rparr>);
     let s = (if has RT_TIMER_FLAG_SOFT_TIMER t s \<and> \<not> timer_thread_ready s
              then s\<lparr>timer_thread_ready := True\<rparr> else s);
     Some (RT_EOK, s)
   }"

definition rt_timer_stop :: "nat \<Rightarrow> 'w timers \<Rightarrow> rt_err \<times> 'w timers" where
  "rt_timer_stop t s =
     (if \<not> has RT_TIMER_FLAG_ACTIVATED t s then (RT_ERROR, s)
      else (RT_EOK, clear_active t (rt_timer_remove t s)))"

definition RT_TIMER_CTRL_SET_TIME :: u8 where "RT_TIMER_CTRL_SET_TIME = 0"
definition RT_TIMER_CTRL_GET_TIME :: u8 where "RT_TIMER_CTRL_GET_TIME = 1"
definition RT_TIMER_CTRL_SET_ONESHOT :: u8 where "RT_TIMER_CTRL_SET_ONESHOT = 2"
definition RT_TIMER_CTRL_SET_PERIODIC :: u8 where "RT_TIMER_CTRL_SET_PERIODIC = 3"

text \<open>The argument is the value behind \<open>arg\<close>, before and after. Other commands do nothing.\<close>

definition rt_timer_control :: "nat \<Rightarrow> u8 \<Rightarrow> u32 \<Rightarrow> 'w timers \<Rightarrow> rt_err \<times> u32 \<times> 'w timers" where
  "rt_timer_control t cmd arg s =
     (if cmd = RT_TIMER_CTRL_GET_TIME then (RT_EOK, init_tick (timer_of s t), s)
      else if cmd = RT_TIMER_CTRL_SET_TIME then (RT_EOK, arg, change t (\<lambda>x. x\<lparr>init_tick := arg\<rparr>) s)
      else if cmd = RT_TIMER_CTRL_SET_ONESHOT then
        (RT_EOK, arg, change t (\<lambda>x. x\<lparr>flag := flag x AND NOT RT_TIMER_FLAG_PERIODIC\<rparr>) s)
      else if cmd = RT_TIMER_CTRL_SET_PERIODIC then
        (RT_EOK, arg, change t (\<lambda>x. x\<lparr>flag := flag x OR RT_TIMER_FLAG_PERIODIC\<rparr>) s)
      else (RT_EOK, arg, s))"

section \<open>Timeouts\<close>

text \<open>What both checks do with a timer that is due.\<close>

definition expire :: "'w timeout_func \<Rightarrow> nat \<Rightarrow> 'w timers \<Rightarrow> 'w timers option" where
  "expire call t s = do {
     s \<leftarrow> call t (rt_timer_remove t s);
     if has RT_TIMER_FLAG_PERIODIC t s \<and> has RT_TIMER_FLAG_ACTIVATED t s
     then do { (_, s) \<leftarrow> rt_timer_start t (clear_active t s); Some s }
     else Some (clear_active t s)
   }"

partial_function (option) timer_check_loop :: "'w timeout_func \<Rightarrow> u32 \<Rightarrow> 'w timers \<Rightarrow> 'w timers option" where
  "timer_check_loop call current_tick s =
     (case rt_timer_list s of
        [] \<Rightarrow> Some s
      | t # _ \<Rightarrow>
          if current_tick - timeouts s t < RT_TICK_MAX div 2
          then do { s \<leftarrow> expire call t s; timer_check_loop call (rt_tick s) s }
          else Some s)"

definition rt_timer_check :: "'w timeout_func \<Rightarrow> 'w timers \<Rightarrow> 'w timers option" where
  "rt_timer_check call s = timer_check_loop call (rt_tick s) s"

text \<open>
  The soft timers are walked with a cursor (\<open>None\<close>: the list head), moved to the next node
  before the timer is removed. The next of a timer in no list is the timer itself.
\<close>

fun successor :: "nat list \<Rightarrow> nat \<Rightarrow> nat option" where
  "successor [] t = Some t"
| "successor (x # xs) t = (if x = t then (case xs of [] \<Rightarrow> None | y # _ \<Rightarrow> Some y) else successor xs t)"

partial_function (option) soft_check_loop ::
  "'w timeout_func \<Rightarrow> u32 \<Rightarrow> nat option \<Rightarrow> 'w timers \<Rightarrow> 'w timers option" where
  "soft_check_loop call current_tick n s =
     (case n of
        None \<Rightarrow> Some s
      | Some t \<Rightarrow>
          if current_tick - timeouts s t < RT_TICK_MAX div 2
          then do {
            let n = successor (rt_soft_timer_list s) t;
            s \<leftarrow> expire call t s;
            soft_check_loop call (rt_tick s) n s
          }
          else Some s)"

definition rt_soft_timer_check :: "'w timeout_func \<Rightarrow> 'w timers \<Rightarrow> 'w timers option" where
  "rt_soft_timer_check call s = soft_check_loop call (rt_tick s)
     (case rt_soft_timer_list s of [] \<Rightarrow> None | t # _ \<Rightarrow> Some t) s"

text \<open>What the timer thread does before its next check.\<close>

datatype timer_wait = Suspend_self | Delay u32 | No_wait

definition rt_thread_timer_entry :: "'w timers \<Rightarrow> timer_wait" where
  "rt_thread_timer_entry s =
     (let next_timeout = rt_timer_list_next_timeout (rt_soft_timer_list s) s in
      if next_timeout = RT_TICK_MAX then Suspend_self
      else if next_timeout - rt_tick s < RT_TICK_MAX div 2 then Delay (next_timeout - rt_tick s)
      else No_wait)"

section \<open>The tick\<close>

definition rt_tick_set :: "u32 \<Rightarrow> 'w timers \<Rightarrow> 'w timers" where
  "rt_tick_set n s = s\<lparr>rt_tick := n\<rparr>"

definition rt_tick_increase :: "'w timeout_func \<Rightarrow> 'w timers \<Rightarrow> 'w timers option" where
  "rt_tick_increase call s = do {
     let s = s\<lparr>rt_tick := rt_tick s + 1, remaining_tick := remaining_tick s - 1\<rparr>;
     let s = (if remaining_tick s = 0
              then s\<lparr>remaining_tick := thread_init_tick s, yields_done := yields_done s + 1\<rparr> else s);
     rt_timer_check call s
   }"

definition rt_tick_from_millisecond :: "u32 \<Rightarrow> u32" where
  "rt_tick_from_millisecond ms = (1000 * ms + 999) div 1000"


section \<open>Order modulo \<open>2 ^ 32\<close>\<close>

text \<open>The distance of a timeout from a base, and the largest one that can be ordered.\<close>

definition off :: "u32 \<Rightarrow> 'w timers \<Rightarrow> nat \<Rightarrow> nat" where
  "off b s t = unat (timeouts s t - b)"

definition half :: nat where "half = 2147483647"

lemma RT_TICK_MAX_half: "RT_TICK_MAX div 2 = of_nat half"
  by (simp add: RT_TICK_MAX_def half_def)

lemma word_diff_cases:
  fixes a c :: u32
  shows "unat (a - c) = (if unat c \<le> unat a then unat a - unat c else 4294967296 + unat a - unat c)"
  using unat_u32 [of a] unat_u32 [of c] by (auto simp: unat_sub_if')

lemma word_add_base:
  fixes x i b :: u32
  assumes "unat (x - b) + unat i \<le> half"
  shows "unat (x + i - b) = unat (x - b) + unat i"
proof -
  have eq: "x + i - b = (x - b) + i"
    by simp
  show ?thesis
    unfolding eq using assms by (simp only: half_def unat_word_ariths(1) flip: take_bit_eq_mod)
      (simp add: take_bit_nat_eq_self)
qed

lemma later_iff:
  assumes "unat (p - b) \<le> half" "unat (q - b) \<le> half" "unat (p - b) < half \<or> 0 < unat (q - b)"
  shows "p - q < RT_TICK_MAX div 2 \<longleftrightarrow> unat (q - b) \<le> unat (p - b)" "p - q = 0 \<longleftrightarrow> unat (p - b) = unat (q - b)"
proof -
  have eq: "p - q = (p - b) - (q - b)"
    by simp
  have u: "unat (p - q) = (if unat (q - b) \<le> unat (p - b) then unat (p - b) - unat (q - b)
      else 4294967296 + unat (p - b) - unat (q - b))"
    unfolding eq by (rule word_diff_cases)
  have "p - q < RT_TICK_MAX div 2 \<longleftrightarrow> unat (p - q) < half"
    by (simp add: RT_TICK_MAX_half word_less_nat_alt half_def)
  then show "p - q < RT_TICK_MAX div 2 \<longleftrightarrow> unat (q - b) \<le> unat (p - b)"
    using u assms by (auto simp: half_def)
  have "p - q = 0 \<longleftrightarrow> p - b = q - b"
    by simp
  then show "p - q = 0 \<longleftrightarrow> unat (p - b) = unat (q - b)"
    by (simp only: word_unat_eq_iff [of "p - b"])
qed

lemma set_insert_timer [simp]: "set (insert_timer tm x ts) = insert x (set ts)"
  by (induction ts) auto

lemma distinct_insert_timer: "x \<notin> set ts \<Longrightarrow> distinct ts \<Longrightarrow> distinct (insert_timer tm x ts)"
  by (induction ts) auto

text \<open>With timeouts in one half of the circle the insertion keeps the order; equal ones stay first.\<close>

lemma insert_timer_sorted:
  fixes tm :: "nat \<Rightarrow> u32" and b :: u32
  defines "d \<equiv> \<lambda>t. unat (tm t - b)"
  assumes "sorted_wrt (\<lambda>t u. d t \<le> d u) ts" "\<forall>t \<in> set ts. d t \<le> half" "d x \<le> half"
    and "(\<forall>t \<in> set ts. d t < half) \<or> 0 < d x"
  shows "insert_timer tm x ts = takeWhile (\<lambda>t. d t \<le> d x) ts @ x # dropWhile (\<lambda>t. d t \<le> d x) ts"
    and "sorted_wrt (\<lambda>t u. d t \<le> d u) (insert_timer tm x ts)"
proof -
  have c: "tm t - tm x < RT_TICK_MAX div 2 \<longleftrightarrow> d x \<le> d t" "tm t - tm x = 0 \<longleftrightarrow> d t = d x"
    if "t \<in> set ts" for t
    using assms(3-5) that later_iff [of "tm t" b "tm x"] by (auto simp: d_def)
  show "insert_timer tm x ts = takeWhile (\<lambda>t. d t \<le> d x) ts @ x # dropWhile (\<lambda>t. d t \<le> d x) ts"
    using c by (induction ts) auto
  show "sorted_wrt (\<lambda>t u. d t \<le> d u) (insert_timer tm x ts)"
    using c assms(2) by (induction ts) auto
qed


section \<open>Flags\<close>

lemmas flag_defs = RT_TIMER_FLAG_ACTIVATED_def RT_TIMER_FLAG_PERIODIC_def RT_TIMER_FLAG_SOFT_TIMER_def

text \<open>The three flags are different bits; the proofs below use only this.\<close>

lemma flag_bits [simp]:
  "(x OR RT_TIMER_FLAG_ACTIVATED) AND RT_TIMER_FLAG_ACTIVATED \<noteq> 0"
  "(x AND NOT RT_TIMER_FLAG_ACTIVATED) AND RT_TIMER_FLAG_ACTIVATED = 0"
  "(x OR RT_TIMER_FLAG_ACTIVATED) AND RT_TIMER_FLAG_PERIODIC = x AND RT_TIMER_FLAG_PERIODIC"
  "(x AND NOT RT_TIMER_FLAG_ACTIVATED) AND RT_TIMER_FLAG_PERIODIC = x AND RT_TIMER_FLAG_PERIODIC"
  "(x OR RT_TIMER_FLAG_ACTIVATED) AND RT_TIMER_FLAG_SOFT_TIMER = x AND RT_TIMER_FLAG_SOFT_TIMER"
  "(x AND NOT RT_TIMER_FLAG_ACTIVATED) AND RT_TIMER_FLAG_SOFT_TIMER = x AND RT_TIMER_FLAG_SOFT_TIMER"
  by (simp_all add: flag_defs bit.conj_disj_distrib2 and.assoc)

lemma periodic_bits [simp]:
  "(x OR RT_TIMER_FLAG_PERIODIC) AND RT_TIMER_FLAG_ACTIVATED = x AND RT_TIMER_FLAG_ACTIVATED"
  "(x AND NOT RT_TIMER_FLAG_PERIODIC) AND RT_TIMER_FLAG_ACTIVATED = x AND RT_TIMER_FLAG_ACTIVATED"
  "(x OR RT_TIMER_FLAG_PERIODIC) AND RT_TIMER_FLAG_SOFT_TIMER = x AND RT_TIMER_FLAG_SOFT_TIMER"
  "(x AND NOT RT_TIMER_FLAG_PERIODIC) AND RT_TIMER_FLAG_SOFT_TIMER = x AND RT_TIMER_FLAG_SOFT_TIMER"
  by (simp_all add: flag_defs bit.conj_disj_distrib2 and.assoc)

lemma RT_TIMER_FLAG_ACTIVATED_nonzero [simp]: "RT_TIMER_FLAG_ACTIVATED \<noteq> 0"
  by (simp add: flag_defs)

lemma timers_simps [simp]:
  "rt_timer_list (change t f s) = rt_timer_list s" "rt_soft_timer_list (change t f s) = rt_soft_timer_list s"
  "rt_tick (change t f s) = rt_tick s" "world (change t f s) = world s"
  "timer_of (change t f s) = (timer_of s)(t := f (timer_of s t))"
  "timer_of (rt_timer_remove t s) = timer_of s" "rt_tick (rt_timer_remove t s) = rt_tick s"
  "world (rt_timer_remove t s) = world s"
  "rt_timer_list (rt_timer_remove t s) = removeAll t (rt_timer_list s)"
  "rt_soft_timer_list (rt_timer_remove t s) = removeAll t (rt_soft_timer_list s)"
  by (simp_all add: change_def rt_timer_remove_def)

section \<open>The invariant\<close>

definition ordered :: "u32 \<Rightarrow> 'w timers \<Rightarrow> bool" where
  "ordered b s \<longleftrightarrow> distinct (rt_timer_list s) \<and> sorted_wrt (\<lambda>t u. off b s t \<le> off b s u) (rt_timer_list s)
     \<and> (\<forall>t \<in> set (rt_timer_list s). off b s t \<le> half \<and> has RT_TIMER_FLAG_ACTIVATED t s
          \<and> \<not> has RT_TIMER_FLAG_SOFT_TIMER t s
          \<and> (has RT_TIMER_FLAG_PERIODIC t s \<longrightarrow> 0 < unat (init_tick (timer_of s t)) \<and> unat (init_tick (timer_of s t)) < half))
     \<and> (\<forall>t \<in> set (rt_soft_timer_list s). has RT_TIMER_FLAG_SOFT_TIMER t s)"

text \<open>Between two ticks every timeout lies less than half the range ahead of the tick.\<close>

definition timers_ok :: "'w timers \<Rightarrow> bool" where
  "timers_ok s \<longleftrightarrow> ordered (rt_tick s) s \<and> (\<forall>t \<in> set (rt_timer_list s). off (rt_tick s) s t < half)"

lemma sorted_wrt_cong:
  "(\<And>x y. x \<in> set xs \<Longrightarrow> y \<in> set xs \<Longrightarrow> P x y = Q x y) \<Longrightarrow> sorted_wrt P xs = sorted_wrt Q xs"
  by (induction xs) auto

lemma sorted_wrt_removeAll: "sorted_wrt P xs \<Longrightarrow> sorted_wrt P (removeAll x xs)"
  by (induction xs) auto

text \<open>What a start of a timer of the hard list does to each field.\<close>

lemma start_fields:
  assumes "\<not> has RT_TIMER_FLAG_SOFT_TIMER t s" "unat (init_tick (timer_of s t)) < half"
    and "t \<notin> set (rt_soft_timer_list s)"
  obtains s' where "rt_timer_start t s = Some (RT_EOK, s')"
    "timer_of s' = (timer_of s)(t := timer_of s t
       \<lparr>flag := (flag (timer_of s t) AND NOT RT_TIMER_FLAG_ACTIVATED) OR RT_TIMER_FLAG_ACTIVATED,
         timeout_tick := rt_tick s + init_tick (timer_of s t)\<rparr>)"
    "rt_timer_list s' = insert_timer (timeouts s') t (removeAll t (rt_timer_list s))"
    "rt_soft_timer_list s' = rt_soft_timer_list s" "rt_tick s' = rt_tick s" "world s' = world s"
proof -
  let ?ts = "removeAll t (rt_timer_list s)"
  let ?tm = "(timer_of s)(t := timer_of s t
       \<lparr>flag := (flag (timer_of s t) AND NOT RT_TIMER_FLAG_ACTIVATED) OR RT_TIMER_FLAG_ACTIVATED,
         timeout_tick := rt_tick s + init_tick (timer_of s t)\<rparr>)"
  let ?s' = "s\<lparr>timer_of := ?tm, rt_timer_list := insert_timer (\<lambda>u. timeout_tick (?tm u)) t ?ts,
     random_nr := random_nr s + 1\<rparr>"
  have i: "init_tick (timer_of s t) < RT_TICK_MAX div 2"
    using assms(2) by (simp add: RT_TICK_MAX_half word_less_nat_alt half_def)
  have "rt_timer_start t s = Some (RT_EOK, ?s')"
    using i assms(1,3)
    by (auto simp: rt_timer_start_def Let_def clear_active_def set_active_def has_def
        rt_timer_remove_def change_def c_assert_def
        intro!: timers.equality ext arg_cong [where f = "\<lambda>f. insert_timer f t (removeAll t (rt_timer_list s))"])
  from that [OF this] show thesis
    by simp
qed

lemma start_step:
  assumes o: "ordered b s" and t: "\<not> has RT_TIMER_FLAG_SOFT_TIMER t s" "unat (init_tick (timer_of s t)) < half"
      "has RT_TIMER_FLAG_PERIODIC t s \<longrightarrow> 0 < unat (init_tick (timer_of s t))"
    and lim: "unat (rt_tick s - b) + unat (init_tick (timer_of s t)) \<le> half"
    and room: "(\<forall>u \<in> set (rt_timer_list s). off b s u < half) \<or> 0 < unat (rt_tick s - b) + unat (init_tick (timer_of s t))"
  obtains s' where "rt_timer_start t s = Some (RT_EOK, s')" "ordered b s'"
    "rt_timer_list s' = insert_timer (timeouts s') t (removeAll t (rt_timer_list s))"
    "off b s' t = unat (rt_tick s - b) + unat (init_tick (timer_of s t))"
    "\<And>u. u \<noteq> t \<Longrightarrow> timer_of s' u = timer_of s u" "init_tick (timer_of s' t) = init_tick (timer_of s t)"
    "\<And>u. has RT_TIMER_FLAG_PERIODIC u s' = has RT_TIMER_FLAG_PERIODIC u s"
    "\<And>u. has RT_TIMER_FLAG_SOFT_TIMER u s' = has RT_TIMER_FLAG_SOFT_TIMER u s"
    "rt_tick s' = rt_tick s" "world s' = world s" "rt_soft_timer_list s' = rt_soft_timer_list s"
proof -
  let ?ts = "removeAll t (rt_timer_list s)"
  have soft: "t \<notin> set (rt_soft_timer_list s)"
    using o t(1) by (auto simp: ordered_def)
  obtain s' where s': "rt_timer_start t s = Some (RT_EOK, s')"
    "timer_of s' = (timer_of s)(t := timer_of s t
       \<lparr>flag := (flag (timer_of s t) AND NOT RT_TIMER_FLAG_ACTIVATED) OR RT_TIMER_FLAG_ACTIVATED,
         timeout_tick := rt_tick s + init_tick (timer_of s t)\<rparr>)"
    "rt_timer_list s' = insert_timer (timeouts s') t ?ts"
    "rt_soft_timer_list s' = rt_soft_timer_list s" "rt_tick s' = rt_tick s" "world s' = world s"
    by (rule start_fields [OF t(1,2) soft])
  have d: "off b s' t = unat (rt_tick s - b) + unat (init_tick (timer_of s t))"
    using word_add_base [OF lim] by (simp add: off_def s'(2))
  have others: "off b s' u = off b s u" if "u \<noteq> t" for u
    using that by (simp add: off_def s'(2))
  have per: "has RT_TIMER_FLAG_PERIODIC u s' = has RT_TIMER_FLAG_PERIODIC u s" for u
    by (simp add: has_def s'(2))
  have sft: "has RT_TIMER_FLAG_SOFT_TIMER u s' = has RT_TIMER_FLAG_SOFT_TIMER u s" for u
    by (simp add: has_def s'(2))
  have "sorted_wrt (\<lambda>u v. off b s' u \<le> off b s' v) ?ts = sorted_wrt (\<lambda>u v. off b s u \<le> off b s v) ?ts"
    by (rule sorted_wrt_cong) (simp add: others)
  then have srt: "sorted_wrt (\<lambda>u v. off b s' u \<le> off b s' v) ?ts"
    using o by (simp add: ordered_def sorted_wrt_removeAll)
  have le: "\<forall>u \<in> set ?ts. off b s' u \<le> half" "off b s' t \<le> half"
    using o others d lim by (auto simp: ordered_def)
  have rm: "(\<forall>u \<in> set ?ts. off b s' u < half) \<or> 0 < off b s' t"
    using room others d by auto
  have "sorted_wrt (\<lambda>u v. off b s' u \<le> off b s' v) (rt_timer_list s')"
    using insert_timer_sorted(2) [of "timeouts s'" b ?ts t] srt le rm s'(3) by (simp add: off_def)
  then have "ordered b s'"
    using o t le others per soft unfolding ordered_def
    by (auto simp: s' distinct_insert_timer distinct_removeAll has_def)
  from that [OF s'(1) this s'(3) d _ _ per sft s'(5) s'(6) s'(4)] show thesis
    by (simp add: s'(2))
qed

section \<open>A tick\<close>

text \<open>
  From here on the timeout functions leave the timers alone: \<open>f\<close> gives what a function called
  for a timer at a tick does to the world.
\<close>

definition quiet :: "(nat \<Rightarrow> u32 \<Rightarrow> 'w \<Rightarrow> 'w) \<Rightarrow> 'w timeout_func" where
  "quiet f t s = Some (s\<lparr>world := f t (rt_tick s) (world s)\<rparr>)"

lemma ordered_remove:
  assumes "ordered b s" "rt_timer_list s' = removeAll t (rt_timer_list s)"
    and "rt_soft_timer_list s' = rt_soft_timer_list s" "\<And>u. u \<noteq> t \<Longrightarrow> timer_of s' u = timer_of s u"
    and "t \<notin> set (rt_soft_timer_list s)"
  shows "ordered b s'"
proof -
  have off: "off b s' u = off b s u" if "u \<noteq> t" for u
    using assms(4) that by (simp add: off_def)
  have "sorted_wrt (\<lambda>u v. off b s' u \<le> off b s' v) (rt_timer_list s')
      = sorted_wrt (\<lambda>u v. off b s u \<le> off b s v) (rt_timer_list s')"
    by (rule sorted_wrt_cong) (auto simp: off assms(2))
  moreover have "has fl u s' = has fl u s" if "u \<noteq> t" for fl u
    using assms(4) that by (simp add: has_def)
  moreover have "\<forall>u \<in> set (rt_soft_timer_list s). u \<noteq> t"
    using assms(5) by auto
  ultimately show ?thesis
    using assms off unfolding ordered_def by (auto simp: sorted_wrt_removeAll distinct_removeAll)
qed

lemma expire_step:
  assumes o: "ordered b s" and tick: "rt_tick s = b + 1" and l: "rt_timer_list s = t # ts"
  obtains s' where "expire (quiet f) t s = Some s'" "ordered b s'" "rt_tick s' = rt_tick s"
    "world s' = f t (rt_tick s) (world s)" "rt_soft_timer_list s' = rt_soft_timer_list s"
    "rt_timer_list s' = (if has RT_TIMER_FLAG_PERIODIC t s then insert_timer (timeouts s') t ts else ts)"
    "has RT_TIMER_FLAG_PERIODIC t s \<Longrightarrow> off b s' t = Suc (unat (init_tick (timer_of s t)))"
    "\<And>u. u \<noteq> t \<Longrightarrow> timer_of s' u = timer_of s u" "\<And>u. init_tick (timer_of s' u) = init_tick (timer_of s u)"
    "\<And>u. has RT_TIMER_FLAG_PERIODIC u s' = has RT_TIMER_FLAG_PERIODIC u s"
    "\<And>u. has RT_TIMER_FLAG_SOFT_TIMER u s' = has RT_TIMER_FLAG_SOFT_TIMER u s"
    "has RT_TIMER_FLAG_ACTIVATED t s' = has RT_TIMER_FLAG_PERIODIC t s"
proof -
  let ?s2 = "clear_active t ((rt_timer_remove t s)\<lparr>world := f t (rt_tick s) (world s)\<rparr>)"
  have h: "has RT_TIMER_FLAG_ACTIVATED t s" "\<not> has RT_TIMER_FLAG_SOFT_TIMER t s" "t \<notin> set ts"
    "has RT_TIMER_FLAG_PERIODIC t s \<Longrightarrow> 0 < unat (init_tick (timer_of s t)) \<and> unat (init_tick (timer_of s t)) < half"
    "t \<notin> set (rt_soft_timer_list s)"
    using o l by (auto simp: ordered_def)
  have s2: "rt_timer_list ?s2 = ts" "rt_soft_timer_list ?s2 = rt_soft_timer_list s" "rt_tick ?s2 = rt_tick s"
    "world ?s2 = f t (rt_tick s) (world s)" "init_tick (timer_of ?s2 u) = init_tick (timer_of s u)"
    "u \<noteq> t \<Longrightarrow> timer_of ?s2 u = timer_of s u" "has RT_TIMER_FLAG_PERIODIC u ?s2 = has RT_TIMER_FLAG_PERIODIC u s"
    "has RT_TIMER_FLAG_SOFT_TIMER u ?s2 = has RT_TIMER_FLAG_SOFT_TIMER u s" "\<not> has RT_TIMER_FLAG_ACTIVATED t ?s2" for u
    using h l by (auto simp: clear_active_def has_def)
  have o2: "ordered b ?s2"
    by (rule ordered_remove [OF o]) (use h l in \<open>auto simp: clear_active_def\<close>)
  have e: "expire (quiet f) t s = (if has RT_TIMER_FLAG_PERIODIC t s
      then do { (_, s) \<leftarrow> rt_timer_start t ?s2; Some s } else Some ?s2)"
    using h(1) by (simp add: expire_def quiet_def has_def)
  show thesis
  proof (cases "has RT_TIMER_FLAG_PERIODIC t s")
    case False
    then show ?thesis
      using that [of ?s2] e o2 s2 by simp
  next
    case True
    have "rt_tick ?s2 - b = 1"
      using s2(3) tick by (metis add_diff_cancel_left')
    then have one: "unat (rt_tick ?s2 - b) = 1"
      by (simp only:) simp
    obtain s' where s': "rt_timer_start t ?s2 = Some (RT_EOK, s')" "ordered b s'"
      "rt_timer_list s' = insert_timer (timeouts s') t (removeAll t (rt_timer_list ?s2))"
      "off b s' t = unat (rt_tick ?s2 - b) + unat (init_tick (timer_of ?s2 t))"
      "\<And>u. u \<noteq> t \<Longrightarrow> timer_of s' u = timer_of ?s2 u" "init_tick (timer_of s' t) = init_tick (timer_of ?s2 t)"
      "\<And>u. has RT_TIMER_FLAG_PERIODIC u s' = has RT_TIMER_FLAG_PERIODIC u ?s2"
      "\<And>u. has RT_TIMER_FLAG_SOFT_TIMER u s' = has RT_TIMER_FLAG_SOFT_TIMER u ?s2"
      "rt_tick s' = rt_tick ?s2" "world s' = world ?s2" "rt_soft_timer_list s' = rt_soft_timer_list ?s2"
      by (rule start_step [OF o2, of t]) (use h True one in \<open>auto simp: s2\<close>)
    have act: "has RT_TIMER_FLAG_ACTIVATED t s'"
      using s'(2,3) by (simp add: ordered_def)
    have init: "init_tick (timer_of s' u) = init_tick (timer_of s u)" for u
      using s'(5) [of u] s'(6) s2(5) by (cases "u = t") auto
    show ?thesis
    proof (rule that [of s'])
      show "expire (quiet f) t s = Some s'"
        using e True s'(1) by simp
      show "rt_timer_list s' = (if has RT_TIMER_FLAG_PERIODIC t s then insert_timer (timeouts s') t ts else ts)"
        using s'(3) True h(3) s2(1) by simp
      show "off b s' t = Suc (unat (init_tick (timer_of s t)))"
        using s'(4) one s2(5) by simp
    qed (use s' s2 act init True in auto)
  qed
qed

text \<open>The timers of the list that are due one tick after the base.\<close>

definition due :: "u32 \<Rightarrow> 'w timers \<Rightarrow> nat list" where
  "due b s = takeWhile (\<lambda>t. off b s t \<le> 1) (rt_timer_list s)"

lemma takeWhile_insert_timer:
  fixes tm :: "nat \<Rightarrow> u32" and b :: u32
  assumes "sorted_wrt (\<lambda>t u. unat (tm t - b) \<le> unat (tm u - b)) ts" "\<forall>t \<in> set ts. unat (tm t - b) \<le> half"
    and "unat (tm x - b) \<le> half" "1 < unat (tm x - b)"
  shows "takeWhile (\<lambda>t. unat (tm t - b) \<le> 1) (insert_timer tm x ts) = takeWhile (\<lambda>t. unat (tm t - b) \<le> 1) ts"
proof -
  have "tm t - tm x < RT_TICK_MAX div 2 \<longleftrightarrow> unat (tm x - b) \<le> unat (tm t - b)"
    "tm t - tm x = 0 \<longleftrightarrow> unat (tm t - b) = unat (tm x - b)"
    if "t \<in> set ts" for t
    using assms(2-4) that later_iff [of "tm t" b "tm x"] by auto
  then show ?thesis
    using assms(4) by (induction ts) auto
qed

lemma takeWhile_cong_set:
  "(\<And>x. x \<in> set xs \<Longrightarrow> P x = Q x) \<Longrightarrow> takeWhile P xs = takeWhile Q xs"
  by (induction xs) auto

lemma expire_due:
  assumes o: "ordered b s" and tick: "rt_tick s = b + 1" and l: "rt_timer_list s = t # ts" "off b s t \<le> 1"
    and s': "ordered b s'" "rt_timer_list s' = (if has RT_TIMER_FLAG_PERIODIC t s then insert_timer (timeouts s') t ts else ts)"
    "has RT_TIMER_FLAG_PERIODIC t s \<Longrightarrow> off b s' t = Suc (unat (init_tick (timer_of s t)))"
    "\<And>u. u \<noteq> t \<Longrightarrow> timer_of s' u = timer_of s u"
  shows "due b s = t # due b s'"
proof -
  have t: "t \<notin> set ts"
    using o l by (simp add: ordered_def)
  have off: "off b s' u = off b s u" if "u \<in> set ts" for u
    using that t s'(4) [of u] by (cases "u = t") (simp_all add: off_def)
  have same: "takeWhile (\<lambda>u. off b s' u \<le> 1) ts = takeWhile (\<lambda>u. off b s u \<le> 1) ts"
    by (rule takeWhile_cong_set) (simp add: off)
  have "due b s' = takeWhile (\<lambda>u. off b s' u \<le> 1) ts"
  proof (cases "has RT_TIMER_FLAG_PERIODIC t s")
    case False
    then show ?thesis
      using s'(2) by (simp add: due_def)
  next
    case True
    have i: "0 < unat (init_tick (timer_of s t))"
      using o l True by (simp add: ordered_def)
    have srt: "sorted_wrt (\<lambda>u v. off b s' u \<le> off b s' v) ts = sorted_wrt (\<lambda>u v. off b s u \<le> off b s v) ts"
      by (rule sorted_wrt_cong) (simp add: off)
    have "sorted_wrt (\<lambda>u v. off b s' u \<le> off b s' v) ts" "\<forall>u \<in> set ts. off b s' u \<le> half" "off b s' t \<le> half"
      using o l srt off s'(1,2) True by (simp_all add: ordered_def)
    moreover have "1 < off b s' t"
      using s'(3) True i by simp
    ultimately show ?thesis
      using takeWhile_insert_timer [of "timeouts s'" b ts t] s'(2) True by (simp add: due_def off_def)
  qed
  then show ?thesis
    using l same by (simp add: due_def)
qed

lemma check_loop_step:
  assumes "ordered b s" "rt_tick s = b + 1"
  shows "timer_check_loop call (rt_tick s) s = (case due b s of [] \<Rightarrow> Some s
    | t # _ \<Rightarrow> do { s \<leftarrow> expire call t s; timer_check_loop call (rt_tick s) s })"
proof (cases "rt_timer_list s")
  case Nil
  then show ?thesis
    by (simp add: timer_check_loop.simps due_def)
next
  case (Cons t ts)
  have one: "unat (rt_tick s - b) = 1"
    unfolding assms(2) by simp
  have "off b s t \<le> half"
    using assms(1) Cons by (simp add: ordered_def)
  then have "rt_tick s - timeouts s t < RT_TICK_MAX div 2 \<longleftrightarrow> off b s t \<le> 1"
    using later_iff(1) [of "rt_tick s" b "timeouts s t"] one by (simp add: off_def half_def)
  then show ?thesis
    using Cons by (subst timer_check_loop.simps) (simp add: due_def)
qed

lemma check_loop_runs:
  assumes "ordered b s" "rt_tick s = b + 1"
  shows "\<exists>s'. timer_check_loop (quiet f) (rt_tick s) s = Some s' \<and> ordered b s' \<and> due b s' = []
    \<and> rt_tick s' = rt_tick s \<and> rt_soft_timer_list s' = rt_soft_timer_list s
    \<and> world s' = fold (\<lambda>t. f t (rt_tick s)) (due b s) (world s)
    \<and> set (rt_timer_list s') = {t \<in> set (rt_timer_list s). t \<in> set (due b s) \<longrightarrow> has RT_TIMER_FLAG_PERIODIC t s}
    \<and> (\<forall>t. t \<notin> set (due b s) \<longrightarrow> timer_of s' t = timer_of s t)
    \<and> (\<forall>t. init_tick (timer_of s' t) = init_tick (timer_of s t))
    \<and> (\<forall>t. has RT_TIMER_FLAG_PERIODIC t s' = has RT_TIMER_FLAG_PERIODIC t s)
    \<and> (\<forall>t. has RT_TIMER_FLAG_SOFT_TIMER t s' = has RT_TIMER_FLAG_SOFT_TIMER t s)
    \<and> (\<forall>t \<in> set (due b s). has RT_TIMER_FLAG_ACTIVATED t s' = has RT_TIMER_FLAG_PERIODIC t s
         \<and> (has RT_TIMER_FLAG_PERIODIC t s \<longrightarrow> off b s' t = Suc (unat (init_tick (timer_of s t)))))"
  using assms
proof (induction "due b s" arbitrary: s)
  case Nil
  then have "timer_check_loop (quiet f) (rt_tick s) s = Some s"
    using check_loop_step [OF Nil(2,3), of "quiet f"] by (simp add: Nil(1) [symmetric])
  with Nil show ?case
    by (simp flip: Nil(1))
next
  case (Cons t ds)
  from Cons(2) obtain ts where l: "rt_timer_list s = t # ts" "off b s t \<le> 1"
    by (cases "rt_timer_list s") (auto simp: due_def split: if_splits)
  have d: "distinct (rt_timer_list s)"
    using Cons(3) by (simp add: ordered_def)
  obtain s1 where s1: "expire (quiet f) t s = Some s1" "ordered b s1" "rt_tick s1 = rt_tick s"
    "world s1 = f t (rt_tick s) (world s)" "rt_soft_timer_list s1 = rt_soft_timer_list s"
    "rt_timer_list s1 = (if has RT_TIMER_FLAG_PERIODIC t s then insert_timer (timeouts s1) t ts else ts)"
    "has RT_TIMER_FLAG_PERIODIC t s \<Longrightarrow> off b s1 t = Suc (unat (init_tick (timer_of s t)))"
    "\<And>u. u \<noteq> t \<Longrightarrow> timer_of s1 u = timer_of s u" "\<And>u. init_tick (timer_of s1 u) = init_tick (timer_of s u)"
    "\<And>u. has RT_TIMER_FLAG_PERIODIC u s1 = has RT_TIMER_FLAG_PERIODIC u s"
    "\<And>u. has RT_TIMER_FLAG_SOFT_TIMER u s1 = has RT_TIMER_FLAG_SOFT_TIMER u s"
    "has RT_TIMER_FLAG_ACTIVATED t s1 = has RT_TIMER_FLAG_PERIODIC t s"
    using expire_step [OF Cons(3,4) l(1), of f] by blast
  have due: "due b s = t # due b s1"
    by (rule expire_due [OF Cons(3,4) l s1(2,6-8)])
  then have ds: "ds = due b s1"
    using Cons(2) by simp
  have t: "t \<notin> set (due b s1)"
  proof -
    have "due b s1 = takeWhile (\<lambda>t. off b s t \<le> 1) ts"
      using due l by (simp add: due_def)
    then show ?thesis
      using d l by (auto dest: set_takeWhileD)
  qed
  obtain s' where s': "timer_check_loop (quiet f) (rt_tick s1) s1 = Some s'" "ordered b s'" "due b s' = []"
    "rt_tick s' = rt_tick s1" "rt_soft_timer_list s' = rt_soft_timer_list s1"
    "world s' = fold (\<lambda>t. f t (rt_tick s1)) (due b s1) (world s1)"
    "set (rt_timer_list s') = {t \<in> set (rt_timer_list s1). t \<in> set (due b s1) \<longrightarrow> has RT_TIMER_FLAG_PERIODIC t s1}"
    "\<And>t. t \<notin> set (due b s1) \<Longrightarrow> timer_of s' t = timer_of s1 t"
    "\<And>t. init_tick (timer_of s' t) = init_tick (timer_of s1 t)"
    "\<And>t. has RT_TIMER_FLAG_PERIODIC t s' = has RT_TIMER_FLAG_PERIODIC t s1"
    "\<And>t. has RT_TIMER_FLAG_SOFT_TIMER t s' = has RT_TIMER_FLAG_SOFT_TIMER t s1"
    "\<And>t. t \<in> set (due b s1) \<Longrightarrow> has RT_TIMER_FLAG_ACTIVATED t s' = has RT_TIMER_FLAG_PERIODIC t s1"
    "\<And>t. t \<in> set (due b s1) \<Longrightarrow> has RT_TIMER_FLAG_PERIODIC t s1 \<Longrightarrow> off b s' t = Suc (unat (init_tick (timer_of s1 t)))"
    using Cons(1) [OF ds s1(2)] s1(3) Cons(4) by auto
  have "timer_check_loop (quiet f) (rt_tick s) s = Some s'"
    using check_loop_step [OF Cons(3,4), of "quiet f"] due s1(1) s'(1) by simp
  moreover have "set (rt_timer_list s')
      = {t \<in> set (rt_timer_list s). t \<in> set (due b s) \<longrightarrow> has RT_TIMER_FLAG_PERIODIC t s}"
    using s'(7) s1(6,10) due l(1) t d by auto
  moreover have "off b s' t = off b s1 t" "has RT_TIMER_FLAG_ACTIVATED t s' = has RT_TIMER_FLAG_ACTIVATED t s1"
    using s'(8) [OF t] by (simp_all add: off_def has_def)
  ultimately show ?case
    using s' s1 due by auto
qed

text \<open>With the base one tick later, the distances are one smaller.\<close>

lemma off_next: "0 < off b s t \<Longrightarrow> off (b + 1) s t = off b s t - 1"
proof -
  have eq: "timeouts s t - (b + 1) = (timeouts s t - b) - 1"
    by simp
  show "0 < off b s t \<Longrightarrow> off (b + 1) s t = off b s t - 1"
    unfolding off_def eq by (rule unat_minus_one) (auto simp: unat_gt_0)
qed

lemma due_empty:
  assumes "ordered b s" "due b s = []" "t \<in> set (rt_timer_list s)"
  shows "1 < off b s t"
  using assms by (cases "rt_timer_list s") (auto simp: due_def ordered_def split: if_splits)

lemma ordered_next:
  assumes "ordered b s" "due b s = []"
  shows "ordered (b + 1) s" "\<forall>t \<in> set (rt_timer_list s). off (b + 1) s t < half"
proof -
  have off: "off (b + 1) s t = off b s t - 1" "1 < off b s t" if "t \<in> set (rt_timer_list s)" for t
    using due_empty [OF assms that] off_next [of b s t] by auto
  have le: "off b s t \<le> half" if "t \<in> set (rt_timer_list s)" for t
    using assms(1) that by (simp add: ordered_def)
  show lt: "\<forall>t \<in> set (rt_timer_list s). off (b + 1) s t < half"
    using off le by fastforce
  have "sorted_wrt (\<lambda>u v. off (b + 1) s u \<le> off (b + 1) s v) (rt_timer_list s)
      = sorted_wrt (\<lambda>u v. off b s u \<le> off b s v) (rt_timer_list s)"
    by (rule sorted_wrt_cong) (use off in fastforce)
  then show "ordered (b + 1) s"
    using assms(1) lt unfolding ordered_def by auto
qed

text \<open>
  One tick: the timers that are due are called, in the order of the list, once each; the
  periodic ones are started again and the others leave the list.
\<close>

lemma tick_step:
  assumes ok: "timers_ok s"
  obtains s' where "rt_tick_increase (quiet f) s = Some s'" "timers_ok s'" "rt_tick s' = rt_tick s + 1"
    "world s' = fold (\<lambda>t. f t (rt_tick s + 1)) (due (rt_tick s) s) (world s)"
    "set (rt_timer_list s') = {t \<in> set (rt_timer_list s). t \<in> set (due (rt_tick s) s) \<longrightarrow> has RT_TIMER_FLAG_PERIODIC t s}"
    "\<And>t. t \<notin> set (due (rt_tick s) s) \<Longrightarrow> timer_of s' t = timer_of s t"
    "\<And>t. init_tick (timer_of s' t) = init_tick (timer_of s t)"
    "\<And>t. has RT_TIMER_FLAG_PERIODIC t s' = has RT_TIMER_FLAG_PERIODIC t s"
    "\<And>t. has RT_TIMER_FLAG_SOFT_TIMER t s' = has RT_TIMER_FLAG_SOFT_TIMER t s"
    "rt_soft_timer_list s' = rt_soft_timer_list s"
    "\<And>t. t \<in> set (due (rt_tick s) s) \<Longrightarrow> has RT_TIMER_FLAG_PERIODIC t s
       \<Longrightarrow> off (rt_tick s') s' t = unat (init_tick (timer_of s t))"
    "\<And>t. t \<in> set (due (rt_tick s) s) \<Longrightarrow> has RT_TIMER_FLAG_ACTIVATED t s' = has RT_TIMER_FLAG_PERIODIC t s"
proof -
  let ?b = "rt_tick s"
  let ?c = "s\<lparr>rt_tick := ?b + 1, remaining_tick := remaining_tick s - 1\<rparr>"
  let ?s1 = "if remaining_tick ?c = 0
    then ?c\<lparr>remaining_tick := thread_init_tick ?c, yields_done := yields_done ?c + 1\<rparr> else ?c"
  have run: "rt_tick_increase (quiet f) s = timer_check_loop (quiet f) (rt_tick ?s1) ?s1"
    by (simp add: rt_tick_increase_def rt_timer_check_def Let_def)
  obtain s1 where s1: "rt_tick_increase (quiet f) s = timer_check_loop (quiet f) (rt_tick s1) s1"
    "timer_of s1 = timer_of s" "rt_timer_list s1 = rt_timer_list s" "rt_soft_timer_list s1 = rt_soft_timer_list s"
    "world s1 = world s" "rt_tick s1 = ?b + 1"
    using that [OF run] by simp
  have same: "off b s1 = off b s" "has fl t s1 = has fl t s" "due b s1 = due b s" for b fl t
    by (simp_all add: off_def has_def due_def s1 fun_eq_iff)
  have o: "ordered ?b s1"
    using ok by (simp add: timers_ok_def ordered_def same s1)
  obtain s' where s': "timer_check_loop (quiet f) (rt_tick s1) s1 = Some s'" "ordered ?b s'" "due ?b s' = []"
    "rt_tick s' = ?b + 1" "world s' = fold (\<lambda>t. f t (?b + 1)) (due ?b s) (world s)"
    "set (rt_timer_list s') = {t \<in> set (rt_timer_list s). t \<in> set (due ?b s) \<longrightarrow> has RT_TIMER_FLAG_PERIODIC t s}"
    "\<And>t. t \<notin> set (due ?b s) \<Longrightarrow> timer_of s' t = timer_of s t"
    "\<And>t. init_tick (timer_of s' t) = init_tick (timer_of s t)"
    "\<And>t. has RT_TIMER_FLAG_PERIODIC t s' = has RT_TIMER_FLAG_PERIODIC t s"
    "\<And>t. has RT_TIMER_FLAG_SOFT_TIMER t s' = has RT_TIMER_FLAG_SOFT_TIMER t s"
    "rt_soft_timer_list s' = rt_soft_timer_list s"
    "\<And>t. t \<in> set (due ?b s) \<Longrightarrow> has RT_TIMER_FLAG_ACTIVATED t s' = has RT_TIMER_FLAG_PERIODIC t s"
    "\<And>t. t \<in> set (due ?b s) \<Longrightarrow> has RT_TIMER_FLAG_PERIODIC t s \<Longrightarrow> off ?b s' t = Suc (unat (init_tick (timer_of s t)))"
    using check_loop_runs [OF o s1(6), of f] by (auto simp: same s1)
  have "timers_ok s'"
    using ordered_next [OF s'(2,3)] by (simp add: timers_ok_def s'(4))
  moreover have "off (rt_tick s') s' t = unat (init_tick (timer_of s t))"
    if "t \<in> set (due ?b s)" "has RT_TIMER_FLAG_PERIODIC t s" for t
    using s'(13) [OF that] off_next [of ?b s' t] by (simp add: s'(4))
  ultimately show thesis
    using that [of s'] s1(1) s' by auto
qed

section \<open>Sequences of ticks\<close>

fun ticks :: "'w timeout_func \<Rightarrow> nat \<Rightarrow> 'w timers \<Rightarrow> 'w timers option" where
  "ticks call 0 s = Some s"
| "ticks call (Suc k) s = do { s \<leftarrow> ticks call k s; rt_tick_increase call s }"

text \<open>Every call of a timeout function is recorded with its tick.\<close>

definition log_call :: "nat \<Rightarrow> u32 \<Rightarrow> (nat \<times> u32) list \<Rightarrow> (nat \<times> u32) list" where
  "log_call t n w = w @ [(t, n)]"

abbreviation calls_of :: "nat \<Rightarrow> (nat \<times> u32) list timers \<Rightarrow> (nat \<times> u32) list" where
  "calls_of t s \<equiv> filter (\<lambda>e. fst e = t) (world s)"

lemma fold_log_call: "fold (\<lambda>t. log_call t n) ts w = w @ map (\<lambda>t. (t, n)) ts"
  by (induction ts arbitrary: w) (simp_all add: log_call_def)

lemma filter_log: "distinct ts \<Longrightarrow> filter (\<lambda>e. fst e = t) (map (\<lambda>t. (t, n)) ts) = (if t \<in> set ts then [(t, n)] else [])"
  by (induction ts) auto

lemma in_due:
  assumes "ordered b s" "t \<in> set (rt_timer_list s)"
  shows "t \<in> set (due b s) \<longleftrightarrow> off b s t \<le> 1"
proof -
  have "t \<in> set (takeWhile (\<lambda>t. off b s t \<le> 1) ts) \<longleftrightarrow> off b s t \<le> 1"
    if "sorted_wrt (\<lambda>t u. off b s t \<le> off b s u) ts" "t \<in> set ts" for ts
    using that by (induction ts) fastforce+
  then show ?thesis
    using assms by (simp add: due_def ordered_def)
qed

lemma due_distinct: "ordered b s \<Longrightarrow> distinct (due b s)" "set (due b s) \<subseteq> set (rt_timer_list s)"
  by (auto simp: due_def ordered_def distinct_takeWhile dest: set_takeWhileD)

text \<open>A tick, seen from one timer.\<close>

lemma tick_log:
  assumes ok: "timers_ok s"
  obtains s' where "rt_tick_increase (quiet log_call) s = Some s'" "timers_ok s'" "rt_tick s' = rt_tick s + 1"
    "init_tick (timer_of s' t) = init_tick (timer_of s t)"
    "has RT_TIMER_FLAG_PERIODIC t s' = has RT_TIMER_FLAG_PERIODIC t s"
    "calls_of t s' = calls_of t s @
       (if t \<in> set (rt_timer_list s) \<and> off (rt_tick s) s t \<le> 1 then [(t, rt_tick s + 1)] else [])"
    "t \<in> set (rt_timer_list s') \<longleftrightarrow> t \<in> set (rt_timer_list s) \<and> (1 < off (rt_tick s) s t \<or> has RT_TIMER_FLAG_PERIODIC t s)"
    "t \<in> set (rt_timer_list s) \<Longrightarrow> 1 < off (rt_tick s) s t \<Longrightarrow> off (rt_tick s') s' t = off (rt_tick s) s t - 1"
    "t \<in> set (rt_timer_list s) \<Longrightarrow> off (rt_tick s) s t \<le> 1 \<Longrightarrow> has RT_TIMER_FLAG_PERIODIC t s
      \<Longrightarrow> off (rt_tick s') s' t = unat (init_tick (timer_of s t))"
    "t \<in> set (rt_timer_list s) \<Longrightarrow> off (rt_tick s) s t \<le> 1 \<Longrightarrow> \<not> has RT_TIMER_FLAG_PERIODIC t s
      \<Longrightarrow> \<not> has RT_TIMER_FLAG_ACTIVATED t s'"
    "t \<notin> set (rt_timer_list s) \<Longrightarrow> has RT_TIMER_FLAG_ACTIVATED t s' = has RT_TIMER_FLAG_ACTIVATED t s"
proof -
  let ?b = "rt_tick s"
  have o: "ordered ?b s"
    using ok by (simp add: timers_ok_def)
  obtain s' where s': "rt_tick_increase (quiet log_call) s = Some s'" "timers_ok s'" "rt_tick s' = ?b + 1"
    "world s' = fold (\<lambda>t. log_call t (?b + 1)) (due ?b s) (world s)"
    "set (rt_timer_list s') = {t \<in> set (rt_timer_list s). t \<in> set (due ?b s) \<longrightarrow> has RT_TIMER_FLAG_PERIODIC t s}"
    "\<And>t. t \<notin> set (due ?b s) \<Longrightarrow> timer_of s' t = timer_of s t"
    "\<And>t. init_tick (timer_of s' t) = init_tick (timer_of s t)"
    "\<And>t. has RT_TIMER_FLAG_PERIODIC t s' = has RT_TIMER_FLAG_PERIODIC t s"
    "\<And>t. t \<in> set (due ?b s) \<Longrightarrow> has RT_TIMER_FLAG_PERIODIC t s
       \<Longrightarrow> off (rt_tick s') s' t = unat (init_tick (timer_of s t))"
    "\<And>t. t \<in> set (due ?b s) \<Longrightarrow> has RT_TIMER_FLAG_ACTIVATED t s' = has RT_TIMER_FLAG_PERIODIC t s"
    by (rule tick_step [OF ok, of log_call]) blast
  have d: "t \<in> set (due ?b s) \<longleftrightarrow> t \<in> set (rt_timer_list s) \<and> off ?b s t \<le> 1"
    using in_due [OF o] due_distinct(2) [of ?b s] by blast
  have log: "calls_of t s' = calls_of t s @ (if t \<in> set (due ?b s) then [(t, ?b + 1)] else [])"
    using filter_log [OF due_distinct(1) [OF o], of t "?b + 1"] by (simp add: s'(4) fold_log_call)
  have later: "off (rt_tick s') s' t = off ?b s t - 1" if "1 < off ?b s t"
  proof -
    have "off ?b s' t = off ?b s t"
      using s'(6) [of t] that by (simp add: d off_def)
    then show ?thesis
      using off_next [of ?b s' t] that by (simp add: s'(3))
  qed
  have same: "has fl t s' = has fl t s" if "t \<notin> set (rt_timer_list s)" for fl
    using s'(6) [of t] that by (simp add: d has_def)
  show thesis
    by (rule that [OF s'(1-3,7,8)]) (use log later same s' d in auto)
qed

lemma started:
  assumes ok: "timers_ok s" and t: "\<not> has RT_TIMER_FLAG_SOFT_TIMER t s" "0 < n" "n < half"
    and n: "n = unat (init_tick (timer_of s t))"
  obtains s' where "rt_timer_start t s = Some (RT_EOK, s')" "timers_ok s'" "t \<in> set (rt_timer_list s')"
    "off (rt_tick s') s' t = n" "unat (init_tick (timer_of s' t)) = n" "rt_tick s' = rt_tick s" "world s' = world s"
    "has RT_TIMER_FLAG_PERIODIC t s' = has RT_TIMER_FLAG_PERIODIC t s" "has RT_TIMER_FLAG_ACTIVATED t s'"
proof -
  obtain s' where s': "rt_timer_start t s = Some (RT_EOK, s')" "ordered (rt_tick s) s'"
    "rt_timer_list s' = insert_timer (timeouts s') t (removeAll t (rt_timer_list s))"
    "off (rt_tick s) s' t = unat (rt_tick s - rt_tick s) + unat (init_tick (timer_of s t))"
    "\<And>u. u \<noteq> t \<Longrightarrow> timer_of s' u = timer_of s u" "init_tick (timer_of s' t) = init_tick (timer_of s t)"
    "\<And>u. has RT_TIMER_FLAG_PERIODIC u s' = has RT_TIMER_FLAG_PERIODIC u s"
    "rt_tick s' = rt_tick s" "world s' = world s"
    by (rule start_step [of "rt_tick s" s t]) (use ok t n in \<open>auto simp: timers_ok_def\<close>)
  have off: "off (rt_tick s) s' u = off (rt_tick s) s u" if "u \<noteq> t" for u
    using s'(5) [OF that] by (simp add: off_def)
  have l: "t \<in> set (rt_timer_list s')"
    by (simp add: s'(3))
  have "off (rt_tick s) s' u < half" if "u \<in> set (rt_timer_list s')" for u
    using that s'(3,4) ok off [of u] t n by (cases "u = t") (auto simp: timers_ok_def)
  then have "timers_ok s'"
    using s'(2) by (simp add: timers_ok_def s'(8))
  moreover have "has RT_TIMER_FLAG_ACTIVATED t s'"
    using s'(2) l by (simp add: ordered_def)
  ultimately show thesis
    using that [of s'] s' l n by simp
qed


text \<open>
  A one-shot timer of \<open>n\<close> ticks is called at its tick and never again, and is inactive from then on.
\<close>

theorem one_shot_fires_once:
  fixes s :: "(nat \<times> u32) list timers"
  assumes "timers_ok s" "\<not> has RT_TIMER_FLAG_SOFT_TIMER t s" "\<not> has RT_TIMER_FLAG_PERIODIC t s"
    and "n = unat (init_tick (timer_of s t))" "0 < n" "n < half"
  shows "\<exists>s1 s2. rt_timer_start t s = Some (RT_EOK, s1) \<and> ticks (quiet log_call) k s1 = Some s2 \<and> timers_ok s2
    \<and> calls_of t s2 = calls_of t s @ (if n \<le> k then [(t, rt_tick s + of_nat n)] else [])
    \<and> has RT_TIMER_FLAG_ACTIVATED t s2 = (k < n)"
proof -
  obtain s1 where s1: "rt_timer_start t s = Some (RT_EOK, s1)" "timers_ok s1" "t \<in> set (rt_timer_list s1)"
    "off (rt_tick s1) s1 t = n" "rt_tick s1 = rt_tick s" "world s1 = world s"
    "\<not> has RT_TIMER_FLAG_PERIODIC t s1" "has RT_TIMER_FLAG_ACTIVATED t s1"
    using started [OF assms(1,2,5,6,4)] assms(3) by metis
  have "\<exists>s2. ticks (quiet log_call) k s1 = Some s2 \<and> timers_ok s2 \<and> \<not> has RT_TIMER_FLAG_PERIODIC t s2
    \<and> (t \<in> set (rt_timer_list s2) \<longleftrightarrow> k < n) \<and> (k < n \<longrightarrow> off (rt_tick s2) s2 t = n - k)
    \<and> rt_tick s2 = rt_tick s + of_nat k \<and> has RT_TIMER_FLAG_ACTIVATED t s2 = (k < n)
    \<and> calls_of t s2 = calls_of t s @ (if n \<le> k then [(t, rt_tick s + of_nat n)] else [])"
  proof (induction k)
    case 0
    then show ?case
      using s1 assms(5) by simp
  next
    case (Suc k)
    then obtain s2 where s2: "ticks (quiet log_call) k s1 = Some s2" "timers_ok s2" "\<not> has RT_TIMER_FLAG_PERIODIC t s2"
      "t \<in> set (rt_timer_list s2) \<longleftrightarrow> k < n" "k < n \<longrightarrow> off (rt_tick s2) s2 t = n - k"
      "rt_tick s2 = rt_tick s + of_nat k" "has RT_TIMER_FLAG_ACTIVATED t s2 = (k < n)"
      "calls_of t s2 = calls_of t s @ (if n \<le> k then [(t, rt_tick s + of_nat n)] else [])"
      by blast
    have active: "has RT_TIMER_FLAG_ACTIVATED t s'" if "timers_ok s'" "t \<in> set (rt_timer_list s')" for s' :: "(nat \<times> u32) list timers"
      using that by (simp add: timers_ok_def ordered_def)
    have at: "rt_tick s2 + 1 = rt_tick s + of_nat n" if "Suc k = n"
      unfolding s2(6) that [symmetric] by simp
    show ?case
      by (rule tick_log [OF s2(2), of t]) (use s2 at active in auto)
  qed
  then show ?thesis
    using s1(1) by blast
qed

section \<open>Stopping\<close>

lemma stopped:
  assumes ok: "timers_ok s" and stop: "rt_timer_stop t s = (r, s')"
    and soft: "\<not> has RT_TIMER_FLAG_SOFT_TIMER t s"
  shows "timers_ok s'" "t \<notin> set (rt_timer_list s')" "\<not> has RT_TIMER_FLAG_ACTIVATED t s'"
    "r = (if has RT_TIMER_FLAG_ACTIVATED t s then RT_EOK else RT_ERROR)"
    "rt_tick s' = rt_tick s" "world s' = world s" "rt_soft_timer_list s' = rt_soft_timer_list s"
proof -
  have o: "ordered (rt_tick s) s"
    using ok by (simp add: timers_ok_def)
  have notin: "t \<notin> set (rt_soft_timer_list s)" "t \<in> set (rt_timer_list s) \<Longrightarrow> has RT_TIMER_FLAG_ACTIVATED t s"
    using o soft by (auto simp: ordered_def)
  let ?s' = "clear_active t (rt_timer_remove t s)"
  have o': "ordered (rt_tick s) ?s'"
    by (rule ordered_remove [OF o]) (use notin in \<open>auto simp: clear_active_def\<close>)
  have "timers_ok ?s'"
    using o' ok by (auto simp: timers_ok_def off_def clear_active_def)
  then show "timers_ok s'" "t \<notin> set (rt_timer_list s')" "\<not> has RT_TIMER_FLAG_ACTIVATED t s'"
    "r = (if has RT_TIMER_FLAG_ACTIVATED t s then RT_EOK else RT_ERROR)"
    "rt_tick s' = rt_tick s" "world s' = world s" "rt_soft_timer_list s' = rt_soft_timer_list s"
    using stop ok notin by (auto simp: rt_timer_stop_def clear_active_def has_def split: if_splits)
qed

text \<open>
  A stopped timer is not called again, however many ticks pass; stopping reports an error
  exactly when the timer was not active.
\<close>

theorem stopped_timer_silent:
  fixes s :: "(nat \<times> u32) list timers"
  assumes "timers_ok s" "\<not> has RT_TIMER_FLAG_SOFT_TIMER t s" "rt_timer_stop t s = (r, s1)"
  shows "r = (if has RT_TIMER_FLAG_ACTIVATED t s then RT_EOK else RT_ERROR)
    \<and> (\<exists>s2. ticks (quiet log_call) k s1 = Some s2 \<and> timers_ok s2 \<and> calls_of t s2 = calls_of t s
         \<and> \<not> has RT_TIMER_FLAG_ACTIVATED t s2)"
proof -
  note s1 = stopped [OF assms(1,3,2)]
  have "\<exists>s2. ticks (quiet log_call) k s1 = Some s2 \<and> timers_ok s2 \<and> calls_of t s2 = calls_of t s
    \<and> \<not> has RT_TIMER_FLAG_ACTIVATED t s2 \<and> t \<notin> set (rt_timer_list s2)"
  proof (induction k)
    case 0
    then show ?case
      using s1 by simp
  next
    case (Suc k)
    then obtain s2 where s2: "ticks (quiet log_call) k s1 = Some s2" "timers_ok s2" "calls_of t s2 = calls_of t s"
      "\<not> has RT_TIMER_FLAG_ACTIVATED t s2" "t \<notin> set (rt_timer_list s2)"
      by blast
    show ?case
      by (rule tick_log [OF s2(2), of t]) (use s2 in auto)
  qed
  then show ?thesis
    using s1(4) by blast
qed

section \<open>Reachable states\<close>

text \<open>
  The hard timers of a running system: every timer is a hard timer whose time is not zero and
  less than half the range, and a timer is initialised only while it is not running.
\<close>

definition sane :: "nat \<Rightarrow> 'w timers \<Rightarrow> bool" where
  "sane t s \<longleftrightarrow> \<not> has RT_TIMER_FLAG_SOFT_TIMER t s \<and> 0 < unat (init_tick (timer_of s t))
     \<and> unat (init_tick (timer_of s t)) < half"

inductive timer_reach :: "(nat \<Rightarrow> u32 \<Rightarrow> 'w \<Rightarrow> 'w) \<Rightarrow> 'w timers \<Rightarrow> bool" for f where
  boot: "\<forall>t. sane t s \<Longrightarrow> timer_reach f (rt_system_timer_thread_init (rt_system_timer_init s))"
| init: "timer_reach f s \<Longrightarrow> t \<notin> set (rt_timer_list s) \<Longrightarrow> 0 < unat time \<Longrightarrow> unat time < half
    \<Longrightarrow> fl AND RT_TIMER_FLAG_SOFT_TIMER = 0 \<Longrightarrow> timer_reach f (rt_timer_init t time fl s)"
| start: "timer_reach f s \<Longrightarrow> rt_timer_start t s = Some (r, s') \<Longrightarrow> timer_reach f s'"
| stop: "timer_reach f s \<Longrightarrow> rt_timer_stop t s = (r, s') \<Longrightarrow> timer_reach f s'"
| detach: "timer_reach f s \<Longrightarrow> rt_timer_detach t s = (r, s') \<Longrightarrow> timer_reach f s'"
| delete: "timer_reach f s \<Longrightarrow> rt_timer_delete t s = (r, s') \<Longrightarrow> timer_reach f s'"
| control: "timer_reach f s \<Longrightarrow> rt_timer_control t cmd arg s = (r, arg', s')
    \<Longrightarrow> cmd = RT_TIMER_CTRL_SET_TIME \<longrightarrow> 0 < unat arg \<and> unat arg < half \<Longrightarrow> timer_reach f s'"
| tick: "timer_reach f s \<Longrightarrow> rt_tick_increase (quiet f) s = Some s' \<Longrightarrow> timer_reach f s'"

inductive_cases timer_reachE: "timer_reach f s"

definition all_ok :: "'w timers \<Rightarrow> bool" where
  "all_ok s \<longleftrightarrow> timers_ok s \<and> rt_soft_timer_list s = [] \<and> (\<forall>t. sane t s)"

lemma all_ok_start:
  assumes "all_ok s"
  shows "\<exists>s'. rt_timer_start t s = Some (RT_EOK, s') \<and> all_ok s'"
proof -
  have t: "timers_ok s" "\<not> has RT_TIMER_FLAG_SOFT_TIMER t s" "0 < unat (init_tick (timer_of s t))"
    "unat (init_tick (timer_of s t)) < half" "t \<notin> set (rt_soft_timer_list s)"
    using assms by (auto simp: all_ok_def sane_def)
  obtain s' where s': "rt_timer_start t s = Some (RT_EOK, s')" "timers_ok s'"
    using started [OF t(1-4) refl] by metis
  obtain s2 where s2: "rt_timer_start t s = Some (RT_EOK, s2)"
    "timer_of s2 = (timer_of s)(t := timer_of s t
       \<lparr>flag := (flag (timer_of s t) AND NOT RT_TIMER_FLAG_ACTIVATED) OR RT_TIMER_FLAG_ACTIVATED,
         timeout_tick := rt_tick s + init_tick (timer_of s t)\<rparr>)"
    "rt_soft_timer_list s2 = rt_soft_timer_list s"
    using start_fields [OF t(2,4,5)] by metis
  have "s2 = s'"
    using s'(1) s2(1) by simp
  then show ?thesis
    using s' s2(2,3) assms by (auto simp: all_ok_def sane_def has_def)
qed

text \<open>Changing fields of timers that the order does not read keeps it.\<close>

lemma all_ok_change:
  assumes "all_ok s" "rt_timer_list s' = rt_timer_list s" "rt_soft_timer_list s' = rt_soft_timer_list s"
    and "rt_tick s' = rt_tick s" "\<forall>t. sane t s'"
    and "\<And>t. t \<in> set (rt_timer_list s) \<Longrightarrow> timeouts s' t = timeouts s t
      \<and> has RT_TIMER_FLAG_ACTIVATED t s' = has RT_TIMER_FLAG_ACTIVATED t s"
  shows "all_ok s'"
proof -
  have off: "off b s' t = off b s t" if "t \<in> set (rt_timer_list s)" for b t
    using assms(6) [OF that] by (simp add: off_def)
  have "sorted_wrt (\<lambda>t u. off (rt_tick s) s' t \<le> off (rt_tick s) s' u) (rt_timer_list s)
      = sorted_wrt (\<lambda>t u. off (rt_tick s) s t \<le> off (rt_tick s) s u) (rt_timer_list s)"
    by (rule sorted_wrt_cong) (simp add: off)
  then show ?thesis
    using assms off by (auto simp: all_ok_def timers_ok_def ordered_def sane_def)
qed

lemma all_ok_remove:
  assumes "all_ok s" "timer_of s' = timer_of s" "rt_timer_list s' = removeAll t (rt_timer_list s)"
    and "rt_soft_timer_list s' = []" "rt_tick s' = rt_tick s"
  shows "all_ok s'"
proof -
  have "ordered (rt_tick s) s'"
    by (rule ordered_remove [of _ s _ t]) (use assms in \<open>auto simp: all_ok_def timers_ok_def\<close>)
  then show ?thesis
    using assms by (auto simp: all_ok_def timers_ok_def off_def sane_def has_def)
qed

lemma all_ok_stop:
  assumes "all_ok s" "rt_timer_stop t s = (r, s')"
  shows "all_ok s'"
proof -
  have t: "\<not> has RT_TIMER_FLAG_SOFT_TIMER t s" "timers_ok s"
    using assms(1) by (auto simp: all_ok_def sane_def)
  have "sane u s' = sane u s" for u
    using assms(2) by (auto simp: rt_timer_stop_def clear_active_def has_def sane_def split: if_splits)
  then show ?thesis
    using stopped [OF t(2) assms(2) t(1)] assms(1) by (simp add: all_ok_def)
qed

lemma all_ok_control:
  assumes ok: "all_ok s" and c: "rt_timer_control t cmd arg s = (r, arg', s')"
    and "cmd = RT_TIMER_CTRL_SET_TIME \<longrightarrow> 0 < unat arg \<and> unat arg < half"
  shows "all_ok s'"
proof -
  have sane: "sane u s" for u
    using ok by (simp add: all_ok_def)
  have "sane u s'" for u
    using c assms(3) sane [of u] sane [of t]
    by (cases "u = t") (auto simp: rt_timer_control_def sane_def has_def split: if_splits)
  moreover have "timeouts s' u = timeouts s u \<and> has RT_TIMER_FLAG_ACTIVATED u s' = has RT_TIMER_FLAG_ACTIVATED u s" for u
    using c by (cases "u = t") (auto simp: rt_timer_control_def has_def split: if_splits)
  moreover have "rt_timer_list s' = rt_timer_list s" "rt_soft_timer_list s' = rt_soft_timer_list s" "rt_tick s' = rt_tick s"
    using c by (auto simp: rt_timer_control_def split: if_splits)
  ultimately show ?thesis
    using all_ok_change [OF ok] by blast
qed

lemma all_ok_tick:
  assumes "all_ok s"
  shows "\<exists>s'. rt_tick_increase (quiet f) s = Some s' \<and> all_ok s'"
proof -
  have "timers_ok s"
    using assms by (simp add: all_ok_def)
  from tick_step [OF this, of f] obtain s' where "rt_tick_increase (quiet f) s = Some s'" "timers_ok s'"
    "\<And>t. init_tick (timer_of s' t) = init_tick (timer_of s t)"
    "\<And>t. has RT_TIMER_FLAG_SOFT_TIMER t s' = has RT_TIMER_FLAG_SOFT_TIMER t s"
    "rt_soft_timer_list s' = rt_soft_timer_list s"
    by metis
  then show ?thesis
    using assms by (auto simp: all_ok_def sane_def)
qed

lemma all_ok_reach: "timer_reach f s \<Longrightarrow> all_ok s"
proof (induction rule: timer_reach.induct)
  case (boot s)
  then show ?case
    by (auto simp: all_ok_def timers_ok_def ordered_def rt_system_timer_init_def rt_system_timer_thread_init_def sane_def has_def)
next
  case (init s t time fl)
  have "sane u (rt_timer_init t time fl s)" for u
    using init by (cases "u = t") (auto simp: all_ok_def sane_def has_def rt_timer_init_def)
  moreover have "timer_of (rt_timer_init t time fl s) u = timer_of s u" if "u \<in> set (rt_timer_list s)" for u
    using init(2) that by (auto simp: rt_timer_init_def)
  moreover have "all_ok s"
    using init by simp
  ultimately show ?case
    using all_ok_change [of s "rt_timer_init t time fl s"] by (simp add: rt_timer_init_def has_def)
next
  case (start s t r s')
  then show ?case
    using all_ok_start [of s t] by auto
next
  case (stop s t r s')
  then show ?case
    using all_ok_stop by blast
next
  case (detach s t r s')
  then show ?case
    by (intro all_ok_remove [of s s' t]) (auto simp: rt_timer_detach_def all_ok_def)
next
  case (delete s t r s')
  then show ?case
    by (intro all_ok_remove [of s s' t]) (auto simp: rt_timer_delete_def all_ok_def)
next
  case (control s t cmd arg r arg' s')
  then show ?case
    using all_ok_control by blast
next
  case (tick s s')
  then show ?case
    using all_ok_tick [of s f] by auto
qed


section \<open>Timers that do not work\<close>

text \<open>A periodic timer with time 0 is due again as soon as it has been called.\<close>

definition stuck :: "nat \<Rightarrow> u32 \<Rightarrow> 'w timers \<Rightarrow> bool" where
  "stuck t c s \<longleftrightarrow> rt_timer_list s = [t] \<and> rt_soft_timer_list s = [] \<and> c - timeouts s t < RT_TICK_MAX div 2
     \<and> has RT_TIMER_FLAG_ACTIVATED t s \<and> has RT_TIMER_FLAG_PERIODIC t s \<and> \<not> has RT_TIMER_FLAG_SOFT_TIMER t s
     \<and> init_tick (timer_of s t) = 0"

lemma stuck_start:
  assumes "rt_timer_list s = []" "rt_soft_timer_list s = []" "has RT_TIMER_FLAG_PERIODIC t s"
    and "\<not> has RT_TIMER_FLAG_SOFT_TIMER t s" "init_tick (timer_of s t) = 0"
  obtains s' where "rt_timer_start t s = Some (RT_EOK, s')" "stuck t (rt_tick s') s'"
    "stuck t (rt_tick s' + 1) s'" "rt_tick s' = rt_tick s"
proof -
  have t: "t \<notin> set (rt_soft_timer_list s)" "unat (init_tick (timer_of s t)) < half"
    using assms by (auto simp: half_def)
  have pos: "0 < RT_TICK_MAX div 2" "1 < RT_TICK_MAX div 2"
    by (simp_all add: RT_TICK_MAX_def)
  obtain s' where s': "rt_timer_start t s = Some (RT_EOK, s')"
    "timer_of s' = (timer_of s)(t := timer_of s t
       \<lparr>flag := (flag (timer_of s t) AND NOT RT_TIMER_FLAG_ACTIVATED) OR RT_TIMER_FLAG_ACTIVATED,
         timeout_tick := rt_tick s + init_tick (timer_of s t)\<rparr>)"
    "rt_timer_list s' = insert_timer (timeouts s') t (removeAll t (rt_timer_list s))"
    "rt_soft_timer_list s' = rt_soft_timer_list s" "rt_tick s' = rt_tick s" "world s' = world s"
    by (rule start_fields [OF assms(4) t(2,1)])
  show thesis
    by (rule that [OF s'(1)]) (use s' assms pos in \<open>simp_all add: stuck_def has_def\<close>)
qed

lemma stuck_expire:
  assumes "stuck t (rt_tick s) s"
  obtains s' where "expire (quiet f) t s = Some s'" "stuck t (rt_tick s') s'"
proof -
  let ?s2 = "clear_active t ((rt_timer_remove t s)\<lparr>world := f t (rt_tick s) (world s)\<rparr>)"
  have e: "expire (quiet f) t s = do { (_, s) \<leftarrow> rt_timer_start t ?s2; Some s }"
    using assms by (simp add: expire_def quiet_def has_def stuck_def)
  show thesis
    by (rule stuck_start [of ?s2 t]) (use assms e that in \<open>auto simp: stuck_def clear_active_def has_def\<close>)
qed

text \<open>
  The check never returns from such a state; the first round may start with the tick of an
  earlier reading.
\<close>

lemma stuck_loop:
  assumes "timer_check_loop call c s = Some y"
  shows "call = quiet f \<longrightarrow> c = rt_tick s \<longrightarrow> \<not> stuck t c s"
proof (rule timer_check_loop.raw_induct [OF _ assms,
    of "\<lambda>call c s y. call = quiet f \<longrightarrow> c = rt_tick s \<longrightarrow> \<not> stuck t c s"], intro impI notI)
  fix loop :: "'a timeout_func \<Rightarrow> u32 \<Rightarrow> 'a timers \<Rightarrow> 'a timers option" and call c s y
  assume ih: "\<And>call c s y. loop call c s = Some y \<Longrightarrow> call = quiet f \<longrightarrow> c = rt_tick s \<longrightarrow> \<not> stuck t c s"
    and body: "(case rt_timer_list s of [] \<Rightarrow> Some s | t # _ \<Rightarrow>
        if c - timeouts s t < RT_TICK_MAX div 2 then do { s \<leftarrow> expire call t s; loop call (rt_tick s) s } else Some s) = Some y"
    and call: "call = quiet f" and c: "c = rt_tick s" and st: "stuck t c s"
  obtain s' where s': "expire (quiet f) t s = Some s'" "stuck t (rt_tick s') s'"
    using stuck_expire st c by blast
  have "loop call (rt_tick s') s' = Some y"
    using body st s'(1) call by (simp add: stuck_def)
  then show False
    using ih s'(2) call by blast
qed

text \<open>
  C40. A periodic timer whose time is 0 passes the check of \<open>rt_timer_start\<close>, but the next tick
  interrupt never returns: the timer is started again and is due again at once.
\<close>

theorem zero_period_hangs:
  assumes "rt_timer_list s = []" "rt_soft_timer_list s = []" "has RT_TIMER_FLAG_PERIODIC t s"
    and "\<not> has RT_TIMER_FLAG_SOFT_TIMER t s" "init_tick (timer_of s t) = 0"
  shows "\<exists>s'. rt_timer_start t s = Some (RT_EOK, s') \<and> rt_tick_increase (quiet f) s' = None"
proof -
  obtain s' where s': "rt_timer_start t s = Some (RT_EOK, s')" "stuck t (rt_tick s' + 1) s'"
    by (rule stuck_start [OF assms])
  obtain s1 where s1: "rt_tick_increase (quiet f) s' = timer_check_loop (quiet f) (rt_tick s1) s1"
    "stuck t (rt_tick s1) s1"
    by (rule that [of "if remaining_tick s' - 1 = 0
        then s'\<lparr>rt_tick := rt_tick s' + 1, remaining_tick := thread_init_tick s', yields_done := yields_done s' + 1\<rparr>
        else s'\<lparr>rt_tick := rt_tick s' + 1, remaining_tick := remaining_tick s' - 1\<rparr>"])
      (use s'(2) in \<open>auto simp: rt_tick_increase_def rt_timer_check_def Let_def stuck_def has_def\<close>)
  have "timer_check_loop (quiet f) (rt_tick s1) s1 \<noteq> Some y" for y
    using stuck_loop [of "quiet f" "rt_tick s1" s1 y f t] s1(2) by auto
  then show ?thesis
    using s'(1) s1(1) by (metis option.exhaust)
qed

text \<open>
  The cursor of the soft timers: the timeout function of \<open>t\<close> stops \<open>u\<close>, as any timeout function may.
\<close>

definition stops :: "nat \<Rightarrow> nat \<Rightarrow> 'w timeout_func" where
  "stops t u x s = Some (if x = t then snd (rt_timer_stop u s) else s)"

definition soft_stuck :: "nat \<Rightarrow> u32 \<Rightarrow> 'w timers \<Rightarrow> bool" where
  "soft_stuck u c s \<longleftrightarrow> u \<notin> set (rt_soft_timer_list s) \<and> c - timeouts s u < RT_TICK_MAX div 2
     \<and> \<not> has RT_TIMER_FLAG_PERIODIC u s"

lemma successor_outside: "u \<notin> set ts \<Longrightarrow> successor ts u = Some u"
  by (induction ts) auto

lemma soft_stuck_loop:
  assumes "soft_check_loop call c n s = Some y"
  shows "call = stops t u \<longrightarrow> t \<noteq> u \<longrightarrow> c = rt_tick s \<longrightarrow> n = Some u \<longrightarrow> \<not> soft_stuck u c s"
proof (rule soft_check_loop.raw_induct [OF _ assms,
    of "\<lambda>call c n s y. call = stops t u \<longrightarrow> t \<noteq> u \<longrightarrow> c = rt_tick s \<longrightarrow> n = Some u \<longrightarrow> \<not> soft_stuck u c s"],
    intro impI notI)
  fix loop :: "'a timeout_func \<Rightarrow> u32 \<Rightarrow> nat option \<Rightarrow> 'a timers \<Rightarrow> 'a timers option" and call c n s y
  assume ih: "\<And>call c n s y. loop call c n s = Some y
      \<Longrightarrow> call = stops t u \<longrightarrow> t \<noteq> u \<longrightarrow> c = rt_tick s \<longrightarrow> n = Some u \<longrightarrow> \<not> soft_stuck u c s"
    and body: "(case n of None \<Rightarrow> Some s | Some t \<Rightarrow> if c - timeouts s t < RT_TICK_MAX div 2
        then do { let n = successor (rt_soft_timer_list s) t; s \<leftarrow> expire call t s; loop call (rt_tick s) n s }
        else Some s) = Some y"
    and call: "call = stops t u" "t \<noteq> u" and c: "c = rt_tick s" "n = Some u" and st: "soft_stuck u c s"
  let ?s' = "clear_active u (rt_timer_remove u s)"
  have "expire call u s = Some ?s'"
    using st call by (simp add: expire_def stops_def soft_stuck_def has_def)
  then have "loop call (rt_tick ?s') (Some u) ?s' = Some y"
    using body st c by (simp add: soft_stuck_def successor_outside)
  moreover have "soft_stuck u (rt_tick ?s') ?s'"
    using st c by (simp add: soft_stuck_def clear_active_def has_def)
  ultimately show False
    using ih call by blast
qed

text \<open>
  When the timeout function of a soft timer stops the timer after it, which is due too, the
  check goes on with the stopped timer: it is linked to itself, so its function is called again
  and again and the check does not return while the tick stands still.
\<close>

theorem soft_cursor_hangs:
  assumes "rt_soft_timer_list s = t # u # us" "distinct (t # u # us)"
    and "rt_tick s - timeouts s t < RT_TICK_MAX div 2" "rt_tick s - timeouts s u < RT_TICK_MAX div 2"
    and "has RT_TIMER_FLAG_ACTIVATED u s" "\<not> has RT_TIMER_FLAG_PERIODIC t s" "\<not> has RT_TIMER_FLAG_PERIODIC u s"
  shows "rt_soft_timer_check (stops t u) s = None"
proof -
  let ?s1 = "clear_active t (clear_active u (rt_timer_remove u (rt_timer_remove t s)))"
  have "has RT_TIMER_FLAG_ACTIVATED u (rt_timer_remove t s)"
    using assms(5) by (simp add: has_def)
  then have "expire (stops t u) t s = Some ?s1"
    using assms(2,6) by (simp add: expire_def stops_def rt_timer_stop_def has_def clear_active_def)
  then have "rt_soft_timer_check (stops t u) s = soft_check_loop (stops t u) (rt_tick ?s1) (Some u) ?s1"
    using assms(1,3) by (simp add: rt_soft_timer_check_def soft_check_loop.simps [of _ "rt_tick s"] Let_def)
  moreover have "soft_stuck u (rt_tick ?s1) ?s1"
    using assms by (simp add: soft_stuck_def clear_active_def has_def)
  ultimately show ?thesis
    using soft_stuck_loop [of "stops t u" "rt_tick ?s1" "Some u" ?s1 _ t u] assms(2)
    by (metis (no_types, lifting) distinct_length_2_or_more option.exhaust)
qed

text \<open>
  The conversion of milliseconds to ticks, one tick being a millisecond, is exact up to
  4294966 milliseconds (about 71 minutes) and wrong for every longer time.
\<close>

theorem milliseconds_exact_range:
  "rt_tick_from_millisecond ms = ms \<longleftrightarrow> unat ms \<le> 4294966"
proof -
  have u: "unat (rt_tick_from_millisecond ms) = (1000 * unat ms + 999) mod 4294967296 div 1000"
    by (simp add: rt_tick_from_millisecond_def unat_div unat_word_ariths mod_simps)
  have "rt_tick_from_millisecond ms = ms \<longleftrightarrow> (1000 * unat ms + 999) mod 4294967296 div 1000 = unat ms"
    by (simp add: word_unat_eq_iff u)
  also have "\<dots> \<longleftrightarrow> unat ms \<le> 4294966"
  proof (cases "unat ms \<le> 4294966")
    case True
    then show ?thesis
      by simp
  next
    case False
    have "(1000 * unat ms + 999) mod 4294967296 < 4294967296"
      by simp
    then have "(1000 * unat ms + 999) mod 4294967296 div 1000 \<le> 4294967"
      by linarith
    moreover have "(1000 * (4294967::nat) + 999) mod 4294967296 div 1000 = 0"
      by simp
    ultimately show ?thesis
      using False by (cases "unat ms = 4294967") simp_all
  qed
  finally show ?thesis .
qed

section \<open>Examples\<close>

text \<open>A system at tick \<open>n\<close> whose timers all have the flags \<open>fl\<close> and the time \<open>i\<close> and do not run.\<close>

definition idle_timers :: "u8 \<Rightarrow> u32 \<Rightarrow> u32 \<Rightarrow> (nat \<times> u32) list timers" where
  "idle_timers fl i n = \<lparr>timer_of = \<lambda>_. \<lparr>flag = fl, init_tick = i, timeout_tick = 0\<rparr>, rt_timer_list = [],
     rt_soft_timer_list = [], rt_tick = n, timer_thread_ready = False, thread_init_tick = 10,
     remaining_tick = 4, yields_done = 0, random_nr = 0, world = []\<rparr>"

lemma idle_timers_ok: "timers_ok (idle_timers fl i n)"
  by (simp add: timers_ok_def ordered_def idle_timers_def)

lemmas idle_simps = idle_timers_def has_def flag_defs half_def sane_def

lemma wrapped: "(4294967296 :: u32) = 0" "(4294967297 :: u32) = 1"
  by simp_all


lemma one_shot_fires_once_witness:
  "\<exists>s1 s2. rt_timer_start 0 (idle_timers 0 3 0xFFFFFFFE) = Some (RT_EOK, s1)
    \<and> ticks (quiet log_call) 8 s1 = Some s2 \<and> timers_ok s2 \<and> calls_of 0 s2 = [(0, 1)]
    \<and> \<not> has RT_TIMER_FLAG_ACTIVATED 0 s2"
  using one_shot_fires_once [OF idle_timers_ok, of 0 0 3 "0xFFFFFFFE" 3 8]
  by (simp add: idle_simps wrapped)

definition running_timers :: "(nat \<times> u32) list timers" where
  "running_timers = (idle_timers 0 0 100)\<lparr>rt_timer_list := [0, 1],
     timer_of := (\<lambda>_. \<lparr>flag = 3, init_tick = 5, timeout_tick = 101\<rparr>)(1 := \<lparr>flag = 1, init_tick = 9, timeout_tick = 104\<rparr>)\<rparr>"

lemma stopped_timer_silent_witness:
  "\<exists>s2. ticks (quiet log_call) 50 (snd (rt_timer_stop 0 running_timers)) = Some s2 \<and> calls_of 0 s2 = []"
proof -
  have "timers_ok running_timers"
    by (simp add: timers_ok_def ordered_def running_timers_def off_def idle_simps)
  from stopped_timer_silent [OF this _ prod.collapse [symmetric], of 0 50] show ?thesis
    by (force simp: running_timers_def idle_simps)
qed


lemma zero_period_hangs_witness:
  "\<exists>s'. rt_timer_start 0 (idle_timers 2 0 7) = Some (RT_EOK, s') \<and> rt_tick_increase (quiet log_call) s' = None"
  by (rule zero_period_hangs) (simp_all add: idle_simps)

definition two_soft_timers :: "(nat \<times> u32) list timers" where
  "two_soft_timers = (idle_timers 0 0 100)\<lparr>rt_soft_timer_list := [0, 1],
     timer_of := (\<lambda>_. \<lparr>flag = 5, init_tick = 5, timeout_tick = 100\<rparr>)\<rparr>"

lemma soft_cursor_hangs_witness: "rt_soft_timer_check (stops 0 1) two_soft_timers = None"
  by (rule soft_cursor_hangs [of _ _ _ "[]"]) (simp_all add: two_soft_timers_def idle_simps RT_TICK_MAX_def)

end
