(* ===== verification/Kernel_Ffs.thy ===== *)
theory Kernel_Ffs
  imports Prelude
begin

text \<open>
  The search for the lowest set bit with which the scheduler finds the highest ready priority:
  the portable function of \<^verbatim>\<open>src/kservice.c\<close> and the one of
  \<^verbatim>\<open>libcpu/arm/cortex-m3/cpuport.c\<close>, which the configuration selects.
\<close>

section \<open>The lowest bit\<close>

definition lowest_bit_bitmap :: "u8 list" where
  "lowest_bit_bitmap =
    [0, 0, 1, 0, 2, 0, 1, 0, 3, 0, 1, 0, 2, 0, 1, 0,
     4, 0, 1, 0, 2, 0, 1, 0, 3, 0, 1, 0, 2, 0, 1, 0,
     5, 0, 1, 0, 2, 0, 1, 0, 3, 0, 1, 0, 2, 0, 1, 0,
     4, 0, 1, 0, 2, 0, 1, 0, 3, 0, 1, 0, 2, 0, 1, 0,
     6, 0, 1, 0, 2, 0, 1, 0, 3, 0, 1, 0, 2, 0, 1, 0,
     4, 0, 1, 0, 2, 0, 1, 0, 3, 0, 1, 0, 2, 0, 1, 0,
     5, 0, 1, 0, 2, 0, 1, 0, 3, 0, 1, 0, 2, 0, 1, 0,
     4, 0, 1, 0, 2, 0, 1, 0, 3, 0, 1, 0, 2, 0, 1, 0,
     7, 0, 1, 0, 2, 0, 1, 0, 3, 0, 1, 0, 2, 0, 1, 0,
     4, 0, 1, 0, 2, 0, 1, 0, 3, 0, 1, 0, 2, 0, 1, 0,
     5, 0, 1, 0, 2, 0, 1, 0, 3, 0, 1, 0, 2, 0, 1, 0,
     4, 0, 1, 0, 2, 0, 1, 0, 3, 0, 1, 0, 2, 0, 1, 0,
     6, 0, 1, 0, 2, 0, 1, 0, 3, 0, 1, 0, 2, 0, 1, 0,
     4, 0, 1, 0, 2, 0, 1, 0, 3, 0, 1, 0, 2, 0, 1, 0,
     5, 0, 1, 0, 2, 0, 1, 0, 3, 0, 1, 0, 2, 0, 1, 0,
     4, 0, 1, 0, 2, 0, 1, 0, 3, 0, 1, 0, 2, 0, 1, 0]"

text \<open>The portable function of \<^verbatim>\<open>kservice.c\<close>.\<close>

definition rt_ffs_portable :: "u32 \<Rightarrow> u32 option" where
  "rt_ffs_portable v =
     (if v = 0 then Some 0
      else if v AND 0xff \<noteq> 0 then do {
        i \<leftarrow> rd lowest_bit_bitmap (unat (v AND 0xff));
        Some (ucast i + 1)
      }
      else if v AND 0xff00 \<noteq> 0 then do {
        i \<leftarrow> rd lowest_bit_bitmap (unat (drop_bit 8 (v AND 0xff00)));
        Some (ucast i + 9)
      }
      else if v AND 0xff0000 \<noteq> 0 then do {
        i \<leftarrow> rd lowest_bit_bitmap (unat (drop_bit 16 (v AND 0xff0000)));
        Some (ucast i + 17)
      }
      else do {
        i \<leftarrow> rd lowest_bit_bitmap (unat (drop_bit 24 (v AND 0xff000000)));
        Some (ucast i + 25)
      })"

text \<open>The instructions \<open>RBIT\<close> and \<open>CLZ\<close>, and the function of \<^verbatim>\<open>cpuport.c\<close> made of them.\<close>

definition bits :: "u32 \<Rightarrow> bool list" where "bits w = map (bit w) [0..<32]"

definition RBIT :: "u32 \<Rightarrow> u32" where "RBIT w = horner_sum of_bool 2 (rev (bits w))"

definition CLZ :: "u32 \<Rightarrow> u32" where "CLZ w = of_nat (length (takeWhile Not (rev (bits w))))"

definition rt_ffs :: "u32 \<Rightarrow> u32" where
  "rt_ffs v = (if v = 0 then 0 else CLZ (RBIT v) + 1)"

text \<open>Both give the number of the lowest bit, counted from 1.\<close>

definition is_lowest_bit :: "u32 \<Rightarrow> nat \<Rightarrow> bool" where
  "is_lowest_bit v n \<longleftrightarrow> bit v n \<and> (\<forall>i < n. \<not> bit v i)"

lemma is_lowest_bit_unique: "is_lowest_bit v n \<Longrightarrow> is_lowest_bit v m \<Longrightarrow> n = m"
  by (meson is_lowest_bit_def linorder_neqE_nat)

lemma bits_RBIT: "bits (RBIT w) = rev (bits w)"
  by (rule nth_equalityI) (simp_all add: bits_def RBIT_def bit_horner_sum_bit_word_iff rev_nth)

lemma bits_nth: "i < 32 \<Longrightarrow> bits w ! i = bit w i"
  by (simp add: bits_def)

lemma length_bits: "length (bits w) = 32"
  by (simp add: bits_def)

lemma takeWhile_short: "x \<in> set xs \<Longrightarrow> x \<Longrightarrow> length (takeWhile Not xs) < length xs"
  by (induction xs) auto

lemma rt_ffs_lowest:
  assumes "v \<noteq> 0"
  obtains n where "rt_ffs v = of_nat (Suc n)" "is_lowest_bit v n" "n < 32"
proof -
  let ?n = "length (takeWhile Not (bits v))"
  obtain i where "bit v i"
    using assms by (metis bit_eqI bit_0_eq bot_apply bot_bool_def)
  then have "bits v ! i" "i < 32"
    using bit_imp_le_length [of v i] by (simp_all add: bits_nth)
  then have i: "True \<in> set (bits v)"
    by (metis (full_types) length_bits nth_mem)
  then have lt: "?n < length (bits v)"
    using takeWhile_short [OF i] by simp
  have "bits v ! ?n"
    using nth_length_takeWhile [OF lt] by simp
  moreover have "\<not> bits v ! j" if "j < ?n" for j
    using that nth_mem [of j "takeWhile Not (bits v)"] by (auto simp: takeWhile_nth dest: set_takeWhileD)
  ultimately have "is_lowest_bit v ?n"
    using lt by (auto simp: is_lowest_bit_def bits_nth length_bits)
  moreover have "rt_ffs v = of_nat (Suc ?n)"
    using assms by (simp add: rt_ffs_def CLZ_def bits_RBIT)
  ultimately show thesis
    using that lt by (simp add: length_bits)
qed

text \<open>
  The table is a ruler: it is built by doubling. The number \<open>n\<close> of the lowest bit of \<open>i\<close> is the one
  with \<open>i mod 2 ^ Suc n = 2 ^ n\<close>.
\<close>

fun ruler :: "nat \<Rightarrow> nat list" where
  "ruler 0 = [0]"
| "ruler (Suc k) = ruler k @ (ruler k)[0 := k]"

lemma length_ruler [simp]: "length (ruler k) = 2 ^ k"
  by (induction k) simp_all

lemma ruler_lowest: "0 < i \<Longrightarrow> i < 2 ^ k \<Longrightarrow> ruler k ! i < k \<and> i mod 2 ^ Suc (ruler k ! i) = 2 ^ (ruler k ! i)"
proof (induction k arbitrary: i)
  case 0
  then show ?case
    by simp
next
  case (Suc k)
  have "i < 2 ^ k \<or> i = 2 ^ k \<or> (\<exists>r. i = 2 ^ k + r \<and> 0 < r \<and> r < 2 ^ k)"
    using Suc.prems by (auto intro!: exI [of _ "i - 2 ^ k"])
  then consider (low) "i < 2 ^ k" | (mid) "i = 2 ^ k" | (high) r where "i = 2 ^ k + r" "0 < r" "r < 2 ^ k"
    by blast
  then show ?case
  proof cases
    case low
    then show ?thesis
      using Suc.IH [of i] Suc.prems by (simp add: nth_append)
  next
    case mid
    then show ?thesis
      by (simp add: nth_append)
  next
    case high
    let ?n = "ruler k ! r"
    have n: "?n < k" "r mod 2 ^ Suc ?n = 2 ^ ?n"
      using Suc.IH [of r] high by auto
    then have "2 ^ k mod (2 :: nat) ^ Suc ?n = 0"
      by (simp add: le_imp_power_dvd Suc_leI del: power_Suc)
    then have "i mod 2 ^ Suc ?n = 2 ^ ?n"
      using n(2) high(1) by (metis mod_add_left_eq add_0)
    then show ?thesis
      using high n(1) by (simp add: nth_append del: power_Suc)
  qed
qed

lemma lowest_bit_bitmap_ruler: "lowest_bit_bitmap = map of_nat (ruler 8)"
  by (simp add: lowest_bit_bitmap_def numeral_eq_Suc [of "num.Bit0 _"] eval_nat_numeral)

lemma bitmap_lowest:
  fixes b :: u8
  assumes "b \<noteq> 0"
  obtains n where "rd lowest_bit_bitmap (unat b) = Some (of_nat n)" "n < 8" "bit b n" "\<forall>i < n. \<not> bit b i"
proof -
  let ?n = "ruler 8 ! unat b"
  have u: "unat b < 256" "0 < unat b"
    using unat_u8 [of b] assms by (simp_all add: unat_gt_0)
  then have n: "?n < 8" "take_bit (Suc ?n) (unat b) = 2 ^ ?n"
    using ruler_lowest [of "unat b" 8] by (simp_all add: take_bit_eq_mod)
  have "bit (unat b) j \<longleftrightarrow> j = ?n" if "j < Suc ?n" for j
    using that n(2) bit_take_bit_iff [of "Suc ?n" "unat b" j] by (simp add: bit_exp_iff possible_bit_def)
  then have "bit b j \<longleftrightarrow> j = ?n" if "j < Suc ?n" for j
    using that by (simp add: bit_unsigned_iff)
  then show thesis
    using that [of ?n] u n(1) by (simp add: rd_def lowest_bit_bitmap_ruler)
qed

text \<open>The table gives the same number as the instructions.\<close>

lemma ffs_byte:
  fixes v :: u32
  assumes "ucast (drop_bit k v) \<noteq> (0 :: u8)" "\<forall>i < k. \<not> bit v i" "k + 8 \<le> 32"
  shows "rd lowest_bit_bitmap (unat (ucast (drop_bit k v) :: u8)) \<bind> (\<lambda>i. Some (ucast i + of_nat (k + 1))) = Some (rt_ffs v)"
proof -
  let ?b = "ucast (drop_bit k v) :: u8"
  obtain n where n: "rd lowest_bit_bitmap (unat ?b) = Some (of_nat n)" "n < 8" "bit ?b n" "\<forall>i < n. \<not> bit ?b i"
    by (rule bitmap_lowest [OF assms(1)])
  have b: "bit ?b i = bit v (k + i)" if "i < 8" for i
    using that assms(3) by (simp add: bit_simps)
  have "\<not> bit v i" if "i < k + n" for i
    using that n(2,4) b [of "i - k"] assms(2) by (cases "i < k") auto
  then have "is_lowest_bit v (k + n)"
    using n(2,3) b [of n] by (simp add: is_lowest_bit_def)
  moreover from this have "v \<noteq> 0"
    by (auto simp: is_lowest_bit_def)
  ultimately have "rt_ffs v = of_nat (Suc (k + n))"
    using rt_ffs_lowest [of v] is_lowest_bit_unique by metis
  moreover have "ucast (of_nat n :: u8) = (of_nat n :: u32)"
    using n(2) by (simp add: unsigned_of_nat take_bit_nat_eq_self)
  ultimately show ?thesis
    using n(1) by (simp add: algebra_simps)
qed

lemma ffs_mask:
  fixes v :: u32
  assumes "k + 8 \<le> 32" "m = push_bit k 0xff"
  shows "v AND m \<noteq> 0 \<longleftrightarrow> ucast (drop_bit k v) \<noteq> (0 :: u8)"
    and "unat (drop_bit k (v AND m)) = unat (ucast (drop_bit k v) :: u8)"
    and "v AND m = 0 \<Longrightarrow> i < 8 \<Longrightarrow> \<not> bit v (k + i)"
proof -
  have "m = push_bit k (mask 8)"
    unfolding assms(2) by (simp add: mask_eq_exp_minus_1)
  then have m: "bit m i \<longleftrightarrow> k \<le> i \<and> i < k + 8" for i
    using assms(1) by (auto simp: bit_simps bit_mask_iff possible_bit_def)
  have byte: "bit (ucast (drop_bit k v) :: u8) i \<longleftrightarrow> i < 8 \<and> bit v (k + i)" for i
    by (auto simp: bit_simps dest: bit_imp_le_length)
  have part: "drop_bit k (v AND m) = ucast (ucast (drop_bit k v) :: u8)"
    by (rule bit_word_eqI) (auto simp: bit_simps m byte)
  show "unat (drop_bit k (v AND m)) = unat (ucast (drop_bit k v) :: u8)"
    unfolding part by (simp add: unsigned_ucast_eq unsigned_take_bit_eq)
  have zero: "v AND m = 0 \<longleftrightarrow> (\<forall>i < 8. \<not> bit v (k + i))"
  proof -
    have "v AND m = 0 \<longleftrightarrow> (\<forall>i. \<not> bit (v AND m) i)"
      by (metis bit_eqI bit_0_eq bot_apply bot_bool_def)
    also have "\<dots> \<longleftrightarrow> (\<forall>i. \<not> (bit v i \<and> k \<le> i \<and> i < k + 8))"
      by (simp add: bit_and_iff m)
    also have "\<dots> \<longleftrightarrow> (\<forall>i < 8. \<not> bit v (k + i))"
      by (metis add_less_cancel_left le_add1 le_add_diff_inverse)
    finally show ?thesis .
  qed
  then show "v AND m = 0 \<Longrightarrow> i < 8 \<Longrightarrow> \<not> bit v (k + i)"
    by blast
  have "(ucast (drop_bit k v) :: u8) = 0 \<longleftrightarrow> (\<forall>i < 8. \<not> bit v (k + i))"
    unfolding bit_eq_iff byte by simp
  then show "v AND m \<noteq> 0 \<longleftrightarrow> ucast (drop_bit k v) \<noteq> (0 :: u8)"
    using zero by blast
qed

text \<open>
  C39. The portable search for the lowest set bit, by table, and the one made of the bit reversal
  and leading-zero instructions give the same result for every word; the table is never read
  outside its bounds.
\<close>

theorem rt_ffs_portable_eq: "rt_ffs_portable v = Some (rt_ffs v)"
proof -
  have m: "(0xff :: u32) = push_bit 0 0xff" "(0xff00 :: u32) = push_bit 8 0xff"
    "(0xff0000 :: u32) = push_bit 16 0xff" "(0xff000000 :: u32) = push_bit 24 0xff"
    by (simp_all add: push_bit_eq_mult)
  have zero: "v AND 0xff = 0 \<Longrightarrow> i < 8 \<Longrightarrow> \<not> bit v i" "v AND 0xff00 = 0 \<Longrightarrow> i < 8 \<Longrightarrow> \<not> bit v (8 + i)"
    "v AND 0xff0000 = 0 \<Longrightarrow> i < 8 \<Longrightarrow> \<not> bit v (16 + i)" "v AND 0xff000000 = 0 \<Longrightarrow> i < 8 \<Longrightarrow> \<not> bit v (24 + i)" for i
    using ffs_mask(3) [OF _ m(1), where v = v and i = i] ffs_mask(3) [OF _ m(2), where v = v and i = i]
      ffs_mask(3) [OF _ m(3), where v = v and i = i] ffs_mask(3) [OF _ m(4), where v = v and i = i] by simp_all
  have none: "\<not> bit v i" if "v AND 0xff = 0" "v AND 0xff00 = 0" "v AND 0xff0000 = 0" "i < 24" for i
    using that zero(1) [of i] zero(2) [of "i - 8"] zero(3) [of "i - 16"] by (cases "i < 8"; cases "i < 16") auto
  show ?thesis
  proof (cases "v = 0")
    case True
    then show ?thesis
      by (simp add: rt_ffs_portable_def rt_ffs_def)
  next
    case False
    have last: "v AND 0xff000000 \<noteq> 0" if a: "v AND 0xff = 0" "v AND 0xff00 = 0" "v AND 0xff0000 = 0"
    proof
      assume "v AND 0xff000000 = 0"
      then have "\<not> bit v i" if "i < 32" for i
        using none [OF a, of i] zero(4) [of "i - 24"] that by (cases "i < 24") auto
      then have "v = 0"
        by (intro bit_word_eqI) auto
      then show False
        using False by simp
    qed
    consider (a) "v AND 0xff \<noteq> 0" | (b) "v AND 0xff = 0" "v AND 0xff00 \<noteq> 0"
      | (c) "v AND 0xff = 0" "v AND 0xff00 = 0" "v AND 0xff0000 \<noteq> 0"
      | (d) "v AND 0xff = 0" "v AND 0xff00 = 0" "v AND 0xff0000 = 0" "v AND 0xff000000 \<noteq> 0"
      using last by blast
    then show ?thesis
    proof cases
      case a
      then show ?thesis
        using ffs_mask(1,2) [OF _ m(1), where v = v] ffs_byte [of 0 v] False by (simp add: rt_ffs_portable_def)
    next
      case b
      then have "\<forall>i < 8. \<not> bit v i"
        using zero(1) by blast
      then show ?thesis
        using b ffs_mask(1,2) [OF _ m(2), where v = v] ffs_byte [of 8 v] False by (simp add: rt_ffs_portable_def)
    next
      case c
      then have "\<forall>i < 16. \<not> bit v i"
        using zero(1,2) by (metis add_less_cancel_left le_add_diff_inverse not_less numeral_Bit0)
      then show ?thesis
        using c ffs_mask(1,2) [OF _ m(3), where v = v] ffs_byte [of 16 v] False by (simp add: rt_ffs_portable_def)
    next
      case d
      then have "\<forall>i < 24. \<not> bit v i"
        using none by blast
      then show ?thesis
        using d ffs_mask(1,2) [OF _ m(4), where v = v] ffs_byte [of 24 v] False by (simp add: rt_ffs_portable_def)
    qed
  qed
qed

end
