(* ===== verification/Kernel_Thread.thy ===== *)
theory Kernel_Thread
  imports Kernel_Timer Kernel_Ffs
begin

text \<open>
  \<^verbatim>\<open>src/scheduler.c\<close>, \<^verbatim>\<open>src/thread.c\<close> and the waiting lists of \<^verbatim>\<open>src/ipc.c\<close>.

  A thread is named by a number; its built-in timer is the timer of the same number. Every
  \<open>rt_list_t\<close> head that threads are linked to has a name (\<open>list_head\<close>), and \<open>list_at\<close> gives
  the threads in it, so that \<open>rt_list_remove(&thread->tlist)\<close> removes the thread from wherever
  it is. The kernel is the \<open>world\<close> of the timers: \<open>rt_thread_timeout\<close> is a timeout function in
  the sense of \<open>Kernel_Timer\<close>.

  A switch of threads is a change of \<open>rt_current_thread\<close>; stacks and registers are not modelled.
  \<open>objects\<close> are the IPC objects of the theories that follow.
\<close>

section \<open>State\<close>

datatype thread_stat = RT_THREAD_INIT | RT_THREAD_READY | RT_THREAD_SUSPEND | RT_THREAD_RUNNING | RT_THREAD_CLOSE

text \<open>
  Of \<open>struct rt_thread\<close> the members that these modules use; \<open>has_cleanup\<close> says that \<open>cleanup\<close> is
  not null, \<open>systemobject\<close> what \<open>rt_object_is_systemobject\<close> returns.
\<close>

record rt_thread =
  error :: rt_err
  stat :: thread_stat
  current_priority :: u8
  init_priority :: u8
  number_mask :: u32
  event_set :: u32
  event_info :: u8
  thread_tick :: u32
  thread_remaining_tick :: u32
  has_cleanup :: bool
  systemobject :: bool

datatype list_head = Priority nat | Defunct | Sem_waiters nat | Mutex_waiters nat | Event_waiters nat
  | Mb_receivers nat | Mb_senders nat | Mq_receivers nat

record 'o kernel =
  list_at :: "list_head \<Rightarrow> nat list"
  thread_of :: "nat \<Rightarrow> rt_thread"
  rt_current_thread :: "nat option"
  rt_current_priority :: u8
  rt_thread_ready_priority_group :: u32
  rt_scheduler_lock_nest :: u16
  objects :: 'o

type_synonym 'o sys = "'o kernel timers"

definition RT_THREAD_PRIORITY_MAX :: nat where "RT_THREAD_PRIORITY_MAX = 32"

definition upd_thread :: "nat \<Rightarrow> (rt_thread \<Rightarrow> rt_thread) \<Rightarrow> 'o kernel \<Rightarrow> 'o kernel" where
  "upd_thread t f k = k\<lparr>thread_of := (thread_of k)(t := f (thread_of k t))\<rparr>"

definition set_list :: "list_head \<Rightarrow> nat list \<Rightarrow> 'o kernel \<Rightarrow> 'o kernel" where
  "set_list h ts k = k\<lparr>list_at := (list_at k)(h := ts)\<rparr>"

definition rt_list_remove :: "nat \<Rightarrow> 'o kernel \<Rightarrow> 'o kernel" where
  "rt_list_remove t k = k\<lparr>list_at := \<lambda>h. removeAll t (list_at k h)\<rparr>"

abbreviation thr :: "'o sys \<Rightarrow> nat \<Rightarrow> rt_thread" where
  "thr s \<equiv> thread_of (world s)"

abbreviation wlist :: "'o sys \<Rightarrow> list_head \<Rightarrow> nat list" where
  "wlist s \<equiv> list_at (world s)"

definition on_kernel :: "('o kernel \<Rightarrow> 'o kernel) \<Rightarrow> 'o sys \<Rightarrow> 'o sys" where
  "on_kernel f s = s\<lparr>world := f (world s)\<rparr>"

definition try_kernel :: "('o kernel \<Rightarrow> 'o kernel option) \<Rightarrow> 'o sys \<Rightarrow> 'o sys option" where
  "try_kernel f s = do { k \<leftarrow> f (world s); Some (s\<lparr>world := k\<rparr>) }"

section \<open>The scheduler\<close>

definition rt_system_scheduler_init :: "'o kernel \<Rightarrow> 'o kernel" where
  "rt_system_scheduler_init k = k\<lparr>rt_scheduler_lock_nest := 0,
     list_at := (\<lambda>h. case h of Priority p \<Rightarrow> if p < RT_THREAD_PRIORITY_MAX then [] else list_at k h
                    | Defunct \<Rightarrow> [] | _ \<Rightarrow> list_at k h),
     rt_current_priority := of_nat (RT_THREAD_PRIORITY_MAX - 1), rt_current_thread := None,
     rt_thread_ready_priority_group := 0\<rparr>"

text \<open>
  The first thread of the list of the highest ready priority, and that priority. With no ready
  thread the index is outside the table.
\<close>

definition highest_ready :: "'o kernel \<Rightarrow> (u32 \<times> nat) option" where
  "highest_ready k = do {
     let p = rt_ffs (rt_thread_ready_priority_group k) - 1;
     c_assert (unat p < RT_THREAD_PRIORITY_MAX);
     case list_at k (Priority (unat p)) of [] \<Rightarrow> None | t # _ \<Rightarrow> Some (p, t)
   }"

definition rt_system_scheduler_start :: "'o kernel \<Rightarrow> 'o kernel option" where
  "rt_system_scheduler_start k = do { (_, t) \<leftarrow> highest_ready k; Some (k\<lparr>rt_current_thread := Some t\<rparr>) }"

definition rt_schedule :: "'o kernel \<Rightarrow> 'o kernel option" where
  "rt_schedule k =
     (if rt_scheduler_lock_nest k = 0 then do {
        (p, t) \<leftarrow> highest_ready k;
        if Some t \<noteq> rt_current_thread k
        then Some (k\<lparr>rt_current_priority := ucast p, rt_current_thread := Some t\<rparr>)
        else Some k
      }
      else Some k)"

definition rt_schedule_insert_thread :: "nat \<Rightarrow> 'o kernel \<Rightarrow> 'o kernel option" where
  "rt_schedule_insert_thread t k = do {
     let k = upd_thread t (\<lambda>x. x\<lparr>stat := RT_THREAD_READY\<rparr>) k;
     let p = unat (current_priority (thread_of k t));
     c_assert (p < RT_THREAD_PRIORITY_MAX);
     let k = set_list (Priority p) (list_at k (Priority p) @ [t]) k;
     Some (k\<lparr>rt_thread_ready_priority_group := rt_thread_ready_priority_group k OR number_mask (thread_of k t)\<rparr>)
   }"

definition rt_schedule_remove_thread :: "nat \<Rightarrow> 'o kernel \<Rightarrow> 'o kernel option" where
  "rt_schedule_remove_thread t k = do {
     let k = rt_list_remove t k;
     let p = unat (current_priority (thread_of k t));
     c_assert (p < RT_THREAD_PRIORITY_MAX);
     if list_at k (Priority p) = []
     then Some (k\<lparr>rt_thread_ready_priority_group :=
       rt_thread_ready_priority_group k AND NOT (number_mask (thread_of k t))\<rparr>)
     else Some k
   }"

definition rt_enter_critical :: "'o kernel \<Rightarrow> 'o kernel" where
  "rt_enter_critical k = k\<lparr>rt_scheduler_lock_nest := rt_scheduler_lock_nest k + 1\<rparr>"

definition rt_exit_critical :: "'o kernel \<Rightarrow> 'o kernel option" where
  "rt_exit_critical k =
     (let k = k\<lparr>rt_scheduler_lock_nest := rt_scheduler_lock_nest k - 1\<rparr> in
      if sint (rt_scheduler_lock_nest k) \<le> 0
      then rt_schedule (k\<lparr>rt_scheduler_lock_nest := 0\<rparr>)
      else Some k)"

section \<open>Threads\<close>

text \<open>The priority of a thread and its bit in the ready group.\<close>

definition set_priority :: "u8 \<Rightarrow> rt_thread \<Rightarrow> rt_thread" where
  "set_priority p x = x\<lparr>current_priority := p, number_mask := push_bit (unat p) 1\<rparr>"

text \<open>\<open>_rt_thread_init\<close>. Setting up the stack is left out.\<close>

definition thread_set_up :: "nat \<Rightarrow> u8 \<Rightarrow> u32 \<Rightarrow> 'o sys \<Rightarrow> (rt_err \<times> 'o sys) option" where
  "thread_set_up t priority tick s = do {
     c_assert (unat priority < RT_THREAD_PRIORITY_MAX);
     let s = on_kernel (upd_thread t (\<lambda>x. x\<lparr>init_priority := priority, current_priority := priority,
       number_mask := 0, thread_tick := tick, thread_remaining_tick := tick, error := RT_EOK,
       stat := RT_THREAD_INIT, has_cleanup := False\<rparr>)) s;
     Some (RT_EOK, rt_timer_init t 0 0 s)
   }"

text \<open>\<open>rt_object_init\<close> makes a system object, \<open>rt_object_allocate\<close> does not.\<close>

definition rt_thread_init :: "nat \<Rightarrow> u8 \<Rightarrow> u32 \<Rightarrow> 'o sys \<Rightarrow> (rt_err \<times> 'o sys) option" where
  "rt_thread_init t priority tick s =
     thread_set_up t priority tick (on_kernel (upd_thread t (\<lambda>x. x\<lparr>systemobject := True\<rparr>)) s)"

text \<open>\<open>alloc\<close> is what \<open>rt_object_allocate\<close> returns, \<open>stack\<close> says whether there is memory for the stack.\<close>

definition rt_thread_create :: "nat option \<Rightarrow> bool \<Rightarrow> u8 \<Rightarrow> u32 \<Rightarrow> 'o sys \<Rightarrow> (nat option \<times> 'o sys) option" where
  "rt_thread_create alloc stack priority tick s = (case alloc of None \<Rightarrow> Some (None, s)
     | Some t \<Rightarrow> if \<not> stack then Some (None, s)
         else do {
           (_, s) \<leftarrow> thread_set_up t priority tick (on_kernel (upd_thread t (\<lambda>x. x\<lparr>systemobject := False\<rparr>)) s);
           Some (Some t, s)
         })"

definition rt_thread_suspend :: "nat \<Rightarrow> 'o sys \<Rightarrow> (rt_err \<times> 'o sys) option" where
  "rt_thread_suspend t s =
     (if stat (thr s t) \<noteq> RT_THREAD_READY then Some (RT_ERROR, s)
      else do {
        let s = on_kernel (upd_thread t (\<lambda>x. x\<lparr>stat := RT_THREAD_SUSPEND\<rparr>)) s;
        s \<leftarrow> try_kernel (rt_schedule_remove_thread t) s;
        Some (RT_EOK, snd (rt_timer_stop t s))
      })"

definition rt_thread_resume :: "nat \<Rightarrow> 'o sys \<Rightarrow> (rt_err \<times> 'o sys) option" where
  "rt_thread_resume t s =
     (if stat (thr s t) \<noteq> RT_THREAD_SUSPEND then Some (RT_ERROR, s)
      else do {
        let s = snd (rt_timer_stop t (on_kernel (rt_list_remove t) s));
        s \<leftarrow> try_kernel (rt_schedule_insert_thread t) s;
        Some (RT_EOK, s)
      })"

definition rt_thread_startup :: "nat \<Rightarrow> 'o sys \<Rightarrow> (rt_err \<times> 'o sys) option" where
  "rt_thread_startup t s = do {
     c_assert (stat (thr s t) = RT_THREAD_INIT);
     let s = on_kernel (upd_thread t (\<lambda>x. (set_priority (init_priority x) x)\<lparr>stat := RT_THREAD_SUSPEND\<rparr>)) s;
     (_, s) \<leftarrow> rt_thread_resume t s;
     s \<leftarrow> (if rt_current_thread (world s) \<noteq> None then try_kernel rt_schedule s else Some s);
     Some (RT_EOK, s)
   }"

definition rt_thread_exit :: "'o sys \<Rightarrow> 'o sys option" where
  "rt_thread_exit s = do {
     t \<leftarrow> rt_current_thread (world s);
     s \<leftarrow> try_kernel (rt_schedule_remove_thread t) s;
     let s = on_kernel (upd_thread t (\<lambda>x. x\<lparr>stat := RT_THREAD_CLOSE\<rparr>)) s;
     let s = snd (rt_timer_detach t s);
     let s = (if systemobject (thr s t) \<and> \<not> has_cleanup (thr s t) then s
              else on_kernel (\<lambda>k. set_list Defunct (t # list_at k Defunct) k) s);
     try_kernel rt_schedule s
   }"

definition rt_thread_detach :: "nat \<Rightarrow> 'o sys \<Rightarrow> (rt_err \<times> 'o sys) option" where
  "rt_thread_detach t s = do {
     s \<leftarrow> (if stat (thr s t) \<noteq> RT_THREAD_INIT then try_kernel (rt_schedule_remove_thread t) s else Some s);
     let s = snd (rt_timer_detach t s);
     let s = on_kernel (upd_thread t (\<lambda>x. x\<lparr>stat := RT_THREAD_CLOSE\<rparr>)) s;
     let s = (if has_cleanup (thr s t) then on_kernel (\<lambda>k. set_list Defunct (t # list_at k Defunct) k) s else s);
     Some (RT_EOK, s)
   }"

definition rt_thread_delete :: "nat \<Rightarrow> 'o sys \<Rightarrow> (rt_err \<times> 'o sys) option" where
  "rt_thread_delete t s = do {
     s \<leftarrow> (if stat (thr s t) \<noteq> RT_THREAD_INIT then try_kernel (rt_schedule_remove_thread t) s else Some s);
     let s = snd (rt_timer_detach t s);
     let s = on_kernel (upd_thread t (\<lambda>x. x\<lparr>stat := RT_THREAD_CLOSE\<rparr>)) s;
     Some (RT_EOK, on_kernel (\<lambda>k. set_list Defunct (t # list_at k Defunct) k) s)
   }"

text \<open>
  \<open>tlist.next\<close> and \<open>tlist.prev\<close> of a ready thread are the same node exactly when it is alone in
  the list of its priority.
\<close>

definition rt_thread_yield :: "'o kernel \<Rightarrow> (rt_err \<times> 'o kernel) option" where
  "rt_thread_yield k = do {
     t \<leftarrow> rt_current_thread k;
     let p = unat (current_priority (thread_of k t));
     c_assert (p < RT_THREAD_PRIORITY_MAX);
     if stat (thread_of k t) = RT_THREAD_READY \<and> list_at k (Priority p) \<noteq> [t]
     then do {
       let k = rt_list_remove t k;
       k \<leftarrow> rt_schedule (set_list (Priority p) (list_at k (Priority p) @ [t]) k);
       Some (RT_EOK, k)
     }
     else Some (RT_EOK, k)
   }"

definition change_priority :: "nat \<Rightarrow> u8 \<Rightarrow> 'o kernel \<Rightarrow> 'o kernel option" where
  "change_priority t p k =
     (if stat (thread_of k t) = RT_THREAD_READY
      then do {
        k \<leftarrow> rt_schedule_remove_thread t k;
        rt_schedule_insert_thread t (upd_thread t (set_priority p) k)
      }
      else Some (upd_thread t (set_priority p) k))"

definition RT_THREAD_CTRL_STARTUP :: u8 where "RT_THREAD_CTRL_STARTUP = 0"
definition RT_THREAD_CTRL_CLOSE :: u8 where "RT_THREAD_CTRL_CLOSE = 1"
definition RT_THREAD_CTRL_CHANGE_PRIORITY :: u8 where "RT_THREAD_CTRL_CHANGE_PRIORITY = 2"

definition rt_thread_control :: "nat \<Rightarrow> u8 \<Rightarrow> u8 \<Rightarrow> 'o sys \<Rightarrow> (rt_err \<times> 'o sys) option" where
  "rt_thread_control t cmd arg s =
     (if cmd = RT_THREAD_CTRL_CHANGE_PRIORITY then do { s \<leftarrow> try_kernel (change_priority t arg) s; Some (RT_EOK, s) }
      else if cmd = RT_THREAD_CTRL_STARTUP then rt_thread_startup t s
      else if cmd = RT_THREAD_CTRL_CLOSE then rt_thread_delete t s
      else Some (RT_EOK, s))"

text \<open>The timer of a thread is set and started.\<close>

definition start_thread_timer :: "nat \<Rightarrow> u32 \<Rightarrow> 'o sys \<Rightarrow> 'o sys option" where
  "start_thread_timer t tick s = do {
     let (_, _, s) = rt_timer_control t RT_TIMER_CTRL_SET_TIME tick s;
     (_, s) \<leftarrow> rt_timer_start t s;
     Some s
   }"

text \<open>
  \<open>rt_thread_sleep\<close> up to the switch to another thread, and what the thread does when it runs again.
\<close>

definition rt_thread_sleep :: "u32 \<Rightarrow> 'o sys \<Rightarrow> 'o sys option" where
  "rt_thread_sleep tick s = do {
     t \<leftarrow> rt_current_thread (world s);
     (_, s) \<leftarrow> rt_thread_suspend t s;
     s \<leftarrow> start_thread_timer t tick s;
     try_kernel rt_schedule s
   }"

definition rt_thread_delay :: "u32 \<Rightarrow> 'o sys \<Rightarrow> 'o sys option" where
  "rt_thread_delay = rt_thread_sleep"

definition rt_thread_slept :: "nat \<Rightarrow> 'o kernel \<Rightarrow> rt_err \<times> 'o kernel" where
  "rt_thread_slept t k = (RT_EOK, if error (thread_of k t) = RT_ETIMEOUT
     then upd_thread t (\<lambda>x. x\<lparr>error := RT_EOK\<rparr>) k else k)"

definition thread_timeout :: "nat \<Rightarrow> 'o kernel \<Rightarrow> 'o kernel option" where
  "thread_timeout t k = do {
     c_assert (stat (thread_of k t) = RT_THREAD_SUSPEND);
     let k = rt_list_remove t (upd_thread t (\<lambda>x. x\<lparr>error := RT_ETIMEOUT\<rparr>) k);
     k \<leftarrow> rt_schedule_insert_thread t k;
     rt_schedule k
   }"

definition rt_thread_timeout :: "'o kernel timeout_func" where
  "rt_thread_timeout t = try_kernel (thread_timeout t)"

section \<open>The idle thread\<close>

text \<open>
  \<open>rt_thread_idle_excute\<close> with the effect of the \<open>cleanup\<close> functions of threads as a parameter; it
  gives the threads whose stack and object are freed.
\<close>

partial_function (option) rt_thread_idle_excute ::
    "(nat \<Rightarrow> 'o sys \<Rightarrow> 'o sys) \<Rightarrow> nat list \<Rightarrow> 'o sys \<Rightarrow> (nat list \<times> 'o sys) option" where
  "rt_thread_idle_excute cleanup freed s = (case wlist s Defunct of [] \<Rightarrow> Some (freed, s)
     | t # _ \<Rightarrow>
         let s = on_kernel (rt_list_remove t) s;
             s = (if has_cleanup (thr s t) then cleanup t s else s)
         in if systemobject (thr s t) then Some (freed, s)
            else rt_thread_idle_excute cleanup (freed @ [t]) s)"

section \<open>Waiting lists of IPC objects\<close>

definition RT_IPC_FLAG_FIFO :: u8 where "RT_IPC_FLAG_FIFO = 0"
definition RT_IPC_FLAG_PRIO :: u8 where "RT_IPC_FLAG_PRIO = 1"

text \<open>Before the first thread of a lower priority, which is a larger number.\<close>

fun insert_by_priority :: "(nat \<Rightarrow> u8) \<Rightarrow> nat \<Rightarrow> nat list \<Rightarrow> nat list" where
  "insert_by_priority pr t [] = [t]"
| "insert_by_priority pr t (u # us) = (if pr t < pr u then t # u # us else u # insert_by_priority pr t us)"

definition rt_ipc_list_suspend :: "list_head \<Rightarrow> nat \<Rightarrow> u8 \<Rightarrow> 'o sys \<Rightarrow> 'o sys option" where
  "rt_ipc_list_suspend h t fl s = do {
     (_, s) \<leftarrow> rt_thread_suspend t s;
     let ts = wlist s h;
     if fl = RT_IPC_FLAG_FIFO then Some (on_kernel (set_list h (ts @ [t])) s)
     else if fl = RT_IPC_FLAG_PRIO
     then Some (on_kernel (set_list h (insert_by_priority (\<lambda>u. current_priority (thr s u)) t ts)) s)
     else Some s
   }"

definition rt_ipc_list_resume :: "list_head \<Rightarrow> 'o sys \<Rightarrow> 'o sys option" where
  "rt_ipc_list_resume h s = (case wlist s h of [] \<Rightarrow> None
     | t # _ \<Rightarrow> do { (_, s) \<leftarrow> rt_thread_resume t s; Some s })"

partial_function (option) rt_ipc_list_resume_all :: "list_head \<Rightarrow> 'o sys \<Rightarrow> 'o sys option" where
  "rt_ipc_list_resume_all h s = (case wlist s h of [] \<Rightarrow> Some s
     | t # _ \<Rightarrow> do {
         (_, s) \<leftarrow> rt_thread_resume t (on_kernel (upd_thread t (\<lambda>x. x\<lparr>error := RT_ERROR\<rparr>)) s);
         rt_ipc_list_resume_all h s
       })"

end
