(* ===== verification/Kernel_Sched.thy ===== *)
theory Kernel_Sched
  imports Kernel_Thread
begin

text \<open>
  The invariant of the scheduler and what each operation of \<open>Kernel_Thread\<close> does to it.

  \<open>sched_ok_on A\<close> is the invariant without the threads in \<open>A\<close>, which are in no list: the state
  between the removal of a thread and its next insertion. \<open>sched_ok\<close> is the case of no exception.
\<close>

section \<open>The invariant\<close>

definition waiters_head :: "list_head \<Rightarrow> bool" where
  "waiters_head h = (case h of Priority _ \<Rightarrow> False | Defunct \<Rightarrow> False | _ \<Rightarrow> True)"

definition linked :: "nat \<Rightarrow> 'o kernel \<Rightarrow> bool" where
  "linked t k \<longleftrightarrow> (\<exists>h. t \<in> set (list_at k h))"

definition prio :: "'o kernel \<Rightarrow> nat \<Rightarrow> nat" where
  "prio k t = unat (current_priority (thread_of k t))"

definition prio_ok :: "rt_thread \<Rightarrow> bool" where
  "prio_ok x \<longleftrightarrow> unat (current_priority x) < 32 \<and> number_mask x = 2 ^ unat (current_priority x)"

definition sched_ok_on :: "nat set \<Rightarrow> 'o kernel \<Rightarrow> bool" where
  "sched_ok_on A k \<longleftrightarrow>
     (\<forall>h. distinct (list_at k h))
   \<and> (\<forall>h h' t. t \<in> set (list_at k h) \<longrightarrow> t \<in> set (list_at k h') \<longrightarrow> h = h')
   \<and> (\<forall>t \<in> A. \<not> linked t k)
   \<and> (\<forall>p t. t \<in> set (list_at k (Priority p)) \<longrightarrow> stat (thread_of k t) = RT_THREAD_READY \<and> prio k t = p)
   \<and> (\<forall>t. t \<notin> A \<longrightarrow> stat (thread_of k t) = RT_THREAD_READY \<longrightarrow> t \<in> set (list_at k (Priority (prio k t))))
   \<and> (\<forall>t. t \<notin> A \<longrightarrow> stat (thread_of k t) = RT_THREAD_READY \<or> stat (thread_of k t) = RT_THREAD_SUSPEND
        \<longrightarrow> prio_ok (thread_of k t))
   \<and> (\<forall>h t. waiters_head h \<longrightarrow> t \<in> set (list_at k h) \<longrightarrow> stat (thread_of k t) = RT_THREAD_SUSPEND)
   \<and> (\<forall>t \<in> set (list_at k Defunct). stat (thread_of k t) = RT_THREAD_CLOSE)
   \<and> (\<forall>p < 32. bit (rt_thread_ready_priority_group k) p \<longleftrightarrow> list_at k (Priority p) \<noteq> [])"

abbreviation sched_ok :: "'o kernel \<Rightarrow> bool" where
  "sched_ok \<equiv> sched_ok_on {}"

lemma sched_okI:
  assumes "\<And>h. distinct (list_at k h)"
    "\<And>h h' t. t \<in> set (list_at k h) \<Longrightarrow> t \<in> set (list_at k h') \<Longrightarrow> h = h'"
    "\<And>t. t \<in> A \<Longrightarrow> \<not> linked t k"
    "\<And>p t. t \<in> set (list_at k (Priority p)) \<Longrightarrow> stat (thread_of k t) = RT_THREAD_READY \<and> prio k t = p"
    "\<And>t. t \<notin> A \<Longrightarrow> stat (thread_of k t) = RT_THREAD_READY \<Longrightarrow> t \<in> set (list_at k (Priority (prio k t)))"
    "\<And>t. t \<notin> A \<Longrightarrow> stat (thread_of k t) = RT_THREAD_READY \<or> stat (thread_of k t) = RT_THREAD_SUSPEND
      \<Longrightarrow> prio_ok (thread_of k t)"
    "\<And>h t. waiters_head h \<Longrightarrow> t \<in> set (list_at k h) \<Longrightarrow> stat (thread_of k t) = RT_THREAD_SUSPEND"
    "\<And>t. t \<in> set (list_at k Defunct) \<Longrightarrow> stat (thread_of k t) = RT_THREAD_CLOSE"
    "\<And>p. p < 32 \<Longrightarrow> bit (rt_thread_ready_priority_group k) p \<longleftrightarrow> list_at k (Priority p) \<noteq> []"
  shows "sched_ok_on A k"
  using assms unfolding sched_ok_on_def by blast

lemma sched_okD:
  assumes "sched_ok_on A k"
  shows "distinct (list_at k h)"
    "t \<in> set (list_at k h) \<Longrightarrow> t \<in> set (list_at k h') \<Longrightarrow> h = h'"
    "t \<in> A \<Longrightarrow> t \<notin> set (list_at k h)"
    "t \<in> set (list_at k (Priority p)) \<Longrightarrow> stat (thread_of k t) = RT_THREAD_READY"
    "t \<in> set (list_at k (Priority p)) \<Longrightarrow> prio k t = p"
    "t \<notin> A \<Longrightarrow> stat (thread_of k t) = RT_THREAD_READY \<Longrightarrow> t \<in> set (list_at k (Priority (prio k t)))"
    "t \<notin> A \<Longrightarrow> stat (thread_of k t) = RT_THREAD_READY \<Longrightarrow> prio_ok (thread_of k t)"
    "t \<notin> A \<Longrightarrow> stat (thread_of k t) = RT_THREAD_SUSPEND \<Longrightarrow> prio_ok (thread_of k t)"
    "waiters_head h \<Longrightarrow> t \<in> set (list_at k h) \<Longrightarrow> stat (thread_of k t) = RT_THREAD_SUSPEND"
    "t \<in> set (list_at k Defunct) \<Longrightarrow> stat (thread_of k t) = RT_THREAD_CLOSE"
    "p < 32 \<Longrightarrow> bit (rt_thread_ready_priority_group k) p \<longleftrightarrow> list_at k (Priority p) \<noteq> []"
  using assms unfolding sched_ok_on_def linked_def by blast+

named_theorems kernel_simps \<open>fields of a kernel after an update\<close>

lemma kernel_updates [kernel_simps]:
  "thread_of (upd_thread t f k) = (thread_of k)(t := f (thread_of k t))" "list_at (upd_thread t f k) = list_at k"
  "rt_current_thread (upd_thread t f k) = rt_current_thread k"
  "rt_current_priority (upd_thread t f k) = rt_current_priority k"
  "rt_thread_ready_priority_group (upd_thread t f k) = rt_thread_ready_priority_group k"
  "rt_scheduler_lock_nest (upd_thread t f k) = rt_scheduler_lock_nest k" "objects (upd_thread t f k) = objects k"
  "thread_of (set_list h ts k) = thread_of k" "list_at (set_list h ts k) = (list_at k)(h := ts)"
  "rt_current_thread (set_list h ts k) = rt_current_thread k"
  "rt_current_priority (set_list h ts k) = rt_current_priority k"
  "rt_thread_ready_priority_group (set_list h ts k) = rt_thread_ready_priority_group k"
  "rt_scheduler_lock_nest (set_list h ts k) = rt_scheduler_lock_nest k" "objects (set_list h ts k) = objects k"
  "thread_of (rt_list_remove t k) = thread_of k" "list_at (rt_list_remove t k) = (\<lambda>h. removeAll t (list_at k h))"
  "rt_current_thread (rt_list_remove t k) = rt_current_thread k"
  "rt_current_priority (rt_list_remove t k) = rt_current_priority k"
  "rt_thread_ready_priority_group (rt_list_remove t k) = rt_thread_ready_priority_group k"
  "rt_scheduler_lock_nest (rt_list_remove t k) = rt_scheduler_lock_nest k" "objects (rt_list_remove t k) = objects k"
  by (simp_all add: upd_thread_def set_list_def rt_list_remove_def)

text \<open>The timer operations do not touch the kernel.\<close>

lemma timer_world [kernel_simps]:
  "world (snd (rt_timer_stop t s)) = world s" "world (snd (rt_timer_detach t s)) = world s"
  "world (rt_timer_init t n fl s) = world s" "world (snd (snd (rt_timer_control t cmd a s))) = world s"
  by (simp_all add: rt_timer_stop_def clear_active_def rt_timer_detach_def rt_timer_init_def rt_timer_control_def)

lemma timer_start_world: "rt_timer_start t s = Some (r, s') \<Longrightarrow> world s' = world s"
  by (auto simp: rt_timer_start_def Let_def clear_active_def set_active_def Option.bind_eq_Some_conv split: if_splits)

lemma on_kernel_simps [kernel_simps]: "world (on_kernel f s) = f (world s)"
  by (simp add: on_kernel_def)

lemma try_kernel_world: "try_kernel f s = Some s' \<longleftrightarrow> (\<exists>k. f (world s) = Some k \<and> s' = s\<lparr>world := k\<rparr>)"
  by (auto simp: try_kernel_def Option.bind_eq_Some_conv)

section \<open>Removing, changing and inserting a thread\<close>

lemma sched_prio_lt:
  assumes "sched_ok_on A k" "t \<in> set (list_at k (Priority p))"
  shows "p < 32" "t \<notin> A" "prio k t = p" "stat (thread_of k t) = RT_THREAD_READY" "prio_ok (thread_of k t)"
proof -
  have *: "t \<notin> A" "prio k t = p" "stat (thread_of k t) = RT_THREAD_READY"
    using assms by (auto simp: sched_ok_on_def linked_def)
  moreover have "prio_ok (thread_of k t)"
    using assms(1) * by (simp add: sched_ok_on_def)
  ultimately show "p < 32" "t \<notin> A" "prio k t = p" "stat (thread_of k t) = RT_THREAD_READY" "prio_ok (thread_of k t)"
    by (auto simp: prio_ok_def prio_def)
qed

lemma mask_bits: "bit (m AND NOT (2 ^ p)) q \<longleftrightarrow> bit m q \<and> q \<noteq> p" "p < 32 \<Longrightarrow> bit (m OR 2 ^ p) q \<longleftrightarrow> bit m q \<or> q = p"
  for m :: u32
  by (auto simp: bit_simps dest: bit_imp_le_length)

text \<open>The thread is taken out; its other members may have changed before.\<close>

lemma remove_thread:
  assumes ok: "sched_ok k" and t: "prio_ok (thread_of k t)"
    and f: "current_priority (f (thread_of k t)) = current_priority (thread_of k t)"
      "number_mask (f (thread_of k t)) = number_mask (thread_of k t)"
  obtains k' where "rt_schedule_remove_thread t (upd_thread t f k) = Some k'" "sched_ok_on {t} k'"
    "thread_of k' = (thread_of k)(t := f (thread_of k t))" "list_at k' = (\<lambda>h. removeAll t (list_at k h))"
    "rt_current_thread k' = rt_current_thread k" "rt_scheduler_lock_nest k' = rt_scheduler_lock_nest k"
    "rt_current_priority k' = rt_current_priority k" "objects k' = objects k"
proof -
  let ?p = "prio k t"
  let ?g = "if removeAll t (list_at k (Priority ?p)) = []
    then rt_thread_ready_priority_group k AND NOT (2 ^ ?p) else rt_thread_ready_priority_group k"
  let ?k' = "(rt_list_remove t (upd_thread t f k))\<lparr>rt_thread_ready_priority_group := ?g\<rparr>"
  have p: "?p < 32" "number_mask (thread_of k t) = 2 ^ ?p"
    using t by (simp_all add: prio_ok_def prio_def)
  have run: "rt_schedule_remove_thread t (upd_thread t f k) = Some ?k'"
    using p f by (simp add: rt_schedule_remove_thread_def Let_def kernel_simps prio_def RT_THREAD_PRIORITY_MAX_def)
  have other: "list_at k (Priority q) = removeAll t (list_at k (Priority q))" if "q \<noteq> ?p" for q
    using ok that by (auto simp: sched_ok_on_def intro!: removeAll_id [symmetric])
  have bits: "bit ?g q \<longleftrightarrow> removeAll t (list_at k (Priority q)) \<noteq> []" if q: "q < 32" for q
  proof (cases "q = ?p")
    case True
    then show ?thesis
      using ok p(1) by (auto simp: sched_ok_on_def mask_bits)
  next
    case False
    then show ?thesis
      using ok q other [OF False] by (simp add: sched_ok_on_def mask_bits)
  qed
  have pr: "prio ?k' u = prio k u" for u
    using f by (simp add: prio_def kernel_simps)
  have "sched_ok_on {t} ?k'"
  proof (rule sched_okI)
    show "bit (rt_thread_ready_priority_group ?k') p \<longleftrightarrow> list_at ?k' (Priority p) \<noteq> []" if "p < 32" for p
      using bits that by (simp add: kernel_simps)
    show "\<not> linked t' ?k'" if "t' \<in> {t}" for t'
      using that by (simp add: linked_def kernel_simps)
  qed (use sched_okD [OF ok] pr in \<open>auto simp: kernel_simps distinct_removeAll\<close>)
  from that [OF run this] show thesis
    by (simp add: kernel_simps)
qed

lemma insert_thread:
  assumes ok: "sched_ok_on {t} k" and t: "prio_ok (thread_of k t)"
  obtains k' where "rt_schedule_insert_thread t k = Some k'" "sched_ok k'"
    "thread_of k' = (thread_of k)(t := thread_of k t\<lparr>stat := RT_THREAD_READY\<rparr>)"
    "list_at k' = (list_at k)(Priority (prio k t) := list_at k (Priority (prio k t)) @ [t])"
    "rt_current_thread k' = rt_current_thread k" "rt_scheduler_lock_nest k' = rt_scheduler_lock_nest k"
    "rt_current_priority k' = rt_current_priority k" "objects k' = objects k"
proof -
  let ?p = "prio k t"
  let ?k1 = "upd_thread t (\<lambda>x. x\<lparr>stat := RT_THREAD_READY\<rparr>) k"
  let ?k' = "(set_list (Priority ?p) (list_at k (Priority ?p) @ [t]) ?k1)
    \<lparr>rt_thread_ready_priority_group := rt_thread_ready_priority_group k OR 2 ^ ?p\<rparr>"
  have p: "?p < 32" "number_mask (thread_of k t) = 2 ^ ?p"
    using t by (simp_all add: prio_ok_def prio_def)
  have run: "rt_schedule_insert_thread t k = Some ?k'"
    using p by (simp add: rt_schedule_insert_thread_def Let_def kernel_simps prio_def RT_THREAD_PRIORITY_MAX_def)
  have out: "t \<notin> set (list_at k h)" for h
    using ok by (simp add: sched_ok_on_def linked_def)
  have pr: "prio ?k' u = prio k u" for u
    by (simp add: prio_def kernel_simps)
  have "sched_ok ?k'"
  proof (rule sched_okI)
    show "bit (rt_thread_ready_priority_group ?k') p \<longleftrightarrow> list_at ?k' (Priority p) \<noteq> []" if "p < 32" for p
      using sched_okD(11) [OF ok that] p(1) by (auto simp: kernel_simps mask_bits)
    show "stat (thread_of ?k' u) = RT_THREAD_SUSPEND" if "waiters_head h" "u \<in> set (list_at ?k' h)" for h u
      using sched_okD(9) [OF ok, of h u] out [of h] that by (auto simp: kernel_simps waiters_head_def split: if_splits)
    show "prio_ok (thread_of ?k' u)"
      if "stat (thread_of ?k' u) = RT_THREAD_READY \<or> stat (thread_of ?k' u) = RT_THREAD_SUSPEND" for u
      using sched_okD(7,8) [OF ok, of u] t that by (cases "u = t") (auto simp: kernel_simps prio_ok_def)
    show "u \<in> set (list_at ?k' (Priority (prio ?k' u)))" if "stat (thread_of ?k' u) = RT_THREAD_READY" for u
      unfolding pr using sched_okD(6) [OF ok, of u] that by (cases "u = t") (auto simp: kernel_simps)
    show "h = h'" if "u \<in> set (list_at ?k' h)" "u \<in> set (list_at ?k' h')" for h h' u
      using sched_okD(2) [OF ok, of u h h'] out [of h] out [of h'] that
      by (cases "u = t") (auto simp: kernel_simps split: if_splits)
    show "stat (thread_of ?k' u) = RT_THREAD_READY \<and> prio ?k' u = q" if "u \<in> set (list_at ?k' (Priority q))" for q u
      unfolding pr using sched_okD(4,5) [OF ok, of u q] that by (auto simp: kernel_simps split: if_splits)
    show "distinct (list_at ?k' h)" for h
      using sched_okD(1) [OF ok] out by (simp add: kernel_simps)
    show "stat (thread_of ?k' u) = RT_THREAD_CLOSE" if "u \<in> set (list_at ?k' Defunct)" for u
      using sched_okD(10) [OF ok, of u] out [of Defunct] that by (auto simp: kernel_simps)
  qed simp
  from that [OF run this] show thesis
    by (simp add: kernel_simps)
qed

text \<open>The thread outside all lists may change, wait in a list or stay outside.\<close>

lemma sched_but_upd:
  assumes "sched_ok_on {t} k"
  shows "sched_ok_on {t} (upd_thread t f k)"
proof -
  have "t \<notin> set (list_at k h)" for h
    using assms by (simp add: sched_ok_on_def linked_def)
  then have neq: "u \<in> set (list_at k h) \<Longrightarrow> u \<noteq> t" for u h
    by blast
  show ?thesis
    by (rule sched_okI)
      (use sched_okD [OF assms] neq in \<open>auto simp: kernel_simps linked_def prio_def\<close>)
qed

lemma sched_but_outside:
  assumes "sched_ok_on {t} k" "stat (thread_of k t) \<noteq> RT_THREAD_READY"
    and "stat (thread_of k t) = RT_THREAD_SUSPEND \<Longrightarrow> prio_ok (thread_of k t)"
  shows "sched_ok k"
proof (rule sched_okI)
  show "u \<in> set (list_at k (Priority (prio k u)))" if "stat (thread_of k u) = RT_THREAD_READY" for u
    using sched_okD(6) [OF assms(1), of u] assms(2) that by (cases "u = t") auto
  show "prio_ok (thread_of k u)"
    if "stat (thread_of k u) = RT_THREAD_READY \<or> stat (thread_of k u) = RT_THREAD_SUSPEND" for u
    using sched_okD(7,8) [OF assms(1), of u] assms(2,3) that by (cases "u = t") auto
qed (use sched_okD [OF assms(1)] in auto)

lemma sched_but_wait:
  assumes ok: "sched_ok_on {t} k" and t: "stat (thread_of k t) = RT_THREAD_SUSPEND" "prio_ok (thread_of k t)"
    and h: "waiters_head h" "set ts = insert t (set (list_at k h))" "distinct ts"
  shows "sched_ok (set_list h ts k)"
proof -
  have out: "t \<notin> set (list_at k h)" for h
    using ok by (simp add: sched_ok_on_def linked_def)
  have np: "h \<noteq> Priority p" "Priority p \<noteq> h" "h \<noteq> Defunct" "Defunct \<noteq> h" for p
    using h(1) by (auto simp: waiters_head_def)
  let ?k' = "set_list h ts k"
  have pr: "prio ?k' u = prio k u" for u
    by (simp add: prio_def kernel_simps)
  show ?thesis
  proof (rule sched_okI)
    show "h' = h''" if "u \<in> set (list_at ?k' h')" "u \<in> set (list_at ?k' h'')" for h' h'' u
      using sched_okD(2) [OF ok, of u] out that h(2) by (auto simp: kernel_simps split: if_splits)
    show "u \<in> set (list_at ?k' (Priority (prio ?k' u)))" if "stat (thread_of ?k' u) = RT_THREAD_READY" for u
      unfolding pr using sched_okD(6) [OF ok, of u] t(1) np that by (cases "u = t") (auto simp: kernel_simps)
    show "prio_ok (thread_of ?k' u)"
      if "stat (thread_of ?k' u) = RT_THREAD_READY \<or> stat (thread_of ?k' u) = RT_THREAD_SUSPEND" for u
      using sched_okD(7,8) [OF ok, of u] t that by (cases "u = t") (auto simp: kernel_simps)
    show "stat (thread_of ?k' u) = RT_THREAD_SUSPEND" if "waiters_head h'" "u \<in> set (list_at ?k' h')" for h' u
      using sched_okD(9) [OF ok, of _ u] t(1) h(2) that h(1) by (auto simp: kernel_simps split: if_splits)
  qed (use sched_okD [OF ok] h(3) np pr in \<open>auto simp: kernel_simps\<close>)
qed

lemma sched_but_linked: "sched_ok k \<Longrightarrow> \<not> linked t k \<Longrightarrow> sched_ok_on {t} k"
  by (auto simp: sched_ok_on_def)

section \<open>The operations\<close>

text \<open>What a thread that is woken up looks like to the rest of the kernel.\<close>

lemma suspend_thread:
  assumes ok: "sched_ok (world s)" and t: "stat (thr s t) = RT_THREAD_READY"
  obtains s' where "rt_thread_suspend t s = Some (RT_EOK, s')" "sched_ok_on {t} (world s')"
    "thread_of (world s') = (thread_of (world s))(t := thr s t\<lparr>stat := RT_THREAD_SUSPEND\<rparr>)"
    "wlist s' = (\<lambda>h. removeAll t (wlist s h))" "rt_current_thread (world s') = rt_current_thread (world s)"
    "rt_scheduler_lock_nest (world s') = rt_scheduler_lock_nest (world s)"
    "objects (world s') = objects (world s)"
    "rt_tick s' = rt_tick s"
proof -
  obtain k' where k': "rt_schedule_remove_thread t (upd_thread t (\<lambda>x. x\<lparr>stat := RT_THREAD_SUSPEND\<rparr>) (world s)) = Some k'"
    "sched_ok_on {t} k'" "thread_of k' = (thread_of (world s))(t := thr s t\<lparr>stat := RT_THREAD_SUSPEND\<rparr>)"
    "list_at k' = (\<lambda>h. removeAll t (wlist s h))" "rt_current_thread k' = rt_current_thread (world s)"
    "rt_scheduler_lock_nest k' = rt_scheduler_lock_nest (world s)" "objects k' = objects (world s)"
    by (rule remove_thread [OF ok, of t "\<lambda>x. x\<lparr>stat := RT_THREAD_SUSPEND\<rparr>"])
      (use sched_okD(7) [OF ok, of t] t in \<open>simp_all\<close>)
  let ?s' = "snd (rt_timer_stop t (s\<lparr>world := k'\<rparr>))"
  have "rt_thread_suspend t s = Some (RT_EOK, ?s')"
    using t k'(1) by (simp add: rt_thread_suspend_def try_kernel_def kernel_simps on_kernel_def)
  moreover have "rt_tick ?s' = rt_tick s"
    by (simp add: rt_timer_stop_def clear_active_def)
  ultimately show thesis
    using that [of ?s'] k' by (simp add: kernel_simps)
qed

lemma sched_ok_unlink:
  assumes ok: "sched_ok k" and t: "stat (thread_of k t) = RT_THREAD_SUSPEND"
  shows "sched_ok_on {t} (rt_list_remove t k)"
proof -
  have same: "removeAll t (list_at k (Priority p)) = list_at k (Priority p)" for p
    using sched_okD(4) [OF ok, of t p] t by (auto intro!: removeAll_id)
  show ?thesis
  proof (rule sched_okI)
    show "bit (rt_thread_ready_priority_group (rt_list_remove t k)) p \<longleftrightarrow> list_at (rt_list_remove t k) (Priority p) \<noteq> []"
      if "p < 32" for p
      using sched_okD(11) [OF ok that] by (simp add: kernel_simps same)
  qed (use sched_okD [OF ok] in \<open>auto simp: kernel_simps linked_def prio_def distinct_removeAll\<close>)
qed

lemma resume_thread:
  assumes ok: "sched_ok (world s)" and t: "stat (thr s t) = RT_THREAD_SUSPEND"
  obtains s' where "rt_thread_resume t s = Some (RT_EOK, s')" "sched_ok (world s')"
    "thread_of (world s') = (thread_of (world s))(t := thr s t\<lparr>stat := RT_THREAD_READY\<rparr>)"
    "wlist s' = (\<lambda>h. removeAll t (wlist s h))(Priority (prio (world s) t) := wlist s (Priority (prio (world s) t)) @ [t])"
    "rt_current_thread (world s') = rt_current_thread (world s)"
    "rt_scheduler_lock_nest (world s') = rt_scheduler_lock_nest (world s)"
    "objects (world s') = objects (world s)" "rt_tick s' = rt_tick s"
proof -
  let ?k = "rt_list_remove t (world s)" and ?p = "prio (world s) t"
  have same: "removeAll t (wlist s (Priority p)) = wlist s (Priority p)" for p
    using sched_okD(4) [OF ok, of t p] t by (auto intro!: removeAll_id)
  have but: "sched_ok_on {t} ?k"
    by (rule sched_ok_unlink [OF ok t])
  have pr: "prio ?k t = ?p"
    by (simp add: prio_def kernel_simps)
  obtain k' where k': "rt_schedule_insert_thread t ?k = Some k'" "sched_ok k'"
    "thread_of k' = (thread_of ?k)(t := thread_of ?k t\<lparr>stat := RT_THREAD_READY\<rparr>)"
    "list_at k' = (list_at ?k)(Priority (prio ?k t) := list_at ?k (Priority (prio ?k t)) @ [t])"
    "rt_current_thread k' = rt_current_thread ?k" "rt_scheduler_lock_nest k' = rt_scheduler_lock_nest ?k"
    "objects k' = objects ?k"
    by (rule insert_thread [OF but]) (use sched_okD(8) [OF ok, of t] t in \<open>simp_all add: kernel_simps\<close>)
  let ?s1 = "snd (rt_timer_stop t (on_kernel (rt_list_remove t) s))"
  have w: "world ?s1 = ?k" "rt_tick ?s1 = rt_tick s"
    by (simp_all add: kernel_simps) (simp add: rt_timer_stop_def clear_active_def on_kernel_def)
  have "rt_thread_resume t s = Some (RT_EOK, ?s1\<lparr>world := k'\<rparr>)"
    using t k'(1) w(1) by (simp add: rt_thread_resume_def try_kernel_def)
  then show thesis
    using that [of "?s1\<lparr>world := k'\<rparr>"] k' w(2) pr same by (simp add: kernel_simps fun_upd_def)
qed

text \<open>A thread in a waiting list is woken by its timer.\<close>

lemma highest_ready_ok:
  assumes ok: "sched_ok k" and r: "stat (thread_of k u) = RT_THREAD_READY"
  obtains p t where "highest_ready k = Some (of_nat p, t)" "p < 32" "prio k t = p" "list_at k (Priority p) \<noteq> []"
    "t = hd (list_at k (Priority p))" "stat (thread_of k t) = RT_THREAD_READY"
    "\<And>v. stat (thread_of k v) = RT_THREAD_READY \<Longrightarrow> p \<le> prio k v"
proof -
  let ?g = "rt_thread_ready_priority_group k"
  have u: "u \<in> set (list_at k (Priority (prio k u)))" "prio k u < 32"
    using sched_okD(6,7) [OF ok, of u] r by (auto simp: prio_ok_def prio_def)
  then have "bit ?g (prio k u)"
    using sched_okD(11) [OF ok] by (metis empty_iff list.set(1))
  then have "?g \<noteq> 0"
    by auto
  then obtain p where p: "rt_ffs ?g = of_nat (Suc p)" "is_lowest_bit ?g p" "p < 32"
    by (rule rt_ffs_lowest)
  then have ne: "list_at k (Priority p) \<noteq> []"
    using sched_okD(11) [OF ok p(3)] by (simp add: is_lowest_bit_def)
  then obtain t ts where l: "list_at k (Priority p) = t # ts"
    by (cases "list_at k (Priority p)") auto
  have unat: "unat (of_nat p :: u32) = p"
    using p(3) by (simp add: unat_of_nat)
  have "rt_ffs ?g - 1 = of_nat p"
    using p(1) by simp
  then have "highest_ready k = Some (of_nat p, t)"
    using p(3) l by (simp add: highest_ready_def Let_def unat RT_THREAD_PRIORITY_MAX_def)
  moreover have "p \<le> prio k v" if "stat (thread_of k v) = RT_THREAD_READY" for v
  proof -
    have "v \<in> set (list_at k (Priority (prio k v)))" "prio k v < 32"
      using sched_okD(6,7) [OF ok, of v] that by (auto simp: prio_ok_def prio_def)
    then have "bit ?g (prio k v)"
      using sched_okD(11) [OF ok] by (metis empty_iff list.set(1))
    then show ?thesis
      using p(2) by (meson is_lowest_bit_def not_less)
  qed
  moreover have "prio k t = p" "stat (thread_of k t) = RT_THREAD_READY"
    using sched_okD(4,5) [OF ok, of t p] l by simp_all
  moreover have "t = hd (list_at k (Priority p))"
    by (simp add: l)
  ultimately show thesis
    using that p(3) ne by blast
qed

lemma schedule_returns:
  assumes "sched_ok k" "stat (thread_of k u) = RT_THREAD_READY"
  obtains k' where "rt_schedule k = Some k'"
proof -
  obtain p t where "highest_ready k = Some (of_nat p, t)"
    by (rule highest_ready_ok [OF assms]) blast
  then have "\<exists>k'. rt_schedule k = Some k'"
    by (simp add: rt_schedule_def)
  then show thesis
    using that by blast
qed

lemma schedule_frame:
  assumes "rt_schedule k = Some k'"
  shows "thread_of k' = thread_of k" "list_at k' = list_at k" "objects k' = objects k"
    "rt_thread_ready_priority_group k' = rt_thread_ready_priority_group k"
    "rt_scheduler_lock_nest k' = rt_scheduler_lock_nest k" "sched_ok_on A k' = sched_ok_on A k"
proof -
  have *: "thread_of k' = thread_of k" "list_at k' = list_at k" "objects k' = objects k"
    "rt_thread_ready_priority_group k' = rt_thread_ready_priority_group k"
    "rt_scheduler_lock_nest k' = rt_scheduler_lock_nest k"
    using assms by (auto simp: rt_schedule_def Option.bind_eq_Some_conv split: if_splits)
  then show "thread_of k' = thread_of k" "list_at k' = list_at k" "objects k' = objects k"
    "rt_thread_ready_priority_group k' = rt_thread_ready_priority_group k"
    "rt_scheduler_lock_nest k' = rt_scheduler_lock_nest k"
    by simp_all
  show "sched_ok_on A k' = sched_ok_on A k"
    by (simp add: sched_ok_on_def linked_def prio_def *)
qed

lemma schedule_picks_highest_aux:
  assumes "sched_ok k" "stat (thread_of k u) = RT_THREAD_READY" "rt_scheduler_lock_nest k = 0"
  shows "\<exists>k' t. rt_schedule k = Some k' \<and> rt_current_thread k' = Some t \<and> sched_ok k'
    \<and> stat (thread_of k' t) = RT_THREAD_READY \<and> t = hd (list_at k' (Priority (prio k' t)))
    \<and> (\<forall>v. stat (thread_of k' v) = RT_THREAD_READY \<longrightarrow> prio k' t \<le> prio k' v)"
proof -
  obtain p t where h: "highest_ready k = Some (of_nat p, t)" "prio k t = p" "t = hd (list_at k (Priority p))"
    "stat (thread_of k t) = RT_THREAD_READY" "\<And>v. stat (thread_of k v) = RT_THREAD_READY \<Longrightarrow> p \<le> prio k v"
    using highest_ready_ok [OF assms(1,2)] by metis
  obtain k' where k': "rt_schedule k = Some k'" "rt_current_thread k' = Some t"
    using h(1) assms(3) by (cases "Some t = rt_current_thread k") (auto simp: rt_schedule_def)
  note fr = schedule_frame [OF k'(1)]
  have "prio k' v = prio k v" for v
    by (simp add: prio_def fr(1))
  then show ?thesis
    using k' h assms(1) fr by (intro exI [of _ k'] exI [of _ t]) simp
qed

text \<open>
  C17. The scheduler switches to the longest waiting thread of the highest ready priority: when it
  is not locked and some thread is ready, the current thread afterwards is ready, no ready thread
  has a smaller priority number, and it is the first one in the list of its priority.
\<close>

theorem schedule_picks_highest:
  assumes "sched_ok k" "stat (thread_of k u) = RT_THREAD_READY" "rt_scheduler_lock_nest k = 0"
  shows "\<exists>k' t. rt_schedule k = Some k' \<and> rt_current_thread k' = Some t \<and> sched_ok k'
    \<and> stat (thread_of k' t) = RT_THREAD_READY \<and> t = hd (list_at k' (Priority (prio k' t)))
    \<and> (\<forall>v. stat (thread_of k' v) = RT_THREAD_READY \<longrightarrow> prio k' t \<le> prio k' v)"
  using assms by (rule schedule_picks_highest_aux)

section \<open>An example\<close>

text \<open>Threads 0, 1 and 2 are ready with the priorities 5, 10 and 31; thread 2 is the idle thread.\<close>

definition demo_thread :: "u8 \<Rightarrow> thread_stat \<Rightarrow> rt_thread" where
  "demo_thread p st = \<lparr>error = RT_EOK, stat = st, current_priority = p, init_priority = p, number_mask = 2 ^ unat p,
     event_set = 0, event_info = 0, thread_tick = 10, thread_remaining_tick = 10, has_cleanup = False, systemobject = True\<rparr>"

definition demo_kernel :: "'o \<Rightarrow> 'o kernel" where
  "demo_kernel o1 = \<lparr>list_at = (\<lambda>_. [])(Priority 5 := [0], Priority 10 := [1], Priority 31 := [2]),
     thread_of = (\<lambda>_. demo_thread 20 RT_THREAD_INIT)(0 := demo_thread 5 RT_THREAD_READY,
       1 := demo_thread 10 RT_THREAD_READY, 2 := demo_thread 31 RT_THREAD_READY),
     rt_current_thread = Some 0, rt_current_priority = 5,
     rt_thread_ready_priority_group = 2 ^ 5 OR 2 ^ 10 OR 2 ^ 31, rt_scheduler_lock_nest = 0, objects = o1\<rparr>"

definition sys_of :: "'w \<Rightarrow> 'w timers" where
  "sys_of w = \<lparr>timer_of = \<lambda>_. \<lparr>flag = 0, init_tick = 0, timeout_tick = 0\<rparr>, rt_timer_list = [],
     rt_soft_timer_list = [], rt_tick = 0, timer_thread_ready = True, thread_init_tick = 10,
     remaining_tick = 10, yields_done = 0, random_nr = 0, world = w\<rparr>"

lemma demo_bits: "bit ((2 :: u32) ^ a OR 2 ^ b OR 2 ^ c) p \<longleftrightarrow> p < 32 \<and> (p = a \<or> p = b \<or> p = c)"
  by (auto simp: bit_or_iff bit_exp_iff possible_bit_def)

lemma demo_ok: "sched_ok (demo_kernel o1)"
proof (rule sched_okI)
  show "bit (rt_thread_ready_priority_group (demo_kernel o1)) p \<longleftrightarrow> list_at (demo_kernel o1) (Priority p) \<noteq> []" if "p < 32" for p
    using that demo_bits [of 5 10 31 p] by (auto simp: demo_kernel_def)
qed (auto simp: demo_kernel_def demo_thread_def prio_def prio_ok_def waiters_head_def linked_def split: if_splits)

lemma demo_simps [simp]:
  "stat (thread_of (demo_kernel o1) 0) = RT_THREAD_READY" "stat (thread_of (demo_kernel o1) 1) = RT_THREAD_READY"
  "stat (thread_of (demo_kernel o1) (Suc 0)) = RT_THREAD_READY" "stat (thread_of (demo_kernel o1) 2) = RT_THREAD_READY"
  "rt_scheduler_lock_nest (demo_kernel o1) = 0" "rt_current_thread (demo_kernel o1) = Some 0"
  "waiters_head h \<Longrightarrow> list_at (demo_kernel o1) h = []" "objects (demo_kernel o1) = o1" "world (sys_of w) = w"
  by (auto simp: demo_kernel_def demo_thread_def waiters_head_def sys_of_def)

lemma schedule_picks_highest_witness:
  "\<exists>k' t. rt_schedule (demo_kernel ()) = Some k' \<and> rt_current_thread k' = Some t
    \<and> (\<forall>v. stat (thread_of k' v) = RT_THREAD_READY \<longrightarrow> prio k' t \<le> prio k' v)"
  using schedule_picks_highest [OF demo_ok demo_simps(4,5), of "()"] by blast

end
