(* ===== verification/Kernel_Ipc.thy ===== *)
theory Kernel_Ipc
  imports Kernel_Sched
begin

text \<open>
  The objects of \<^verbatim>\<open>src/ipc.c\<close> and what its five modules share: how a thread is put to wait and
  woken up, and that the scheduler's invariant is kept.

  An object is named by a number; the threads waiting at it are in the list of that number. A
  call that has to wait ends with \<open>Waits\<close> when another thread runs instead; what the thread does
  when it runs again is a definition of its own. Waiting times are 32-bit signed integers.
\<close>

section \<open>Objects\<close>

record rt_semaphore =
  sem_flag :: u8
  sem_value :: u16

record rt_mutex =
  mutex_flag :: u8
  mutex_value :: u16
  original_priority :: u8
  hold :: u8
  owner :: "nat option"

record rt_event =
  event_flag :: u8
  event_bits :: u32

record rt_mailbox =
  mb_flag :: u8
  msg_pool :: "u32 list"
  mb_size :: u16
  entry :: u16
  in_offset :: u16
  out_offset :: u16

text \<open>The messages of a queue are numbered; \<open>msg_next\<close> links them, \<open>msg_data\<close> is what follows the link.\<close>

record rt_messagequeue =
  mq_flag :: u8
  msg_size :: u16
  max_msgs :: u16
  mq_entry :: u16
  msg_queue_head :: "nat option"
  msg_queue_tail :: "nat option"
  msg_queue_free :: "nat option"
  msg_next :: "nat \<Rightarrow> nat option"
  msg_data :: "nat \<Rightarrow> u8 list"

record ipc =
  sems :: "nat \<Rightarrow> rt_semaphore"
  mutexes :: "nat \<Rightarrow> rt_mutex"
  events :: "nat \<Rightarrow> rt_event"
  mailboxes :: "nat \<Rightarrow> rt_mailbox"
  mqueues :: "nat \<Rightarrow> rt_messagequeue"

type_synonym isys = "ipc sys"

datatype outcome = Returns rt_err | Waits

definition RT_IPC_CMD_RESET :: u8 where "RT_IPC_CMD_RESET = 1"

definition on_objects :: "(ipc \<Rightarrow> ipc) \<Rightarrow> isys \<Rightarrow> isys" where
  "on_objects f = on_kernel (\<lambda>k. k\<lparr>objects := f (objects k)\<rparr>)"

text \<open>
  The current thread waits in a list: its error is cleared, it is suspended, its timer is started
  when there is a time limit, and another thread is scheduled.
\<close>

definition clear_error :: "nat \<Rightarrow> isys \<Rightarrow> isys" where
  "clear_error t = on_kernel (upd_thread t (\<lambda>x. x\<lparr>error := RT_EOK\<rparr>))"

definition wait_in :: "list_head \<Rightarrow> nat \<Rightarrow> u8 \<Rightarrow> u32 \<Rightarrow> isys \<Rightarrow> isys option" where
  "wait_in h t fl time s = do {
     s \<leftarrow> rt_ipc_list_suspend h t fl s;
     s \<leftarrow> (if sint time > 0 then start_thread_timer t time s else Some s);
     try_kernel rt_schedule s
   }"

text \<open>With the scheduler locked the thread goes on at once.\<close>

definition after_wait :: "nat \<Rightarrow> isys \<Rightarrow> outcome" where
  "after_wait t s = (if rt_current_thread (world s) = Some t then Returns (error (thr s t)) else Waits)"

section \<open>The scheduler's invariant\<close>

lemma objects_simps [kernel_simps]:
  "thr (on_objects f s) = thr s" "wlist (on_objects f s) = wlist s" "objects (world (on_objects f s)) = f (objects (world s))"
  "rt_current_thread (world (on_objects f s)) = rt_current_thread (world s)"
  "rt_scheduler_lock_nest (world (on_objects f s)) = rt_scheduler_lock_nest (world s)"
  "rt_thread_ready_priority_group (world (on_objects f s)) = rt_thread_ready_priority_group (world s)"
  "sched_ok_on A (world (on_objects f s)) = sched_ok_on A (world s)"
  by (simp_all add: on_objects_def on_kernel_def sched_ok_on_def linked_def prio_def)

text \<open>Members of threads that the lists do not depend on.\<close>

lemma sched_ok_upd:
  assumes "sched_ok_on A k" "\<And>x. stat (f x) = stat x" "\<And>x. current_priority (f x) = current_priority x"
    "\<And>x. number_mask (f x) = number_mask x"
  shows "sched_ok_on A (upd_thread t f k)"
  by (rule sched_okI) (use sched_okD [OF assms(1)] assms(2-) in \<open>auto simp: kernel_simps linked_def prio_def prio_ok_def\<close>)

lemma insert_by_priority_set [simp]: "set (insert_by_priority pr t ts) = insert t (set ts)"
  by (induction ts) auto

lemma insert_by_priority_distinct: "t \<notin> set ts \<Longrightarrow> distinct ts \<Longrightarrow> distinct (insert_by_priority pr t ts)"
  by (induction ts) auto

text \<open>Threads of one priority keep their order; the list stays ordered by priority.\<close>

lemma insert_by_priority_sorted:
  assumes "sorted_wrt (\<lambda>t u. pr t \<le> pr u) ts"
  shows "insert_by_priority pr t ts = takeWhile (\<lambda>u. pr u \<le> pr t) ts @ t # dropWhile (\<lambda>u. pr u \<le> pr t) ts"
    and "sorted_wrt (\<lambda>t u. pr t \<le> pr u) (insert_by_priority pr t ts)"
proof -
  show "insert_by_priority pr t ts = takeWhile (\<lambda>u. pr u \<le> pr t) ts @ t # dropWhile (\<lambda>u. pr u \<le> pr t) ts"
    by (induction ts) (auto simp: not_less not_le)
  show "sorted_wrt (\<lambda>t u. pr t \<le> pr u) (insert_by_priority pr t ts)"
    using assms by (induction ts) (auto simp: not_less dest: less_imp_le)
qed

lemma start_thread_timer_world: "start_thread_timer t n s = Some s' \<Longrightarrow> world s' = world s"
  by (auto simp: start_thread_timer_def Option.bind_eq_Some_conv split_beta kernel_simps dest!: timer_start_world)

lemma start_thread_timer_returns:
  assumes "n < RT_TICK_MAX div 2"
  obtains s' where "start_thread_timer t n s = Some s'" "world s' = world s"
proof -
  let ?s = "snd (snd (rt_timer_control t RT_TIMER_CTRL_SET_TIME n s))"
  have "init_tick (timer_of ?s t) = n"
    by (simp add: rt_timer_control_def RT_TIMER_CTRL_SET_TIME_def RT_TIMER_CTRL_GET_TIME_def)
  then obtain r s' where "rt_timer_start t ?s = Some (r, s')"
    using assms by (auto simp: rt_timer_start_def Let_def clear_active_def c_assert_def)
  then have "start_thread_timer t n s = Some s'"
    by (simp add: start_thread_timer_def split_beta)
  then show thesis
    using that start_thread_timer_world by blast
qed

lemma start_thread_timer_hangs: "\<not> n < RT_TICK_MAX div 2 \<Longrightarrow> start_thread_timer t n s = None"
  by (simp add: start_thread_timer_def split_beta rt_timer_start_def Let_def clear_active_def c_assert_def
      rt_timer_control_def RT_TIMER_CTRL_SET_TIME_def RT_TIMER_CTRL_GET_TIME_def)

lemma list_suspend_returns:
  assumes "sched_ok (world s)" "stat (thr s t) = RT_THREAD_READY"
  obtains s' where "rt_ipc_list_suspend h t fl s = Some s'"
proof -
  obtain s1 where "rt_thread_suspend t s = Some (RT_EOK, s1)"
    using suspend_thread [OF assms] by metis
  then have "\<exists>s'. rt_ipc_list_suspend h t fl s = Some s'"
    by (simp add: rt_ipc_list_suspend_def Let_def)
  then show thesis
    using that by blast
qed

text \<open>The threads a waiting thread leaves: those in other waiting lists stay where they are.\<close>

lemma waiters_keep:
  assumes "sched_ok k" "stat (thread_of k t) = RT_THREAD_READY" "waiters_head h"
  shows "removeAll t (list_at k h) = list_at k h"
  using sched_okD(9) [OF assms(1,3), of t] assms(2) by (auto intro!: removeAll_id)

lemma waiters_keep_other:
  assumes "sched_ok k" "t \<in> set (list_at k h)" "h' \<noteq> h"
  shows "removeAll t (list_at k h') = list_at k h'"
  using sched_okD(2) [OF assms(1), of t h h'] assms(2,3) by (auto intro!: removeAll_id)

definition joined :: "u8 \<Rightarrow> nat \<Rightarrow> nat list \<Rightarrow> isys \<Rightarrow> nat list" where
  "joined fl t ts s = (if fl = RT_IPC_FLAG_FIFO then ts @ [t]
     else insert_by_priority (\<lambda>u. current_priority (thr s u)) t ts)"

lemma joined_set [simp]: "set (joined fl t ts s) = insert t (set ts)"
  by (simp add: joined_def)

text \<open>The running thread is ready and no ready thread is more urgent.\<close>

definition runs_highest :: "'o kernel \<Rightarrow> bool" where
  "runs_highest k \<longleftrightarrow> (\<exists>c. rt_current_thread k = Some c \<and> stat (thread_of k c) = RT_THREAD_READY
     \<and> (\<forall>v. stat (thread_of k v) = RT_THREAD_READY \<longrightarrow> prio k c \<le> prio k v))"

lemma wait_in_ok:
  assumes ok: "sched_ok (world s)" and t: "stat (thr s t) = RT_THREAD_READY" and h: "waiters_head h"
    and fl: "fl = RT_IPC_FLAG_FIFO \<or> fl = RT_IPC_FLAG_PRIO"
    and time: "sint time > 0 \<longrightarrow> time < RT_TICK_MAX div 2"
    and u: "stat (thr s u) = RT_THREAD_READY" "u \<noteq> t" and lock: "rt_scheduler_lock_nest (world s) = 0"
  obtains s' where "wait_in h t fl time s = Some s'" "sched_ok (world s')"
    "thread_of (world s') = (thread_of (world s))(t := thr s t\<lparr>stat := RT_THREAD_SUSPEND\<rparr>)"
    "wlist s' h = joined fl t (wlist s h) s" "\<And>h'. waiters_head h' \<Longrightarrow> h' \<noteq> h \<Longrightarrow> wlist s' h' = wlist s h'"
    "objects (world s') = objects (world s)" "rt_current_thread (world s') \<noteq> Some t"
    "rt_scheduler_lock_nest (world s') = 0" "runs_highest (world s')"
proof -
  obtain s1 where s1: "rt_thread_suspend t s = Some (RT_EOK, s1)" "sched_ok_on {t} (world s1)"
    "thread_of (world s1) = (thread_of (world s))(t := thr s t\<lparr>stat := RT_THREAD_SUSPEND\<rparr>)"
    "wlist s1 = (\<lambda>h. removeAll t (wlist s h))"
    "rt_scheduler_lock_nest (world s1) = rt_scheduler_lock_nest (world s)"
    "objects (world s1) = objects (world s)"
    using suspend_thread [OF ok t] by metis
  let ?ts = "joined fl t (wlist s h) s"
  let ?s2 = "on_kernel (set_list h ?ts) s1"
  have l: "wlist s1 h' = wlist s h'" if "waiters_head h'" for h'
    using waiters_keep [OF ok t that] by (simp add: s1(4))
  have pr: "(\<lambda>v. current_priority (thr s1 v)) = (\<lambda>v. current_priority (thr s v))"
    by (simp add: s1(3) fun_eq_iff)
  have susp: "rt_ipc_list_suspend h t fl s = Some ?s2"
    using fl by (auto simp: rt_ipc_list_suspend_def s1(1) Let_def l [OF h] joined_def pr
        RT_IPC_FLAG_FIFO_def RT_IPC_FLAG_PRIO_def)
  have notin: "t \<notin> set (wlist s h)"
    using sched_okD(9) [OF ok h, of t] t by auto
  have "sched_ok (world ?s2)"
    using sched_but_wait [OF s1(2), of h ?ts] h sched_okD(7) [OF ok, of t] t notin sched_okD(1) [OF ok, of h]
    by (simp add: kernel_simps s1(3) l joined_def prio_ok_def insert_by_priority_distinct)
  moreover obtain s3 where s3: "(if sint time > 0 then start_thread_timer t time ?s2 else Some ?s2) = Some s3"
    "world s3 = world ?s2"
    using time start_thread_timer_returns [of time t ?s2] by (cases "sint time > 0") auto
  ultimately have ok3: "sched_ok (world s3)"
    by simp
  have thr3: "thr s3 = (thr s)(t := thr s t\<lparr>stat := RT_THREAD_SUSPEND\<rparr>)"
    by (simp add: s3(2) kernel_simps s1(3) fun_eq_iff)
  have "stat (thr s3 u) = RT_THREAD_READY" "rt_scheduler_lock_nest (world s3) = 0"
    using u lock by (simp_all add: thr3) (simp add: s3(2) kernel_simps s1(5))
  then obtain k' v where k': "rt_schedule (world s3) = Some k'" "rt_current_thread k' = Some v" "sched_ok k'"
    "stat (thread_of k' v) = RT_THREAD_READY" "runs_highest k'"
    unfolding runs_highest_def using schedule_picks_highest_aux [OF ok3, of u] by metis
  note fr = schedule_frame [OF k'(1)]
  have run: "wait_in h t fl time s = Some (s3\<lparr>world := k'\<rparr>)"
    by (simp add: wait_in_def susp s3(1) try_kernel_def k'(1))
  show thesis
  proof (rule that [OF run])
    show "wlist (s3\<lparr>world := k'\<rparr>) h' = wlist s h'" if "waiters_head h'" "h' \<noteq> h" for h'
      using that by (simp add: fr s3(2) kernel_simps l)
    show "rt_current_thread (world (s3\<lparr>world := k'\<rparr>)) \<noteq> Some t"
      using k'(2,4) by (auto simp: fr thr3)
    show "rt_scheduler_lock_nest (world (s3\<lparr>world := k'\<rparr>)) = 0"
      using lock by (simp add: fr s3(2) kernel_simps s1(5))
  qed (use k'(3,5) in \<open>simp_all add: fr s3(2) kernel_simps s1(3,6)\<close>)
qed

text \<open>The first waiting thread is woken.\<close>

lemma list_resume_ok:
  assumes ok: "sched_ok (world s)" and h: "waiters_head h" "wlist s h = t # ts"
  obtains s' where "rt_ipc_list_resume h s = Some s'" "sched_ok (world s')"
    "thread_of (world s') = (thread_of (world s))(t := thr s t\<lparr>stat := RT_THREAD_READY\<rparr>)"
    "wlist s' h = ts" "\<And>h'. waiters_head h' \<Longrightarrow> h' \<noteq> h \<Longrightarrow> wlist s' h' = wlist s h'"
    "wlist s' (Priority (prio (world s) t)) = wlist s (Priority (prio (world s) t)) @ [t]"
    "\<And>p. p \<noteq> prio (world s) t \<Longrightarrow> wlist s' (Priority p) = wlist s (Priority p)"
    "objects (world s') = objects (world s)" "rt_current_thread (world s') = rt_current_thread (world s)"
    "rt_scheduler_lock_nest (world s') = rt_scheduler_lock_nest (world s)"
proof -
  have t: "stat (thr s t) = RT_THREAD_SUSPEND"
    using sched_okD(9) [OF ok h(1), of t] h(2) by simp
  obtain s' where s': "rt_thread_resume t s = Some (RT_EOK, s')" "sched_ok (world s')"
    "thread_of (world s') = (thread_of (world s))(t := thr s t\<lparr>stat := RT_THREAD_READY\<rparr>)"
    "wlist s' = (\<lambda>h. removeAll t (wlist s h))(Priority (prio (world s) t) := wlist s (Priority (prio (world s) t)) @ [t])"
    "rt_current_thread (world s') = rt_current_thread (world s)"
    "rt_scheduler_lock_nest (world s') = rt_scheduler_lock_nest (world s)"
    "objects (world s') = objects (world s)"
    using resume_thread [OF ok t] by metis
  have in_h: "t \<in> set (wlist s h)"
    by (simp add: h(2))
  have np: "h' \<noteq> Priority p" if "waiters_head h'" for h' p
    using that by (auto simp: waiters_head_def)
  have keep: "removeAll t (wlist s h') = wlist s h'" if "h' \<noteq> h" for h'
    by (rule waiters_keep_other [OF ok in_h that])
  have keep_p: "removeAll t (wlist s (Priority p)) = wlist s (Priority p)" for p
    using np [OF h(1), of p] by (intro keep) auto
  have "t \<notin> set ts"
    using sched_okD(1) [OF ok, of h] h(2) by simp
  then have l: "wlist s' h = ts"
    using np [OF h(1)] by (simp add: s'(4) h(2))
  show thesis
    by (rule that [of s']) (use s' l keep keep_p np h(1) in \<open>auto simp: rt_ipc_list_resume_def h(2)\<close>)
qed

text \<open>All waiting threads are woken with an error, first come first.\<close>

lemma resume_all_ok:
  assumes "sched_ok (world s)" "waiters_head h"
  shows "\<exists>s'. rt_ipc_list_resume_all h s = Some s' \<and> sched_ok (world s') \<and> wlist s' h = []
    \<and> (\<forall>h'. waiters_head h' \<longrightarrow> h' \<noteq> h \<longrightarrow> wlist s' h' = wlist s h')
    \<and> (\<forall>p. wlist s' (Priority p) = wlist s (Priority p) @ filter (\<lambda>t. prio (world s) t = p) (wlist s h))
    \<and> thread_of (world s') = (\<lambda>t. if t \<in> set (wlist s h) then thr s t\<lparr>stat := RT_THREAD_READY, error := RT_ERROR\<rparr> else thr s t)
    \<and> objects (world s') = objects (world s) \<and> rt_current_thread (world s') = rt_current_thread (world s)
    \<and> rt_scheduler_lock_nest (world s') = rt_scheduler_lock_nest (world s)"
  using assms
proof (induction "wlist s h" arbitrary: s)
  case Nil
  then have "rt_ipc_list_resume_all h s = Some s"
    using rt_ipc_list_resume_all.simps [of h s] by (simp flip: Nil(1))
  with Nil show ?case
    by (simp flip: Nil(1))
next
  case (Cons t ts)
  let ?s0 = "on_kernel (upd_thread t (\<lambda>x. x\<lparr>error := RT_ERROR\<rparr>)) s"
  have l: "wlist s h = t # ts"
    using Cons(2) by simp
  have ok0: "sched_ok (world ?s0)"
    unfolding on_kernel_simps by (rule sched_ok_upd [OF Cons(3)]) simp_all
  have l0: "wlist ?s0 h = t # ts"
    by (simp add: kernel_simps l)
  have pr0: "prio (world ?s0) u = prio (world s) u" for u
    by (simp add: prio_def kernel_simps)
  obtain s1 where s1: "rt_ipc_list_resume h ?s0 = Some s1" "sched_ok (world s1)"
    "thread_of (world s1) = (thread_of (world ?s0))(t := thr ?s0 t\<lparr>stat := RT_THREAD_READY\<rparr>)"
    "wlist s1 h = ts" "\<And>h'. waiters_head h' \<Longrightarrow> h' \<noteq> h \<Longrightarrow> wlist s1 h' = wlist ?s0 h'"
    "wlist s1 (Priority (prio (world ?s0) t)) = wlist ?s0 (Priority (prio (world ?s0) t)) @ [t]"
    "\<And>p. p \<noteq> prio (world ?s0) t \<Longrightarrow> wlist s1 (Priority p) = wlist ?s0 (Priority p)"
    "objects (world s1) = objects (world ?s0)" "rt_current_thread (world s1) = rt_current_thread (world ?s0)"
    "rt_scheduler_lock_nest (world s1) = rt_scheduler_lock_nest (world ?s0)"
    by (rule list_resume_ok [OF ok0 Cons(4) l0]) blast
  have pr1: "prio (world s1) u = prio (world s) u" for u
    by (simp add: prio_def s1(3) kernel_simps)
  have t: "t \<notin> set ts"
    using sched_okD(1) [OF Cons(3), of h] l by simp
  have step: "rt_ipc_list_resume_all h s = rt_ipc_list_resume_all h s1"
    using s1(1) l0 rt_ipc_list_resume_all.simps [of h s]
    by (auto simp: l rt_ipc_list_resume_def Option.bind_eq_Some_conv split: option.splits)
  obtain s' where s': "rt_ipc_list_resume_all h s1 = Some s'" "sched_ok (world s')" "wlist s' h = []"
    "\<And>h'. waiters_head h' \<Longrightarrow> h' \<noteq> h \<Longrightarrow> wlist s' h' = wlist s1 h'"
    "\<And>p. wlist s' (Priority p) = wlist s1 (Priority p) @ filter (\<lambda>t. prio (world s1) t = p) ts"
    "thread_of (world s') = (\<lambda>t. if t \<in> set ts then thr s1 t\<lparr>stat := RT_THREAD_READY, error := RT_ERROR\<rparr> else thr s1 t)"
    "objects (world s') = objects (world s1)" "rt_current_thread (world s') = rt_current_thread (world s1)"
    "rt_scheduler_lock_nest (world s') = rt_scheduler_lock_nest (world s1)"
    using Cons(1) [OF s1(4) [symmetric] s1(2) Cons(4)] unfolding s1(4) by blast
  have lists: "wlist s' (Priority p) = wlist s (Priority p) @ filter (\<lambda>t. prio (world s) t = p) (wlist s h)" for p
    using s'(5) [of p] s1(6) [unfolded pr0] s1(7) [of p, unfolded pr0]
    by (cases "p = prio (world s) t") (simp_all add: pr1 l kernel_simps)
  have threads: "thread_of (world s') = (\<lambda>u. if u \<in> set (wlist s h) then thr s u\<lparr>stat := RT_THREAD_READY, error := RT_ERROR\<rparr> else thr s u)"
    using t by (auto simp: s'(6) s1(3) kernel_simps l fun_eq_iff)
  show ?case
    using step s' s1(5,8-10) lists threads by (simp add: kernel_simps)
qed

section \<open>Time limits\<close>

text \<open>The timer of a waiting thread takes it out of the list it waits in.\<close>

lemma thread_timeout_ok:
  assumes ok: "sched_ok k" and t: "stat (thread_of k t) = RT_THREAD_SUSPEND"
  obtains k' where "thread_timeout t k = Some k'" "sched_ok k'" 
    "thread_of k' = (thread_of k)(t := thread_of k t\<lparr>stat := RT_THREAD_READY, error := RT_ETIMEOUT\<rparr>)"
    "\<And>h. waiters_head h \<Longrightarrow> list_at k' h = removeAll t (list_at k h)" "objects k' = objects k"
    "rt_scheduler_lock_nest k' = rt_scheduler_lock_nest k"
proof -
  let ?k1 = "upd_thread t (\<lambda>x. x\<lparr>error := RT_ETIMEOUT\<rparr>) k"
  have ok1: "sched_ok ?k1"
    by (rule sched_ok_upd [OF ok]) simp_all
  have but: "sched_ok_on {t} (rt_list_remove t ?k1)"
    by (rule sched_ok_unlink [OF ok1]) (simp add: kernel_simps t)
  obtain k2 where k2: "rt_schedule_insert_thread t (rt_list_remove t ?k1) = Some k2" "sched_ok k2"
    "thread_of k2 = (thread_of (rt_list_remove t ?k1))(t := thread_of (rt_list_remove t ?k1) t\<lparr>stat := RT_THREAD_READY\<rparr>)"
    "list_at k2 = (list_at (rt_list_remove t ?k1))(Priority (prio (rt_list_remove t ?k1) t) :=
       list_at (rt_list_remove t ?k1) (Priority (prio (rt_list_remove t ?k1) t)) @ [t])"
    "rt_scheduler_lock_nest k2 = rt_scheduler_lock_nest (rt_list_remove t ?k1)" "objects k2 = objects (rt_list_remove t ?k1)"
    by (rule insert_thread [OF but]) (use sched_okD(8) [OF ok, of t] t in \<open>simp_all add: kernel_simps prio_ok_def\<close>)
  have ready: "stat (thread_of k2 t) = RT_THREAD_READY"
    by (simp add: k2(3))
  obtain k' where k': "rt_schedule k2 = Some k'"
    by (rule schedule_returns [OF k2(2) ready])
  note fr = schedule_frame [OF k']
  have run: "thread_timeout t k = Some k'"
    using k2(1) k' t by (simp add: thread_timeout_def Let_def)
  show thesis
  proof (rule that [OF run])
    show "list_at k' h = removeAll t (list_at k h)" if "waiters_head h" for h
      using that by (auto simp: fr k2(4) kernel_simps waiters_head_def)
  qed (use k2 in \<open>simp_all add: fr kernel_simps fun_eq_iff\<close>)
qed

end
