(* ===== verification/Kernel_Sem.thy ===== *)
theory Kernel_Sem
  imports Kernel_Ipc
begin

text \<open>The semaphores of \<^verbatim>\<open>src/ipc.c\<close>.\<close>

section \<open>Operations\<close>

abbreviation sem :: "isys \<Rightarrow> nat \<Rightarrow> rt_semaphore" where
  "sem s i \<equiv> sems (objects (world s)) i"

definition upd_sem :: "nat \<Rightarrow> (rt_semaphore \<Rightarrow> rt_semaphore) \<Rightarrow> isys \<Rightarrow> isys" where
  "upd_sem i f = on_objects (\<lambda>o1. o1\<lparr>sems := (sems o1)(i := f (sems o1 i))\<rparr>)"

definition rt_sem_init :: "nat \<Rightarrow> u32 \<Rightarrow> u8 \<Rightarrow> isys \<Rightarrow> rt_err \<times> isys" where
  "rt_sem_init i value fl s = (RT_EOK,
     upd_sem i (\<lambda>_. \<lparr>sem_flag = fl, sem_value = ucast value\<rparr>) (on_kernel (set_list (Sem_waiters i) []) s))"

text \<open>\<open>alloc\<close> is what \<open>rt_object_allocate\<close> returns.\<close>

definition rt_sem_create :: "nat option \<Rightarrow> u32 \<Rightarrow> u8 \<Rightarrow> isys \<Rightarrow> nat option \<times> isys" where
  "rt_sem_create alloc value fl s =
     (case alloc of None \<Rightarrow> (None, s) | Some i \<Rightarrow> (Some i, snd (rt_sem_init i value fl s)))"

definition rt_sem_detach :: "nat \<Rightarrow> isys \<Rightarrow> (rt_err \<times> isys) option" where
  "rt_sem_detach i s = do { s \<leftarrow> rt_ipc_list_resume_all (Sem_waiters i) s; Some (RT_EOK, s) }"

definition rt_sem_delete :: "nat \<Rightarrow> isys \<Rightarrow> (rt_err \<times> isys) option" where
  "rt_sem_delete i s = do { s \<leftarrow> rt_ipc_list_resume_all (Sem_waiters i) s; Some (RT_EOK, s) }"

definition rt_sem_take :: "nat \<Rightarrow> u32 \<Rightarrow> isys \<Rightarrow> (outcome \<times> isys) option" where
  "rt_sem_take i time s =
     (if sem_value (sem s i) > 0
      then Some (Returns RT_EOK, upd_sem i (\<lambda>x. x\<lparr>sem_value := sem_value x - 1\<rparr>) s)
      else if time = 0 then Some (Returns RT_ETIMEOUT, s)
      else do {
        t \<leftarrow> rt_current_thread (world s);
        s \<leftarrow> wait_in (Sem_waiters i) t (sem_flag (sem s i)) time (clear_error t s);
        Some (after_wait t s, s)
      })"

text \<open>What a thread that waited returns when it runs again.\<close>

definition rt_sem_taken :: "nat \<Rightarrow> isys \<Rightarrow> rt_err" where
  "rt_sem_taken t s = (if error (thr s t) \<noteq> RT_EOK then error (thr s t) else RT_EOK)"

definition rt_sem_trytake :: "nat \<Rightarrow> isys \<Rightarrow> (outcome \<times> isys) option" where
  "rt_sem_trytake i = rt_sem_take i 0"

definition rt_sem_release :: "nat \<Rightarrow> isys \<Rightarrow> (rt_err \<times> isys) option" where
  "rt_sem_release i s =
     (if wlist s (Sem_waiters i) \<noteq> []
      then do {
        s \<leftarrow> rt_ipc_list_resume (Sem_waiters i) s;
        s \<leftarrow> try_kernel rt_schedule s;
        Some (RT_EOK, s)
      }
      else Some (RT_EOK, upd_sem i (\<lambda>x. x\<lparr>sem_value := sem_value x + 1\<rparr>) s))"

definition rt_sem_control :: "nat \<Rightarrow> u8 \<Rightarrow> u32 \<Rightarrow> isys \<Rightarrow> (rt_err \<times> isys) option" where
  "rt_sem_control i cmd arg s =
     (if cmd = RT_IPC_CMD_RESET
      then do {
        s \<leftarrow> rt_ipc_list_resume_all (Sem_waiters i) s;
        s \<leftarrow> try_kernel rt_schedule (upd_sem i (\<lambda>x. x\<lparr>sem_value := ucast arg\<rparr>) s);
        Some (RT_EOK, s)
      }
      else Some (RT_ERROR, s))"

section \<open>What the operations do\<close>

lemma upd_sem_simps [kernel_simps]:
  "sem (upd_sem i f s) j = (if j = i then f (sem s i) else sem s j)" "thr (upd_sem i f s) = thr s"
  "wlist (upd_sem i f s) = wlist s" "rt_current_thread (world (upd_sem i f s)) = rt_current_thread (world s)"
  "rt_scheduler_lock_nest (world (upd_sem i f s)) = rt_scheduler_lock_nest (world s)"
  "sched_ok_on A (world (upd_sem i f s)) = sched_ok_on A (world s)"
  by (simp_all add: upd_sem_def kernel_simps)

lemma clear_error_simps [kernel_simps]:
  "thr (clear_error t s) = (thr s)(t := thr s t\<lparr>error := RT_EOK\<rparr>)" "wlist (clear_error t s) = wlist s"
  "objects (world (clear_error t s)) = objects (world s)"
  "rt_current_thread (world (clear_error t s)) = rt_current_thread (world s)"
  "rt_scheduler_lock_nest (world (clear_error t s)) = rt_scheduler_lock_nest (world s)"
  by (simp_all add: clear_error_def kernel_simps)

lemma clear_error_ok: "sched_ok_on A (world s) \<Longrightarrow> sched_ok_on A (world (clear_error t s))"
  unfolding clear_error_def on_kernel_simps by (rule sched_ok_upd) simp_all

text \<open>A running thread: it is current and ready, another thread (the idle thread) is ready too.\<close>

definition in_thread :: "nat \<Rightarrow> nat \<Rightarrow> isys \<Rightarrow> bool" where
  "in_thread t u s \<longleftrightarrow> rt_current_thread (world s) = Some t \<and> stat (thr s t) = RT_THREAD_READY
     \<and> stat (thr s u) = RT_THREAD_READY \<and> u \<noteq> t \<and> rt_scheduler_lock_nest (world s) = 0"

definition legal_time :: "u32 \<Rightarrow> bool" where
  "legal_time time \<longleftrightarrow> (0 < sint time \<longrightarrow> time < RT_TICK_MAX div 2)"

definition legal_flag :: "u8 \<Rightarrow> bool" where
  "legal_flag fl \<longleftrightarrow> fl = RT_IPC_FLAG_FIFO \<or> fl = RT_IPC_FLAG_PRIO"

lemma sem_head [simp]: "waiters_head (Sem_waiters i)"
  by (simp add: waiters_head_def)

text \<open>The current thread waits, and another one runs.\<close>

lemma blocks:
  assumes ok: "sched_ok (world s)" and t: "in_thread t u s" and h: "waiters_head h"
    and time: "legal_time time" and fl: "legal_flag fl"
  obtains s' where "wait_in h t fl time (clear_error t s) = Some s'" "sched_ok (world s')"
    "thr s' = (thr s)(t := thr s t\<lparr>error := RT_EOK, stat := RT_THREAD_SUSPEND\<rparr>)"
    "wlist s' h = joined fl t (wlist s h) s" "\<And>h'. waiters_head h' \<Longrightarrow> h' \<noteq> h \<Longrightarrow> wlist s' h' = wlist s h'"
    "objects (world s') = objects (world s)" "rt_current_thread (world s') \<noteq> Some t"
    "rt_scheduler_lock_nest (world s') = 0" "runs_highest (world s')"
proof -
  let ?s0 = "clear_error t s"
  have st: "stat (thr ?s0 t) = RT_THREAD_READY" "stat (thr ?s0 u) = RT_THREAD_READY" "u \<noteq> t"
    "rt_scheduler_lock_nest (world ?s0) = 0"
    using t by (auto simp: in_thread_def kernel_simps)
  obtain s' where s': "wait_in h t fl time ?s0 = Some s'" "sched_ok (world s')"
    "thr s' = (thr ?s0)(t := thr ?s0 t\<lparr>stat := RT_THREAD_SUSPEND\<rparr>)"
    "wlist s' h = joined fl t (wlist ?s0 h) ?s0"
    "\<And>h'. waiters_head h' \<Longrightarrow> h' \<noteq> h \<Longrightarrow> wlist s' h' = wlist ?s0 h'"
    "objects (world s') = objects (world ?s0)" "rt_current_thread (world s') \<noteq> Some t"
    "rt_scheduler_lock_nest (world s') = 0" "runs_highest (world s')"
    by (rule wait_in_ok [OF clear_error_ok [OF ok] st(1) h _ _ st(2-4), of fl time])
      (use fl time in \<open>simp_all add: legal_flag_def legal_time_def\<close>)
  have "current_priority (thr ?s0 v) = current_priority (thr s v)" for v
    by (simp add: kernel_simps)
  then have j: "joined fl t ts ?s0 = joined fl t ts s" for fl ts
    by (simp add: joined_def)
  show thesis
    by (rule that [OF s'(1)]) (use s' in \<open>simp_all add: kernel_simps j fun_eq_iff\<close>)
qed

lemma take_waits:
  assumes ok: "sched_ok (world s)" and t: "in_thread t u s" and v: "sem_value (sem s i) = 0"
    and time: "time \<noteq> 0" "legal_time time" and fl: "legal_flag (sem_flag (sem s i))"
  obtains s' where "rt_sem_take i time s = Some (Waits, s')" "sched_ok (world s')"
    "thr s' = (thr s)(t := thr s t\<lparr>error := RT_EOK, stat := RT_THREAD_SUSPEND\<rparr>)"
    "wlist s' (Sem_waiters i) = joined (sem_flag (sem s i)) t (wlist s (Sem_waiters i)) s"
    "objects (world s') = objects (world s)" "rt_scheduler_lock_nest (world s') = 0"
proof -
  obtain s' where s': "wait_in (Sem_waiters i) t (sem_flag (sem s i)) time (clear_error t s) = Some s'" "sched_ok (world s')"
    "thr s' = (thr s)(t := thr s t\<lparr>error := RT_EOK, stat := RT_THREAD_SUSPEND\<rparr>)"
    "wlist s' (Sem_waiters i) = joined (sem_flag (sem s i)) t (wlist s (Sem_waiters i)) s"
    "objects (world s') = objects (world s)" "rt_current_thread (world s') \<noteq> Some t"
    "rt_scheduler_lock_nest (world s') = 0"
    by (rule blocks [OF ok t sem_head time(2) fl]) blast
  have run: "rt_sem_take i time s = Some (Waits, s')"
    using t v time(1) s'(1,6) by (simp add: rt_sem_take_def in_thread_def after_wait_def)
  show thesis
    by (rule that [OF run]) (use s' in simp_all)
qed

lemma release_wakes:
  assumes ok: "sched_ok (world s)" and w: "wlist s (Sem_waiters i) = t # ts"
  obtains s' where "rt_sem_release i s = Some (RT_EOK, s')" "sched_ok (world s')"
    "thr s' = (thr s)(t := thr s t\<lparr>stat := RT_THREAD_READY\<rparr>)" "wlist s' (Sem_waiters i) = ts"
    "objects (world s') = objects (world s)"
    "rt_scheduler_lock_nest (world s) = 0 \<Longrightarrow>
      \<exists>c. rt_current_thread (world s') = Some c \<and> prio (world s') c \<le> prio (world s') t"
proof -
  obtain s1 where s1: "rt_ipc_list_resume (Sem_waiters i) s = Some s1" "sched_ok (world s1)"
    "thread_of (world s1) = (thread_of (world s))(t := thr s t\<lparr>stat := RT_THREAD_READY\<rparr>)"
    "wlist s1 (Sem_waiters i) = ts" "objects (world s1) = objects (world s)"
    "rt_scheduler_lock_nest (world s1) = rt_scheduler_lock_nest (world s)"
    by (rule list_resume_ok [OF ok sem_head w]) blast
  have ready: "stat (thr s1 t) = RT_THREAD_READY"
    by (simp add: s1(3))
  obtain k' where k': "rt_schedule (world s1) = Some k'"
    by (rule schedule_returns [OF s1(2) ready])
  note fr = schedule_frame [OF k']
  have "\<exists>c. rt_current_thread k' = Some c \<and> prio k' c \<le> prio k' t" if "rt_scheduler_lock_nest (world s) = 0"
    using schedule_picks_highest_aux [OF s1(2) ready] that k' ready fr(1) by (auto simp: s1(6))
  then show thesis
    using that [of "s1\<lparr>world := k'\<rparr>"] w s1 k' fr by (simp add: rt_sem_release_def try_kernel_def)
qed

section \<open>Histories of a semaphore\<close>

text \<open>
  \<open>sem_run i n s g r\<close>: the semaphore \<open>i\<close>, set up with the value \<open>n\<close>, is in the state \<open>s\<close> after
  \<open>g\<close> takes have been granted, at once or to a thread that waited, and \<open>r\<close> releases. In between
  anything may happen elsewhere that leaves the semaphore alone; threads that wait at it may be
  taken away, as their timers do.
\<close>

inductive sem_run :: "nat \<Rightarrow> nat \<Rightarrow> isys \<Rightarrow> nat \<Rightarrow> nat \<Rightarrow> bool" for i n where
  set_up: "sched_ok (world s) \<Longrightarrow> legal_flag fl \<Longrightarrow> n < 65536 \<Longrightarrow> wlist s (Sem_waiters i) = []
    \<Longrightarrow> rt_sem_init i (of_nat n) fl s = (e, s') \<Longrightarrow> sem_run i n s' 0 0"
| take: "sem_run i n s g r \<Longrightarrow> in_thread t u s \<Longrightarrow> legal_time time \<Longrightarrow> rt_sem_take i time s = Some (res, s')
    \<Longrightarrow> sem_run i n s' (if res = Returns RT_EOK then g + 1 else g) r"
| release: "sem_run i n s g r \<Longrightarrow> sem_value (sem s i) \<noteq> 0xFFFF \<Longrightarrow> rt_sem_release i s = Some (e, s')
    \<Longrightarrow> sem_run i n s' (if wlist s (Sem_waiters i) = [] then g else g + 1) (r + 1)"
| elsewhere: "sem_run i n s g r \<Longrightarrow> sched_ok (world s') \<Longrightarrow> sem s' i = sem s i
    \<Longrightarrow> set (wlist s' (Sem_waiters i)) \<subseteq> set (wlist s (Sem_waiters i)) \<Longrightarrow> sem_run i n s' g r"

definition sem_inv :: "nat \<Rightarrow> nat \<Rightarrow> isys \<Rightarrow> nat \<Rightarrow> nat \<Rightarrow> bool" where
  "sem_inv i n s g r \<longleftrightarrow> sched_ok (world s) \<and> legal_flag (sem_flag (sem s i))
     \<and> unat (sem_value (sem s i)) + g = n + r \<and> (sem_value (sem s i) > 0 \<longrightarrow> wlist s (Sem_waiters i) = [])"

lemma u16_dec: "0 < x \<Longrightarrow> Suc (unat (x - 1)) = unat x" for x :: u16
  by (simp add: unat_minus_one word_neq_0_conv Suc_pred unat_gt_0)

lemma u16_inc: "x \<noteq> 0xFFFF \<Longrightarrow> unat (x + 1) = Suc (unat x)" for x :: u16
proof -
  assume "x \<noteq> 0xFFFF"
  then have "x + 1 \<noteq> 0"
    by (auto simp: add_eq_0_iff2)
  then show ?thesis
    by (simp add: unatSuc add.commute)
qed

lemma set_list_nothing: "list_at k h = [] \<Longrightarrow> set_list h [] k = k"
  by (rule kernel.equality) (simp_all add: set_list_def fun_upd_idem)

lemma sem_run_inv: "sem_run i n s g r \<Longrightarrow> sem_inv i n s g r"
proof (induction rule: sem_run.induct)
  case (set_up s fl e s')
  then show ?case
    by (auto simp: sem_inv_def rt_sem_init_def kernel_simps set_list_nothing unsigned_of_nat take_bit_nat_eq_self)
next
  case (take s g r t u time res s')
  note inv = take.IH [unfolded sem_inv_def]
  show ?case
  proof (cases "sem_value (sem s i) > 0")
    case True
    then have "res = Returns RT_EOK" "s' = upd_sem i (\<lambda>x. x\<lparr>sem_value := sem_value x - 1\<rparr>) s"
      using take.hyps(4) by (simp_all add: rt_sem_take_def)
    then show ?thesis
      using inv u16_dec [OF True] True by (simp add: sem_inv_def kernel_simps)
  next
    case False
    then have z: "sem_value (sem s i) = 0"
      by (simp add: word_greater_zero_iff)
    show ?thesis
    proof (cases "time = 0")
      case True
      then show ?thesis
        using take.hyps(4) inv z by (auto simp: sem_inv_def rt_sem_take_def)
    next
      case False
      have "sched_ok (world s)" "legal_flag (sem_flag (sem s i))"
        using inv by auto
      from take_waits [OF this(1) take.hyps(2) z False take.hyps(3) this(2)]
      obtain s1 where "rt_sem_take i time s = Some (Waits, s1)" "sched_ok (world s1)" "objects (world s1) = objects (world s)"
        by metis
      then show ?thesis
        using take.hyps(4) inv z by (simp add: sem_inv_def)
    qed
  qed
next
  case (release s g r e s')
  note inv = release.IH [unfolded sem_inv_def]
  show ?case
  proof (cases "wlist s (Sem_waiters i)")
    case Nil
    then show ?thesis
      using release.hyps inv u16_inc [of "sem_value (sem s i)"] by (auto simp: sem_inv_def rt_sem_release_def kernel_simps)
  next
    case (Cons t ts)
    have "sched_ok (world s)"
      using inv by simp
    from release_wakes [OF this Cons]
    obtain s1 where "rt_sem_release i s = Some (RT_EOK, s1)" "sched_ok (world s1)" "objects (world s1) = objects (world s)"
      by metis
    then show ?thesis
      using release.hyps(3) inv Cons by (auto simp: sem_inv_def)
  qed
next
  case (elsewhere s g r s')
  then show ?case
    by (auto simp: sem_inv_def)
qed


text \<open>The timer of a waiting thread is a step that happens elsewhere.\<close>

lemma timeout_elsewhere:
  assumes "sem_run i n s g r" "stat (thr s t) = RT_THREAD_SUSPEND"
  obtains s' where "rt_thread_timeout t s = Some s'" "sem_run i n s' g r" "error (thr s' t) = RT_ETIMEOUT"
proof -
  have "sched_ok (world s)"
    using sem_run_inv [OF assms(1)] by (simp add: sem_inv_def)
  from thread_timeout_ok [OF this assms(2)] obtain k' where k': "thread_timeout t (world s) = Some k'" "sched_ok k'"
    "thread_of k' = (thr s)(t := thr s t\<lparr>stat := RT_THREAD_READY, error := RT_ETIMEOUT\<rparr>)"
    "list_at k' (Sem_waiters i) = removeAll t (wlist s (Sem_waiters i))" "objects k' = objects (world s)"
    using sem_head by metis
  have "sem_run i n (s\<lparr>world := k'\<rparr>) g r"
    by (rule sem_run.elsewhere [OF assms(1)]) (auto simp: k')
  then show thesis
    using that [of "s\<lparr>world := k'\<rparr>"] k' by (simp add: rt_thread_timeout_def try_kernel_def)
qed

text \<open>
  A take of an empty semaphore suspends the calling thread, and the release by another thread
  hands the token over: the waiting thread is ready again with no error, so its call returns
  \<open>RT_EOK\<close>, the value has stayed 0, and a thread at least as urgent as it is running.
\<close>

theorem sem_handover:
  assumes "sched_ok (world s)" "in_thread t u s" "sem_value (sem s i) = 0" "wlist s (Sem_waiters i) = []"
    and "time \<noteq> 0" "legal_time time" "legal_flag (sem_flag (sem s i))"
  shows "\<exists>s1 s2. rt_sem_take i time s = Some (Waits, s1) \<and> stat (thr s1 t) = RT_THREAD_SUSPEND
    \<and> rt_sem_release i s1 = Some (RT_EOK, s2) \<and> sched_ok (world s2) \<and> stat (thr s2 t) = RT_THREAD_READY
    \<and> rt_sem_taken t s2 = RT_EOK \<and> sem_value (sem s2 i) = 0 \<and> wlist s2 (Sem_waiters i) = []
    \<and> (\<exists>c. rt_current_thread (world s2) = Some c \<and> prio (world s2) c \<le> prio (world s2) t)"
proof -
  obtain s1 where s1: "rt_sem_take i time s = Some (Waits, s1)" "sched_ok (world s1)"
    "thr s1 = (thr s)(t := thr s t\<lparr>error := RT_EOK, stat := RT_THREAD_SUSPEND\<rparr>)"
    "wlist s1 (Sem_waiters i) = [t]"
    "objects (world s1) = objects (world s)" "rt_scheduler_lock_nest (world s1) = 0"
    by (rule take_waits [OF assms(1-3,5-7)]) (simp add: joined_def assms(4))
  obtain s2 where s2: "rt_sem_release i s1 = Some (RT_EOK, s2)" "sched_ok (world s2)"
    "thr s2 = (thr s1)(t := thr s1 t\<lparr>stat := RT_THREAD_READY\<rparr>)" "wlist s2 (Sem_waiters i) = []"
    "objects (world s2) = objects (world s1)"
    "\<exists>c. rt_current_thread (world s2) = Some c \<and> prio (world s2) c \<le> prio (world s2) t"
    using release_wakes [OF s1(2,4)] s1(6) by metis
  show ?thesis
    using s1 s2 assms(3) by (intro exI [of _ s1] exI [of _ s2]) (simp add: rt_sem_taken_def)
qed

text \<open>
  A take that has to wait with the longest time the type allows, 0x7FFFFFFF ticks, does not
  return: the thread is suspended and the assertion on the time fails in \<open>rt_timer_start\<close>. Every
  shorter time is accepted.
\<close>

theorem sem_longest_wait_hangs:
  assumes "sched_ok (world s)" "in_thread t u s" "sem_value (sem s i) = 0" "legal_flag (sem_flag (sem s i))" "0 <s time"
  shows "rt_sem_take i time s = None \<longleftrightarrow> time = 0x7FFFFFFF"
proof -
  have time: "sint time > 0" "time \<noteq> 0"
    using assms(5) by (auto simp: word_sless_alt)
  have "uint time < 2147483648"
  proof (rule ccontr)
    assume "\<not> uint time < 2147483648"
    then have "(uint time + 2147483648) mod 4294967296 = uint time - 2147483648"
      using uint_lt2p [of time] mod_pos_pos_trivial [of "uint time - 2147483648" 4294967296] minus_mod_self2 [of "uint time + 2147483648" 4294967296]
      by simp
    then show False
      using time(1) uint_lt2p [of time]
      by (simp add: sint_uint signed_take_bit_eq_take_bit_shift take_bit_eq_mod)
  qed
  moreover have "RT_TICK_MAX div 2 = 0x7FFFFFFF"
    by (simp add: RT_TICK_MAX_def)
  moreover have "time < 0x7FFFFFFF \<longleftrightarrow> uint time < 0x7FFFFFFF" "time = 0x7FFFFFFF \<longleftrightarrow> uint time = 0x7FFFFFFF"
    by (simp_all add: word_less_def word_uint_eq_iff)
  ultimately have half: "\<not> time < RT_TICK_MAX div 2 \<longleftrightarrow> time = 0x7FFFFFFF"
    by auto
  show ?thesis
  proof (cases "time < RT_TICK_MAX div 2")
    case True
    then show ?thesis
      using take_waits [OF assms(1-3) time(2) _ assms(4)] half by (metis legal_time_def option.distinct(1))
  next
    case False
    have t: "rt_current_thread (world s) = Some t" "stat (thr (clear_error t s) t) = RT_THREAD_READY"
      using assms(2) by (simp_all add: in_thread_def kernel_simps)
    obtain s1 where "rt_ipc_list_suspend (Sem_waiters i) t (sem_flag (sem s i)) (clear_error t s) = Some s1"
      by (rule list_suspend_returns [OF clear_error_ok [OF assms(1)] t(2)])
    then have "wait_in (Sem_waiters i) t (sem_flag (sem s i)) time (clear_error t s) = None"
      using time(1) by (simp add: wait_in_def start_thread_timer_hangs [OF False])
    then show ?thesis
      using t(1) assms(3) time(2) half False by (simp add: rt_sem_take_def)
  qed
qed

section \<open>Examples\<close>

text \<open>Semaphore 0 with the value \<open>n\<close> in the system of three threads.\<close>

definition demo_ipc :: "u16 \<Rightarrow> ipc" where
  "demo_ipc n = \<lparr>sems = \<lambda>_. \<lparr>sem_flag = RT_IPC_FLAG_PRIO, sem_value = n\<rparr>,
     mutexes = \<lambda>_. \<lparr>mutex_flag = RT_IPC_FLAG_FIFO, mutex_value = 1, original_priority = 0xFF, hold = 0, owner = None\<rparr>,
     events = \<lambda>_. \<lparr>event_flag = RT_IPC_FLAG_FIFO, event_bits = 0\<rparr>,
     mailboxes = \<lambda>_. \<lparr>mb_flag = RT_IPC_FLAG_FIFO, msg_pool = [0, 0], mb_size = 2, entry = 0, in_offset = 0, out_offset = 0\<rparr>,
     mqueues = \<lambda>_. \<lparr>mq_flag = RT_IPC_FLAG_FIFO, msg_size = 4, max_msgs = 0, mq_entry = 0, msg_queue_head = None,
       msg_queue_tail = None, msg_queue_free = None, msg_next = \<lambda>_. None, msg_data = \<lambda>_. []\<rparr>\<rparr>"

definition demo_sys :: "u16 \<Rightarrow> isys" where
  "demo_sys n = sys_of (demo_kernel (demo_ipc n))"

lemma demo_sys_simps [simp]:
  "sched_ok (world (demo_sys n))" "in_thread 0 2 (demo_sys n)" "sem_value (sem (demo_sys n) i) = n"
  "sem_flag (sem (demo_sys n) i) = RT_IPC_FLAG_PRIO" "waiters_head h \<Longrightarrow> wlist (demo_sys n) h = []"
  by (simp_all add: demo_sys_def demo_ok in_thread_def demo_ipc_def)

lemma legal_flags [simp]: "legal_flag RT_IPC_FLAG_PRIO" "legal_flag RT_IPC_FLAG_FIFO"
  by (simp_all add: legal_flag_def)

lemma sem_handover_witness:
  "\<exists>s1 s2. rt_sem_take 0 5 (demo_sys 0) = Some (Waits, s1) \<and> rt_sem_release 0 s1 = Some (RT_EOK, s2)
    \<and> rt_sem_taken 0 s2 = RT_EOK"
proof -
  have "legal_time 5"
    by (simp add: legal_time_def RT_TICK_MAX_def)
  then show ?thesis
    using sem_handover [of "demo_sys 0" 0 2 0 5] by force
qed

lemma sem_longest_wait_hangs_witness: "rt_sem_take 0 0x7FFFFFFF (demo_sys 0) = None"
  using sem_longest_wait_hangs [of "demo_sys 0" 0 2 0 "0x7FFFFFFF"] by (simp add: word_sless_alt)


end
