(* ===== verification/Kernel_Mutex.thy ===== *)
theory Kernel_Mutex
  imports Kernel_Sem
begin

text \<open>
  The mutexes of \<^verbatim>\<open>src/ipc.c\<close>: one owner, taken as often as the owner likes, with the priority
  of the owner raised while a more urgent thread waits.
\<close>

section \<open>Operations\<close>

abbreviation mtx :: "isys \<Rightarrow> nat \<Rightarrow> rt_mutex" where
  "mtx s i \<equiv> mutexes (objects (world s)) i"

definition upd_mutex :: "nat \<Rightarrow> (rt_mutex \<Rightarrow> rt_mutex) \<Rightarrow> isys \<Rightarrow> isys" where
  "upd_mutex i f = on_objects (\<lambda>o1. o1\<lparr>mutexes := (mutexes o1)(i := f (mutexes o1 i))\<rparr>)"

definition rt_mutex_init :: "nat \<Rightarrow> u8 \<Rightarrow> isys \<Rightarrow> rt_err \<times> isys" where
  "rt_mutex_init i fl s = (RT_EOK,
     upd_mutex i (\<lambda>_. \<lparr>mutex_flag = fl, mutex_value = 1, original_priority = 0xFF, hold = 0, owner = None\<rparr>)
       (on_kernel (set_list (Mutex_waiters i) []) s))"

definition rt_mutex_create :: "nat option \<Rightarrow> u8 \<Rightarrow> isys \<Rightarrow> nat option \<times> isys" where
  "rt_mutex_create alloc fl s =
     (case alloc of None \<Rightarrow> (None, s) | Some i \<Rightarrow> (Some i, snd (rt_mutex_init i fl s)))"

definition rt_mutex_detach :: "nat \<Rightarrow> isys \<Rightarrow> (rt_err \<times> isys) option" where
  "rt_mutex_detach i s = do { s \<leftarrow> rt_ipc_list_resume_all (Mutex_waiters i) s; Some (RT_EOK, s) }"

definition rt_mutex_delete :: "nat \<Rightarrow> isys \<Rightarrow> (rt_err \<times> isys) option" where
  "rt_mutex_delete i s = do { s \<leftarrow> rt_ipc_list_resume_all (Mutex_waiters i) s; Some (RT_EOK, s) }"

definition rt_mutex_take :: "nat \<Rightarrow> u32 \<Rightarrow> isys \<Rightarrow> (outcome \<times> isys) option" where
  "rt_mutex_take i time s = (case rt_current_thread (world s) of
     None \<Rightarrow> Some (Returns RT_EOK, s)
   | Some t \<Rightarrow> (let s = clear_error t s; m = mtx s i in
       if owner m = Some t then Some (Returns RT_EOK, upd_mutex i (\<lambda>m. m\<lparr>hold := hold m + 1\<rparr>) s)
       else if mutex_value m > 0
       then Some (Returns RT_EOK, upd_mutex i (\<lambda>m. m\<lparr>mutex_value := mutex_value m - 1, owner := Some t,
         original_priority := current_priority (thr s t), hold := hold m + 1\<rparr>) s)
       else if time = 0
       then Some (Returns RT_ETIMEOUT, on_kernel (upd_thread t (\<lambda>x. x\<lparr>error := RT_ETIMEOUT\<rparr>)) s)
       else do {
         w \<leftarrow> owner m;
         s \<leftarrow> (if current_priority (thr s t) < current_priority (thr s w)
              then do {
                (_, s) \<leftarrow> rt_thread_control w RT_THREAD_CTRL_CHANGE_PRIORITY (current_priority (thr s t)) s;
                Some s
              }
              else Some s);
         s \<leftarrow> wait_in (Mutex_waiters i) t (mutex_flag m) time s;
         Some (after_wait t s, s)
       }))"

text \<open>What a thread that waited returns when it runs again.\<close>

definition rt_mutex_taken :: "nat \<Rightarrow> isys \<Rightarrow> rt_err" where
  "rt_mutex_taken t s = (if error (thr s t) \<noteq> RT_EOK then error (thr s t) else RT_EOK)"

definition rt_mutex_release :: "nat \<Rightarrow> isys \<Rightarrow> (rt_err \<times> isys) option" where
  "rt_mutex_release i s = (case rt_current_thread (world s) of
     None \<Rightarrow> Some (RT_EOK, s)
   | Some t \<Rightarrow>
       if owner (mtx s i) \<noteq> Some t
       then Some (RT_ERROR, on_kernel (upd_thread t (\<lambda>x. x\<lparr>error := RT_ERROR\<rparr>)) s)
       else do {
         let s = upd_mutex i (\<lambda>m. m\<lparr>hold := hold m - 1\<rparr>) s;
         if hold (mtx s i) = 0
         then do {
           s \<leftarrow> (if original_priority (mtx s i) \<noteq> current_priority (thr s t)
                then do {
                  (_, s) \<leftarrow> rt_thread_control t RT_THREAD_CTRL_CHANGE_PRIORITY (original_priority (mtx s i)) s;
                  Some s
                }
                else Some s);
           case wlist s (Mutex_waiters i) of
             [] \<Rightarrow> Some (RT_EOK, upd_mutex i (\<lambda>m. m\<lparr>mutex_value := mutex_value m + 1, owner := None,
                      original_priority := 0xFF\<rparr>) s)
           | w # _ \<Rightarrow> do {
               let s = upd_mutex i (\<lambda>m. m\<lparr>owner := Some w, original_priority := current_priority (thr s w),
                 hold := hold m + 1\<rparr>) s;
               s \<leftarrow> rt_ipc_list_resume (Mutex_waiters i) s;
               s \<leftarrow> try_kernel rt_schedule s;
               Some (RT_EOK, s)
             }
         }
         else Some (RT_EOK, s)
       })"

definition rt_mutex_control :: "nat \<Rightarrow> u8 \<Rightarrow> isys \<Rightarrow> rt_err \<times> isys" where
  "rt_mutex_control i cmd s = (RT_ERROR, s)"

section \<open>What the operations do\<close>

lemma mutex_head [simp]: "waiters_head (Mutex_waiters i)"
  by (simp add: waiters_head_def)

lemma upd_mutex_simps [kernel_simps]:
  "mtx (upd_mutex i f s) j = (if j = i then f (mtx s i) else mtx s j)" "thr (upd_mutex i f s) = thr s"
  "wlist (upd_mutex i f s) = wlist s" "rt_current_thread (world (upd_mutex i f s)) = rt_current_thread (world s)"
  "rt_scheduler_lock_nest (world (upd_mutex i f s)) = rt_scheduler_lock_nest (world s)"
  "sched_ok_on A (world (upd_mutex i f s)) = sched_ok_on A (world s)"
  by (simp_all add: upd_mutex_def kernel_simps)

lemma set_priority_stat:
  "stat (set_priority p x) = stat x" "error (set_priority p x) = error x"
  "current_priority (set_priority p x) = p" "stat x = st \<Longrightarrow> (set_priority p x)\<lparr>stat := st\<rparr> = set_priority p x"
  by (auto simp: set_priority_def)

lemma set_priority_ok: "unat p < 32 \<Longrightarrow> prio_ok (set_priority p x)"
  by (simp add: set_priority_def prio_ok_def push_bit_eq_mult)

lemma change_priority_ok:
  assumes ok: "sched_ok k" and p: "unat p < 32"
  obtains k' where "change_priority t p k = Some k'" "sched_ok k'"
    "thread_of k' = (thread_of k)(t := set_priority p (thread_of k t))"
    "\<And>h. waiters_head h \<Longrightarrow> list_at k' h = list_at k h" "objects k' = objects k"
    "rt_current_thread k' = rt_current_thread k" "rt_scheduler_lock_nest k' = rt_scheduler_lock_nest k"
proof (cases "stat (thread_of k t) = RT_THREAD_READY")
  case True
  obtain k1 where k1: "rt_schedule_remove_thread t (upd_thread t (\<lambda>x. x) k) = Some k1" "sched_ok_on {t} k1"
    "thread_of k1 = (thread_of k)(t := thread_of k t)" "list_at k1 = (\<lambda>h. removeAll t (list_at k h))"
    "rt_current_thread k1 = rt_current_thread k" "rt_scheduler_lock_nest k1 = rt_scheduler_lock_nest k"
    "objects k1 = objects k"
    by (rule remove_thread [OF ok, of t "\<lambda>x. x"]) (use sched_okD(7) [OF ok, of t] True in simp_all)
  let ?k2 = "upd_thread t (set_priority p) k1"
  have same: "upd_thread t (\<lambda>x. x) k = k"
    by (simp add: upd_thread_def)
  have ok2: "sched_ok_on {t} ?k2" "prio_ok (thread_of ?k2 t)"
    using sched_but_upd [OF k1(2)] p by (simp_all add: kernel_simps set_priority_ok)
  obtain k' where k': "rt_schedule_insert_thread t ?k2 = Some k'" "sched_ok k'"
    "thread_of k' = (thread_of ?k2)(t := thread_of ?k2 t\<lparr>stat := RT_THREAD_READY\<rparr>)"
    "list_at k' = (list_at ?k2)(Priority (prio ?k2 t) := list_at ?k2 (Priority (prio ?k2 t)) @ [t])"
    "rt_current_thread k' = rt_current_thread ?k2" "rt_scheduler_lock_nest k' = rt_scheduler_lock_nest ?k2"
    "objects k' = objects ?k2"
    by (rule insert_thread [OF ok2]) blast
  have run: "change_priority t p k = Some k'"
    using True k1(1) k'(1) by (simp add: change_priority_def same)
  have lists: "list_at k' h = list_at k h" if h: "waiters_head h" for h
    using waiters_keep [OF ok True h] h by (auto simp: k'(4) k1(4) kernel_simps waiters_head_def)
  show thesis
    by (rule that [OF run k'(2) _ lists])
      (use True in \<open>simp_all add: k'(3,5-7) k1(3,5-7) kernel_simps set_priority_stat\<close>)
next
  case False
  let ?k' = "upd_thread t (set_priority p) k"
  have out: "t \<notin> set (list_at k (Priority q))" for q
    using sched_okD(4) [OF ok, of t q] False by auto
  have "sched_ok ?k'"
  proof (rule sched_okI)
    show "stat (thread_of ?k' u) = RT_THREAD_READY \<and> prio ?k' u = q" if "u \<in> set (list_at ?k' (Priority q))" for q u
      using sched_okD(4,5) [OF ok, of u q] out that by (cases "u = t") (auto simp: kernel_simps prio_def)
    show "u \<in> set (list_at ?k' (Priority (prio ?k' u)))" if "stat (thread_of ?k' u) = RT_THREAD_READY" for u
      using sched_okD(6) [OF ok, of u] False that by (cases "u = t") (auto simp: kernel_simps prio_def set_priority_stat)
    show "prio_ok (thread_of ?k' u)"
      if "stat (thread_of ?k' u) = RT_THREAD_READY \<or> stat (thread_of ?k' u) = RT_THREAD_SUSPEND" for u
      using sched_okD(7,8) [OF ok, of u] p that by (cases "u = t") (auto simp: kernel_simps set_priority_ok)
  qed (use sched_okD [OF ok] in \<open>auto simp: kernel_simps set_priority_stat linked_def\<close>)
  then show thesis
    by (rule that [of ?k', rotated]) (use False in \<open>simp_all add: change_priority_def kernel_simps\<close>)
qed

lemma control_priority:
  "rt_thread_control t RT_THREAD_CTRL_CHANGE_PRIORITY p s = do { s \<leftarrow> try_kernel (change_priority t p) s; Some (RT_EOK, s) }"
  by (simp add: rt_thread_control_def)

text \<open>The priority of a thread is set unless it is that already.\<close>

lemma set_priority_same: "prio_ok x \<Longrightarrow> current_priority x = p \<Longrightarrow> set_priority p x = x"
  by (auto simp: set_priority_def prio_ok_def push_bit_eq_mult)

lemma control_priority_ok:
  assumes ok: "sched_ok (world s)" and p: "unat p < 32"
  obtains s' where "rt_thread_control t RT_THREAD_CTRL_CHANGE_PRIORITY p s = Some (RT_EOK, s')" "sched_ok (world s')"
    "thr s' = (thr s)(t := set_priority p (thr s t))"
    "\<And>h. waiters_head h \<Longrightarrow> wlist s' h = wlist s h" "objects (world s') = objects (world s)"
    "rt_current_thread (world s') = rt_current_thread (world s)"
    "rt_scheduler_lock_nest (world s') = rt_scheduler_lock_nest (world s)"
proof -
  obtain k' where k': "change_priority t p (world s) = Some k'" "sched_ok k'"
    "thread_of k' = (thread_of (world s))(t := set_priority p (thread_of (world s) t))"
    "\<And>h. waiters_head h \<Longrightarrow> list_at k' h = list_at (world s) h" "objects k' = objects (world s)"
    "rt_current_thread k' = rt_current_thread (world s)" "rt_scheduler_lock_nest k' = rt_scheduler_lock_nest (world s)"
    by (rule change_priority_ok [OF ok p]) blast
  then show thesis
    using that [of "s\<lparr>world := k'\<rparr>"] by (simp add: control_priority try_kernel_def)
qed


lemma insert_by_priority_cong:
  "pr t = pr' t \<Longrightarrow> (\<And>u. u \<in> set ts \<Longrightarrow> pr u = pr' u) \<Longrightarrow> insert_by_priority pr t ts = insert_by_priority pr' t ts"
  by (induction ts) auto

definition raised :: "isys \<Rightarrow> nat \<Rightarrow> nat \<Rightarrow> rt_thread" where
  "raised s t w = (if current_priority (thr s t) < current_priority (thr s w)
     then set_priority (current_priority (thr s t)) (thr s w) else thr s w)"

text \<open>A thread waits for the owner, whose priority is raised to its own if that is more urgent.\<close>

lemma mutex_take_waits:
  assumes ok: "sched_ok (world s)" and t: "in_thread t u s"
    and m: "owner (mtx s i) = Some w" "w \<noteq> t" "mutex_value (mtx s i) = 0" "w \<notin> set (wlist s (Mutex_waiters i))"
    and time: "time \<noteq> 0" "legal_time time" and fl: "legal_flag (mutex_flag (mtx s i))"
  obtains s' where "rt_mutex_take i time s = Some (Waits, s')" "sched_ok (world s')"
    "thr s' = (thr s)(t := thr s t\<lparr>error := RT_EOK, stat := RT_THREAD_SUSPEND\<rparr>, w := raised s t w)"
    "wlist s' (Mutex_waiters i) = joined (mutex_flag (mtx s i)) t (wlist s (Mutex_waiters i)) s"
    "objects (world s') = objects (world s)" "rt_scheduler_lock_nest (world s') = 0" "runs_highest (world s')"
proof -
  let ?s0 = "clear_error t s"
  let ?p = "current_priority (thr s t)"
  have ok0: "sched_ok (world ?s0)"
    by (rule clear_error_ok [OF ok])
  have p: "unat ?p < 32"
    using sched_okD(7) [OF ok, of t] t by (simp add: in_thread_def prio_ok_def)
  have c0: "current_priority (thr ?s0 v) = current_priority (thr s v)" for v
    by (simp add: kernel_simps)
  obtain s1 where s1: "(if ?p < current_priority (thr ?s0 w)
      then do { (_, s) \<leftarrow> rt_thread_control w RT_THREAD_CTRL_CHANGE_PRIORITY ?p ?s0; Some s } else Some ?s0) = Some s1"
    "sched_ok (world s1)" "thr s1 = (thr ?s0)(w := raised s t w)"
    "\<And>h. waiters_head h \<Longrightarrow> wlist s1 h = wlist s h" "objects (world s1) = objects (world s)"
    "rt_current_thread (world s1) = Some t" "rt_scheduler_lock_nest (world s1) = 0"
  proof (cases "?p < current_priority (thr ?s0 w)")
    case True
    obtain s1 where "rt_thread_control w RT_THREAD_CTRL_CHANGE_PRIORITY ?p ?s0 = Some (RT_EOK, s1)" "sched_ok (world s1)"
      "thr s1 = (thr ?s0)(w := set_priority ?p (thr ?s0 w))" "\<And>h. waiters_head h \<Longrightarrow> wlist s1 h = wlist ?s0 h"
      "objects (world s1) = objects (world ?s0)" "rt_current_thread (world s1) = rt_current_thread (world ?s0)"
      "rt_scheduler_lock_nest (world s1) = rt_scheduler_lock_nest (world ?s0)"
      by (rule control_priority_ok [OF ok0 p]) blast
    then show thesis
      using that [of s1] True t m(2) c0 by (simp add: kernel_simps raised_def in_thread_def)
  next
    case False
    then show thesis
      using that [of ?s0] ok0 t m(2) c0 by (simp add: kernel_simps raised_def in_thread_def fun_eq_iff)
  qed
  have st: "stat (thr s1 t) = RT_THREAD_READY" "stat (thr s1 u) = RT_THREAD_READY" "u \<noteq> t"
    using t m(2) by (auto simp: in_thread_def s1(3) kernel_simps raised_def set_priority_stat)
  obtain s' where s': "wait_in (Mutex_waiters i) t (mutex_flag (mtx s i)) time s1 = Some s'" "sched_ok (world s')"
    "thr s' = (thr s1)(t := thr s1 t\<lparr>stat := RT_THREAD_SUSPEND\<rparr>)"
    "wlist s' (Mutex_waiters i) = joined (mutex_flag (mtx s i)) t (wlist s1 (Mutex_waiters i)) s1"
    "objects (world s') = objects (world s1)" "rt_current_thread (world s') \<noteq> Some t"
    "rt_scheduler_lock_nest (world s') = 0" "runs_highest (world s')"
    by (rule wait_in_ok [OF s1(2) st(1) mutex_head _ _ st(2,3) s1(7), of "mutex_flag (mtx s i)" time i])
      (use fl time in \<open>simp_all add: legal_flag_def legal_time_def\<close>)
  have "insert_by_priority (\<lambda>u. current_priority (thr s1 u)) t (wlist s (Mutex_waiters i)) =
    insert_by_priority (\<lambda>u. current_priority (thr s u)) t (wlist s (Mutex_waiters i))"
    by (rule insert_by_priority_cong) (use m(2,4) in \<open>auto simp: s1(3) c0\<close>)
  then have j: "joined fl t (wlist s (Mutex_waiters i)) s1 = joined fl t (wlist s (Mutex_waiters i)) s" for fl
    by (simp add: joined_def)
  have cur: "rt_current_thread (world s) = Some t" "mtx ?s0 i = mtx s i" "current_priority (thr ?s0 t) = ?p"
    using t by (simp_all add: in_thread_def kernel_simps)
  have run: "rt_mutex_take i time s = Some (Waits, s')"
    unfolding rt_mutex_take_def Let_def cur option.case
    using s1(1) s'(1,6) m(1-3) time(1) by (simp add: after_wait_def)
  show thesis
    by (rule that [OF run]) (use s' m(2) in \<open>simp_all add: s1(3-5) kernel_simps j fun_eq_iff\<close>)
qed


text \<open>The owner releases it for the last time: it gets its priority back.\<close>

lemma mutex_give_back:
  assumes ok: "sched_ok (world s)" and t: "rt_current_thread (world s) = Some t" "stat (thr s t) = RT_THREAD_READY"
    and m: "owner (mtx s i) = Some t" "hold (mtx s i) = 1" "unat (original_priority (mtx s i)) < 32"
  obtains s1 where "sched_ok (world s1)"
    "thr s1 = (thr s)(t := set_priority (original_priority (mtx s i)) (thr s t))"
    "\<And>h. waiters_head h \<Longrightarrow> wlist s1 h = wlist s h"
    "objects (world s1) = objects (world (upd_mutex i (\<lambda>m. m\<lparr>hold := 0\<rparr>) s))"
    "rt_current_thread (world s1) = Some t" "rt_scheduler_lock_nest (world s1) = rt_scheduler_lock_nest (world s)"
    "rt_mutex_release i s = (case wlist s1 (Mutex_waiters i) of
        [] \<Rightarrow> Some (RT_EOK, upd_mutex i (\<lambda>m. m\<lparr>mutex_value := mutex_value m + 1, owner := None,
                original_priority := 0xFF\<rparr>) s1)
      | w # _ \<Rightarrow> do {
          s \<leftarrow> rt_ipc_list_resume (Mutex_waiters i) (upd_mutex i (\<lambda>m. m\<lparr>owner := Some w,
            original_priority := current_priority (thr s1 w), hold := hold m + 1\<rparr>) s1);
          s \<leftarrow> try_kernel rt_schedule s;
          Some (RT_EOK, s)
        })"
proof -
  let ?s0 = "upd_mutex i (\<lambda>m. m\<lparr>hold := hold m - 1\<rparr>) s"
  let ?q = "original_priority (mtx s i)"
  have "?s0 = upd_mutex i (\<lambda>m. m\<lparr>hold := 0\<rparr>) s"
    using m(2) by (simp add: upd_mutex_def on_objects_def on_kernel_def)
  with ok have s0: "sched_ok (world ?s0)" "?s0 = upd_mutex i (\<lambda>m. m\<lparr>hold := 0\<rparr>) s"
    by (simp_all add: kernel_simps)
  have p: "prio_ok (thr s t)"
    using sched_okD(7) [OF ok, of t] t(2) by simp
  obtain s1 where s1: "(if ?q \<noteq> current_priority (thr ?s0 t)
      then do { (_, s) \<leftarrow> rt_thread_control t RT_THREAD_CTRL_CHANGE_PRIORITY ?q ?s0; Some s } else Some ?s0) = Some s1"
    "sched_ok (world s1)" "thr s1 = (thr ?s0)(t := set_priority ?q (thr s t))"
    "\<And>h. waiters_head h \<Longrightarrow> wlist s1 h = wlist s h" "objects (world s1) = objects (world ?s0)"
    "rt_current_thread (world s1) = Some t" "rt_scheduler_lock_nest (world s1) = rt_scheduler_lock_nest (world s)"
  proof (cases "?q = current_priority (thr ?s0 t)")
    case False
    obtain s1 where "rt_thread_control t RT_THREAD_CTRL_CHANGE_PRIORITY ?q ?s0 = Some (RT_EOK, s1)" "sched_ok (world s1)"
      "thr s1 = (thr ?s0)(t := set_priority ?q (thr ?s0 t))" "\<And>h. waiters_head h \<Longrightarrow> wlist s1 h = wlist ?s0 h"
      "objects (world s1) = objects (world ?s0)" "rt_current_thread (world s1) = rt_current_thread (world ?s0)"
      "rt_scheduler_lock_nest (world s1) = rt_scheduler_lock_nest (world ?s0)"
      by (rule control_priority_ok [OF s0(1) m(3)]) blast
    then show thesis
      using that [of s1] False t(1) by (simp add: kernel_simps)
  next
    case True
    then have "set_priority ?q (thr s t) = thr s t"
      by (intro set_priority_same [OF p]) (simp add: kernel_simps)
    then show thesis
      using that [of ?s0] s0(1) True t(1) by (simp add: kernel_simps)
  qed
  have m0: "hold (mtx ?s0 i) = 0" "original_priority (mtx ?s0 i) = ?q"
    using m(2) by (simp_all add: kernel_simps)
  show thesis
  proof (rule that [of s1])
    show "rt_mutex_release i s = (case wlist s1 (Mutex_waiters i) of
        [] \<Rightarrow> Some (RT_EOK, upd_mutex i (\<lambda>m. m\<lparr>mutex_value := mutex_value m + 1, owner := None,
                original_priority := 0xFF\<rparr>) s1)
      | w # _ \<Rightarrow> do {
          s \<leftarrow> rt_ipc_list_resume (Mutex_waiters i) (upd_mutex i (\<lambda>m. m\<lparr>owner := Some w,
            original_priority := current_priority (thr s1 w), hold := hold m + 1\<rparr>) s1);
          s \<leftarrow> try_kernel rt_schedule s;
          Some (RT_EOK, s)
        })"
      unfolding rt_mutex_release_def Let_def t(1) option.case m0 using m(1) by (simp add: s1(1))
  qed (use s1(2-7) s0(2) in \<open>simp_all add: kernel_simps\<close>)
qed

lemma mutex_release_frees:
  assumes "sched_ok (world s)" "rt_current_thread (world s) = Some t" "stat (thr s t) = RT_THREAD_READY"
    and "owner (mtx s i) = Some t" "hold (mtx s i) = 1" "unat (original_priority (mtx s i)) < 32"
    and w: "wlist s (Mutex_waiters i) = []"
  obtains s' where "rt_mutex_release i s = Some (RT_EOK, s')" "sched_ok (world s')"
    "thr s' = (thr s)(t := set_priority (original_priority (mtx s i)) (thr s t))" "wlist s' (Mutex_waiters i) = []"
    "mtx s' i = (mtx s i)\<lparr>mutex_value := mutex_value (mtx s i) + 1, owner := None, original_priority := 0xFF, hold := 0\<rparr>"
proof -
  obtain s1 where s1: "sched_ok (world s1)"
    "thr s1 = (thr s)(t := set_priority (original_priority (mtx s i)) (thr s t))"
    "wlist s1 (Mutex_waiters i) = []"
    "objects (world s1) = objects (world (upd_mutex i (\<lambda>m. m\<lparr>hold := 0\<rparr>) s))"
    "rt_mutex_release i s = Some (RT_EOK, upd_mutex i (\<lambda>m. m\<lparr>mutex_value := mutex_value m + 1, owner := None,
                original_priority := 0xFF\<rparr>) s1)"
    by (rule mutex_give_back [OF assms(1-6)]) (simp add: w)
  show thesis
    by (rule that [OF s1(5)]) (use s1 in \<open>simp_all add: kernel_simps\<close>)
qed

lemma mutex_release_hands_over:
  assumes ok: "sched_ok (world s)" and t: "rt_current_thread (world s) = Some t" "stat (thr s t) = RT_THREAD_READY"
    and m: "owner (mtx s i) = Some t" "hold (mtx s i) = 1" "unat (original_priority (mtx s i)) < 32"
    and w: "wlist s (Mutex_waiters i) = w # ws" and lock: "rt_scheduler_lock_nest (world s) = 0"
  obtains s' where "rt_mutex_release i s = Some (RT_EOK, s')" "sched_ok (world s')"
    "thr s' = (thr s)(t := set_priority (original_priority (mtx s i)) (thr s t),
       w := thr s w\<lparr>stat := RT_THREAD_READY\<rparr>)"
    "wlist s' (Mutex_waiters i) = ws" "runs_highest (world s')"
    "mtx s' i = (mtx s i)\<lparr>owner := Some w, original_priority := current_priority (thr s w), hold := 1\<rparr>"
proof -
  obtain s1 where s1: "sched_ok (world s1)"
    "thr s1 = (thr s)(t := set_priority (original_priority (mtx s i)) (thr s t))"
    "wlist s1 (Mutex_waiters i) = w # ws"
    "objects (world s1) = objects (world (upd_mutex i (\<lambda>m. m\<lparr>hold := 0\<rparr>) s))"
    "rt_scheduler_lock_nest (world s1) = 0"
    "rt_mutex_release i s = do {
          s \<leftarrow> rt_ipc_list_resume (Mutex_waiters i) (upd_mutex i (\<lambda>m. m\<lparr>owner := Some w,
            original_priority := current_priority (thr s1 w), hold := hold m + 1\<rparr>) s1);
          s \<leftarrow> try_kernel rt_schedule s;
          Some (RT_EOK, s)
        }"
    by (rule mutex_give_back [OF assms(1-6)]) (simp add: w lock)
  have "stat (thr s w) = RT_THREAD_SUSPEND"
    using sched_okD(9) [OF ok mutex_head, of w i] w by simp
  then have wt: "w \<noteq> t"
    using t(2) by auto
  let ?s2 = "upd_mutex i (\<lambda>m. m\<lparr>owner := Some w, original_priority := current_priority (thr s1 w), hold := hold m + 1\<rparr>) s1"
  have s2: "sched_ok (world ?s2)" "wlist ?s2 (Mutex_waiters i) = w # ws"
    using s1(1,3) by (simp_all add: kernel_simps)
  obtain s3 where s3: "rt_ipc_list_resume (Mutex_waiters i) ?s2 = Some s3" "sched_ok (world s3)"
    "thread_of (world s3) = (thread_of (world ?s2))(w := thr ?s2 w\<lparr>stat := RT_THREAD_READY\<rparr>)"
    "wlist s3 (Mutex_waiters i) = ws" "objects (world s3) = objects (world ?s2)"
    "rt_scheduler_lock_nest (world s3) = rt_scheduler_lock_nest (world ?s2)"
    by (rule list_resume_ok [OF s2(1) mutex_head s2(2)]) blast
  have ready: "stat (thr s3 w) = RT_THREAD_READY" "rt_scheduler_lock_nest (world s3) = 0"
    by (simp_all add: s3(3,6) s1(5) kernel_simps)
  obtain k' where k': "rt_schedule (world s3) = Some k'" "runs_highest k'"
    unfolding runs_highest_def using schedule_picks_highest_aux [OF s3(2) ready] by metis
  note fr = schedule_frame [OF k'(1)]
  have run: "rt_mutex_release i s = Some (RT_EOK, s3\<lparr>world := k'\<rparr>)"
    using s1(6) s3(1) k'(1) by (simp add: try_kernel_def)
  show thesis
    by (rule that [OF run]) (use s3 k' wt in \<open>simp_all add: fr kernel_simps s1(2,4)\<close>)
qed


section \<open>Histories of a mutex\<close>

text \<open>
  \<open>mutex_run i s held\<close>: since the mutex was set up, the thread \<open>t\<close> has taken it \<open>held t\<close> times more
  than it has released it. A release that returns \<open>RT_EOK\<close> gives one of the caller's takes back; a
  thread that no longer waits afterwards has been granted its take. Elsewhere waiting threads may
  be taken away, as their timers do.
\<close>

definition after_release :: "nat \<Rightarrow> nat list \<Rightarrow> nat list \<Rightarrow> (nat \<Rightarrow> nat) \<Rightarrow> nat \<Rightarrow> nat" where
  "after_release t ws ws' held = (\<lambda>x. if x = t then held x - 1
     else if x \<in> set ws \<and> x \<notin> set ws' then held x + 1 else held x)"

inductive mutex_run :: "nat \<Rightarrow> isys \<Rightarrow> (nat \<Rightarrow> nat) \<Rightarrow> bool" for i where
  set_up: "sched_ok (world s) \<Longrightarrow> legal_flag fl \<Longrightarrow> wlist s (Mutex_waiters i) = []
    \<Longrightarrow> rt_mutex_init i fl s = (e, s') \<Longrightarrow> mutex_run i s' (\<lambda>_. 0)"
| take: "mutex_run i s held \<Longrightarrow> in_thread t u s \<Longrightarrow> legal_time time \<Longrightarrow> hold (mtx s i) \<noteq> 0xFF
    \<Longrightarrow> rt_mutex_take i time s = Some (res, s')
    \<Longrightarrow> mutex_run i s' (if res = Returns RT_EOK then held(t := held t + 1) else held)"
| release: "mutex_run i s held \<Longrightarrow> in_thread t u s \<Longrightarrow> rt_mutex_release i s = Some (e, s')
    \<Longrightarrow> mutex_run i s' (if e = RT_EOK
          then after_release t (wlist s (Mutex_waiters i)) (wlist s' (Mutex_waiters i)) held else held)"
| elsewhere: "mutex_run i s held \<Longrightarrow> sched_ok (world s') \<Longrightarrow> mtx s' i = mtx s i
    \<Longrightarrow> set (wlist s' (Mutex_waiters i)) \<subseteq> set (wlist s (Mutex_waiters i)) \<Longrightarrow> mutex_run i s' held"

definition mutex_inv :: "nat \<Rightarrow> isys \<Rightarrow> (nat \<Rightarrow> nat) \<Rightarrow> bool" where
  "mutex_inv i s held \<longleftrightarrow> sched_ok (world s) \<and> legal_flag (mutex_flag (mtx s i))
     \<and> (case owner (mtx s i) of
          None \<Rightarrow> mutex_value (mtx s i) = 1 \<and> hold (mtx s i) = 0 \<and> wlist s (Mutex_waiters i) = [] \<and> held = (\<lambda>_. 0)
        | Some w \<Rightarrow> mutex_value (mtx s i) = 0 \<and> 0 < hold (mtx s i) \<and> w \<notin> set (wlist s (Mutex_waiters i))
            \<and> held = (\<lambda>_. 0)(w := unat (hold (mtx s i))) \<and> unat (original_priority (mtx s i)) < 32)"

lemma mutex_invD:
  assumes "mutex_inv i s held"
  shows "sched_ok (world s)" "legal_flag (mutex_flag (mtx s i))"
    "owner (mtx s i) = None \<Longrightarrow> mutex_value (mtx s i) = 1" "owner (mtx s i) = None \<Longrightarrow> hold (mtx s i) = 0"
    "owner (mtx s i) = None \<Longrightarrow> wlist s (Mutex_waiters i) = []" "owner (mtx s i) = None \<Longrightarrow> held = (\<lambda>_. 0)"
    "owner (mtx s i) = Some w \<Longrightarrow> mutex_value (mtx s i) = 0" "owner (mtx s i) = Some w \<Longrightarrow> 0 < hold (mtx s i)"
    "owner (mtx s i) = Some w \<Longrightarrow> w \<notin> set (wlist s (Mutex_waiters i))"
    "owner (mtx s i) = Some w \<Longrightarrow> held = (\<lambda>_. 0)(w := unat (hold (mtx s i)))"
    "owner (mtx s i) = Some w \<Longrightarrow> unat (original_priority (mtx s i)) < 32"
  using assms by (simp_all add: mutex_inv_def)

lemma u8_inc: "x \<noteq> 0xFF \<Longrightarrow> unat (x + 1) = Suc (unat x)" for x :: u8
proof -
  assume "x \<noteq> 0xFF"
  then have "x + 1 \<noteq> 0"
    by (auto simp: add_eq_0_iff2)
  then show ?thesis
    by (simp add: unatSuc add.commute)
qed

lemma u8_dec: "0 < x \<Longrightarrow> Suc (unat (x - 1)) = unat x" for x :: u8
  by (simp add: unat_minus_one word_neq_0_conv Suc_pred unat_gt_0)

lemma mutex_inv_keep:
  "mutex_inv i s held \<Longrightarrow> mtx s' i = mtx s i \<Longrightarrow> sched_ok (world s')
    \<Longrightarrow> set (wlist s' (Mutex_waiters i)) \<subseteq> set (wlist s (Mutex_waiters i)) \<Longrightarrow> mutex_inv i s' held"
  by (auto simp: mutex_inv_def split: option.splits)

lemma mutex_take_inv:
  assumes inv: "mutex_inv i s held" and t: "in_thread t u s" and time: "legal_time time" and h: "hold (mtx s i) \<noteq> 0xFF"
    and run: "rt_mutex_take i time s = Some (res, s')"
  shows "mutex_inv i s' (if res = Returns RT_EOK then held(t := held t + 1) else held)"
proof -
  note D = mutex_invD [OF inv]
  have cur: "rt_current_thread (world s) = Some t" "stat (thr s t) = RT_THREAD_READY"
    using t by (simp_all add: in_thread_def)
  have free: "t \<notin> set (wlist s (Mutex_waiters i))"
    using sched_okD(9) [OF D(1) mutex_head, of t i] cur(2) by auto
  have pr: "unat (current_priority (thr s t)) < 32"
    using sched_okD(7) [OF D(1), of t] cur(2) by (simp add: prio_ok_def)
  have ok0: "sched_ok (world (clear_error t s))"
    by (rule clear_error_ok [OF D(1)])
  consider (free) "owner (mtx s i) = None" | (own) "owner (mtx s i) = Some t"
    | (poll) w where "owner (mtx s i) = Some w" "w \<noteq> t" "time = 0" | (wait) w where "owner (mtx s i) = Some w" "w \<noteq> t" "time \<noteq> 0"
    by (cases "owner (mtx s i)") auto
  then show ?thesis
  proof cases
    case free
    show ?thesis
      using run free D(2-6) cur ok0 pr \<open>t \<notin> set (wlist s (Mutex_waiters i))\<close>
      by (auto simp: rt_mutex_take_def Let_def mutex_inv_def kernel_simps fun_eq_iff)
  next
    case own
    have s': "res = Returns RT_EOK" "s' = upd_mutex i (\<lambda>m. m\<lparr>hold := hold m + 1\<rparr>) (clear_error t s)"
      using run own cur(1) by (simp_all add: rt_mutex_take_def Let_def kernel_simps)
    have "0 < hold (mtx s i) + 1"
      using u8_inc [OF h] by (simp add: word_less_nat_alt)
    then show ?thesis
      using D(2) D(7-11) [OF own] ok0 by (simp add: s' mutex_inv_def kernel_simps own u8_inc [OF h])
  next
    case (poll w)
    have ok1: "sched_ok (world (on_kernel (upd_thread t (\<lambda>x. x\<lparr>error := RT_ETIMEOUT\<rparr>)) (clear_error t s)))"
      unfolding on_kernel_simps by (rule sched_ok_upd [OF ok0]) simp_all
    have "res = Returns RT_ETIMEOUT" "s' = on_kernel (upd_thread t (\<lambda>x. x\<lparr>error := RT_ETIMEOUT\<rparr>)) (clear_error t s)"
      using run poll D(7) [OF poll(1)] cur(1) by (simp_all add: rt_mutex_take_def Let_def kernel_simps)
    then show ?thesis
      using mutex_inv_keep [OF inv _ ok1] by (simp add: kernel_simps)
  next
    case (wait w)
    obtain s1 where s1: "rt_mutex_take i time s = Some (Waits, s1)" "sched_ok (world s1)"
      "wlist s1 (Mutex_waiters i) = joined (mutex_flag (mtx s i)) t (wlist s (Mutex_waiters i)) s"
      "objects (world s1) = objects (world s)"
      by (rule mutex_take_waits [OF D(1) t wait(1,2) D(7,9) [OF wait(1)] wait(3) time D(2)]) blast
    then show ?thesis
      using run wait(1,2) D(2) D(7-11) [OF wait(1)] by (simp add: mutex_inv_def)
  qed
qed


lemma mutex_release_inv:
  assumes inv: "mutex_inv i s held" and t: "in_thread t u s" and run: "rt_mutex_release i s = Some (e, s')"
  shows "mutex_inv i s' (if e = RT_EOK
      then after_release t (wlist s (Mutex_waiters i)) (wlist s' (Mutex_waiters i)) held else held)"
    and "e = RT_EOK \<longleftrightarrow> 0 < held t"
proof -
  note D = mutex_invD [OF inv]
  have cur: "rt_current_thread (world s) = Some t" "stat (thr s t) = RT_THREAD_READY" "rt_scheduler_lock_nest (world s) = 0"
    using t by (simp_all add: in_thread_def)
  consider (other) "owner (mtx s i) \<noteq> Some t" | (again) "owner (mtx s i) = Some t" "hold (mtx s i) \<noteq> 1"
    | (last) "owner (mtx s i) = Some t" "hold (mtx s i) = 1" "wlist s (Mutex_waiters i) = []"
    | (hand) w ws where "owner (mtx s i) = Some t" "hold (mtx s i) = 1" "wlist s (Mutex_waiters i) = w # ws"
    by (cases "wlist s (Mutex_waiters i)") auto
  then have "mutex_inv i s' (if e = RT_EOK
      then after_release t (wlist s (Mutex_waiters i)) (wlist s' (Mutex_waiters i)) held else held)
      \<and> (e = RT_EOK \<longleftrightarrow> 0 < held t)"
  proof cases
    case other
    have ok1: "sched_ok (world (on_kernel (upd_thread t (\<lambda>x. x\<lparr>error := RT_ERROR\<rparr>)) s))"
      unfolding on_kernel_simps by (rule sched_ok_upd [OF D(1)]) simp_all
    have "e = RT_ERROR" "s' = on_kernel (upd_thread t (\<lambda>x. x\<lparr>error := RT_ERROR\<rparr>)) s"
      using run other cur(1) by (simp_all add: rt_mutex_release_def)
    moreover have "held t = 0"
      using other D(6,10) by (cases "owner (mtx s i)") auto
    ultimately show ?thesis
      using mutex_inv_keep [OF inv _ ok1] by (simp add: kernel_simps)
  next
    case again
    have pos: "Suc (unat (hold (mtx s i) - 1)) = unat (hold (mtx s i))"
      by (rule u8_dec [OF D(8) [OF again(1)]])
    have nz: "hold (mtx s i) - 1 \<noteq> 0"
      using again(2) by simp
    then have gt: "0 < hold (mtx s i) - 1"
      by (simp only: word_neq_0_conv not_False_eq_True)
    have s': "e = RT_EOK" "s' = upd_mutex i (\<lambda>m. m\<lparr>hold := hold m - 1\<rparr>) s"
      using run again cur(1) nz by (simp_all add: rt_mutex_release_def Let_def kernel_simps)
    have "held = (\<lambda>_. 0)(t := Suc (unat (hold (mtx s i) - 1)))"
      using D(10) [OF again(1)] pos by simp
    then show ?thesis
      using D(1,2) D(7-9,11) [OF again(1)] gt again(1)
      by (auto simp: s' mutex_inv_def kernel_simps after_release_def)
  next
    case last
    obtain s1 where "rt_mutex_release i s = Some (RT_EOK, s1)" "sched_ok (world s1)" "wlist s1 (Mutex_waiters i) = []"
      "mtx s1 i = (mtx s i)\<lparr>mutex_value := mutex_value (mtx s i) + 1, owner := None, original_priority := 0xFF, hold := 0\<rparr>"
      by (rule mutex_release_frees [OF D(1) cur(1,2) last(1,2) D(11) [OF last(1)] last(3)]) blast
    moreover have "held = (\<lambda>_. 0)(t := 1)"
      using D(10) [OF last(1)] last(2) by simp
    ultimately show ?thesis
      using run D(2) D(7) [OF last(1)] last(3) by (auto simp: mutex_inv_def after_release_def)
  next
    case (hand w ws)
    obtain s1 where s1: "rt_mutex_release i s = Some (RT_EOK, s1)" "sched_ok (world s1)" "wlist s1 (Mutex_waiters i) = ws"
      "mtx s1 i = (mtx s i)\<lparr>owner := Some w, original_priority := current_priority (thr s w), hold := 1\<rparr>"
      by (rule mutex_release_hands_over [OF D(1) cur(1,2) hand(1,2) D(11) [OF hand(1)] hand(3) cur(3)]) blast
    have "w \<notin> set ws" "w \<noteq> t"
      using sched_okD(1) [OF D(1), of "Mutex_waiters i"] D(9) [OF hand(1)] hand(3) by auto
    moreover have "held = (\<lambda>_. 0)(t := 1)"
      using D(10) [OF hand(1)] hand(2) by simp
    moreover have "stat (thr s w) = RT_THREAD_SUSPEND"
      using sched_okD(9) [OF D(1) mutex_head, of w i] hand(3) by simp
    then have "unat (current_priority (thr s w)) < 32"
      using sched_okD(8) [OF D(1), of w] by (simp add: prio_ok_def)
    ultimately show ?thesis
      using run s1 D(2) D(7) [OF hand(1)] hand(3) by (auto simp: mutex_inv_def after_release_def fun_eq_iff)
  qed
  then show "mutex_inv i s' (if e = RT_EOK
      then after_release t (wlist s (Mutex_waiters i)) (wlist s' (Mutex_waiters i)) held else held)"
    "e = RT_EOK \<longleftrightarrow> 0 < held t"
    by auto
qed

lemma mutex_run_inv: "mutex_run i s held \<Longrightarrow> mutex_inv i s held"
proof (induction rule: mutex_run.induct)
  case (set_up s fl e s')
  then show ?case
    by (auto simp: mutex_inv_def rt_mutex_init_def kernel_simps set_list_nothing)
next
  case (take s held t u time res s')
  then show ?case
    using mutex_take_inv by blast
next
  case (release s held t u e s')
  then show ?case
    using mutex_release_inv(1) by blast
next
  case (elsewhere s held s')
  then show ?case
    using mutex_inv_keep by blast
qed


section \<open>Properties\<close>


lemma mutex_held:
  assumes "mutex_inv i s held" "0 < held t"
  shows "owner (mtx s i) = Some t" "unat (hold (mtx s i)) = held t"
  using assms by (cases "owner (mtx s i)", auto simp: mutex_inv_def split: if_splits)+

text \<open>
  C32. Priority inheritance: a thread that has to wait for a mutex is suspended and listed, the
  holder runs on with the more urgent of its own priority and that of the new waiter, what it will
  return to is not changed, and the most urgent ready thread runs.
\<close>

theorem mutex_inherits:
  assumes "mutex_run i s held" "in_thread t u s" "0 < held w" "w \<noteq> t" "time \<noteq> 0" "legal_time time"
  shows "\<exists>s'. rt_mutex_take i time s = Some (Waits, s') \<and> stat (thr s' t) = RT_THREAD_SUSPEND
    \<and> set (wlist s' (Mutex_waiters i)) = insert t (set (wlist s (Mutex_waiters i)))
    \<and> prio (world s') w = min (prio (world s) w) (prio (world s) t)
    \<and> (\<forall>v. v \<noteq> w \<longrightarrow> prio (world s') v = prio (world s) v) \<and> mtx s' i = mtx s i
    \<and> sched_ok (world s') \<and> runs_highest (world s')"
proof -
  note inv = mutex_run_inv [OF assms(1)]
  note D = mutex_invD [OF inv]
  note w = mutex_held(1) [OF inv assms(3)]
  obtain s' where s': "rt_mutex_take i time s = Some (Waits, s')" "sched_ok (world s')"
    "thr s' = (thr s)(t := thr s t\<lparr>error := RT_EOK, stat := RT_THREAD_SUSPEND\<rparr>, w := raised s t w)"
    "wlist s' (Mutex_waiters i) = joined (mutex_flag (mtx s i)) t (wlist s (Mutex_waiters i)) s"
    "objects (world s') = objects (world s)" "runs_highest (world s')"
    by (rule mutex_take_waits [OF D(1) assms(2) w assms(4) D(7,9) [OF w] assms(5,6) D(2)]) blast
  have "prio (world s') w = min (prio (world s) w) (prio (world s) t)"
    by (auto simp: prio_def s'(3) raised_def set_priority_stat word_less_nat_alt min_def)
  moreover have "prio (world s') v = prio (world s) v" if "v \<noteq> w" for v
    using that by (simp add: prio_def s'(3))
  ultimately show ?thesis
    using s' assms(4) by (intro exI [of _ s']) auto
qed

text \<open>
  C31. The last release returns the holder to the priority it had when it took the mutex. Without
  waiting threads the mutex is free; else its first waiter is the new holder, ready and with its
  own priority to return to, and the most urgent ready thread runs.
\<close>

theorem mutex_last_release:
  assumes "mutex_run i s held" "in_thread t u s" "held t = 1"
  shows "\<exists>s'. rt_mutex_release i s = Some (RT_EOK, s') \<and> sched_ok (world s')
    \<and> current_priority (thr s' t) = original_priority (mtx s i)
    \<and> (case wlist s (Mutex_waiters i) of
         [] \<Rightarrow> owner (mtx s' i) = None
       | w # ws \<Rightarrow> owner (mtx s' i) = Some w \<and> hold (mtx s' i) = 1 \<and> stat (thr s' w) = RT_THREAD_READY
           \<and> original_priority (mtx s' i) = current_priority (thr s w)
           \<and> wlist s' (Mutex_waiters i) = ws \<and> runs_highest (world s'))"
proof -
  note inv = mutex_run_inv [OF assms(1)]
  note D = mutex_invD [OF inv]
  have t: "owner (mtx s i) = Some t" "unat (hold (mtx s i)) = 1"
    using mutex_held [OF inv, of t] assms(3) by simp_all
  have h: "hold (mtx s i) = 1"
    using t(2) by (simp add: word_unat_eq_iff)
  have cur: "rt_current_thread (world s) = Some t" "stat (thr s t) = RT_THREAD_READY" "rt_scheduler_lock_nest (world s) = 0"
    using assms(2) by (simp_all add: in_thread_def)
  show ?thesis
  proof (cases "wlist s (Mutex_waiters i)")
    case Nil
    obtain s' where s': "rt_mutex_release i s = Some (RT_EOK, s')" "sched_ok (world s')"
      "thr s' = (thr s)(t := set_priority (original_priority (mtx s i)) (thr s t))"
      "mtx s' i = (mtx s i)\<lparr>mutex_value := mutex_value (mtx s i) + 1, owner := None, original_priority := 0xFF, hold := 0\<rparr>"
      by (rule mutex_release_frees [OF D(1) cur(1,2) t(1) h D(11) [OF t(1)] Nil]) blast
    show ?thesis
      by (intro exI [of _ s']) (simp add: s' Nil set_priority_stat)
  next
    case (Cons w ws)
    obtain s' where s': "rt_mutex_release i s = Some (RT_EOK, s')" "sched_ok (world s')"
      "thr s' = (thr s)(t := set_priority (original_priority (mtx s i)) (thr s t), w := thr s w\<lparr>stat := RT_THREAD_READY\<rparr>)"
      "wlist s' (Mutex_waiters i) = ws" "runs_highest (world s')"
      "mtx s' i = (mtx s i)\<lparr>owner := Some w, original_priority := current_priority (thr s w), hold := 1\<rparr>"
      by (rule mutex_release_hands_over [OF D(1) cur(1,2) t(1) h D(11) [OF t(1)] Cons cur(3)]) blast
    have "w \<noteq> t"
      using D(9) [OF t(1)] Cons by auto
    then show ?thesis
      by (intro exI [of _ s']) (simp add: s' Cons set_priority_stat)
  qed
qed

text \<open>
  The new holder does not inherit the priority of the threads that still wait: when the
  mutex is handed to a thread that is less urgent than another one in the list, as it is in order
  of arrival, it keeps its own priority while the more urgent one waits.
\<close>

theorem mutex_handover_inverts:
  assumes "mutex_run i s held" "in_thread t u s" "held t = 1" "wlist s (Mutex_waiters i) = w # ws"
    and "x \<in> set ws" "prio (world s) x < prio (world s) w"
  shows "\<exists>s'. rt_mutex_release i s = Some (RT_EOK, s') \<and> owner (mtx s' i) = Some w
    \<and> x \<in> set (wlist s' (Mutex_waiters i)) \<and> prio (world s') x < prio (world s') w"
proof -
  note inv = mutex_run_inv [OF assms(1)]
  note D = mutex_invD [OF inv]
  have t: "owner (mtx s i) = Some t" "unat (hold (mtx s i)) = 1"
    using mutex_held [OF inv, of t] assms(3) by simp_all
  have h: "hold (mtx s i) = 1"
    using t(2) by (simp add: word_unat_eq_iff)
  have cur: "rt_current_thread (world s) = Some t" "stat (thr s t) = RT_THREAD_READY" "rt_scheduler_lock_nest (world s) = 0"
    using assms(2) by (simp_all add: in_thread_def)
  obtain s' where s': "rt_mutex_release i s = Some (RT_EOK, s')" "sched_ok (world s')"
    "thr s' = (thr s)(t := set_priority (original_priority (mtx s i)) (thr s t), w := thr s w\<lparr>stat := RT_THREAD_READY\<rparr>)"
    "wlist s' (Mutex_waiters i) = ws"
    "mtx s' i = (mtx s i)\<lparr>owner := Some w, original_priority := current_priority (thr s w), hold := 1\<rparr>"
    by (rule mutex_release_hands_over [OF D(1) cur(1,2) t(1) h D(11) [OF t(1)] assms(4) cur(3)]) blast
  have "t \<notin> insert w (set ws)"
    using D(9) [OF t(1)] assms(4) by auto
  then have "x \<noteq> t" "w \<noteq> t"
    using assms(5) by auto
  then have "prio (world s') x = prio (world s) x" "prio (world s') w = prio (world s) w"
    by (simp_all add: prio_def s'(3))
  then show ?thesis
    using s' assms(5,6) by (intro exI [of _ s']) simp
qed

text \<open>
  The hold count has eight bits: a thread that has taken the mutex 255 times and takes it twice
  more is told \<open>RT_EOK\<close>, and its first release afterwards frees the mutex it still holds 256 times.
\<close>

theorem mutex_hold_wraps:
  assumes "mutex_run i s held" "in_thread t u s" "held t = 255" "wlist s (Mutex_waiters i) = []"
  shows "\<exists>s1 s2 s3. rt_mutex_take i time s = Some (Returns RT_EOK, s1) \<and> rt_mutex_take i time s1 = Some (Returns RT_EOK, s2)
    \<and> rt_mutex_release i s2 = Some (RT_EOK, s3) \<and> owner (mtx s3 i) = None \<and> mutex_value (mtx s3 i) = 1"
proof -
  note inv = mutex_run_inv [OF assms(1)]
  note D = mutex_invD [OF inv]
  have t: "owner (mtx s i) = Some t" "unat (hold (mtx s i)) = 255"
    using mutex_held [OF inv, of t] assms(3) by simp_all
  have h: "hold (mtx s i) = 255"
    using t(2) by (simp add: word_unat_eq_iff)
  have cur: "rt_current_thread (world s) = Some t" "stat (thr s t) = RT_THREAD_READY"
    using assms(2) by (simp_all add: in_thread_def)
  let ?s1 = "upd_mutex i (\<lambda>m. m\<lparr>hold := hold m + 1\<rparr>) (clear_error t s)"
  let ?s2 = "upd_mutex i (\<lambda>m. m\<lparr>hold := hold m + 1\<rparr>) (clear_error t ?s1)"
  have run: "rt_mutex_take i time s = Some (Returns RT_EOK, ?s1)" "rt_mutex_take i time ?s1 = Some (Returns RT_EOK, ?s2)"
    using t(1) cur(1) by (simp_all add: rt_mutex_take_def Let_def kernel_simps)
  have ok: "sched_ok (world ?s1)" "sched_ok (world ?s2)"
    using clear_error_ok [OF D(1), of t] clear_error_ok [of "{}" ?s1 t] by (simp_all add: kernel_simps)
  have s2: "rt_current_thread (world ?s2) = Some t" "stat (thr ?s2 t) = RT_THREAD_READY" "owner (mtx ?s2 i) = Some t"
    "hold (mtx ?s2 i) = 1" "unat (original_priority (mtx ?s2 i)) < 32" "wlist ?s2 (Mutex_waiters i) = []"
    "mutex_value (mtx ?s2 i) = 0"
    using cur t(1) h D(7,11) [OF t(1)] assms(4) by (simp_all add: kernel_simps)
  obtain s3 where "rt_mutex_release i ?s2 = Some (RT_EOK, s3)"
    "mtx s3 i = (mtx ?s2 i)\<lparr>mutex_value := mutex_value (mtx ?s2 i) + 1, owner := None, original_priority := 0xFF, hold := 0\<rparr>"
    by (rule mutex_release_frees [OF ok(2) s2(1-6)]) blast
  then show ?thesis
    using run s2(7) by (intro exI [of _ ?s1] exI [of _ ?s2] exI [of _ s3]) simp
qed


section \<open>Examples\<close>

definition run_as :: "nat \<Rightarrow> isys \<Rightarrow> isys" where
  "run_as t = on_kernel (\<lambda>k. k\<lparr>rt_current_thread := Some t\<rparr>)"

lemma run_as_simps [simp]:
  "thr (run_as t s) = thr s" "wlist (run_as t s) = wlist s" "objects (world (run_as t s)) = objects (world s)"
  "rt_current_thread (world (run_as t s)) = Some t"
  "rt_scheduler_lock_nest (world (run_as t s)) = rt_scheduler_lock_nest (world s)"
  "sched_ok_on A (world (run_as t s)) = sched_ok_on A (world s)"
  by (simp_all add: run_as_def on_kernel_def sched_ok_on_def linked_def prio_def)

text \<open>The mutex 0 of the system of three threads is taken by the thread 1, then the thread 0 runs.\<close>

definition demo_free :: isys where
  "demo_free = run_as 1 (snd (rt_mutex_init 0 RT_IPC_FLAG_FIFO (demo_sys 0)))"

definition demo_held :: isys where
  "demo_held = run_as 0 (snd (the (rt_mutex_take 0 0 demo_free)))"

lemma demo_free_facts:
  "mutex_run 0 demo_free (\<lambda>_. 0)" "in_thread 1 2 demo_free" "mtx demo_free 0 =
    \<lparr>mutex_flag = RT_IPC_FLAG_FIFO, mutex_value = 1, original_priority = 0xFF, hold = 0, owner = None\<rparr>"
  "thr demo_free = thr (demo_sys 0)"
proof -
  have run: "mutex_run 0 (snd (rt_mutex_init 0 RT_IPC_FLAG_FIFO (demo_sys 0))) (\<lambda>_. 0)"
    by (rule mutex_run.set_up [of "demo_sys 0" RT_IPC_FLAG_FIFO 0 RT_EOK]) (simp_all add: rt_mutex_init_def)
  show "mutex_run 0 demo_free (\<lambda>_. 0)"
    unfolding demo_free_def by (rule mutex_run.elsewhere [OF run]) (use mutex_run_inv [OF run] in \<open>simp_all add: mutex_inv_def\<close>)
  show "in_thread 1 2 demo_free"
    by (simp add: in_thread_def demo_free_def rt_mutex_init_def kernel_simps demo_sys_def)
qed (simp_all add: demo_free_def rt_mutex_init_def kernel_simps)

lemma demo_held_facts:
  "mutex_run 0 demo_held ((\<lambda>_. 0)(1 := 1))" "in_thread 0 2 demo_held" "prio (world demo_held) 1 = 10"
  "prio (world demo_held) 0 = 5" "wlist demo_held (Mutex_waiters 0) = []" "stat (thr demo_held 1) = RT_THREAD_READY"
proof -
  note F = demo_free_facts
  have cur: "rt_current_thread (world demo_free) = Some 1"
    using F(2) by (simp add: in_thread_def)
  let ?s = "upd_mutex 0 (\<lambda>m. m\<lparr>mutex_value := mutex_value m - 1, owner := Some 1,
         original_priority := current_priority (thr (clear_error 1 demo_free) 1), hold := hold m + 1\<rparr>) (clear_error 1 demo_free)"
  have take: "rt_mutex_take 0 0 demo_free = Some (Returns RT_EOK, ?s)"
    using cur F(3) by (simp add: rt_mutex_take_def Let_def kernel_simps)
  then have held: "demo_held = run_as 0 ?s"
    by (simp add: demo_held_def)
  have run: "mutex_run 0 ?s ((\<lambda>_. 0)(1 := 1))"
    using mutex_run.take [OF F(1,2) _ _ take] F(3) by (simp add: legal_time_def)
  show "mutex_run 0 demo_held ((\<lambda>_. 0)(1 := 1))"
    unfolding held by (rule mutex_run.elsewhere [OF run]) (use mutex_run_inv [OF run] in \<open>simp_all add: mutex_inv_def\<close>)
  have lock: "rt_scheduler_lock_nest (world demo_free) = 0" "wlist demo_free (Mutex_waiters 0) = []"
    using F(2) mutex_run_inv [OF F(1)] F(3) by (simp_all add: in_thread_def mutex_inv_def)
  show "in_thread 0 2 demo_held" "prio (world demo_held) 1 = 10" "prio (world demo_held) 0 = 5"
    "wlist demo_held (Mutex_waiters 0) = []" "stat (thr demo_held 1) = RT_THREAD_READY"
    unfolding held
    using lock F(4) by (simp_all add: in_thread_def prio_def kernel_simps demo_sys_def demo_kernel_def sys_of_def demo_thread_def)
qed

lemma legal_time_5 [simp]: "legal_time 5"
  by (simp add: legal_time_def RT_TICK_MAX_def)


lemma mutex_inherits_witness:
  "\<exists>s'. rt_mutex_take 0 5 demo_held = Some (Waits, s') \<and> prio (world s') 1 = 5"
  using mutex_inherits [OF demo_held_facts(1,2), of 1 5] demo_held_facts(3,4) by force

lemma mutex_last_release_witness:
  "\<exists>s'. rt_mutex_release 0 (run_as 1 demo_held) = Some (RT_EOK, s') \<and> owner (mtx s' 0) = None"
proof -
  have run: "mutex_run 0 (run_as 1 demo_held) ((\<lambda>_. 0)(1 := 1))"
    by (rule mutex_run.elsewhere [OF demo_held_facts(1)])
      (use mutex_run_inv [OF demo_held_facts(1)] in \<open>simp_all add: mutex_inv_def\<close>)
  show ?thesis
    using mutex_last_release [OF run, of 1 2] demo_held_facts(2,5,6) by (force simp: in_thread_def)
qed

lemma demo_held_often:
  "0 < n \<Longrightarrow> n \<le> 255 \<Longrightarrow> \<exists>s. mutex_run 0 s ((\<lambda>_. 0)(1 := n)) \<and> in_thread 1 2 s \<and> wlist s (Mutex_waiters 0) = []"
proof (induction n rule: nat_induct_non_zero)
  case 1
  have run: "mutex_run 0 (run_as 1 demo_held) ((\<lambda>_. 0)(1 := 1))"
    by (rule mutex_run.elsewhere [OF demo_held_facts(1)])
      (use mutex_run_inv [OF demo_held_facts(1)] in \<open>simp_all add: mutex_inv_def\<close>)
  then show ?case
    using demo_held_facts(2,5,6) by (intro exI [of _ "run_as 1 demo_held"]) (simp add: in_thread_def fun_upd_def)
next
  case (Suc n)
  have "\<exists>s. mutex_run 0 s ((\<lambda>_. 0)(1 := n)) \<and> in_thread 1 2 s \<and> wlist s (Mutex_waiters 0) = []"
    by (rule Suc(2)) (use Suc(3) in simp)
  then obtain s where s: "mutex_run 0 s ((\<lambda>_. 0)(1 := n))" "in_thread 1 2 s" "wlist s (Mutex_waiters 0) = []"
    by blast
  have h: "owner (mtx s 0) = Some 1" "unat (hold (mtx s 0)) = n"
    using mutex_held [OF mutex_run_inv [OF s(1)], of 1] Suc(1) by simp_all
  then have "hold (mtx s 0) \<noteq> 0xFF"
    using Suc(3) by auto
  moreover let ?s = "upd_mutex 0 (\<lambda>m. m\<lparr>hold := hold m + 1\<rparr>) (clear_error 1 s)"
  have take: "rt_mutex_take 0 0 s = Some (Returns RT_EOK, ?s)"
    using s(2) h(1) by (simp add: rt_mutex_take_def Let_def kernel_simps in_thread_def)
  ultimately have "mutex_run 0 ?s ((\<lambda>_. 0)(1 := Suc n))"
    using mutex_run.take [OF s(1,2) _ _ take] by (simp add: legal_time_def)
  then show ?case
    using s(2,3) by (intro exI [of _ ?s]) (simp add: in_thread_def kernel_simps fun_upd_def)
qed

lemma mutex_hold_wraps_witness:
  "\<exists>s s1 s2 s3. mutex_run 0 s ((\<lambda>_. 0)(1 := 255)) \<and> rt_mutex_take 0 0 s = Some (Returns RT_EOK, s1)
    \<and> rt_mutex_take 0 0 s1 = Some (Returns RT_EOK, s2) \<and> rt_mutex_release 0 s2 = Some (RT_EOK, s3) \<and> owner (mtx s3 0) = None"
proof -
  have "\<exists>s. mutex_run 0 s ((\<lambda>_. 0)(1 := 255)) \<and> in_thread 1 2 s \<and> wlist s (Mutex_waiters 0) = []"
    by (rule demo_held_often) simp_all
  then obtain s where s: "mutex_run 0 s ((\<lambda>_. 0)(1 := 255))" "in_thread 1 2 s" "wlist s (Mutex_waiters 0) = []"
    by blast
  then show ?thesis
    using mutex_hold_wraps [OF s(1,2) _ s(3), of 0] by fastforce
qed

end
