(* ===== verification/Kernel_Mailbox.thy ===== *)
theory Kernel_Mailbox
  imports Kernel_Sem Fifo
begin

text \<open>
  The mailboxes of \<^verbatim>\<open>src/ipc.c\<close>: a ring of 32-bit mails with one list of waiting receivers and
  one of waiting senders.

  Both blocking calls are loops: a thread that is woken without error looks at the mailbox again
  with what is left of its time. \<open>send_loop\<close> and \<open>recv_loop\<close> are the loops from their test on; a
  call ends with \<open>Waits\<close> when another thread runs, and \<open>rt_mb_send_resumed\<close> and
  \<open>rt_mb_recv_resumed\<close> are what the thread does when it runs again, \<open>start\<close> being the tick at which
  it began to wait.
\<close>

section \<open>Operations\<close>

abbreviation mbx :: "isys \<Rightarrow> nat \<Rightarrow> rt_mailbox" where
  "mbx s i \<equiv> mailboxes (objects (world s)) i"

definition upd_mb :: "nat \<Rightarrow> (rt_mailbox \<Rightarrow> rt_mailbox) \<Rightarrow> isys \<Rightarrow> isys" where
  "upd_mb i f = on_objects (\<lambda>o1. o1\<lparr>mailboxes := (mailboxes o1)(i := f (mailboxes o1 i))\<rparr>)"

definition rt_mb_init :: "nat \<Rightarrow> u32 list \<Rightarrow> u32 \<Rightarrow> u8 \<Rightarrow> isys \<Rightarrow> rt_err \<times> isys" where
  "rt_mb_init i pool n fl s = (RT_EOK,
     upd_mb i (\<lambda>_. \<lparr>mb_flag = fl, msg_pool = pool, mb_size = ucast n, entry = 0, in_offset = 0, out_offset = 0\<rparr>)
       (on_kernel (set_list (Mb_receivers i) [] \<circ> set_list (Mb_senders i) []) s))"

text \<open>
  \<open>alloc\<close> is what \<open>rt_object_allocate\<close> returns and \<open>pool\<close> what \<open>RT_KERNEL_MALLOC\<close> returns, the
  words of the new block.
\<close>

definition rt_mb_create :: "nat option \<Rightarrow> u32 list option \<Rightarrow> u32 \<Rightarrow> u8 \<Rightarrow> isys \<Rightarrow> nat option \<times> isys" where
  "rt_mb_create alloc pool n fl s = (case alloc of
     None \<Rightarrow> (None, s)
   | Some i \<Rightarrow> (case pool of
       None \<Rightarrow> (None, upd_mb i (\<lambda>m. m\<lparr>mb_flag := fl, mb_size := ucast n\<rparr>) (on_kernel (set_list (Mb_receivers i) []) s))
     | Some ms \<Rightarrow> (Some i, snd (rt_mb_init i ms n fl s))))"

definition rt_mb_detach :: "nat \<Rightarrow> isys \<Rightarrow> (rt_err \<times> isys) option" where
  "rt_mb_detach i s = do {
     s \<leftarrow> rt_ipc_list_resume_all (Mb_receivers i) s;
     s \<leftarrow> rt_ipc_list_resume_all (Mb_senders i) s;
     Some (RT_EOK, s)
   }"

definition rt_mb_delete :: "nat \<Rightarrow> isys \<Rightarrow> (rt_err \<times> isys) option" where
  "rt_mb_delete i s = do {
     s \<leftarrow> rt_ipc_list_resume_all (Mb_receivers i) s;
     s \<leftarrow> rt_ipc_list_resume_all (Mb_senders i) s;
     Some (RT_EOK, s)
   }"

text \<open>What is left of a time limit; 0 and negative limits stay.\<close>

definition remaining :: "u32 \<Rightarrow> u32 \<Rightarrow> u32 \<Rightarrow> u32" where
  "remaining timeout start now =
     (if sint timeout > 0
      then (let rest = timeout - (now - start) in if sint rest < 0 then 0 else rest)
      else timeout)"

text \<open>A mail into a mailbox that is not full, out of one that is not empty; the first waiting thread is woken.\<close>

definition put_mail :: "u32 \<Rightarrow> rt_mailbox \<Rightarrow> rt_mailbox option" where
  "put_mail v m = do {
     pool \<leftarrow> wr (msg_pool m) (unat (in_offset m)) v;
     let off = in_offset m + 1;
     Some (m\<lparr>msg_pool := pool, in_offset := (if off \<ge> mb_size m then 0 else off), entry := entry m + 1\<rparr>)
   }"

definition take_mail :: "rt_mailbox \<Rightarrow> (u32 \<times> rt_mailbox) option" where
  "take_mail m = do {
     v \<leftarrow> rd (msg_pool m) (unat (out_offset m));
     let off = out_offset m + 1;
     Some (v, m\<lparr>out_offset := (if off \<ge> mb_size m then 0 else off), entry := entry m - 1\<rparr>)
   }"

definition wake_first :: "list_head \<Rightarrow> isys \<Rightarrow> isys option" where
  "wake_first h s =
     (if wlist s h \<noteq> [] then do { s \<leftarrow> rt_ipc_list_resume h s; try_kernel rt_schedule s } else Some s)"

partial_function (option) send_loop :: "nat \<Rightarrow> u32 \<Rightarrow> u32 \<Rightarrow> isys \<Rightarrow> (outcome \<times> isys) option" where
  "send_loop i v timeout s =
     (if entry (mbx s i) = mb_size (mbx s i)
      then do {
        t \<leftarrow> rt_current_thread (world s);
        let s = clear_error t s;
        if timeout = 0 then Some (Returns RT_EFULL, s)
        else do {
          let start = rt_tick s;
          s \<leftarrow> wait_in (Mb_senders i) t (mb_flag (mbx s i)) timeout s;
          if rt_current_thread (world s) \<noteq> Some t then Some (Waits, s)
          else if error (thr s t) \<noteq> RT_EOK then Some (Returns (error (thr s t)), s)
          else send_loop i v (remaining timeout start (rt_tick s)) s
        }
      }
      else do {
        m \<leftarrow> put_mail v (mbx s i);
        s \<leftarrow> wake_first (Mb_receivers i) (upd_mb i (\<lambda>_. m) s);
        Some (Returns RT_EOK, s)
      })"

definition rt_mb_send_wait :: "nat \<Rightarrow> u32 \<Rightarrow> u32 \<Rightarrow> isys \<Rightarrow> (outcome \<times> isys) option" where
  "rt_mb_send_wait i v timeout s =
     (if entry (mbx s i) = mb_size (mbx s i) \<and> timeout = 0 then Some (Returns RT_EFULL, s)
      else send_loop i v timeout s)"

definition rt_mb_send_resumed :: "nat \<Rightarrow> u32 \<Rightarrow> u32 \<Rightarrow> u32 \<Rightarrow> nat \<Rightarrow> isys \<Rightarrow> (outcome \<times> isys) option" where
  "rt_mb_send_resumed i v timeout start t s =
     (if error (thr s t) \<noteq> RT_EOK then Some (Returns (error (thr s t)), s)
      else send_loop i v (remaining timeout start (rt_tick s)) s)"

definition rt_mb_send :: "nat \<Rightarrow> u32 \<Rightarrow> isys \<Rightarrow> (outcome \<times> isys) option" where
  "rt_mb_send i v = rt_mb_send_wait i v 0"

text \<open>With \<open>Returns RT_EOK\<close> there is a mail.\<close>

partial_function (option) recv_loop :: "nat \<Rightarrow> u32 \<Rightarrow> isys \<Rightarrow> (outcome \<times> u32 option \<times> isys) option" where
  "recv_loop i timeout s =
     (if entry (mbx s i) = 0
      then do {
        t \<leftarrow> rt_current_thread (world s);
        let s = clear_error t s;
        if timeout = 0
        then Some (Returns RT_ETIMEOUT, None, on_kernel (upd_thread t (\<lambda>x. x\<lparr>error := RT_ETIMEOUT\<rparr>)) s)
        else do {
          let start = rt_tick s;
          s \<leftarrow> wait_in (Mb_receivers i) t (mb_flag (mbx s i)) timeout s;
          if rt_current_thread (world s) \<noteq> Some t then Some (Waits, None, s)
          else if error (thr s t) \<noteq> RT_EOK then Some (Returns (error (thr s t)), None, s)
          else recv_loop i (remaining timeout start (rt_tick s)) s
        }
      }
      else do {
        (v, m) \<leftarrow> take_mail (mbx s i);
        s \<leftarrow> wake_first (Mb_senders i) (upd_mb i (\<lambda>_. m) s);
        Some (Returns RT_EOK, Some v, s)
      })"

definition rt_mb_recv :: "nat \<Rightarrow> u32 \<Rightarrow> isys \<Rightarrow> (outcome \<times> u32 option \<times> isys) option" where
  "rt_mb_recv i timeout s =
     (if entry (mbx s i) = 0 \<and> timeout = 0 then Some (Returns RT_ETIMEOUT, None, s)
      else recv_loop i timeout s)"

definition rt_mb_recv_resumed :: "nat \<Rightarrow> u32 \<Rightarrow> u32 \<Rightarrow> nat \<Rightarrow> isys \<Rightarrow> (outcome \<times> u32 option \<times> isys) option" where
  "rt_mb_recv_resumed i timeout start t s =
     (if error (thr s t) \<noteq> RT_EOK then Some (Returns (error (thr s t)), None, s)
      else recv_loop i (remaining timeout start (rt_tick s)) s)"

definition rt_mb_control :: "nat \<Rightarrow> u8 \<Rightarrow> isys \<Rightarrow> (rt_err \<times> isys) option" where
  "rt_mb_control i cmd s =
     (if cmd = RT_IPC_CMD_RESET
      then do {
        s \<leftarrow> rt_ipc_list_resume_all (Mb_receivers i) s;
        s \<leftarrow> rt_ipc_list_resume_all (Mb_senders i) s;
        s \<leftarrow> try_kernel rt_schedule (upd_mb i (\<lambda>m. m\<lparr>entry := 0, in_offset := 0, out_offset := 0\<rparr>) s);
        Some (RT_EOK, s)
      }
      else Some (RT_ERROR, s))"

section \<open>The ring\<close>

definition mb_ok :: "rt_mailbox \<Rightarrow> bool" where
  "mb_ok m \<longleftrightarrow> length (msg_pool m) = unat (mb_size m) \<and> entry m \<le> mb_size m
     \<and> (0 < mb_size m \<longrightarrow> in_offset m < mb_size m \<and> out_offset m < mb_size m
         \<and> unat (in_offset m) = (unat (out_offset m) + unat (entry m)) mod unat (mb_size m))"

definition mails :: "rt_mailbox \<Rightarrow> u32 list" where
  "mails m = map (\<lambda>k. msg_pool m ! ((unat (out_offset m) + k) mod unat (mb_size m))) [0..<unat (entry m)]"

lemma length_mails [simp]: "length (mails m) = unat (entry m)"
  by (simp add: mails_def)

text \<open>An offset moved on by one.\<close>

lemma next_offset:
  fixes x n :: u16
  assumes "x < n"
  shows "unat (if x + 1 \<ge> n then 0 else x + 1) = (unat x + 1) mod unat n" "(if x + 1 \<ge> n then 0 else x + 1) < n"
proof -
  have s: "unat (x + 1) = unat x + 1"
    using assms unat_u16 [of n] by (simp add: word_less_nat_alt unat_word_ariths)
  consider "n = x + 1" | "x + 1 < n"
    using assms s by (force simp: word_less_nat_alt word_unat_eq_iff)
  then show "unat (if x + 1 \<ge> n then 0 else x + 1) = (unat x + 1) mod unat n" "(if x + 1 \<ge> n then 0 else x + 1) < n"
    using s assms by (cases, simp_all add: word_le_nat_alt word_less_nat_alt)
qed

lemma ring_index_neq: "(a + k) mod n \<noteq> (a + e) mod n" if "k < e" "e < n" for a k e n :: nat
proof
  assume "(a + k) mod n = (a + e) mod n"
  then have "n dvd (a + e) - (a + k)"
    using that mod_eq_dvd_iff_nat [of "a + k" "a + e" n] by simp
  then show False
    using that by (auto dest: dvd_imp_le)
qed

lemma put_mail_ok:
  assumes ok: "mb_ok m" and room: "entry m \<noteq> mb_size m"
  obtains m' where "put_mail v m = Some m'" "mb_ok m'" "mails m' = mails m @ [v]" "mb_size m' = mb_size m" "mb_flag m' = mb_flag m"
    "entry m' = entry m + 1" "msg_pool m' = (msg_pool m)[unat (in_offset m) := v]" "out_offset m' = out_offset m"
proof -
  let ?n = "unat (mb_size m)" and ?e = "unat (entry m)" and ?a = "unat (out_offset m)" and ?off = "in_offset m + 1"
  let ?m' = "m\<lparr>msg_pool := (msg_pool m)[unat (in_offset m) := v],
    in_offset := (if ?off \<ge> mb_size m then 0 else ?off), entry := entry m + 1\<rparr>"
  have lt: "entry m < mb_size m"
    using ok room by (simp add: mb_ok_def order.not_eq_order_implies_strict)
  then have pos: "0 < mb_size m"
    by (simp add: word_less_nat_alt)
  have i: "in_offset m < mb_size m" "unat (in_offset m) = (?a + ?e) mod ?n" "length (msg_pool m) = ?n"
    using ok pos by (simp_all add: mb_ok_def)
  have e: "unat (entry m + 1) = ?e + 1"
    using lt unat_u16 [of "mb_size m"] by (simp add: word_less_nat_alt unat_word_ariths)
  have run: "put_mail v m = Some ?m'"
    using i(1,3) by (simp add: put_mail_def wr_def Let_def word_less_nat_alt)
  have ok': "mb_ok ?m'"
    using ok lt pos e i(2,3) next_offset [OF i(1)]
    by (simp add: mb_ok_def word_le_nat_alt word_less_nat_alt mod_Suc_eq)
  have "mails ?m' ! k = (mails m @ [v]) ! k" if k: "k < Suc ?e" for k
    using i lt k ring_index_neq [of k ?e ?n ?a] e
    by (auto simp: mails_def nth_append less_Suc_eq word_less_nat_alt)
  then have "mails ?m' = mails m @ [v]"
    by (intro nth_equalityI) (simp_all add: e)
  then show thesis
    using that [OF run ok'] by simp
qed

lemma take_mail_ok:
  assumes ok: "mb_ok m" and some: "entry m \<noteq> 0"
  obtains m' where "take_mail m = Some (hd (mails m), m')" "mb_ok m'" "mails m' = tl (mails m)" "mails m \<noteq> []"
    "mb_size m' = mb_size m" "mb_flag m' = mb_flag m"
proof -
  let ?n = "unat (mb_size m)" and ?e = "unat (entry m)" and ?a = "unat (out_offset m)" and ?off = "out_offset m + 1"
  let ?m' = "m\<lparr>out_offset := (if ?off \<ge> mb_size m then 0 else ?off), entry := entry m - 1\<rparr>"
  have e: "?e = Suc (unat (entry m - 1))"
    using some u16_dec [of "entry m"] by (simp add: word_neq_0_conv)
  have le: "entry m \<le> mb_size m"
    using ok by (simp add: mb_ok_def)
  then have pos: "0 < mb_size m"
    using e by (simp add: word_less_nat_alt word_le_nat_alt)
  have a: "out_offset m < mb_size m" "length (msg_pool m) = ?n"
    using ok pos by (simp_all add: mb_ok_def)
  note off = next_offset [OF a(1)]
  have hd: "hd (mails m) = msg_pool m ! ?a" "mails m \<noteq> []"
    using a(1) e by (simp_all add: mails_def hd_map word_less_nat_alt del: upt_Suc)
  have run: "take_mail m = Some (hd (mails m), ?m')"
    using a by (simp add: take_mail_def rd_def Let_def word_less_nat_alt hd(1))
  have "unat (in_offset m) = (?a + ?e) mod ?n"
    using ok pos by (simp add: mb_ok_def)
  then have ok': "mb_ok ?m'"
    using ok le pos off e by (simp add: mb_ok_def word_le_nat_alt word_less_nat_alt mod_simps)
  have "mails ?m' ! k = tl (mails m) ! k" if "k < unat (entry m - 1)" for k
    using that e off(1) by (simp add: mails_def nth_tl mod_simps del: upt_Suc)
  then have "mails ?m' = tl (mails m)"
    by (intro nth_equalityI) (simp_all add: e)
  then show thesis
    using that [OF run ok'] hd(2) by simp
qed


section \<open>What the calls do\<close>

lemma mb_heads [simp]: "waiters_head (Mb_receivers i)" "waiters_head (Mb_senders i)"
  by (simp_all add: waiters_head_def)

lemma upd_mb_simps [kernel_simps]:
  "mbx (upd_mb i f s) j = (if j = i then f (mbx s i) else mbx s j)" "thr (upd_mb i f s) = thr s"
  "wlist (upd_mb i f s) = wlist s" "rt_current_thread (world (upd_mb i f s)) = rt_current_thread (world s)"
  "rt_scheduler_lock_nest (world (upd_mb i f s)) = rt_scheduler_lock_nest (world s)"
  "sched_ok_on A (world (upd_mb i f s)) = sched_ok_on A (world s)"
  by (simp_all add: upd_mb_def kernel_simps)

lemma wake_first_ok:
  assumes ok: "sched_ok (world s)" and h: "waiters_head h"
  obtains s' where "wake_first h s = Some s'" "sched_ok (world s')" "objects (world s') = objects (world s)"
    "wlist s' h = tl (wlist s h)"
    "thr s' = (if wlist s h = [] then thr s else (thr s)(hd (wlist s h) := thr s (hd (wlist s h))\<lparr>stat := RT_THREAD_READY\<rparr>))"
    "wlist s h = [] \<Longrightarrow> s' = s"
proof (cases "wlist s h")
  case Nil
  then show thesis
    using that [of s] ok by (simp add: wake_first_def)
next
  case (Cons t ts)
  obtain s1 where s1: "rt_ipc_list_resume h s = Some s1" "sched_ok (world s1)"
    "thread_of (world s1) = (thread_of (world s))(t := thr s t\<lparr>stat := RT_THREAD_READY\<rparr>)" "wlist s1 h = ts"
    "objects (world s1) = objects (world s)"
    by (rule list_resume_ok [OF ok h Cons]) blast
  have ready: "stat (thr s1 t) = RT_THREAD_READY"
    by (simp add: s1(3))
  obtain k' where k': "rt_schedule (world s1) = Some k'"
    by (rule schedule_returns [OF s1(2) ready])
  note fr = schedule_frame [OF k']
  have "wake_first h s = Some (s1\<lparr>world := k'\<rparr>)"
    using Cons s1(1) k' by (simp add: wake_first_def try_kernel_def)
  then show thesis
    using that [of "s1\<lparr>world := k'\<rparr>"] s1 Cons by (simp add: fr)
qed

definition mb_inv :: "nat \<Rightarrow> isys \<Rightarrow> bool" where
  "mb_inv i s \<longleftrightarrow> sched_ok (world s) \<and> mb_ok (mbx s i) \<and> legal_flag (mb_flag (mbx s i))"

lemma send_with_room:
  assumes inv: "mb_inv i s" and room: "entry (mbx s i) \<noteq> mb_size (mbx s i)"
  obtains s' where "send_loop i v timeout s = Some (Returns RT_EOK, s')" "mb_inv i s'"
    "mails (mbx s' i) = mails (mbx s i) @ [v]" "mb_size (mbx s' i) = mb_size (mbx s i)"
    "wlist s' (Mb_receivers i) = tl (wlist s (Mb_receivers i))"
    "\<And>t ts. wlist s (Mb_receivers i) = t # ts \<Longrightarrow> thr s' = (thr s)(t := thr s t\<lparr>stat := RT_THREAD_READY\<rparr>)"
    "wlist s (Mb_receivers i) = [] \<Longrightarrow> s' = upd_mb i (\<lambda>_. mbx s' i) s"
proof -
  have D: "mb_ok (mbx s i)" "sched_ok (world s)" "legal_flag (mb_flag (mbx s i))"
    using inv by (simp_all add: mb_inv_def)
  obtain m where m: "put_mail v (mbx s i) = Some m" "mb_ok m" "mails m = mails (mbx s i) @ [v]"
    "mb_size m = mb_size (mbx s i)" "mb_flag m = mb_flag (mbx s i)"
    by (rule put_mail_ok [OF D(1) room]) blast
  let ?s1 = "upd_mb i (\<lambda>_. m) s"
  obtain s' where s': "wake_first (Mb_receivers i) ?s1 = Some s'" "sched_ok (world s')"
    "objects (world s') = objects (world ?s1)" "wlist s' (Mb_receivers i) = tl (wlist ?s1 (Mb_receivers i))"
    "thr s' = (if wlist ?s1 (Mb_receivers i) = [] then thr ?s1 else (thr ?s1)(hd (wlist ?s1 (Mb_receivers i)) :=
       thr ?s1 (hd (wlist ?s1 (Mb_receivers i)))\<lparr>stat := RT_THREAD_READY\<rparr>))"
    "wlist ?s1 (Mb_receivers i) = [] \<Longrightarrow> s' = ?s1"
    by (rule wake_first_ok [of ?s1 "Mb_receivers i"]) (use D(2) in \<open>simp_all add: kernel_simps\<close>)
  have mb: "mbx s' i = m"
    by (simp add: s'(3) kernel_simps)
  have run: "send_loop i v timeout s = Some (Returns RT_EOK, s')"
    using room by (subst send_loop.simps) (simp add: m(1) s'(1))
  show thesis
  proof (rule that [OF run])
    show "s' = upd_mb i (\<lambda>_. mbx s' i) s" if "wlist s (Mb_receivers i) = []"
      using s'(6) that mb by (simp add: kernel_simps)
  qed (use D m s'(2,4,5) in \<open>simp_all add: mb_inv_def mb kernel_simps\<close>)
qed

lemma recv_with_mail:
  assumes inv: "mb_inv i s" and mail: "entry (mbx s i) \<noteq> 0"
  obtains s' where "recv_loop i timeout s = Some (Returns RT_EOK, Some (hd (mails (mbx s i))), s')" "mb_inv i s'"
    "mails (mbx s i) = hd (mails (mbx s i)) # mails (mbx s' i)" "mb_size (mbx s' i) = mb_size (mbx s i)"
    "wlist s' (Mb_senders i) = tl (wlist s (Mb_senders i))"
    "\<And>t ts. wlist s (Mb_senders i) = t # ts \<Longrightarrow> thr s' = (thr s)(t := thr s t\<lparr>stat := RT_THREAD_READY\<rparr>)"
    "wlist s (Mb_senders i) = [] \<Longrightarrow> s' = upd_mb i (\<lambda>_. mbx s' i) s"
proof -
  have D: "mb_ok (mbx s i)" "sched_ok (world s)" "legal_flag (mb_flag (mbx s i))"
    using inv by (simp_all add: mb_inv_def)
  obtain m where m: "take_mail (mbx s i) = Some (hd (mails (mbx s i)), m)" "mb_ok m" "mails m = tl (mails (mbx s i))"
    "mails (mbx s i) \<noteq> []" "mb_size m = mb_size (mbx s i)" "mb_flag m = mb_flag (mbx s i)"
    by (rule take_mail_ok [OF D(1) mail]) blast
  let ?s1 = "upd_mb i (\<lambda>_. m) s"
  obtain s' where s': "wake_first (Mb_senders i) ?s1 = Some s'" "sched_ok (world s')"
    "objects (world s') = objects (world ?s1)" "wlist s' (Mb_senders i) = tl (wlist ?s1 (Mb_senders i))"
    "thr s' = (if wlist ?s1 (Mb_senders i) = [] then thr ?s1 else (thr ?s1)(hd (wlist ?s1 (Mb_senders i)) :=
       thr ?s1 (hd (wlist ?s1 (Mb_senders i)))\<lparr>stat := RT_THREAD_READY\<rparr>))"
    "wlist ?s1 (Mb_senders i) = [] \<Longrightarrow> s' = ?s1"
    by (rule wake_first_ok [of ?s1 "Mb_senders i"]) (use D(2) in \<open>simp_all add: kernel_simps\<close>)
  have mb: "mbx s' i = m"
    by (simp add: s'(3) kernel_simps)
  have run: "recv_loop i timeout s = Some (Returns RT_EOK, Some (hd (mails (mbx s i))), s')"
    using mail by (subst recv_loop.simps) (simp add: m(1) s'(1))
  show thesis
  proof (rule that [OF run])
    show "s' = upd_mb i (\<lambda>_. mbx s' i) s" if "wlist s (Mb_senders i) = []"
      using s'(6) that mb by (simp add: kernel_simps)
  qed (use D m s'(2,4,5) in \<open>simp_all add: mb_inv_def mb kernel_simps\<close>)
qed


lemma send_blocks:
  assumes inv: "mb_inv i s" and full: "entry (mbx s i) = mb_size (mbx s i)"
    and t: "in_thread t u s" and time: "timeout \<noteq> 0" "legal_time timeout"
  obtains s' where "send_loop i v timeout s = Some (Waits, s')" "mb_inv i s'" "objects (world s') = objects (world s)"
    "thr s' = (thr s)(t := thr s t\<lparr>error := RT_EOK, stat := RT_THREAD_SUSPEND\<rparr>)"
    "wlist s' (Mb_senders i) = joined (mb_flag (mbx s i)) t (wlist s (Mb_senders i)) s"
    "wlist s' (Mb_receivers i) = wlist s (Mb_receivers i)"
proof -
  have D: "mb_ok (mbx s i)" "sched_ok (world s)" "legal_flag (mb_flag (mbx s i))"
    using inv by (simp_all add: mb_inv_def)
  obtain s' where s': "wait_in (Mb_senders i) t (mb_flag (mbx s i)) timeout (clear_error t s) = Some s'" "sched_ok (world s')"
    "thr s' = (thr s)(t := thr s t\<lparr>error := RT_EOK, stat := RT_THREAD_SUSPEND\<rparr>)"
    "wlist s' (Mb_senders i) = joined (mb_flag (mbx s i)) t (wlist s (Mb_senders i)) s"
    "\<And>h'. waiters_head h' \<Longrightarrow> h' \<noteq> Mb_senders i \<Longrightarrow> wlist s' h' = wlist s h'"
    "objects (world s') = objects (world s)" "rt_current_thread (world s') \<noteq> Some t"
    by (rule blocks [OF D(2) t mb_heads(2) time(2) D(3)]) blast
  have c: "rt_current_thread (world s) = Some t" "mbx (clear_error t s) i = mbx s i"
    using t by (simp_all add: in_thread_def kernel_simps)
  have run: "send_loop i v timeout s = Some (Waits, s')"
    using full time(1) s'(7) by (subst send_loop.simps) (simp add: c s'(1) Let_def)
  show thesis
    by (rule that [OF run]) (use D s' in \<open>simp_all add: mb_inv_def\<close>)
qed

lemma recv_blocks:
  assumes inv: "mb_inv i s" and empty: "entry (mbx s i) = 0"
    and t: "in_thread t u s" and time: "timeout \<noteq> 0" "legal_time timeout"
  obtains s' where "recv_loop i timeout s = Some (Waits, None, s')" "mb_inv i s'" "objects (world s') = objects (world s)"
    "thr s' = (thr s)(t := thr s t\<lparr>error := RT_EOK, stat := RT_THREAD_SUSPEND\<rparr>)"
    "wlist s' (Mb_receivers i) = joined (mb_flag (mbx s i)) t (wlist s (Mb_receivers i)) s"
    "wlist s' (Mb_senders i) = wlist s (Mb_senders i)"
proof -
  have D: "mb_ok (mbx s i)" "sched_ok (world s)" "legal_flag (mb_flag (mbx s i))"
    using inv by (simp_all add: mb_inv_def)
  obtain s' where s': "wait_in (Mb_receivers i) t (mb_flag (mbx s i)) timeout (clear_error t s) = Some s'" "sched_ok (world s')"
    "thr s' = (thr s)(t := thr s t\<lparr>error := RT_EOK, stat := RT_THREAD_SUSPEND\<rparr>)"
    "wlist s' (Mb_receivers i) = joined (mb_flag (mbx s i)) t (wlist s (Mb_receivers i)) s"
    "\<And>h'. waiters_head h' \<Longrightarrow> h' \<noteq> Mb_receivers i \<Longrightarrow> wlist s' h' = wlist s h'"
    "objects (world s') = objects (world s)" "rt_current_thread (world s') \<noteq> Some t"
    by (rule blocks [OF D(2) t mb_heads(1) time(2) D(3)]) blast
  have c: "rt_current_thread (world s) = Some t" "mbx (clear_error t s) i = mbx s i"
    using t by (simp_all add: in_thread_def kernel_simps)
  have run: "recv_loop i timeout s = Some (Waits, None, s')"
    using empty time(1) s'(7) by (subst recv_loop.simps) (simp add: c s'(1) Let_def)
  show thesis
    by (rule that [OF run]) (use D s' in \<open>simp_all add: mb_inv_def\<close>)
qed

text \<open>A call of a running thread ends, in one of three ways.\<close>

lemma send_loop_ends:
  assumes inv: "mb_inv i s" and t: "in_thread t u s" and time: "legal_time timeout"
  obtains r s' where "send_loop i v timeout s = Some (r, s')" "mb_inv i s'"
    "mails (mbx s' i) = mails (mbx s i) @ (if r = Returns RT_EOK then [v] else [])" "mb_size (mbx s' i) = mb_size (mbx s i)"
    "r = (if entry (mbx s i) \<noteq> mb_size (mbx s i) then Returns RT_EOK else if timeout = 0 then Returns RT_EFULL else Waits)"
proof -
  consider (room) "entry (mbx s i) \<noteq> mb_size (mbx s i)" | (poll) "entry (mbx s i) = mb_size (mbx s i)" "timeout = 0"
    | (wait) "entry (mbx s i) = mb_size (mbx s i)" "timeout \<noteq> 0"
    by blast
  then show thesis
  proof cases
    case room
    show thesis
      by (rule send_with_room [OF inv room, of v timeout]) (use that room in auto)
  next
    case poll
    have c: "rt_current_thread (world s) = Some t" "mbx (clear_error t s) i = mbx s i"
      using t by (simp_all add: in_thread_def kernel_simps)
    have "send_loop i v timeout s = Some (Returns RT_EFULL, clear_error t s)"
      using poll by (subst send_loop.simps) (simp add: c Let_def)
    then show thesis
      using that poll inv clear_error_ok [of "{}" s t] c by (auto simp: mb_inv_def)
  next
    case wait
    show thesis
      by (rule send_blocks [OF inv wait(1) t wait(2) time, of v]) (use that wait in auto)
  qed
qed

lemma recv_loop_ends:
  assumes inv: "mb_inv i s" and t: "in_thread t u s" and time: "legal_time timeout"
  obtains r v s' where "recv_loop i timeout s = Some (r, v, s')" "mb_inv i s'"
    "mails (mbx s i) = (case v of None \<Rightarrow> [] | Some x \<Rightarrow> [x]) @ mails (mbx s' i)" "mb_size (mbx s' i) = mb_size (mbx s i)"
    "r = (if entry (mbx s i) \<noteq> 0 then Returns RT_EOK else if timeout = 0 then Returns RT_ETIMEOUT else Waits)"
    "v \<noteq> None \<longleftrightarrow> r = Returns RT_EOK"
proof -
  consider (mail) "entry (mbx s i) \<noteq> 0" | (poll) "entry (mbx s i) = 0" "timeout = 0" | (wait) "entry (mbx s i) = 0" "timeout \<noteq> 0"
    by blast
  then show thesis
  proof cases
    case mail
    show thesis
      by (rule recv_with_mail [OF inv mail, of timeout]) (use that [of "Returns RT_EOK" "Some (hd (mails (mbx s i)))"] mail in auto)
  next
    case poll
    let ?s' = "on_kernel (upd_thread t (\<lambda>x. x\<lparr>error := RT_ETIMEOUT\<rparr>)) (clear_error t s)"
    have c: "rt_current_thread (world s) = Some t" "mbx ?s' i = mbx s i"
      using t by (simp_all add: in_thread_def kernel_simps)
    have "sched_ok (world ?s')"
      unfolding on_kernel_simps
      by (rule sched_ok_upd [OF clear_error_ok]) (use inv in \<open>simp_all add: mb_inv_def\<close>)
    then have "mb_inv i ?s'"
      using inv c(2) by (simp add: mb_inv_def)
    moreover have "recv_loop i timeout s = Some (Returns RT_ETIMEOUT, None, ?s')"
      using poll by (subst recv_loop.simps) (simp add: c Let_def)
    ultimately show thesis
      using that poll c(2) by (auto simp del: upd_mb_simps)
  next
    case wait
    show thesis
      by (rule recv_blocks [OF inv wait(1) t wait(2) time]) (use that wait in auto)
  qed
qed


section \<open>Calls that do not wait\<close>

definition mb_put :: "nat \<Rightarrow> u32 \<Rightarrow> isys \<Rightarrow> isys option" where
  "mb_put i v s = map_option snd (rt_mb_send i v s)"

definition mb_get :: "nat \<Rightarrow> isys \<Rightarrow> (u32 option \<times> isys) option" where
  "mb_get i s = map_option snd (rt_mb_recv i 0 s)"

lemma mails_full: "entry m = mb_size m \<longleftrightarrow> length (mails m) = unat (mb_size m)"
  by (simp add: word_unat_eq_iff)

lemma mails_empty: "entry m = 0 \<longleftrightarrow> mails m = []"
  by (metis length_0_conv length_mails unat_eq_zero)

interpretation mbq: bounded_fifo "mb_put i" "mb_get i" "\<lambda>s. mb_inv i s \<and> unat (mb_size (mbx s i)) = n"
  "\<lambda>s. mails (mbx s i)" n for i n
proof (unfold_locales, goal_cases)
  case (1 s a)
  then have inv: "mb_inv i s" and room: "entry (mbx s i) \<noteq> mb_size (mbx s i)"
    by (auto simp: mails_full)
  obtain s' where "send_loop i a 0 s = Some (Returns RT_EOK, s')" "mb_inv i s'"
    "mails (mbx s' i) = mails (mbx s i) @ [a]" "mb_size (mbx s' i) = mb_size (mbx s i)"
    by (rule send_with_room [OF inv room, of a 0]) blast
  then show ?case
    using 1 room by (simp add: mb_put_def rt_mb_send_def rt_mb_send_wait_def wp_simps)
next
  case (2 s)
  show ?case
  proof (cases "entry (mbx s i) = 0")
    case True
    then have "mails (mbx s i) = []"
      by (simp add: mails_empty)
    then show ?thesis
      using True 2 by (simp add: mb_get_def rt_mb_recv_def wp_simps)
  next
    case False
    obtain s' where "recv_loop i 0 s = Some (Returns RT_EOK, Some (hd (mails (mbx s i))), s')" "mb_inv i s'"
      "mails (mbx s i) = hd (mails (mbx s i)) # mails (mbx s' i)" "mb_size (mbx s' i) = mb_size (mbx s i)"
      using recv_with_mail [OF conjunct1 [OF 2] False, of 0] by metis
    then show ?thesis
      using 2 False by (cases "mails (mbx s i)") (simp_all add: mb_get_def rt_mb_recv_def wp_simps)
  qed
next
  case (3 s a)
  then have "entry (mbx s i) = mb_size (mbx s i)"
    by (auto simp: mb_inv_def mb_ok_def word_le_nat_alt word_unat_eq_iff)
  then show ?case
    by (simp add: mb_put_def rt_mb_send_def rt_mb_send_wait_def)
qed

text \<open>
  Any sequence of sends and receives that do not wait does with a mailbox what it does with a
  bounded queue of as many mails: the same mails are returned in the same order, a send into a
  full mailbox is refused, and no call leaves the pool.
\<close>

theorem mailbox_is_a_queue:
  assumes "mb_inv i s"
  shows "\<exists>rs s'. queue_run (mb_put i) (mb_get i) ops s = Some (rs, s') \<and> mb_inv i s'
    \<and> list_run (unat (mb_size (mbx s i))) ops (mails (mbx s i)) = (rs, mails (mbx s' i))"
  using mbq.bounded_run_refines [of i s "unat (mb_size (mbx s i))" ops] assms by (auto simp: yields_iff)

section \<open>Histories of a mailbox\<close>

text \<open>
  \<open>mb_run i n s sent received\<close>: the mailbox \<open>i\<close> with room for \<open>n\<close> mails, since it was set up, has
  accepted the mails \<open>sent\<close> and delivered the mails \<open>received\<close>, in this order, by calls of any
  threads, some of which may have waited. Elsewhere anything may happen that leaves the mailbox alone.
\<close>

inductive mb_run :: "nat \<Rightarrow> nat \<Rightarrow> isys \<Rightarrow> u32 list \<Rightarrow> u32 list \<Rightarrow> bool" for i n where
  set_up: "sched_ok (world s) \<Longrightarrow> legal_flag fl \<Longrightarrow> length pool = n \<Longrightarrow> n < 65536
    \<Longrightarrow> wlist s (Mb_receivers i) = [] \<Longrightarrow> wlist s (Mb_senders i) = []
    \<Longrightarrow> rt_mb_init i pool (of_nat n) fl s = (e, s') \<Longrightarrow> mb_run i n s' [] []"
| send: "mb_run i n s a b \<Longrightarrow> in_thread t u s \<Longrightarrow> legal_time timeout \<Longrightarrow> rt_mb_send_wait i v timeout s = Some (r, s')
    \<Longrightarrow> mb_run i n s' (if r = Returns RT_EOK then a @ [v] else a) b"
| send_resumed: "mb_run i n s a b \<Longrightarrow> in_thread t u s \<Longrightarrow> legal_time (remaining timeout start (rt_tick s))
    \<Longrightarrow> rt_mb_send_resumed i v timeout start t s = Some (r, s')
    \<Longrightarrow> mb_run i n s' (if r = Returns RT_EOK then a @ [v] else a) b"
| recv: "mb_run i n s a b \<Longrightarrow> in_thread t u s \<Longrightarrow> legal_time timeout \<Longrightarrow> rt_mb_recv i timeout s = Some (r, v, s')
    \<Longrightarrow> mb_run i n s' a (case v of None \<Rightarrow> b | Some x \<Rightarrow> b @ [x])"
| recv_resumed: "mb_run i n s a b \<Longrightarrow> in_thread t u s \<Longrightarrow> legal_time (remaining timeout start (rt_tick s))
    \<Longrightarrow> rt_mb_recv_resumed i timeout start t s = Some (r, v, s')
    \<Longrightarrow> mb_run i n s' a (case v of None \<Rightarrow> b | Some x \<Rightarrow> b @ [x])"
| elsewhere: "mb_run i n s a b \<Longrightarrow> sched_ok (world s') \<Longrightarrow> mbx s' i = mbx s i \<Longrightarrow> mb_run i n s' a b"

lemma size16: "n < 65536 \<Longrightarrow> unat (ucast (of_nat n :: u32) :: u16) = n"
  by (simp add: unsigned_ucast_eq unsigned_of_nat take_bit_nat_eq_self)

lemma mb_run_inv:
  "mb_run i n s a b \<Longrightarrow> mb_inv i s \<and> unat (mb_size (mbx s i)) = n \<and> a = b @ mails (mbx s i)"
proof (induction rule: mb_run.induct)
  case (set_up s fl pool e s')
  have s': "s' = upd_mb i (\<lambda>_. \<lparr>mb_flag = fl, msg_pool = pool, mb_size = ucast (of_nat n :: u32), entry = 0,
      in_offset = 0, out_offset = 0\<rparr>) s"
    using set_up by (auto simp: rt_mb_init_def upd_mb_def on_objects_def on_kernel_def set_list_nothing)
  show ?case
    using set_up by (simp add: s' kernel_simps mb_inv_def mb_ok_def mails_def size16)
next
  case (send s a b t u timeout v r s')
  then have inv: "mb_inv i s" by simp
  obtain r' s'' where *: "send_loop i v timeout s = Some (r', s'')" "mb_inv i s''"
    "mails (mbx s'' i) = mails (mbx s i) @ (if r' = Returns RT_EOK then [v] else [])" "mb_size (mbx s'' i) = mb_size (mbx s i)"
    by (rule send_loop_ends [OF inv send.hyps(2,3), of v]) blast
  show ?case
    using send.hyps(4) send.IH * by (auto simp: rt_mb_send_wait_def split: if_splits)
next
  case (send_resumed s a b t u timeout start v r s')
  then have inv: "mb_inv i s" by simp
  obtain r' s'' where *: "send_loop i v (remaining timeout start (rt_tick s)) s = Some (r', s'')" "mb_inv i s''"
    "mails (mbx s'' i) = mails (mbx s i) @ (if r' = Returns RT_EOK then [v] else [])" "mb_size (mbx s'' i) = mb_size (mbx s i)"
    by (rule send_loop_ends [OF inv send_resumed.hyps(2,3), of v]) blast
  show ?case
    using send_resumed.hyps(4) send_resumed.IH * by (auto simp: rt_mb_send_resumed_def split: if_splits)
next
  case (recv s a b t u timeout r v s')
  then have inv: "mb_inv i s" by simp
  obtain r' v' s'' where *: "recv_loop i timeout s = Some (r', v', s'')" "mb_inv i s''"
    "mails (mbx s i) = (case v' of None \<Rightarrow> [] | Some x \<Rightarrow> [x]) @ mails (mbx s'' i)" "mb_size (mbx s'' i) = mb_size (mbx s i)"
    by (rule recv_loop_ends [OF inv recv.hyps(2,3)]) blast
  show ?case
    using recv.hyps(4) recv.IH * by (auto simp: rt_mb_recv_def split: if_splits option.splits)
next
  case (recv_resumed s a b t u timeout start r v s')
  then have inv: "mb_inv i s" by simp
  obtain r' v' s'' where *: "recv_loop i (remaining timeout start (rt_tick s)) s = Some (r', v', s'')" "mb_inv i s''"
    "mails (mbx s i) = (case v' of None \<Rightarrow> [] | Some x \<Rightarrow> [x]) @ mails (mbx s'' i)" "mb_size (mbx s'' i) = mb_size (mbx s i)"
    by (rule recv_loop_ends [OF inv recv_resumed.hyps(2,3)]) blast
  show ?case
    using recv_resumed.hyps(4) recv_resumed.IH * by (auto simp: rt_mb_recv_resumed_def split: if_splits option.splits)
next
  case (elsewhere s a b s')
  then show ?case
    by (simp add: mb_inv_def)
qed



text \<open>
  A thread that waits at an empty mailbox is woken by the next send, by whomever, and gets that
  mail when it runs again.
\<close>

theorem mailbox_hands_over:
  assumes run: "mb_run i n s sent received" and t: "in_thread t u s" and n: "0 < n"
    and empty: "sent = received" "wlist s (Mb_receivers i) = []"
    and time: "timeout \<noteq> 0" "legal_time timeout"
  shows "\<exists>s1 s2 s3. rt_mb_recv i timeout s = Some (Waits, None, s1) \<and> stat (thr s1 t) = RT_THREAD_SUSPEND
    \<and> rt_mb_send i v s1 = Some (Returns RT_EOK, s2) \<and> stat (thr s2 t) = RT_THREAD_READY
    \<and> rt_mb_recv_resumed i timeout start t s2 = Some (Returns RT_EOK, Some v, s3)"
proof -
  have inv: "mb_inv i s" and e: "entry (mbx s i) = 0" and size: "unat (mb_size (mbx s i)) = n"
    using mb_run_inv [OF run] empty(1) by (auto simp: mails_empty)
  obtain s1 where s1: "recv_loop i timeout s = Some (Waits, None, s1)" "mb_inv i s1" "objects (world s1) = objects (world s)"
    "thr s1 = (thr s)(t := thr s t\<lparr>error := RT_EOK, stat := RT_THREAD_SUSPEND\<rparr>)"
    "wlist s1 (Mb_receivers i) = joined (mb_flag (mbx s i)) t (wlist s (Mb_receivers i)) s"
    by (rule recv_blocks [OF inv e t time]) blast
  have l1: "wlist s1 (Mb_receivers i) = [t]"
    by (simp add: s1(5) empty(2) joined_def)
  have room: "entry (mbx s1 i) \<noteq> mb_size (mbx s1 i)"
    using n size e by (auto simp: s1(3))
  obtain s2 where s2: "send_loop i v 0 s1 = Some (Returns RT_EOK, s2)" "mb_inv i s2"
    "mails (mbx s2 i) = mails (mbx s1 i) @ [v]"
    "\<And>t ts. wlist s1 (Mb_receivers i) = t # ts \<Longrightarrow> thr s2 = (thr s1)(t := thr s1 t\<lparr>stat := RT_THREAD_READY\<rparr>)"
    by (rule send_with_room [OF s1(2) room, of v 0]) blast
  have m2: "mails (mbx s2 i) = [v]"
    using e by (simp add: s2(3) s1(3) mails_empty)
  then have e2: "entry (mbx s2 i) \<noteq> 0"
    by (simp add: mails_empty)
  obtain s3 where s3: "recv_loop i (remaining timeout start (rt_tick s2)) s2 = Some (Returns RT_EOK, Some (hd (mails (mbx s2 i))), s3)"
    by (rule recv_with_mail [OF s2(2) e2, of "remaining timeout start (rt_tick s2)"]) blast
  have t2: "thr s2 = (thr s1)(t := thr s1 t\<lparr>stat := RT_THREAD_READY\<rparr>)"
    by (rule s2(4) [OF l1])
  show ?thesis
    using s1(1,4) s2(1) s3 e time(1) room
    by (intro exI [of _ s1] exI [of _ s2] exI [of _ s3])
      (simp add: rt_mb_recv_def rt_mb_send_def rt_mb_send_wait_def rt_mb_recv_resumed_def t2 m2)
qed

section \<open>Examples\<close>

definition demo_mb :: isys where
  "demo_mb = snd (rt_mb_init 0 [7, 8] 2 RT_IPC_FLAG_FIFO (demo_sys 0))"

lemma demo_mb_facts:
  "mb_run 0 2 demo_mb [] []" "in_thread 0 2 demo_mb" "wlist demo_mb (Mb_receivers 0) = []" "mb_size (mbx demo_mb 0) = 2"
proof -
  show "mb_run 0 2 demo_mb [] []"
    by (rule mb_run.set_up [of "demo_sys 0" RT_IPC_FLAG_FIFO "[7, 8]" 2 0 RT_EOK]) (simp_all add: demo_mb_def rt_mb_init_def)
  show "in_thread 0 2 demo_mb"
    using demo_sys_simps(2) [of 0] by (simp add: demo_mb_def rt_mb_init_def in_thread_def kernel_simps)
qed (simp_all add: demo_mb_def rt_mb_init_def kernel_simps)

lemma mailbox_is_a_queue_witness:
  "\<exists>s'. queue_run (mb_put 0) (mb_get 0) [Put 1, Put 2, Put 3, Get, Get, Get] demo_mb = Some ([Some 1, Some 2, None], s')"
proof -
  have "mb_inv 0 demo_mb" "mails (mbx demo_mb 0) = []"
    using mb_run_inv [OF demo_mb_facts(1)] by simp_all
  then show ?thesis
    using mailbox_is_a_queue [of 0 demo_mb "[Put 1, Put 2, Put 3, Get, Get, Get]"] demo_mb_facts(4) by auto
qed


lemma mailbox_hands_over_witness:
  "\<exists>s1 s2 s3. rt_mb_recv 0 5 demo_mb = Some (Waits, None, s1) \<and> rt_mb_send 0 42 s1 = Some (Returns RT_EOK, s2)
    \<and> rt_mb_recv_resumed 0 5 0 0 s2 = Some (Returns RT_EOK, Some 42, s3)"
proof -
  have "legal_time 5"
    by (simp add: legal_time_def RT_TICK_MAX_def)
  then show ?thesis
    using mailbox_hands_over [OF demo_mb_facts(1,2) _ _ demo_mb_facts(3), of 5 42 0] by fastforce
qed

end
