(* ===== verification/Kernel_Mq.thy ===== *)
theory Kernel_Mq
  imports Kernel_Mailbox
begin

text \<open>
  The message queues of \<^verbatim>\<open>src/ipc.c\<close>: a pool of message blocks linked into a free list and a
  queue.

  The calls enable the interrupts between taking a block off its list and linking it to the other
  one, and copy the message in between. The steps of a call on the queue are definitions of their
  own (\<open>mq_claim\<close>, \<open>mq_fill\<close>, \<open>mq_link_tail\<close>, \<open>mq_link_head\<close>, \<open>mq_unlink\<close>, \<open>mq_copy\<close>,
  \<open>mq_free\<close>), so that the steps of different calls can be interleaved.
\<close>

section \<open>Steps on the queue\<close>

abbreviation mq :: "isys \<Rightarrow> nat \<Rightarrow> rt_messagequeue" where
  "mq s i \<equiv> mqueues (objects (world s)) i"

definition upd_mq :: "nat \<Rightarrow> (rt_messagequeue \<Rightarrow> rt_messagequeue) \<Rightarrow> isys \<Rightarrow> isys" where
  "upd_mq i f = on_objects (\<lambda>o1. o1\<lparr>mqueues := (mqueues o1)(i := f (mqueues o1 i))\<rparr>)"

definition RT_ALIGN4 :: "u32 \<Rightarrow> u32" where
  "RT_ALIGN4 n = (n + 3) AND NOT 3"

text \<open>Every block is put in front of the free list.\<close>

definition mq_link_free :: "nat \<Rightarrow> rt_messagequeue \<Rightarrow> rt_messagequeue" where
  "mq_link_free k m = m\<lparr>msg_next := (msg_next m)(k := msg_queue_free m), msg_queue_free := Some k\<rparr>"

definition mq_set_up :: "u8 \<Rightarrow> u16 \<Rightarrow> u16 \<Rightarrow> (nat \<Rightarrow> nat option) \<Rightarrow> (nat \<Rightarrow> u8 list) \<Rightarrow> rt_messagequeue" where
  "mq_set_up fl size_m max_m nx pool =
     (fold mq_link_free [0..<unat max_m] \<lparr>mq_flag = fl, msg_size = size_m, max_msgs = max_m, mq_entry = 0,
       msg_queue_head = None, msg_queue_tail = None, msg_queue_free = None, msg_next = nx, msg_data = pool\<rparr>)"

definition mq_claim :: "nat \<Rightarrow> rt_messagequeue \<Rightarrow> rt_messagequeue" where
  "mq_claim k m = m\<lparr>msg_queue_free := msg_next m k\<rparr>"

definition mq_fill :: "nat \<Rightarrow> u8 list \<Rightarrow> rt_messagequeue \<Rightarrow> rt_messagequeue option" where
  "mq_fill k buf m = do {
     d \<leftarrow> copy_bytes (msg_data m k) 0 buf 0 (length buf);
     Some (m\<lparr>msg_data := (msg_data m)(k := d)\<rparr>)
   }"

definition mq_end :: "nat \<Rightarrow> rt_messagequeue \<Rightarrow> rt_messagequeue" where
  "mq_end k m = m\<lparr>msg_next := (msg_next m)(k := None)\<rparr>"

definition mq_link_tail :: "nat \<Rightarrow> rt_messagequeue \<Rightarrow> rt_messagequeue" where
  "mq_link_tail k m =
     (let m = (case msg_queue_tail m of None \<Rightarrow> m | Some t \<Rightarrow> m\<lparr>msg_next := (msg_next m)(t := Some k)\<rparr>);
          m = m\<lparr>msg_queue_tail := Some k\<rparr>;
          m = (if msg_queue_head m = None then m\<lparr>msg_queue_head := Some k\<rparr> else m)
      in m\<lparr>mq_entry := mq_entry m + 1\<rparr>)"

definition mq_link_head :: "nat \<Rightarrow> rt_messagequeue \<Rightarrow> rt_messagequeue" where
  "mq_link_head k m =
     (let m = m\<lparr>msg_next := (msg_next m)(k := msg_queue_head m), msg_queue_head := Some k\<rparr>;
          m = (if msg_queue_tail m = None then m\<lparr>msg_queue_tail := Some k\<rparr> else m)
      in m\<lparr>mq_entry := mq_entry m + 1\<rparr>)"

definition mq_unlink :: "rt_messagequeue \<Rightarrow> (nat \<times> rt_messagequeue) option" where
  "mq_unlink m = do {
     k \<leftarrow> msg_queue_head m;
     let m = m\<lparr>msg_queue_head := msg_next m k\<rparr>;
     Some (k, if msg_queue_tail m = Some k then m\<lparr>msg_queue_tail := None\<rparr> else m)
   }"

definition mq_copy :: "nat \<Rightarrow> u8 list \<Rightarrow> rt_messagequeue \<Rightarrow> u8 list option" where
  "mq_copy k buf m = copy_bytes buf 0 (msg_data m k) 0
     (if length buf > unat (msg_size m) then unat (msg_size m) else length buf)"

partial_function (option) mq_drain :: "rt_messagequeue \<Rightarrow> rt_messagequeue option" where
  "mq_drain m = (if msg_queue_head m = None then Some m
     else do { (k, m) \<leftarrow> mq_unlink m; mq_drain (mq_link_free k m) })"

section \<open>Operations\<close>

text \<open>
  \<open>nx\<close> and \<open>pool\<close> are what the memory of the blocks holds before. With \<open>RT_ALIGN\<close> a size close to
  the end of its type becomes 0.
\<close>

definition rt_mq_init :: "nat \<Rightarrow> u32 \<Rightarrow> u32 \<Rightarrow> u8 \<Rightarrow> (nat \<Rightarrow> nat option) \<Rightarrow> (nat \<Rightarrow> u8 list) \<Rightarrow> isys \<Rightarrow> rt_err \<times> isys" where
  "rt_mq_init i size_m pool_size fl nx pool s =
     (let ms = ucast (RT_ALIGN4 size_m) :: u16; mx = ucast (pool_size div (ucast ms + 4)) :: u16
      in (RT_EOK, upd_mq i (\<lambda>_. mq_set_up fl ms mx nx pool) (on_kernel (set_list (Mq_receivers i) []) s)))"

definition rt_mq_detach :: "nat \<Rightarrow> isys \<Rightarrow> (rt_err \<times> isys) option" where
  "rt_mq_detach i s = do { s \<leftarrow> rt_ipc_list_resume_all (Mq_receivers i) s; Some (RT_EOK, s) }"

definition rt_mq_delete :: "nat \<Rightarrow> isys \<Rightarrow> (rt_err \<times> isys) option" where
  "rt_mq_delete i s = do { s \<leftarrow> rt_ipc_list_resume_all (Mq_receivers i) s; Some (RT_EOK, s) }"

definition rt_mq_create :: "nat option \<Rightarrow> ((nat \<Rightarrow> nat option) \<times> (nat \<Rightarrow> u8 list)) option \<Rightarrow> u32 \<Rightarrow> u32 \<Rightarrow> u8 \<Rightarrow> isys
    \<Rightarrow> (nat option \<times> isys) option" where
  "rt_mq_create alloc mem size_m max_m fl s = (case alloc of
     None \<Rightarrow> Some (None, s)
   | Some i \<Rightarrow> (let s = on_kernel (set_list (Mq_receivers i) []) s in
       case mem of
         None \<Rightarrow> do { (_, s) \<leftarrow> rt_mq_delete i s; Some (None, s) }
       | Some (nx, pool) \<Rightarrow> Some (Some i, upd_mq i (\<lambda>_. mq_set_up fl (ucast (RT_ALIGN4 size_m)) (ucast max_m) nx pool) s)))"

definition rt_mq_send :: "nat \<Rightarrow> u8 list \<Rightarrow> isys \<Rightarrow> (rt_err \<times> isys) option" where
  "rt_mq_send i buf s = do {
     c_assert (length buf \<noteq> 0);
     if length buf > unat (msg_size (mq s i)) then Some (RT_ERROR, s)
     else (case msg_queue_free (mq s i) of
       None \<Rightarrow> Some (RT_EFULL, s)
     | Some k \<Rightarrow> do {
         m \<leftarrow> mq_fill k buf (mq_end k (mq_claim k (mq s i)));
         s \<leftarrow> wake_first (Mq_receivers i) (upd_mq i (\<lambda>_. mq_link_tail k m) s);
         Some (RT_EOK, s)
       })
   }"

definition rt_mq_urgent :: "nat \<Rightarrow> u8 list \<Rightarrow> isys \<Rightarrow> (rt_err \<times> isys) option" where
  "rt_mq_urgent i buf s = do {
     c_assert (length buf \<noteq> 0);
     if length buf > unat (msg_size (mq s i)) then Some (RT_ERROR, s)
     else (case msg_queue_free (mq s i) of
       None \<Rightarrow> Some (RT_EFULL, s)
     | Some k \<Rightarrow> do {
         m \<leftarrow> mq_fill k buf (mq_claim k (mq s i));
         s \<leftarrow> wake_first (Mq_receivers i) (upd_mq i (\<lambda>_. mq_link_head k m) s);
         Some (RT_EOK, s)
       })
   }"

text \<open>The buffer of the caller, before and after.\<close>

partial_function (option) mq_recv_loop :: "nat \<Rightarrow> u8 list \<Rightarrow> u32 \<Rightarrow> isys \<Rightarrow> (outcome \<times> u8 list \<times> isys) option" where
  "mq_recv_loop i buf timeout s =
     (if mq_entry (mq s i) = 0
      then do {
        t \<leftarrow> rt_current_thread (world s);
        let s = clear_error t s;
        if timeout = 0
        then Some (Returns RT_ETIMEOUT, buf, on_kernel (upd_thread t (\<lambda>x. x\<lparr>error := RT_ETIMEOUT\<rparr>)) s)
        else do {
          let start = rt_tick s;
          s \<leftarrow> wait_in (Mq_receivers i) t (mq_flag (mq s i)) timeout s;
          if rt_current_thread (world s) \<noteq> Some t then Some (Waits, buf, s)
          else if error (thr s t) \<noteq> RT_EOK then Some (Returns (error (thr s t)), buf, s)
          else mq_recv_loop i buf (remaining timeout start (rt_tick s)) s
        }
      }
      else do {
        (k, m) \<leftarrow> mq_unlink (mq s i);
        let m = m\<lparr>mq_entry := mq_entry m - 1\<rparr>;
        buf \<leftarrow> mq_copy k buf m;
        Some (Returns RT_EOK, buf, upd_mq i (\<lambda>_. mq_link_free k m) s)
      })"

definition rt_mq_recv :: "nat \<Rightarrow> u8 list \<Rightarrow> u32 \<Rightarrow> isys \<Rightarrow> (outcome \<times> u8 list \<times> isys) option" where
  "rt_mq_recv i buf timeout s = do {
     c_assert (length buf \<noteq> 0);
     if mq_entry (mq s i) = 0 \<and> timeout = 0 then Some (Returns RT_ETIMEOUT, buf, s)
     else mq_recv_loop i buf timeout s
   }"

definition rt_mq_recv_resumed :: "nat \<Rightarrow> u8 list \<Rightarrow> u32 \<Rightarrow> u32 \<Rightarrow> nat \<Rightarrow> isys \<Rightarrow> (outcome \<times> u8 list \<times> isys) option" where
  "rt_mq_recv_resumed i buf timeout start t s =
     (if error (thr s t) \<noteq> RT_EOK then Some (Returns (error (thr s t)), buf, s)
      else mq_recv_loop i buf (remaining timeout start (rt_tick s)) s)"

definition rt_mq_control :: "nat \<Rightarrow> u8 \<Rightarrow> isys \<Rightarrow> (rt_err \<times> isys) option" where
  "rt_mq_control i cmd s =
     (if cmd = RT_IPC_CMD_RESET
      then do {
        s \<leftarrow> rt_ipc_list_resume_all (Mq_receivers i) s;
        m \<leftarrow> mq_drain (mq s i);
        s \<leftarrow> try_kernel rt_schedule (upd_mq i (\<lambda>_. m\<lparr>mq_entry := 0\<rparr>) s);
        Some (RT_EOK, s)
      }
      else Some (RT_ERROR, s))"

section \<open>Chains\<close>

fun chain :: "(nat \<Rightarrow> nat option) \<Rightarrow> nat option \<Rightarrow> nat list \<Rightarrow> bool" where
  "chain nx h [] = (h = None)"
| "chain nx h (k # ks) = (h = Some k \<and> chain nx (nx k) ks)"

lemma chain_unique: "chain nx h ks \<Longrightarrow> chain nx h ls \<Longrightarrow> ks = ls"
proof (induction ks arbitrary: h ls)
  case Nil
  then show ?case by (cases ls) auto
next
  case (Cons k ks)
  then show ?case by (cases ls) auto
qed

lemma chain_None [simp]: "chain nx None ks \<longleftrightarrow> ks = []"
  by (cases ks) auto

lemma chain_Some: "chain nx (Some k) ks \<longleftrightarrow> (\<exists>ls. ks = k # ls \<and> chain nx (nx k) ls)"
  by (cases ks) auto

lemma chain_upd [simp]: "k \<notin> set ks \<Longrightarrow> chain (nx(k := v)) h ks = chain nx h ks"
  by (induction ks arbitrary: h) auto

lemma chain_snoc:
  "chain nx h ks \<Longrightarrow> ks \<noteq> [] \<Longrightarrow> distinct (ks @ [k]) \<Longrightarrow> nx k = None \<Longrightarrow> chain (nx(last ks := Some k)) h (ks @ [k])"
proof (induction ks arbitrary: h)
  case Nil
  then show ?case by simp
next
  case (Cons a ks)
  then show ?case
    by (cases "ks = []") auto
qed

text \<open>
  The blocks: \<open>fs\<close> are free, \<open>qs\<close> are queued and \<open>c\<close> are held by calls that are under way.
\<close>

definition blocks_ok :: "nat list \<Rightarrow> nat list \<Rightarrow> nat set \<Rightarrow> rt_messagequeue \<Rightarrow> bool" where
  "blocks_ok fs qs c m \<longleftrightarrow> chain (msg_next m) (msg_queue_free m) fs \<and> chain (msg_next m) (msg_queue_head m) qs
     \<and> distinct (fs @ qs) \<and> set fs \<inter> c = {} \<and> set qs \<inter> c = {} \<and> set fs \<union> set qs \<union> c = {..<unat (max_msgs m)}
     \<and> msg_queue_tail m = (if qs = [] then None else Some (last qs))
     \<and> (\<forall>k < unat (max_msgs m). length (msg_data m k) = unat (msg_size m))"


lemma blocks_okI:
  assumes "chain (msg_next m) (msg_queue_free m) fs" "chain (msg_next m) (msg_queue_head m) qs"
    "distinct (fs @ qs)" "set fs \<inter> c = {}" "set qs \<inter> c = {}" "set fs \<union> set qs \<union> c = {..<unat (max_msgs m)}"
    "msg_queue_tail m = (if qs = [] then None else Some (last qs))"
    "\<And>k. k < unat (max_msgs m) \<Longrightarrow> length (msg_data m k) = unat (msg_size m)"
  shows "blocks_ok fs qs c m"
  using assms by (simp add: blocks_ok_def)

lemma blocks_okD:
  assumes "blocks_ok fs qs c m"
  shows "chain (msg_next m) (msg_queue_free m) fs" "chain (msg_next m) (msg_queue_head m) qs"
    "distinct (fs @ qs)" "set fs \<inter> c = {}" "set qs \<inter> c = {}" "set fs \<union> set qs \<union> c = {..<unat (max_msgs m)}"
    "msg_queue_tail m = (if qs = [] then None else Some (last qs))"
    "k < unat (max_msgs m) \<Longrightarrow> length (msg_data m k) = unat (msg_size m)"
  using assms by (simp_all add: blocks_ok_def)

lemma blocks_held: "blocks_ok fs qs c m \<Longrightarrow> k \<in> c \<Longrightarrow> k \<notin> set fs \<and> k \<notin> set qs \<and> k < unat (max_msgs m)"
  unfolding blocks_ok_def by auto

lemma link_free_ok:
  assumes "blocks_ok fs qs (insert k c) m" "k \<notin> c"
  shows "blocks_ok (k # fs) qs c (mq_link_free k m)"
  using blocks_okD [OF assms(1)] blocks_held [OF assms(1), of k] assms(2)
  by (intro blocks_okI) (auto simp: mq_link_free_def)

lemma claim_ok:
  assumes "blocks_ok (k # fs) qs c m"
  shows "blocks_ok fs qs (insert k c) (mq_claim k m)" "k \<notin> c"
proof -
  show "blocks_ok fs qs (insert k c) (mq_claim k m)"
    using blocks_okD [OF assms] by (intro blocks_okI) (auto simp: mq_claim_def)
  show "k \<notin> c"
    using blocks_okD(4) [OF assms] by auto
qed

lemma fill_ok:
  assumes b: "blocks_ok fs qs c m" "k \<in> c" "length buf \<le> unat (msg_size m)"
  shows "mq_fill k buf m = Some (m\<lparr>msg_data := (msg_data m)(k := splice (msg_data m k) 0 buf)\<rparr>)"
    and "blocks_ok fs qs c (m\<lparr>msg_data := (msg_data m)(k := splice (msg_data m k) 0 buf)\<rparr>)"
proof -
  have l: "length (msg_data m k) = unat (msg_size m)"
    using blocks_okD(8) [OF b(1)] blocks_held [OF b(1,2)] by simp
  show "mq_fill k buf m = Some (m\<lparr>msg_data := (msg_data m)(k := splice (msg_data m k) 0 buf)\<rparr>)"
    using b(3) l by (simp add: mq_fill_def copy_bytes_eq)
  show "blocks_ok fs qs c (m\<lparr>msg_data := (msg_data m)(k := splice (msg_data m k) 0 buf)\<rparr>)"
    using blocks_okD [OF b(1)] b(3) l by (intro blocks_okI) (auto simp: length_splice)
qed

lemma end_ok: "blocks_ok fs qs c m \<Longrightarrow> k \<in> c \<Longrightarrow> blocks_ok fs qs c (mq_end k m)"
  using blocks_held [of fs qs c m k] by (intro blocks_okI) (auto simp: mq_end_def blocks_ok_def)

lemma link_tail_ok:
  assumes b: "blocks_ok fs qs (insert k c) m" "k \<notin> c" "msg_next m k = None"
  shows "blocks_ok fs (qs @ [k]) c (mq_link_tail k m)"
proof (cases "qs = []")
  case True
  then show ?thesis
    using blocks_okD [OF b(1)] b(2,3) by (intro blocks_okI) (auto simp: mq_link_tail_def Let_def)
next
  case False
  have k: "k \<notin> set fs" "k \<notin> set qs"
    using blocks_held [OF b(1), of k] by simp_all
  have l: "last qs \<in> set qs"
    using False by simp
  then have out: "last qs \<notin> set fs"
    using blocks_okD(3) [OF b(1)] by auto
  have c: "chain ((msg_next m)(last qs := Some k)) (msg_queue_head m) (qs @ [k])"
    by (rule chain_snoc) (use blocks_okD(2,3) [OF b(1)] False k b(3) in simp_all)
  have h: "msg_queue_head m \<noteq> None"
    using blocks_okD(2) [OF b(1)] False by (cases qs) auto
  show ?thesis
    using blocks_okD [OF b(1)] b(2) False c h k out
    by (intro blocks_okI) (auto simp: mq_link_tail_def Let_def)
qed

lemma link_head_ok:
  assumes b: "blocks_ok fs qs (insert k c) m" "k \<notin> c"
  shows "blocks_ok fs (k # qs) c (mq_link_head k m)"
  using blocks_okD [OF b(1)] blocks_held [OF b(1), of k] b(2)
  by (cases "qs = []"; intro blocks_okI) (auto simp: mq_link_head_def Let_def)

lemma unlink_ok:
  assumes b: "blocks_ok fs (k # qs) c m"
  obtains m' where "mq_unlink m = Some (k, m')" "blocks_ok fs qs (insert k c) m'" "msg_data m' = msg_data m"
    "mq_entry m' = mq_entry m" "mq_flag m' = mq_flag m" "msg_size m' = msg_size m" "max_msgs m' = max_msgs m" "msg_next m' = msg_next m"
proof -
  let ?m = "m\<lparr>msg_queue_head := msg_next m k\<rparr>"
  let ?m' = "if msg_queue_tail ?m = Some k then ?m\<lparr>msg_queue_tail := None\<rparr> else ?m"
  have "mq_unlink m = Some (k, ?m')"
    using blocks_okD(2) [OF b] by (simp add: mq_unlink_def Let_def)
  moreover have "blocks_ok fs qs (insert k c) ?m'"
  proof (cases "qs = []")
    case True
    then show ?thesis
      using blocks_okD [OF b] by (intro blocks_okI) auto
  next
    case False
    then have "last qs \<noteq> k"
      using blocks_okD(3) [OF b] last_in_set [OF False] by auto
    then show ?thesis
      using blocks_okD [OF b] False by (intro blocks_okI) auto
  qed
  ultimately show thesis
    using that by simp
qed

lemma link_free_chain:
  "chain (msg_next m) (msg_queue_free m) fs \<Longrightarrow> k \<notin> set fs
    \<Longrightarrow> chain (msg_next (mq_link_free k m)) (msg_queue_free (mq_link_free k m)) (k # fs)"
  by (simp add: mq_link_free_def)

lemma set_up_ok:
  assumes "\<And>k. length (pool k) = unat ms"
  shows "blocks_ok (rev [0..<unat mx]) [] {} (mq_set_up fl ms mx nx pool)" "mq_entry (mq_set_up fl ms mx nx pool) = 0"
    "mq_flag (mq_set_up fl ms mx nx pool) = fl" "msg_size (mq_set_up fl ms mx nx pool) = ms"
    "max_msgs (mq_set_up fl ms mx nx pool) = mx"
proof -
  let ?m0 = "\<lparr>mq_flag = fl, msg_size = ms, max_msgs = mx, mq_entry = 0,
       msg_queue_head = None, msg_queue_tail = None, msg_queue_free = None, msg_next = nx, msg_data = pool\<rparr>"
  let ?f = "\<lambda>n. fold mq_link_free [0..<n] ?m0"
  have keep: "max_msgs (?f n) = mx \<and> msg_queue_head (?f n) = None \<and> msg_queue_tail (?f n) = None
      \<and> msg_data (?f n) = pool \<and> msg_size (?f n) = ms \<and> mq_entry (?f n) = 0 \<and> mq_flag (?f n) = fl" for n
    by (induction n) (simp_all add: mq_link_free_def)
  have "chain (msg_next (?f n)) (msg_queue_free (?f n)) (rev [0..<n])" for n
    by (induction n) (use link_free_chain in auto)
  then show "blocks_ok (rev [0..<unat mx]) [] {} (mq_set_up fl ms mx nx pool)"
    using keep [of "unat mx"] assms unfolding mq_set_up_def by (intro blocks_okI) (auto simp: atLeast0LessThan)
  show "mq_entry (mq_set_up fl ms mx nx pool) = 0" "mq_flag (mq_set_up fl ms mx nx pool) = fl"
    "msg_size (mq_set_up fl ms mx nx pool) = ms" "max_msgs (mq_set_up fl ms mx nx pool) = mx"
    using keep [of "unat mx"] unfolding mq_set_up_def by simp_all
qed

text \<open>The reset: every queued block goes back to the free list.\<close>

lemma drain_ok:
  assumes "blocks_ok fs qs c m"
  shows "\<exists>m'. mq_drain m = Some m' \<and> blocks_ok (rev qs @ fs) [] c m' \<and> msg_size m' = msg_size m \<and> max_msgs m' = max_msgs m
    \<and> mq_flag m' = mq_flag m"
  using assms
proof (induction qs arbitrary: fs m)
  case Nil
  then have "msg_queue_head m = None"
    by (simp add: blocks_ok_def)
  with Nil show ?case
    by (subst mq_drain.simps) simp
next
  case (Cons k qs)
  have out: "k \<notin> c"
    using blocks_okD(5) [OF Cons.prems] by auto
  obtain m1 where m1: "mq_unlink m = Some (k, m1)" "blocks_ok fs qs (insert k c) m1" "mq_flag m1 = mq_flag m"
    "msg_size m1 = msg_size m" "max_msgs m1 = max_msgs m"
    by (rule unlink_ok [OF Cons.prems]) blast
  have h: "msg_queue_head m = Some k"
    using blocks_okD(2) [OF Cons.prems] by simp
  obtain m' where "mq_drain (mq_link_free k m1) = Some m'" "blocks_ok (rev qs @ k # fs) [] c m'"
    "msg_size m' = msg_size m1 \<and> max_msgs m' = max_msgs m1 \<and> mq_flag m' = mq_flag m1"
    using Cons.IH [OF link_free_ok [OF m1(2) out]] by (auto simp: mq_link_free_def)
  then show ?case
    using m1 h by (subst mq_drain.simps) simp
qed


section \<open>Interleaved calls\<close>

text \<open>
  A call that sends holds its block from the claim on; \<open>Filled at_tail buf\<close> says that it has copied
  the message \<open>buf\<close> and is about to link the block. A call that receives holds its block from the
  unlinking on. \<open>mq_run m sending taking q\<close>: the steps of any number of calls, in any order, have
  led to \<open>m\<close>, \<open>q\<close> are the messages that have been linked and not been unlinked, and the calls
  under way hold the blocks of \<open>sending\<close> and \<open>taking\<close>, the latter with the messages they are about
  to copy.
\<close>

datatype claim = Claimed | Filled bool "u8 list"

inductive mq_run :: "rt_messagequeue \<Rightarrow> (nat \<rightharpoonup> claim) \<Rightarrow> (nat \<rightharpoonup> u8 list) \<Rightarrow> u8 list list \<Rightarrow> bool" where
  set_up: "(\<And>k. length (pool k) = unat ms) \<Longrightarrow> mq_run (mq_set_up fl ms mx nx pool) Map.empty Map.empty []"
| claim: "mq_run m sd tk q \<Longrightarrow> msg_queue_free m = Some k \<Longrightarrow> mq_run (mq_claim k m) (sd(k \<mapsto> Claimed)) tk q"
| fill_for_tail: "mq_run m sd tk q \<Longrightarrow> sd k = Some Claimed \<Longrightarrow> length buf \<le> unat (msg_size m)
    \<Longrightarrow> mq_fill k buf (mq_end k m) = Some m' \<Longrightarrow> mq_run m' (sd(k \<mapsto> Filled True buf)) tk q"
| fill_for_head: "mq_run m sd tk q \<Longrightarrow> sd k = Some Claimed \<Longrightarrow> length buf \<le> unat (msg_size m)
    \<Longrightarrow> mq_fill k buf m = Some m' \<Longrightarrow> mq_run m' (sd(k \<mapsto> Filled False buf)) tk q"
| link_tail: "mq_run m sd tk q \<Longrightarrow> sd k = Some (Filled True buf) \<Longrightarrow> mq_run (mq_link_tail k m) (sd(k := None)) tk (q @ [buf])"
| link_head: "mq_run m sd tk q \<Longrightarrow> sd k = Some (Filled False buf) \<Longrightarrow> mq_run (mq_link_head k m) (sd(k := None)) tk (buf # q)"
| unlink: "mq_run m sd tk q \<Longrightarrow> mq_entry m \<noteq> 0 \<Longrightarrow> mq_unlink m = Some (k, m')
    \<Longrightarrow> mq_run (m'\<lparr>mq_entry := mq_entry m' - 1\<rparr>) sd (tk(k \<mapsto> hd q)) (tl q)"
| free: "mq_run m sd tk q \<Longrightarrow> tk k \<noteq> None \<Longrightarrow> mq_run (mq_link_free k m) sd (tk(k := None)) q"

definition begins :: "rt_messagequeue \<Rightarrow> nat \<Rightarrow> u8 list \<Rightarrow> bool" where
  "begins m k b \<longleftrightarrow> length b \<le> unat (msg_size m) \<and> take (length b) (msg_data m k) = b"

definition mq_sim :: "nat list \<Rightarrow> nat list \<Rightarrow> rt_messagequeue \<Rightarrow> (nat \<rightharpoonup> claim) \<Rightarrow> (nat \<rightharpoonup> u8 list) \<Rightarrow> u8 list list \<Rightarrow> bool" where
  "mq_sim fs qs m sd tk q \<longleftrightarrow> blocks_ok fs qs (dom sd \<union> dom tk) m \<and> dom sd \<inter> dom tk = {} \<and> unat (mq_entry m) = length qs
     \<and> list_all2 (begins m) qs q
     \<and> (\<forall>k t b. sd k = Some (Filled t b) \<longrightarrow> begins m k b \<and> (t \<longrightarrow> msg_next m k = None))
     \<and> (\<forall>k b. tk k = Some b \<longrightarrow> begins m k b)"

lemma mq_simD:
  assumes "mq_sim fs qs m sd tk q"
  shows "blocks_ok fs qs (dom sd \<union> dom tk) m" "dom sd \<inter> dom tk = {}" "unat (mq_entry m) = length qs"
    "list_all2 (begins m) qs q" "sd k = Some (Filled t b) \<Longrightarrow> begins m k b"
    "sd k = Some (Filled True b) \<Longrightarrow> msg_next m k = None" "tk k = Some b \<Longrightarrow> begins m k b"
  using assms by (auto simp: mq_sim_def)

lemma begins_cong: "msg_size m' = msg_size m \<Longrightarrow> msg_data m' = msg_data m \<Longrightarrow> begins m' = begins m"
  by (simp add: fun_eq_iff begins_def)

lemma begins_fill:
  assumes "length (msg_data m k) = unat (msg_size m)" "length buf \<le> unat (msg_size m)"
  shows "begins (m\<lparr>msg_data := (msg_data m)(k := splice (msg_data m k) 0 buf)\<rparr>) k buf"
    "j \<noteq> k \<Longrightarrow> begins (m\<lparr>msg_data := (msg_data m)(k := splice (msg_data m k) 0 buf)\<rparr>) j b = begins m j b"
  using assms by (simp_all add: begins_def splice_def)

lemma entry_room: "blocks_ok fs qs (insert k c) m \<Longrightarrow> k \<notin> c \<Longrightarrow> length qs < unat (max_msgs m)"
proof -
  assume b: "blocks_ok fs qs (insert k c) m" and k: "k \<notin> c"
  have "set qs \<subset> {..<unat (max_msgs m)}"
    using blocks_okD(6) [OF b] blocks_held [OF b, of k] by auto
  then have "card (set qs) < card {..<unat (max_msgs m)}"
    by (intro psubset_card_mono) simp_all
  then show ?thesis
    using blocks_okD(3) [OF b] by (simp add: distinct_card)
qed

lemma entry_inc: "blocks_ok fs qs (insert k c) m \<Longrightarrow> k \<notin> c \<Longrightarrow> unat (mq_entry m) = length qs
    \<Longrightarrow> unat (mq_entry m + 1) = Suc (length qs)"
  using entry_room [of fs qs k c m] unat_u16 [of "max_msgs m"] by (subst u16_inc) auto

lemma link_frames:
  "msg_data (mq_link_tail k m) = msg_data m" "msg_size (mq_link_tail k m) = msg_size m" "mq_entry (mq_link_tail k m) = mq_entry m + 1"
  "msg_data (mq_link_head k m) = msg_data m" "msg_size (mq_link_head k m) = msg_size m" "mq_entry (mq_link_head k m) = mq_entry m + 1"
  "msg_data (mq_link_free k m) = msg_data m" "msg_size (mq_link_free k m) = msg_size m" "mq_entry (mq_link_free k m) = mq_entry m"
  "msg_next (mq_link_free k m) = (msg_next m)(k := msg_queue_free m)"
  "msg_next (mq_link_head k m) = (msg_next m)(k := msg_queue_head m)"
  "msg_queue_tail m = None \<Longrightarrow> msg_next (mq_link_tail k m) = msg_next m"
  "msg_queue_tail m = Some t \<Longrightarrow> msg_next (mq_link_tail k m) = (msg_next m)(t := Some k)"
  by (auto simp: mq_link_tail_def mq_link_head_def mq_link_free_def Let_def split: option.splits)

lemma begins_frames [simp]:
  "begins (mq_link_tail k m) = begins m" "begins (mq_link_head k m) = begins m" "begins (mq_link_free k m) = begins m"
  "begins (mq_claim k m) = begins m" "begins (mq_end k m) = begins m" "begins (m\<lparr>mq_entry := n\<rparr>) = begins m"
  by (rule begins_cong; simp add: link_frames mq_claim_def mq_end_def)+

lemma claim_frames [simp]:
  "msg_next (mq_claim k m) = msg_next m" "mq_entry (mq_claim k m) = mq_entry m" "msg_size (mq_claim k m) = msg_size m"
  "msg_next (mq_end k m) = (msg_next m)(k := None)" "mq_entry (mq_end k m) = mq_entry m" "msg_size (mq_end k m) = msg_size m"
  by (simp_all add: mq_claim_def mq_end_def)

lemma list_all2_mono': "list_all2 P xs ys \<Longrightarrow> (\<And>x y. x \<in> set xs \<Longrightarrow> P x y \<Longrightarrow> Q x y) \<Longrightarrow> list_all2 Q xs ys"
  by (induction rule: list_all2_induct) auto

lemma mq_simI:
  assumes "blocks_ok fs qs (dom sd \<union> dom tk) m" "dom sd \<inter> dom tk = {}" "unat (mq_entry m) = length qs"
    "list_all2 (begins m) qs q" "\<And>k t b. sd k = Some (Filled t b) \<Longrightarrow> begins m k b"
    "\<And>k b. sd k = Some (Filled True b) \<Longrightarrow> msg_next m k = None" "\<And>k b. tk k = Some b \<Longrightarrow> begins m k b"
  shows "mq_sim fs qs m sd tk q"
  using assms by (auto simp: mq_sim_def)

lemma sim_claim:
  assumes "mq_sim fs qs m sd tk q" "msg_queue_free m = Some k"
  obtains fs' where "mq_sim fs' qs (mq_claim k m) (sd(k \<mapsto> Claimed)) tk q"
proof -
  note D = mq_simD [OF assms(1)]
  obtain fs' where fs: "fs = k # fs'"
    using blocks_okD(1) [OF D(1)] assms(2) by (auto simp: chain_Some)
  have c: "blocks_ok fs' qs (insert k (dom sd \<union> dom tk)) (mq_claim k m)" "k \<notin> dom sd \<union> dom tk"
    using claim_ok [OF D(1) [unfolded fs]] by auto
  have "mq_sim fs' qs (mq_claim k m) (sd(k \<mapsto> Claimed)) tk q"
    by (rule mq_simI) (use c D in \<open>auto split: if_splits\<close>)
  then show thesis
    by (rule that)
qed

lemma sim_fill:
  assumes sim: "mq_sim fs qs m sd tk q" and k: "sd k = Some Claimed" "length buf \<le> unat (msg_size m)"
    and n: "t \<longrightarrow> msg_next m k = None"
  shows "\<exists>m'. mq_fill k buf m = Some m' \<and> mq_sim fs qs m' (sd(k \<mapsto> Filled t buf)) tk q"
proof -
  note D = mq_simD [OF sim]
  have kc: "k \<in> dom sd \<union> dom tk"
    using k(1) by auto
  let ?m' = "m\<lparr>msg_data := (msg_data m)(k := splice (msg_data m k) 0 buf)\<rparr>"
  note f = fill_ok [OF D(1) kc k(2)]
  have held: "k \<notin> set qs" "k < unat (max_msgs m)"
    using blocks_held [OF D(1) kc] by simp_all
  note bf = begins_fill [OF blocks_okD(8) [OF D(1) held(2)] k(2)]
  have "list_all2 (begins ?m') qs q"
    by (rule list_all2_mono' [OF D(4)]) (use held(1) bf(2) in metis)
  moreover have "k \<notin> dom tk" and "insert k (dom sd \<union> dom tk) = dom sd \<union> dom tk" and "insert k (dom sd) = dom sd"
    using D(2) k(1) by auto
  moreover have "begins ?m' j b" if "tk j = Some b" for j b
    using D(7) [OF that] bf(2) [of j b] \<open>k \<notin> dom tk\<close> that by (metis domI)
  ultimately have "mq_sim fs qs ?m' (sd(k \<mapsto> Filled t buf)) tk q"
    using f(2) D(2,3,5,6) bf n by (intro mq_simI) (auto split: if_splits)
  then show ?thesis
    using f(1) by blast
qed

lemma sim_end:
  assumes sim: "mq_sim fs qs m sd tk q" and k: "k \<in> dom sd"
  shows "mq_sim fs qs (mq_end k m) sd tk q" "msg_next (mq_end k m) k = None" "msg_size (mq_end k m) = msg_size m"
proof -
  note D = mq_simD [OF sim]
  show "mq_sim fs qs (mq_end k m) sd tk q"
    by (rule mq_simI) (use end_ok [OF D(1), of k] k D in auto)
qed simp_all


lemma sim_link:
  assumes sim: "mq_sim fs qs m sd tk q" and k: "sd k = Some (Filled t buf)"
  shows "t \<Longrightarrow> mq_sim fs (qs @ [k]) (mq_link_tail k m) (sd(k := None)) tk (q @ [buf])"
    and "mq_sim fs (k # qs) (mq_link_head k m) (sd(k := None)) tk (buf # q)"
proof -
  note D = mq_simD [OF sim]
  let ?c = "dom (sd(k := None)) \<union> dom tk"
  have kt: "k \<notin> dom tk" "k \<notin> ?c" "dom sd \<union> dom tk = insert k ?c"
    using D(2) k by auto
  have b: "blocks_ok fs qs (insert k ?c) m"
    using D(1) unfolding kt(3) .
  note inc = entry_inc [OF b kt(2) D(3)]
  have held: "k \<notin> set qs"
    using blocks_held [OF b, of k] by simp
  show "mq_sim fs (k # qs) (mq_link_head k m) (sd(k := None)) tk (buf # q)"
    by (rule mq_simI)
      (use link_head_ok [OF b kt(2)] D inc k in \<open>auto simp: link_frames split: if_splits\<close>)
  assume t: t
  have n: "msg_next m k = None"
    using D(6) [of k buf] k t by simp
  have tail: "msg_next (mq_link_tail k m) j = None" if "sd j = Some (Filled True b)" "j \<noteq> k" for j b
  proof (cases "msg_queue_tail m")
    case None
    then show ?thesis
      using D(6) [OF that(1)] by (simp add: link_frames)
  next
    case (Some l)
    then have "l \<in> set qs"
      using blocks_okD(7) [OF b] by (auto split: if_splits)
    moreover have "j \<notin> set qs"
      using blocks_held [OF D(1), of j] that(1) by auto
    ultimately show ?thesis
      using Some D(6) [OF that(1)] by (auto simp: link_frames)
  qed
  show "mq_sim fs (qs @ [k]) (mq_link_tail k m) (sd(k := None)) tk (q @ [buf])"
    by (rule mq_simI)
      (use link_tail_ok [OF b kt(2) n] D inc k tail in \<open>auto simp: link_frames list_all2_appendI split: if_splits\<close>)
qed

lemma sim_unlink:
  assumes sim: "mq_sim fs qs m sd tk q" and some: "mq_entry m \<noteq> 0"
  obtains k qs' m' where "mq_unlink m = Some (k, m')" "q \<noteq> []" "begins m k (hd q)"
    "mq_sim fs qs' (m'\<lparr>mq_entry := mq_entry m' - 1\<rparr>) sd (tk(k \<mapsto> hd q)) (tl q)" "msg_data m' = msg_data m" "msg_size m' = msg_size m"
    "mq_flag m' = mq_flag m" "max_msgs m' = max_msgs m" "tk k = None"
proof -
  note D = mq_simD [OF sim]
  have "qs \<noteq> []"
    using D(3) some by (auto simp: unat_eq_zero)
  then obtain k qs' where qs: "qs = k # qs'"
    by (cases qs) auto
  obtain b q' where q: "q = b # q'" "begins m k b" "list_all2 (begins m) qs' q'"
    using D(4) unfolding qs by (auto simp: list_all2_Cons1)
  obtain m' where m': "mq_unlink m = Some (k, m')" "blocks_ok fs qs' (insert k (dom sd \<union> dom tk)) m'" "msg_data m' = msg_data m"
    "mq_entry m' = mq_entry m" "msg_size m' = msg_size m" "msg_next m' = msg_next m" "mq_flag m' = mq_flag m" "max_msgs m' = max_msgs m"
    by (rule unlink_ok [OF D(1) [unfolded qs]]) blast
  have bg: "begins m' = begins m"
    by (rule begins_cong) (simp_all add: m')
  have kd: "k \<notin> dom sd \<union> dom tk"
    using blocks_okD(5) [OF D(1)] qs by auto
  have e: "unat (mq_entry m - 1) = length qs'"
    using D(3) some qs u16_dec [of "mq_entry m"] by (simp add: word_neq_0_conv)
  have b': "blocks_ok fs qs' (insert k (dom sd \<union> dom tk)) (m'\<lparr>mq_entry := n\<rparr>)" for n
    using m'(2) by (simp add: blocks_ok_def)
  have "mq_sim fs qs' (m'\<lparr>mq_entry := mq_entry m' - 1\<rparr>) sd (tk(k \<mapsto> b)) q'"
    by (rule mq_simI) (use b' D(2,5-7) kd q e in \<open>auto simp: bg m'(4,6) split: if_splits\<close>)
  then show thesis
    using that [OF m'(1), of qs'] q m'(3,5,7,8) kd by auto
qed

lemma sim_free:
  assumes sim: "mq_sim fs qs m sd tk q" and k: "k \<in> dom tk"
  shows "mq_sim (k # fs) qs (mq_link_free k m) sd (tk(k := None)) q"
proof -
  note D = mq_simD [OF sim]
  let ?c = "dom sd \<union> dom (tk(k := None))"
  have kt: "k \<notin> ?c" "dom sd \<union> dom tk = insert k ?c"
    using D(2) k by auto
  have b: "blocks_ok fs qs (insert k ?c) m"
    using D(1) unfolding kt(2) .
  show ?thesis
    by (rule mq_simI) (use link_free_ok [OF b kt(1)] D kt(1) in \<open>auto simp: link_frames split: if_splits\<close>)
qed

lemma mq_run_sim: "mq_run m sd tk q \<Longrightarrow> \<exists>fs qs. mq_sim fs qs m sd tk q"
proof (induction rule: mq_run.induct)
  case (set_up pool ms fl mx nx)
  have "mq_sim (rev [0..<unat mx]) [] (mq_set_up fl ms mx nx pool) Map.empty Map.empty []"
    using set_up_ok [where pool = pool, OF set_up] by (simp add: mq_sim_def)
  then show ?case
    by blast
next
  case (claim m sd tk q k)
  then show ?case
    using sim_claim by metis
next
  case (fill_for_tail m sd tk q k buf m')
  then obtain fs qs where sim: "mq_sim fs qs m sd tk q"
    by blast
  have "k \<in> dom sd"
    using fill_for_tail.hyps(2) by auto
  note e = sim_end [OF sim this]
  have "\<exists>m''. mq_fill k buf (mq_end k m) = Some m'' \<and> mq_sim fs qs m'' (sd(k \<mapsto> Filled True buf)) tk q"
    by (rule sim_fill [OF e(1) fill_for_tail.hyps(2)]) (use e(2,3) fill_for_tail.hyps(3) in simp_all)
  then have "mq_sim fs qs m' (sd(k \<mapsto> Filled True buf)) tk q"
    using fill_for_tail.hyps(4) by (metis option.inject)
  then show ?case
    by blast
next
  case (fill_for_head m sd tk q k buf m')
  then obtain fs qs where sim: "mq_sim fs qs m sd tk q"
    by blast
  have "\<exists>m''. mq_fill k buf m = Some m'' \<and> mq_sim fs qs m'' (sd(k \<mapsto> Filled False buf)) tk q"
    by (rule sim_fill [OF sim fill_for_head.hyps(2,3)]) simp
  then have "mq_sim fs qs m' (sd(k \<mapsto> Filled False buf)) tk q"
    using fill_for_head.hyps(4) by (metis option.inject)
  then show ?case
    by blast
next
  case (link_tail m sd tk q k buf)
  then show ?case
    using sim_link(1) by blast
next
  case (link_head m sd tk q k buf)
  then show ?case
    using sim_link(2) by blast
next
  case (unlink m sd tk q k m')
  then obtain fs qs where sim: "mq_sim fs qs m sd tk q"
    by blast
  obtain k' qs' m'' where *: "mq_unlink m = Some (k', m'')"
    "mq_sim fs qs' (m''\<lparr>mq_entry := mq_entry m'' - 1\<rparr>) sd (tk(k' \<mapsto> hd q)) (tl q)"
    by (rule sim_unlink [OF sim unlink.hyps(2)]) blast
  moreover have "k' = k \<and> m'' = m'"
    using *(1) unlink.hyps(3) by simp
  ultimately show ?case
    by blast
next
  case (free m sd tk q k)
  then obtain fs qs where sim: "mq_sim fs qs m sd tk q"
    by blast
  have "k \<in> dom tk"
    using free.hyps(2) by auto
  then show ?case
    using sim_free [OF sim] by blast
qed


text \<open>
  C6. However the steps of sending and receiving calls interleave where the interrupts are
  enabled, the queue holds exactly the linked messages in order: it has as many entries, its first
  block starts with the first message, every block that is being read still starts with the message
  it was unlinked with, and a send is refused only when the queue and the calls under way hold all
  blocks.
\<close>

theorem mq_calls_interleave:
  assumes "mq_run m sending taking q"
  shows "unat (mq_entry m) = length q
    \<and> (q \<noteq> [] \<longrightarrow> (\<exists>k m'. mq_unlink m = Some (k, m') \<and> take (length (hd q)) (msg_data m k) = hd q))
    \<and> (\<forall>k b. taking k = Some b \<longrightarrow> take (length b) (msg_data m k) = b)
    \<and> (msg_queue_free m = None \<longrightarrow> length q + card (dom sending) + card (dom taking) = unat (max_msgs m))"
proof -
  obtain fs qs where sim: "mq_sim fs qs m sending taking q"
    using mq_run_sim [OF assms] by blast
  note D = mq_simD [OF sim]
  have len: "length qs = length q"
    using D(4) by (rule list_all2_lengthD)
  have "\<exists>k m'. mq_unlink m = Some (k, m') \<and> take (length (hd q)) (msg_data m k) = hd q" if "q \<noteq> []"
  proof -
    have "mq_entry m \<noteq> 0"
      using that D(3) len by auto
    from sim_unlink [OF sim this] show ?thesis
      by (metis begins_def)
  qed
  moreover have "length q + card (dom sending) + card (dom taking) = unat (max_msgs m)" if "msg_queue_free m = None"
  proof -
    have "fs = []"
      using blocks_okD(1) [OF D(1)] that by simp
    then have u: "set qs \<union> (dom sending \<union> dom taking) = {..<unat (max_msgs m)}" "set qs \<inter> (dom sending \<union> dom taking) = {}"
      "distinct qs"
      using blocks_okD [OF D(1)] by auto
    then have "finite (dom sending \<union> dom taking)"
      by (metis finite_Un finite_lessThan)
    then have f: "finite (dom sending)" "finite (dom taking)"
      by simp_all
    have "card (set qs \<union> (dom sending \<union> dom taking)) = length qs + (card (dom sending) + card (dom taking))"
      using u(2,3) f D(2) by (simp add: card_Un_disjoint distinct_card)
    then show ?thesis
      using u(1) len by simp
  qed
  ultimately show ?thesis
    using D(3,7) len by (auto simp: begins_def)
qed

section \<open>Whole calls\<close>

lemma mq_head [simp]: "waiters_head (Mq_receivers i)"
  by (simp add: waiters_head_def)

lemma upd_mq_simps [kernel_simps]:
  "mq (upd_mq i f s) j = (if j = i then f (mq s i) else mq s j)" "thr (upd_mq i f s) = thr s"
  "wlist (upd_mq i f s) = wlist s" "rt_current_thread (world (upd_mq i f s)) = rt_current_thread (world s)"
  "rt_scheduler_lock_nest (world (upd_mq i f s)) = rt_scheduler_lock_nest (world s)"
  "sched_ok_on A (world (upd_mq i f s)) = sched_ok_on A (world s)"
  by (simp_all add: upd_mq_def kernel_simps)

text \<open>The queue of a system state, other calls being under way.\<close>

definition mq_at :: "nat \<Rightarrow> isys \<Rightarrow> (nat \<rightharpoonup> claim) \<Rightarrow> (nat \<rightharpoonup> u8 list) \<Rightarrow> u8 list list \<Rightarrow> bool" where
  "mq_at i s sd tk q \<longleftrightarrow> sched_ok (world s) \<and> legal_flag (mq_flag (mq s i)) \<and> mq_run (mq s i) sd tk q"

lemma held_block:
  assumes "mq_run m sd tk q" "msg_queue_free m = Some k"
  shows "sd k = None" "tk k = None"
proof -
  obtain fs qs where sim: "mq_sim fs qs m sd tk q"
    using mq_run_sim [OF assms(1)] by blast
  have "k \<notin> dom sd \<union> dom tk"
    using blocks_okD(1,4) [OF mq_simD(1) [OF sim]] assms(2) by (auto simp: chain_Some)
  then show "sd k = None" "tk k = None"
    by auto
qed

lemma mq_fill_run:
  assumes run: "mq_run m sd tk q" "msg_queue_free m = Some k" and len: "length buf \<le> unat (msg_size m)"
  shows "\<exists>m'. mq_fill k buf (mq_end k (mq_claim k m)) = Some m' \<and> mq_run (mq_link_tail k m') sd tk (q @ [buf])
      \<and> mq_flag (mq_link_tail k m') = mq_flag m \<and> msg_size (mq_link_tail k m') = msg_size m"
    and "\<exists>m'. mq_fill k buf (mq_claim k m) = Some m' \<and> mq_run (mq_link_head k m') sd tk (buf # q)
      \<and> mq_flag (mq_link_head k m') = mq_flag m \<and> msg_size (mq_link_head k m') = msg_size m"
proof -
  let ?sd = "sd(k \<mapsto> Claimed)"
  have r: "mq_run (mq_claim k m) ?sd tk q" "?sd k = Some Claimed" "length buf \<le> unat (msg_size (mq_claim k m))"
    using mq_run.claim [OF run] len by simp_all
  obtain fs qs where sim: "mq_sim fs qs (mq_claim k m) ?sd tk q"
    using mq_run_sim [OF r(1)] by blast
  have kd: "k \<in> dom ?sd"
    by simp
  have id: "sd(k := None) = sd"
    using held_block(1) [OF run] by (auto simp: fun_eq_iff)
  obtain m1 where m1: "mq_fill k buf (mq_end k (mq_claim k m)) = Some m1"
    using sim_fill [OF sim_end(1) [OF sim kd] r(2), of buf True] len by auto
  have "mq_run m1 (?sd(k \<mapsto> Filled True buf)) tk q"
    by (rule mq_run.fill_for_tail [OF r m1])
  then have "mq_run m1 (sd(k \<mapsto> Filled True buf)) tk q"
    by (simp only: fun_upd_upd)
  then have "mq_run (mq_link_tail k m1) sd tk (q @ [buf])"
    using mq_run.link_tail [of m1 "sd(k \<mapsto> Filled True buf)" tk q k buf] by (simp add: id fun_upd_def [symmetric])
  then show "\<exists>m'. mq_fill k buf (mq_end k (mq_claim k m)) = Some m' \<and> mq_run (mq_link_tail k m') sd tk (q @ [buf])
      \<and> mq_flag (mq_link_tail k m') = mq_flag m \<and> msg_size (mq_link_tail k m') = msg_size m"
    using m1 by (auto simp: mq_fill_def Option.bind_eq_Some_conv mq_link_tail_def Let_def mq_end_def mq_claim_def split: option.splits)
  obtain m2 where m2: "mq_fill k buf (mq_claim k m) = Some m2"
    using sim_fill [OF sim r(2,3), of False] by auto
  have "mq_run m2 (?sd(k \<mapsto> Filled False buf)) tk q"
    by (rule mq_run.fill_for_head [OF r m2])
  then have "mq_run m2 (sd(k \<mapsto> Filled False buf)) tk q"
    by (simp only: fun_upd_upd)
  then have "mq_run (mq_link_head k m2) sd tk (buf # q)"
    using mq_run.link_head [of m2 "sd(k \<mapsto> Filled False buf)" tk q k buf] by (simp add: id fun_upd_def [symmetric])
  then show "\<exists>m'. mq_fill k buf (mq_claim k m) = Some m' \<and> mq_run (mq_link_head k m') sd tk (buf # q)
      \<and> mq_flag (mq_link_head k m') = mq_flag m \<and> msg_size (mq_link_head k m') = msg_size m"
    using m2 by (auto simp: mq_fill_def Option.bind_eq_Some_conv mq_link_head_def Let_def mq_claim_def)
qed


lemma mq_post:
  assumes ok: "sched_ok (world s)" and m: "legal_flag (mq_flag m)" "mq_run m sd tk q"
  obtains s' where "wake_first (Mq_receivers i) (upd_mq i (\<lambda>_. m) s) = Some s'" "mq_at i s' sd tk q" "mq s' i = m"
    "wlist s' (Mq_receivers i) = tl (wlist s (Mq_receivers i))"
    "\<And>t ts. wlist s (Mq_receivers i) = t # ts \<Longrightarrow> thr s' = (thr s)(t := thr s t\<lparr>stat := RT_THREAD_READY\<rparr>)"
proof -
  let ?s1 = "upd_mq i (\<lambda>_. m) s"
  obtain s' where s': "wake_first (Mq_receivers i) ?s1 = Some s'" "sched_ok (world s')"
    "objects (world s') = objects (world ?s1)" "wlist s' (Mq_receivers i) = tl (wlist ?s1 (Mq_receivers i))"
    "thr s' = (if wlist ?s1 (Mq_receivers i) = [] then thr ?s1 else (thr ?s1)(hd (wlist ?s1 (Mq_receivers i)) :=
       thr ?s1 (hd (wlist ?s1 (Mq_receivers i)))\<lparr>stat := RT_THREAD_READY\<rparr>))"
    by (rule wake_first_ok [of ?s1 "Mq_receivers i"]) (use ok in \<open>simp_all add: kernel_simps\<close>)
  show thesis
    by (rule that [OF s'(1)]) (use m s' in \<open>simp_all add: mq_at_def kernel_simps\<close>)
qed

lemma mq_send_ok:
  assumes at: "mq_at i s sd tk q" and buf: "buf \<noteq> []" "length buf \<le> unat (msg_size (mq s i))"
    and free: "msg_queue_free (mq s i) \<noteq> None"
  obtains s' where "rt_mq_send i buf s = Some (RT_EOK, s')" "mq_at i s' sd tk (q @ [buf])"
    "msg_size (mq s' i) = msg_size (mq s i)" "wlist s' (Mq_receivers i) = tl (wlist s (Mq_receivers i))"
    "\<And>t ts. wlist s (Mq_receivers i) = t # ts \<Longrightarrow> thr s' = (thr s)(t := thr s t\<lparr>stat := RT_THREAD_READY\<rparr>)"
proof -
  obtain k where k: "msg_queue_free (mq s i) = Some k"
    using free by auto
  have D: "sched_ok (world s)" "legal_flag (mq_flag (mq s i))" "mq_run (mq s i) sd tk q"
    using at by (simp_all add: mq_at_def)
  obtain m' where m': "mq_fill k buf (mq_end k (mq_claim k (mq s i))) = Some m'" "mq_run (mq_link_tail k m') sd tk (q @ [buf])"
    "mq_flag (mq_link_tail k m') = mq_flag (mq s i)" "msg_size (mq_link_tail k m') = msg_size (mq s i)"
    using mq_fill_run(1) [OF D(3) k buf(2)] by blast
  have fl: "legal_flag (mq_flag (mq_link_tail k m'))"
    using D(2) m'(3) by simp
  obtain s' where s': "wake_first (Mq_receivers i) (upd_mq i (\<lambda>_. mq_link_tail k m') s) = Some s'"
    "mq_at i s' sd tk (q @ [buf])" "mq s' i = mq_link_tail k m'" "wlist s' (Mq_receivers i) = tl (wlist s (Mq_receivers i))"
    "\<And>t ts. wlist s (Mq_receivers i) = t # ts \<Longrightarrow> thr s' = (thr s)(t := thr s t\<lparr>stat := RT_THREAD_READY\<rparr>)"
    by (rule mq_post [OF D(1) fl m'(2)]) blast
  have run: "rt_mq_send i buf s = Some (RT_EOK, s')"
    using buf k m'(1) s'(1) by (simp add: rt_mq_send_def)
  show thesis
    by (rule that [OF run]) (use s' m'(4) in simp_all)
qed

lemma mq_urgent_ok:
  assumes at: "mq_at i s sd tk q" and buf: "buf \<noteq> []" "length buf \<le> unat (msg_size (mq s i))"
    and free: "msg_queue_free (mq s i) \<noteq> None"
  obtains s' where "rt_mq_urgent i buf s = Some (RT_EOK, s')" "mq_at i s' sd tk (buf # q)"
    "msg_size (mq s' i) = msg_size (mq s i)" "wlist s' (Mq_receivers i) = tl (wlist s (Mq_receivers i))"
    "\<And>t ts. wlist s (Mq_receivers i) = t # ts \<Longrightarrow> thr s' = (thr s)(t := thr s t\<lparr>stat := RT_THREAD_READY\<rparr>)"
proof -
  obtain k where k: "msg_queue_free (mq s i) = Some k"
    using free by auto
  have D: "sched_ok (world s)" "legal_flag (mq_flag (mq s i))" "mq_run (mq s i) sd tk q"
    using at by (simp_all add: mq_at_def)
  obtain m' where m': "mq_fill k buf (mq_claim k (mq s i)) = Some m'" "mq_run (mq_link_head k m') sd tk (buf # q)"
    "mq_flag (mq_link_head k m') = mq_flag (mq s i)" "msg_size (mq_link_head k m') = msg_size (mq s i)"
    using mq_fill_run(2) [OF D(3) k buf(2)] by blast
  have fl: "legal_flag (mq_flag (mq_link_head k m'))"
    using D(2) m'(3) by simp
  obtain s' where s': "wake_first (Mq_receivers i) (upd_mq i (\<lambda>_. mq_link_head k m') s) = Some s'"
    "mq_at i s' sd tk (buf # q)" "mq s' i = mq_link_head k m'" "wlist s' (Mq_receivers i) = tl (wlist s (Mq_receivers i))"
    "\<And>t ts. wlist s (Mq_receivers i) = t # ts \<Longrightarrow> thr s' = (thr s)(t := thr s t\<lparr>stat := RT_THREAD_READY\<rparr>)"
    by (rule mq_post [OF D(1) fl m'(2)]) blast
  have run: "rt_mq_urgent i buf s = Some (RT_EOK, s')"
    using buf k m'(1) s'(1) by (simp add: rt_mq_urgent_def)
  show thesis
    by (rule that [OF run]) (use s' m'(4) in simp_all)
qed

text \<open>The receiver gets the message, as far as its buffer goes.\<close>

definition received :: "u8 list \<Rightarrow> u8 list \<Rightarrow> u8 list \<Rightarrow> bool" where
  "received msg buf buf' \<longleftrightarrow> length buf' = length buf
     \<and> take (min (length buf) (length msg)) buf' = take (min (length buf) (length msg)) msg"

lemma copy_received:
  assumes "begins m k msg" "length (msg_data m k) = unat (msg_size m)"
  shows "\<exists>buf'. mq_copy k buf m = Some buf' \<and> received msg buf buf'"
proof -
  let ?n = "min (length buf) (unat (msg_size m))"
  have "mq_copy k buf m = copy_bytes buf 0 (msg_data m k) 0 ?n"
    by (auto simp: mq_copy_def min_def)
  also have "\<dots> = Some (splice buf 0 (take ?n (msg_data m k)))"
    using assms(2) by (simp add: copy_bytes_eq)
  finally have c: "mq_copy k buf m = Some (splice buf 0 (take ?n (msg_data m k)))" .
  have l: "length msg \<le> unat (msg_size m)" "take (length msg) (msg_data m k) = msg"
    using assms(1) by (simp_all add: begins_def)
  have "take (min (length buf) (length msg)) (splice buf 0 (take ?n (msg_data m k)))
      = take (min (length buf) (length msg)) (msg_data m k)"
    using l(1) assms(2) by (simp add: splice_def min_def)
  also have "\<dots> = take (min (length buf) (length msg)) (take (length msg) (msg_data m k))"
    by (simp add: min.absorb1)
  finally show ?thesis
    using c l(2) assms(2) by (simp add: received_def)
qed

lemma mq_recv_ok:
  assumes at: "mq_at i s sd tk q" and some: "mq_entry (mq s i) \<noteq> 0"
  obtains buf' s' where "mq_recv_loop i buf timeout s = Some (Returns RT_EOK, buf', s')" "received (hd q) buf buf'"
    "q = hd q # tl q" "mq_at i s' sd tk (tl q)" "msg_size (mq s' i) = msg_size (mq s i)" "thr s' = thr s" "wlist s' = wlist s"
proof -
  have D: "sched_ok (world s)" "legal_flag (mq_flag (mq s i))" "mq_run (mq s i) sd tk q"
    using at by (simp_all add: mq_at_def)
  obtain fs qs where sim: "mq_sim fs qs (mq s i) sd tk q"
    using mq_run_sim [OF D(3)] by blast
  obtain k qs' m' where u: "mq_unlink (mq s i) = Some (k, m')" "q \<noteq> []" "begins (mq s i) k (hd q)"
    "mq_sim fs qs' (m'\<lparr>mq_entry := mq_entry m' - 1\<rparr>) sd (tk(k \<mapsto> hd q)) (tl q)" "msg_data m' = msg_data (mq s i)"
    "msg_size m' = msg_size (mq s i)" "mq_flag m' = mq_flag (mq s i)" "max_msgs m' = max_msgs (mq s i)" "tk k = None"
    by (rule sim_unlink [OF sim some]) blast
  let ?m = "m'\<lparr>mq_entry := mq_entry m' - 1\<rparr>"
  have b: "begins ?m k (hd q)"
    using mq_simD(7) [OF u(4), of k "hd q"] by simp
  have "k \<in> dom sd \<union> dom (tk(k \<mapsto> hd q))"
    by simp
  from blocks_held [OF mq_simD(1) [OF u(4)] this] have "length (msg_data ?m k) = unat (msg_size ?m)"
    using blocks_okD(8) [OF mq_simD(1) [OF u(4)]] by blast
  from copy_received [OF b this, of buf] obtain buf' where buf': "mq_copy k buf ?m = Some buf'" "received (hd q) buf buf'"
    by blast
  have "mq_run (mq_link_free k ?m) sd ((tk(k \<mapsto> hd q))(k := None)) (tl q)"
    by (rule mq_run.free [OF mq_run.unlink [OF D(3) some u(1)]]) simp
  moreover have "(tk(k \<mapsto> hd q))(k := None) = tk"
    using u(9) by (auto simp: fun_eq_iff)
  ultimately have r: "mq_run (mq_link_free k ?m) sd tk (tl q)"
    by simp
  let ?s' = "upd_mq i (\<lambda>_. mq_link_free k ?m) s"
  have run: "mq_recv_loop i buf timeout s = Some (Returns RT_EOK, buf', ?s')"
    using some u(1) buf'(1) by (subst mq_recv_loop.simps) (simp add: Let_def)
  show thesis
    by (rule that [OF run buf'(2)])
      (use u(2,6,7) D r in \<open>simp_all add: mq_at_def kernel_simps mq_link_free_def\<close>)
qed

lemma mq_recv_blocks:
  assumes at: "mq_at i s sd tk q" and empty: "mq_entry (mq s i) = 0"
    and t: "in_thread t u s" and time: "timeout \<noteq> 0" "legal_time timeout"
  obtains s' where "mq_recv_loop i buf timeout s = Some (Waits, buf, s')" "mq_at i s' sd tk q" "mq s' i = mq s i"
    "thr s' = (thr s)(t := thr s t\<lparr>error := RT_EOK, stat := RT_THREAD_SUSPEND\<rparr>)"
    "wlist s' (Mq_receivers i) = joined (mq_flag (mq s i)) t (wlist s (Mq_receivers i)) s"
proof -
  have D: "sched_ok (world s)" "legal_flag (mq_flag (mq s i))" "mq_run (mq s i) sd tk q"
    using at by (simp_all add: mq_at_def)
  obtain s' where s': "wait_in (Mq_receivers i) t (mq_flag (mq s i)) timeout (clear_error t s) = Some s'" "sched_ok (world s')"
    "thr s' = (thr s)(t := thr s t\<lparr>error := RT_EOK, stat := RT_THREAD_SUSPEND\<rparr>)"
    "wlist s' (Mq_receivers i) = joined (mq_flag (mq s i)) t (wlist s (Mq_receivers i)) s"
    "objects (world s') = objects (world s)" "rt_current_thread (world s') \<noteq> Some t"
    by (rule blocks [OF D(1) t mq_head time(2) D(2)]) blast
  have c: "rt_current_thread (world s) = Some t" "mq (clear_error t s) i = mq s i"
    using t by (simp_all add: in_thread_def kernel_simps)
  have run: "mq_recv_loop i buf timeout s = Some (Waits, buf, s')"
    using empty time(1) s'(6) by (subst mq_recv_loop.simps) (simp add: c s'(1) Let_def)
  show thesis
    by (rule that [OF run]) (use D s' in \<open>simp_all add: mq_at_def\<close>)
qed


lemma mq_at_entry:
  assumes "mq_at i s sd tk q"
  shows "mq_entry (mq s i) = 0 \<longleftrightarrow> q = []"
proof -
  obtain fs qs where sim: "mq_sim fs qs (mq s i) sd tk q"
    using mq_run_sim assms unfolding mq_at_def by blast
  have "unat (mq_entry (mq s i)) = length q"
    using mq_simD(3,4) [OF sim] by (simp add: list_all2_lengthD)
  then show ?thesis
    by (metis length_0_conv unat_eq_zero)
qed

text \<open>
  C35. What the two sending calls do, with other calls under way: a message longer than the blocks
  is refused with \<open>RT_ERROR\<close>, one that finds no free block with \<open>RT_EFULL\<close>, and nothing changes;
  any other is accepted, behind all queued messages by \<open>rt_mq_send\<close> and before them by \<open>rt_mq_urgent\<close>.
\<close>

theorem mq_sends:
  assumes "mq_at i s sending taking q" "buf \<noteq> []"
  shows "\<exists>e s1 s2. rt_mq_send i buf s = Some (e, s1) \<and> rt_mq_urgent i buf s = Some (e, s2)
    \<and> e = (if unat (msg_size (mq s i)) < length buf then RT_ERROR
            else if msg_queue_free (mq s i) = None then RT_EFULL else RT_EOK)
    \<and> (if e = RT_EOK then mq_at i s1 sending taking (q @ [buf]) \<and> mq_at i s2 sending taking (buf # q)
        else s1 = s \<and> s2 = s)"
proof (cases "length buf \<le> unat (msg_size (mq s i)) \<and> msg_queue_free (mq s i) \<noteq> None")
  case True
  then have c: "length buf \<le> unat (msg_size (mq s i))" "msg_queue_free (mq s i) \<noteq> None"
    by simp_all
  obtain s1 where s1: "rt_mq_send i buf s = Some (RT_EOK, s1)" "mq_at i s1 sending taking (q @ [buf])"
    by (rule mq_send_ok [OF assms c]) blast
  obtain s2 where s2: "rt_mq_urgent i buf s = Some (RT_EOK, s2)" "mq_at i s2 sending taking (buf # q)"
    by (rule mq_urgent_ok [OF assms c]) blast
  show ?thesis
    using s1 s2 c by (intro exI [of _ RT_EOK] exI [of _ s1] exI [of _ s2]) (simp add: not_less)
next
  case False
  then show ?thesis
    using assms(2) by (auto simp: rt_mq_send_def rt_mq_urgent_def not_le)
qed

text \<open>
  C36. What the receiving call does in a running thread: it returns the first message of the queue,
  as far as the buffer of the caller goes, or, with no message, \<open>RT_ETIMEOUT\<close> at once or after
  having waited. The call always ends.
\<close>

theorem mq_receives:
  assumes "mq_at i s sending taking q" "in_thread t u s" "legal_time timeout" "buf \<noteq> []"
  shows "\<exists>r buf' s'. rt_mq_recv i buf timeout s = Some (r, buf', s')
    \<and> r = (if q \<noteq> [] then Returns RT_EOK else if timeout = 0 then Returns RT_ETIMEOUT else Waits)
    \<and> mq_at i s' sending taking (tl q) \<and> (if q \<noteq> [] then received (hd q) buf buf' else buf' = buf)"
proof (cases "q = []")
  case False
  then have some: "mq_entry (mq s i) \<noteq> 0"
    using mq_at_entry [OF assms(1)] by simp
  obtain buf' s' where "mq_recv_loop i buf timeout s = Some (Returns RT_EOK, buf', s')" "received (hd q) buf buf'"
    "mq_at i s' sending taking (tl q)"
    by (rule mq_recv_ok [OF assms(1) some]) blast
  then show ?thesis
    using False some assms(4) by (intro exI [of _ "Returns RT_EOK"] exI [of _ buf'] exI [of _ s']) (simp add: rt_mq_recv_def)
next
  case True
  then have none: "mq_entry (mq s i) = 0"
    using mq_at_entry [OF assms(1)] by simp
  show ?thesis
  proof (cases "timeout = 0")
    case True
    then show ?thesis
      using \<open>q = []\<close> none assms(1,4) by (simp add: rt_mq_recv_def)
  next
    case False
    obtain s' where "mq_recv_loop i buf timeout s = Some (Waits, buf, s')" "mq_at i s' sending taking q"
      by (rule mq_recv_blocks [OF assms(1) none assms(2) False assms(3), of buf]) blast
    then show ?thesis
      using \<open>q = []\<close> False assms(4) by (intro exI [of _ Waits] exI [of _ buf] exI [of _ s']) (simp add: rt_mq_recv_def)
  qed
qed

text \<open>
  A thread that waits at an empty queue is woken by the next message and gets it when it runs
  again.
\<close>

theorem mq_hands_over:
  assumes at: "mq_at i s sending taking []" and t: "in_thread t u s" and w: "wlist s (Mq_receivers i) = []"
    and free: "msg_queue_free (mq s i) \<noteq> None" and msg: "msg \<noteq> []" "length msg \<le> unat (msg_size (mq s i))"
    and time: "timeout \<noteq> 0" "legal_time timeout" and buf: "length msg \<le> length buf"
  shows "\<exists>s1 s2 s3 buf'. rt_mq_recv i buf timeout s = Some (Waits, buf, s1) \<and> stat (thr s1 t) = RT_THREAD_SUSPEND
    \<and> rt_mq_send i msg s1 = Some (RT_EOK, s2) \<and> stat (thr s2 t) = RT_THREAD_READY
    \<and> rt_mq_recv_resumed i buf timeout start t s2 = Some (Returns RT_EOK, buf', s3) \<and> take (length msg) buf' = msg"
proof -
  have none: "mq_entry (mq s i) = 0"
    using mq_at_entry [OF at] by simp
  obtain s1 where s1: "mq_recv_loop i buf timeout s = Some (Waits, buf, s1)" "mq_at i s1 sending taking []" "mq s1 i = mq s i"
    "thr s1 = (thr s)(t := thr s t\<lparr>error := RT_EOK, stat := RT_THREAD_SUSPEND\<rparr>)"
    "wlist s1 (Mq_receivers i) = joined (mq_flag (mq s i)) t (wlist s (Mq_receivers i)) s"
    by (rule mq_recv_blocks [OF at none t time, of buf]) blast
  have l1: "wlist s1 (Mq_receivers i) = [t]"
    by (simp add: s1(5) w joined_def)
  have c1: "length msg \<le> unat (msg_size (mq s1 i))" "msg_queue_free (mq s1 i) \<noteq> None"
    using msg(2) free by (simp_all add: s1(3))
  obtain s2 where s2: "rt_mq_send i msg s1 = Some (RT_EOK, s2)" "mq_at i s2 sending taking ([] @ [msg])"
    "\<And>t ts. wlist s1 (Mq_receivers i) = t # ts \<Longrightarrow> thr s2 = (thr s1)(t := thr s1 t\<lparr>stat := RT_THREAD_READY\<rparr>)"
    by (rule mq_send_ok [OF s1(2) msg(1) c1]) blast
  have some: "mq_entry (mq s2 i) \<noteq> 0"
    using mq_at_entry [OF s2(2)] by simp
  obtain buf' s3 where s3: "mq_recv_loop i buf (remaining timeout start (rt_tick s2)) s2 = Some (Returns RT_EOK, buf', s3)"
    "received (hd ([] @ [msg])) buf buf'"
    by (rule mq_recv_ok [OF s2(2) some]) blast
  have t2: "thr s2 = (thr s1)(t := thr s1 t\<lparr>stat := RT_THREAD_READY\<rparr>)"
    by (rule s2(3) [OF l1])
  have "buf \<noteq> []"
    using msg(1) buf by auto
  then show ?thesis
    using s1(1,4) s2(1) s3 none time(1) buf
    by (intro exI [of _ s1] exI [of _ s2] exI [of _ s3] exI [of _ buf'])
      (simp add: rt_mq_recv_def rt_mq_recv_resumed_def t2 received_def min.absorb2)
qed

section \<open>Examples\<close>

text \<open>A queue of two messages of four bytes.\<close>

definition demo_mq :: isys where
  "demo_mq = snd (rt_mq_init 0 3 20 RT_IPC_FLAG_FIFO (\<lambda>_. None) (\<lambda>_. [0, 0, 0, 0]) (demo_sys 0))"

lemma demo_mq_facts:
  "mq_at 0 demo_mq Map.empty Map.empty []" "in_thread 0 2 demo_mq" "wlist demo_mq (Mq_receivers 0) = []"
  "msg_size (mq demo_mq 0) = 4" "msg_queue_free (mq demo_mq 0) = Some 1"
proof -
  have a: "(ucast (RT_ALIGN4 3) :: u16) = 4" "(ucast ((20 :: u32) div (ucast (4 :: u16) + 4)) :: u16) = 2"
    by (simp_all add: RT_ALIGN4_def)
  have m: "mq demo_mq 0 = mq_set_up RT_IPC_FLAG_FIFO 4 2 (\<lambda>_. None) (\<lambda>_. [0, 0, 0, 0])"
    by (simp add: demo_mq_def rt_mq_init_def Let_def a kernel_simps)
  have run: "mq_run (mq demo_mq 0) Map.empty Map.empty []"
    unfolding m by (rule mq_run.set_up) simp
  moreover have "sched_ok (world demo_mq)"
    by (simp add: demo_mq_def rt_mq_init_def Let_def kernel_simps set_list_nothing)
  moreover have "legal_flag (mq_flag (mq demo_mq 0))"
    unfolding m by (subst set_up_ok(3)) simp_all
  ultimately show "mq_at 0 demo_mq Map.empty Map.empty []"
    by (simp add: mq_at_def)
  show "in_thread 0 2 demo_mq"
    using demo_sys_simps(2) [of 0] by (simp add: demo_mq_def rt_mq_init_def Let_def in_thread_def kernel_simps)
  show "wlist demo_mq (Mq_receivers 0) = []"
    by (simp add: demo_mq_def rt_mq_init_def Let_def kernel_simps)
  show "msg_size (mq demo_mq 0) = 4"
    unfolding m by (subst set_up_ok(4)) simp_all
  have two: "[0..<unat (2 :: u16)] = [0, 1]"
    by (simp add: upt_rec)
  show "msg_queue_free (mq demo_mq 0) = Some 1"
    unfolding m mq_set_up_def two by (simp add: mq_link_free_def)
qed

lemma mq_calls_interleave_witness: "mq_entry (mq demo_mq 0) = 0"
  using mq_calls_interleave [of "mq demo_mq 0" Map.empty Map.empty "[]"] demo_mq_facts(1) by (simp add: mq_at_def unat_eq_zero)

lemma mq_sends_witness: "\<exists>s1. rt_mq_send 0 [1, 2, 3] demo_mq = Some (RT_EOK, s1)"
  using mq_sends [OF demo_mq_facts(1), of "[1, 2, 3]"] demo_mq_facts(4,5) by auto

lemma mq_receives_witness: "\<exists>s'. rt_mq_recv 0 [9] 0 demo_mq = Some (Returns RT_ETIMEOUT, [9], s')"
  using mq_receives [OF demo_mq_facts(1,2), of 0 "[9]"] by (auto simp: legal_time_def)

lemma mq_hands_over_witness:
  "\<exists>s1 s2 s3 buf'. rt_mq_recv 0 [9, 9] 5 demo_mq = Some (Waits, [9, 9], s1) \<and> rt_mq_send 0 [1, 2] s1 = Some (RT_EOK, s2)
    \<and> rt_mq_recv_resumed 0 [9, 9] 5 0 0 s2 = Some (Returns RT_EOK, buf', s3) \<and> take (length [1, 2 :: u8]) buf' = [1, 2]"
proof -
  have "legal_time 5"
    by (simp add: legal_time_def RT_TICK_MAX_def)
  moreover have "[1, 2 :: u8] \<noteq> []" "length [1, 2 :: u8] \<le> unat (msg_size (mq demo_mq 0))" "length [1, 2 :: u8] \<le> length [9, 9 :: u8]"
    "msg_queue_free (mq demo_mq 0) \<noteq> None" "(5 :: u32) \<noteq> 0"
    using demo_mq_facts(4,5) by simp_all
  ultimately show ?thesis
    using mq_hands_over [OF demo_mq_facts(1-3), of "[1, 2]" 5 "[9, 9]" 0] by blast
qed

end
