(* ===== verification/Kernel_Event.thy ===== *)
theory Kernel_Event
  imports Kernel_Sem
begin

text \<open>
  The events of \<^verbatim>\<open>src/ipc.c\<close>: 32 bits, and threads that wait for all or for one of a set of bits.
\<close>

section \<open>Operations\<close>

definition RT_EVENT_FLAG_AND :: u8 where "RT_EVENT_FLAG_AND = 1"
definition RT_EVENT_FLAG_OR :: u8 where "RT_EVENT_FLAG_OR = 2"
definition RT_EVENT_FLAG_CLEAR :: u8 where "RT_EVENT_FLAG_CLEAR = 4"

abbreviation ev :: "isys \<Rightarrow> nat \<Rightarrow> rt_event" where
  "ev s i \<equiv> events (objects (world s)) i"

definition upd_event :: "nat \<Rightarrow> (rt_event \<Rightarrow> rt_event) \<Rightarrow> isys \<Rightarrow> isys" where
  "upd_event i f = on_objects (\<lambda>o1. o1\<lparr>events := (events o1)(i := f (events o1 i))\<rparr>)"

definition rt_event_init :: "nat \<Rightarrow> u8 \<Rightarrow> isys \<Rightarrow> rt_err \<times> isys" where
  "rt_event_init i fl s = (RT_EOK,
     upd_event i (\<lambda>_. \<lparr>event_flag = fl, event_bits = 0\<rparr>) (on_kernel (set_list (Event_waiters i) []) s))"

definition rt_event_create :: "nat option \<Rightarrow> u8 \<Rightarrow> isys \<Rightarrow> nat option \<times> isys" where
  "rt_event_create alloc fl s =
     (case alloc of None \<Rightarrow> (None, s) | Some i \<Rightarrow> (Some i, snd (rt_event_init i fl s)))"

definition rt_event_detach :: "nat \<Rightarrow> isys \<Rightarrow> (rt_err \<times> isys) option" where
  "rt_event_detach i s = do { s \<leftarrow> rt_ipc_list_resume_all (Event_waiters i) s; Some (RT_EOK, s) }"

definition rt_event_delete :: "nat \<Rightarrow> isys \<Rightarrow> (rt_err \<times> isys) option" where
  "rt_event_delete i s = do { s \<leftarrow> rt_ipc_list_resume_all (Event_waiters i) s; Some (RT_EOK, s) }"

text \<open>
  The walk over the waiting threads with \<open>need_schedule\<close>. The next node is read before the thread
  is taken out, and nothing else is, so the walk visits the list as it was.
\<close>

fun event_walk :: "nat \<Rightarrow> nat list \<Rightarrow> bool \<Rightarrow> isys \<Rightarrow> (bool \<times> isys) option" where
  "event_walk i [] need s = Some (need, s)"
| "event_walk i (t # ts) need s =
     (let x = thr s t; bs = event_bits (ev s i);
          (status, s) =
            (if event_info x AND RT_EVENT_FLAG_AND \<noteq> 0
             then (event_set x AND bs = event_set x, s)
             else if event_info x AND RT_EVENT_FLAG_OR \<noteq> 0
             then (if event_set x AND bs \<noteq> 0
                   then (True, on_kernel (upd_thread t (\<lambda>x. x\<lparr>event_set := event_set x AND bs\<rparr>)) s)
                   else (False, s))
             else (False, s))
      in if status
         then do {
           let s = (if event_info (thr s t) AND RT_EVENT_FLAG_CLEAR \<noteq> 0
                    then upd_event i (\<lambda>e. e\<lparr>event_bits := event_bits e AND NOT (event_set (thr s t))\<rparr>) s else s);
           (_, s) \<leftarrow> rt_thread_resume t s;
           event_walk i ts True s
         }
         else event_walk i ts need s)"

definition rt_event_send :: "nat \<Rightarrow> u32 \<Rightarrow> isys \<Rightarrow> (rt_err \<times> isys) option" where
  "rt_event_send i bs s =
     (if bs = 0 then Some (RT_ERROR, s)
      else do {
        let s = upd_event i (\<lambda>e. e\<lparr>event_bits := event_bits e OR bs\<rparr>) s;
        (need, s) \<leftarrow> event_walk i (wlist s (Event_waiters i)) False s;
        s \<leftarrow> (if need then try_kernel rt_schedule s else Some s);
        Some (RT_EOK, s)
      })"

text \<open>The bits that are returned with the result, if any.\<close>

definition rt_event_recv :: "nat \<Rightarrow> u32 \<Rightarrow> u8 \<Rightarrow> u32 \<Rightarrow> isys \<Rightarrow> (outcome \<times> u32 option \<times> isys) option" where
  "rt_event_recv i want opt timeout s =
     (if want = 0 then Some (Returns RT_ERROR, None, s)
      else do {
        t \<leftarrow> rt_current_thread (world s);
        let s = clear_error t s;
        let bs = event_bits (ev s i);
        c_assert (opt AND RT_EVENT_FLAG_AND \<noteq> 0 \<or> opt AND RT_EVENT_FLAG_OR \<noteq> 0);
        let status = (if opt AND RT_EVENT_FLAG_AND \<noteq> 0 then bs AND want = want else bs AND want \<noteq> 0);
        if status
        then Some (Returns RT_EOK, Some (bs AND want),
          if opt AND RT_EVENT_FLAG_CLEAR \<noteq> 0
          then upd_event i (\<lambda>e. e\<lparr>event_bits := event_bits e AND NOT want\<rparr>) s else s)
        else if timeout = 0
        then Some (Returns RT_ETIMEOUT, None, on_kernel (upd_thread t (\<lambda>x. x\<lparr>error := RT_ETIMEOUT\<rparr>)) s)
        else do {
          let s = on_kernel (upd_thread t (\<lambda>x. x\<lparr>event_set := want, event_info := opt\<rparr>)) s;
          s \<leftarrow> wait_in (Event_waiters i) t (event_flag (ev s i)) timeout s;
          if rt_current_thread (world s) \<noteq> Some t then Some (Waits, None, s)
          else if error (thr s t) \<noteq> RT_EOK then Some (Returns (error (thr s t)), None, s)
          else Some (Returns RT_EOK, Some (event_set (thr s t)), s)
        }
      })"

definition rt_event_received :: "nat \<Rightarrow> isys \<Rightarrow> rt_err \<times> u32 option" where
  "rt_event_received t s =
     (if error (thr s t) \<noteq> RT_EOK then (error (thr s t), None) else (RT_EOK, Some (event_set (thr s t))))"

definition rt_event_control :: "nat \<Rightarrow> u8 \<Rightarrow> isys \<Rightarrow> (rt_err \<times> isys) option" where
  "rt_event_control i cmd s =
     (if cmd = RT_IPC_CMD_RESET
      then do {
        s \<leftarrow> rt_ipc_list_resume_all (Event_waiters i) s;
        s \<leftarrow> try_kernel rt_schedule (upd_event i (\<lambda>e. e\<lparr>event_bits := 0\<rparr>) s);
        Some (RT_EOK, s)
      }
      else Some (RT_ERROR, s))"

section \<open>What the operations do\<close>

lemma event_head [simp]: "waiters_head (Event_waiters i)"
  by (simp add: waiters_head_def)

lemma upd_event_simps [kernel_simps]:
  "ev (upd_event i f s) j = (if j = i then f (ev s i) else ev s j)" "thr (upd_event i f s) = thr s"
  "wlist (upd_event i f s) = wlist s" "rt_current_thread (world (upd_event i f s)) = rt_current_thread (world s)"
  "rt_scheduler_lock_nest (world (upd_event i f s)) = rt_scheduler_lock_nest (world s)"
  "sched_ok_on A (world (upd_event i f s)) = sched_ok_on A (world s)"
  by (simp_all add: upd_event_def kernel_simps)

text \<open>What a thread with the mode \<open>opt\<close> and the set \<open>want\<close> waits for, and what it gets.\<close>

definition satisfied :: "u8 \<Rightarrow> u32 \<Rightarrow> u32 \<Rightarrow> bool" where
  "satisfied opt want bs \<longleftrightarrow>
     (if opt AND RT_EVENT_FLAG_AND \<noteq> 0 then want AND bs = want
      else opt AND RT_EVENT_FLAG_OR \<noteq> 0 \<and> want AND bs \<noteq> 0)"

definition clears :: "u8 \<Rightarrow> bool" where
  "clears opt \<longleftrightarrow> opt AND RT_EVENT_FLAG_CLEAR \<noteq> 0"

text \<open>
  The specification of a send: first come first served, each served thread gets the bits it asked
  for that are set, and those that clear take them away from the threads behind.
\<close>

fun serve :: "(nat \<Rightarrow> u8) \<Rightarrow> (nat \<Rightarrow> u32) \<Rightarrow> nat list \<Rightarrow> u32 \<Rightarrow> (nat \<times> u32) list \<times> nat list \<times> u32" where
  "serve opt want [] bs = ([], [], bs)"
| "serve opt want (t # ts) bs =
     (if satisfied (opt t) (want t) bs
      then (let (served, rest, bs') = serve opt want ts (if clears (opt t) then bs AND NOT (want t AND bs) else bs)
            in ((t, want t AND bs) # served, rest, bs'))
      else (let (served, rest, bs') = serve opt want ts bs in (served, t # rest, bs')))"

definition below :: "u32 \<Rightarrow> u32 \<Rightarrow> bool" where
  "below a b \<longleftrightarrow> a AND b = a"

lemma below_bits: "below a b \<longleftrightarrow> (\<forall>n. bit a n \<longrightarrow> bit b n)"
proof
  assume "below a b"
  then have "bit (a AND b) n = bit a n" for n
    by (simp add: below_def)
  then show "\<forall>n. bit a n \<longrightarrow> bit b n"
    by (auto simp: bit_and_iff)
next
  assume "\<forall>n. bit a n \<longrightarrow> bit b n"
  then show "below a b"
    unfolding below_def by (intro bit_word_eqI) (auto simp: bit_and_iff)
qed

lemma below_refl [simp]: "below a a"
  by (simp add: below_def)

lemma below_trans: "below a b \<Longrightarrow> below b c \<Longrightarrow> below a c"
  by (simp add: below_bits)

lemma below_and [simp]: "below (a AND b) a"
  by (simp add: below_bits bit_simps)

lemma satisfied_mono: "below a b \<Longrightarrow> satisfied opt want a \<Longrightarrow> satisfied opt want b"
proof -
  assume ab: "below a b" and s: "satisfied opt want a"
  have "want AND a \<noteq> 0 \<Longrightarrow> want AND b \<noteq> 0"
  proof -
    assume "want AND a \<noteq> 0"
    then obtain n where "bit (want AND a) n"
      by (auto simp: bit_eq_iff)
    then have "bit (want AND b) n"
      using ab by (auto simp: below_bits bit_and_iff)
    then show ?thesis
      by auto
  qed
  moreover have "want AND a = want \<Longrightarrow> want AND b = want"
    using ab below_trans [of want a b] by (simp add: below_def)
  ultimately show ?thesis
    using s by (auto simp: satisfied_def split: if_splits)
qed

lemma serve_below: "serve opt want ts bs = (served, rest, bs') \<Longrightarrow> below bs' bs"
proof (induction ts arbitrary: bs served rest)
  case Nil
  then show ?case by simp
next
  case (Cons t ts)
  then show ?case
    by (auto simp: Let_def split: if_splits prod.splits dest: below_trans [OF _ below_and])
qed

lemma serve_rest: "serve opt want ts bs = (served, rest, bs') \<Longrightarrow> t \<in> set rest \<Longrightarrow> \<not> satisfied (opt t) (want t) bs'"
proof (induction ts arbitrary: bs served rest)
  case Nil
  then show ?case by simp
next
  case (Cons u ts)
  show ?case
  proof (cases "satisfied (opt u) (want u) bs")
    case True
    then show ?thesis
      using Cons by (auto simp: Let_def split: prod.splits)
  next
    case False
    obtain d r b where *: "serve opt want ts bs = (d, r, b)"
      by (cases "serve opt want ts bs")
    have "\<not> satisfied (opt u) (want u) b"
      using False satisfied_mono [OF serve_below [OF *]] by blast
    then show ?thesis
      using Cons * False by auto
  qed
qed

lemma serve_sets: "serve opt want ts bs = (served, rest, bs') \<Longrightarrow> set ts = fst ` set served \<union> set rest"
proof (induction ts arbitrary: bs served rest bs')
  case Nil
  then show ?case by simp
next
  case (Cons u ts)
  let ?bs = "if satisfied (opt u) (want u) bs \<and> clears (opt u) then bs AND NOT (want u AND bs) else bs"
  obtain d r b where *: "serve opt want ts ?bs = (d, r, b)"
    by (cases "serve opt want ts ?bs")
  have "set ts = fst ` set d \<union> set r"
    by (rule Cons.IH [OF *])
  then show ?case
    using Cons.prems * by (auto split: if_splits)
qed

text \<open>Without clearing, the served threads are those whose condition holds.\<close>

lemma serve_no_clear:
  "\<forall>t \<in> set ts. \<not> clears (opt t) \<Longrightarrow> serve opt want ts bs =
    (map (\<lambda>t. (t, want t AND bs)) (filter (\<lambda>t. satisfied (opt t) (want t) bs) ts),
     filter (\<lambda>t. \<not> satisfied (opt t) (want t) bs) ts, bs)"
  by (induction ts) simp_all

lemma serve_cong:
  "(\<And>t. t \<in> set ts \<Longrightarrow> opt t = opt' t) \<Longrightarrow> (\<And>t. t \<in> set ts \<Longrightarrow> want t = want' t) \<Longrightarrow>
    serve opt want ts bs = serve opt' want' ts bs"
  by (induction ts arbitrary: bs) simp_all

section \<open>The walk refines the specification\<close>

definition event_opt :: "isys \<Rightarrow> nat \<Rightarrow> u8" where
  "event_opt s t = event_info (thr s t)"

definition event_want :: "isys \<Rightarrow> nat \<Rightarrow> u32" where
  "event_want s t = event_set (thr s t)"

text \<open>One thread of the walk whose condition holds.\<close>

lemma walk_step:
  assumes ok: "sched_ok (world s)" and t: "t \<in> set (wlist s (Event_waiters i))"
    and sat: "satisfied (event_opt s t) (event_want s t) (event_bits (ev s i))"
  obtains s' where "event_walk i (t # ts) need s = event_walk i ts True s'" "sched_ok (world s')"
    "thr s' = (thr s)(t := thr s t\<lparr>event_set := event_want s t AND event_bits (ev s i), stat := RT_THREAD_READY\<rparr>)"
    "wlist s' (Event_waiters i) = removeAll t (wlist s (Event_waiters i))"
    "event_bits (ev s' i) = (if clears (event_opt s t) then event_bits (ev s i) AND NOT (event_want s t AND event_bits (ev s i))
       else event_bits (ev s i))" "event_flag (ev s' i) = event_flag (ev s i)"
proof -
  let ?w = "event_want s t" and ?b = "event_bits (ev s i)"
  obtain s1 where s1: "s1 = (if event_opt s t AND RT_EVENT_FLAG_AND \<noteq> 0 then s
    else on_kernel (upd_thread t (\<lambda>x. x\<lparr>event_set := event_set x AND ?b\<rparr>)) s)"
    by blast
  have f1: "thr s1 = (thr s)(t := thr s t\<lparr>event_set := ?w AND ?b\<rparr>)" "wlist s1 = wlist s"
    "objects (world s1) = objects (world s)"
    using sat by (auto simp: s1 satisfied_def event_want_def kernel_simps fun_eq_iff)
  have ok1: "sched_ok (world s1)"
    using ok by (auto simp: s1 on_kernel_simps intro!: sched_ok_upd)
  obtain s2 where s2: "s2 = (if clears (event_opt s t)
    then upd_event i (\<lambda>e. e\<lparr>event_bits := event_bits e AND NOT (event_set (thr s1 t))\<rparr>) s1 else s1)"
    by blast
  have f2: "thr s2 = thr s1" "wlist s2 = wlist s" "sched_ok (world s2)" "event_flag (ev s2 i) = event_flag (ev s i)"
    "event_bits (ev s2 i) = (if clears (event_opt s t) then ?b AND NOT (?w AND ?b) else ?b)"
    using ok1 by (simp_all add: s2 kernel_simps f1)
  have st: "stat (thr s2 t) = RT_THREAD_SUSPEND"
    using sched_okD(9) [OF ok event_head t] by (simp add: f2 f1)
  obtain s' where s': "rt_thread_resume t s2 = Some (RT_EOK, s')" "sched_ok (world s')"
    "thread_of (world s') = (thread_of (world s2))(t := thr s2 t\<lparr>stat := RT_THREAD_READY\<rparr>)"
    "wlist s' = (\<lambda>h. removeAll t (wlist s2 h))(Priority (prio (world s2) t) := wlist s2 (Priority (prio (world s2) t)) @ [t])"
    "objects (world s') = objects (world s2)"
    by (rule resume_thread [OF f2(3) st]) blast
  have info: "event_info (thr s1 t) = event_opt s t"
    by (simp add: f1 event_opt_def)
  have run: "event_walk i (t # ts) need s = event_walk i ts True s'"
    using s'(1) sat info
    by (auto simp: Let_def satisfied_def clears_def event_opt_def event_want_def s1 s2 split: if_splits)
  show thesis
    by (rule that [OF run s'(2)]) (simp_all add: s'(3,4,5) f1 f2)
qed


lemma walk_skip:
  "\<not> satisfied (event_opt s t) (event_want s t) (event_bits (ev s i)) \<Longrightarrow> event_walk i (t # ts) need s = event_walk i ts need s"
  by (auto simp: Let_def satisfied_def event_opt_def event_want_def)

text \<open>A served thread is ready and has its bits.\<close>

definition after_serve :: "(nat \<times> u32) list \<Rightarrow> (nat \<Rightarrow> rt_thread) \<Rightarrow> nat \<Rightarrow> rt_thread" where
  "after_serve served th t = (case map_of served t of None \<Rightarrow> th t
     | Some r \<Rightarrow> th t\<lparr>event_set := r, stat := RT_THREAD_READY\<rparr>)"

lemma walk_ok:
  assumes "sched_ok (world s)" "distinct ts" "set ts \<subseteq> set (wlist s (Event_waiters i))"
    and "serve (event_opt s) (event_want s) ts (event_bits (ev s i)) = (served, rest, bs')"
  shows "\<exists>s'. event_walk i ts need s = Some (need \<or> served \<noteq> [], s') \<and> sched_ok (world s') \<and> event_bits (ev s' i) = bs'
    \<and> wlist s' (Event_waiters i) = filter (\<lambda>t. t \<notin> fst ` set served) (wlist s (Event_waiters i))
    \<and> thr s' = after_serve served (thr s) \<and> event_flag (ev s' i) = event_flag (ev s i)"
  using assms
proof (induction ts arbitrary: s need served rest bs')
  case Nil
  then show ?case
    by (simp add: after_serve_def fun_eq_iff)
next
  case (Cons t ts)
  let ?b = "event_bits (ev s i)"
  have t: "t \<notin> set ts" "t \<in> set (wlist s (Event_waiters i))" "distinct ts" "set ts \<subseteq> set (wlist s (Event_waiters i))"
    using Cons.prems(2,3) by auto
  show ?case
  proof (cases "satisfied (event_opt s t) (event_want s t) ?b")
    case False
    obtain r where *: "serve (event_opt s) (event_want s) ts ?b = (served, r, bs')"
      using Cons.prems(4) False by (auto split: prod.splits)
    show ?thesis
      using Cons.IH [OF Cons.prems(1) t(3,4) *, of need] unfolding walk_skip [OF False] .
  next
    case True
    obtain s1 where s1: "event_walk i (t # ts) need s = event_walk i ts True s1" "sched_ok (world s1)"
      "thr s1 = (thr s)(t := thr s t\<lparr>event_set := event_want s t AND ?b, stat := RT_THREAD_READY\<rparr>)"
      "wlist s1 (Event_waiters i) = removeAll t (wlist s (Event_waiters i))"
      "event_bits (ev s1 i) = (if clears (event_opt s t) then ?b AND NOT (event_want s t AND ?b) else ?b)"
      "event_flag (ev s1 i) = event_flag (ev s i)"
      by (rule walk_step [OF Cons.prems(1) t(2) True, of ts need]) blast
    obtain d r b where *: "serve (event_opt s) (event_want s) ts (event_bits (ev s1 i)) = (d, r, b)"
      by (cases "serve (event_opt s) (event_want s) ts (event_bits (ev s1 i))")
    have same: "serve (event_opt s1) (event_want s1) ts (event_bits (ev s1 i)) = (d, r, b)"
      unfolding * [symmetric] using t(1) by (intro serve_cong) (auto simp: event_opt_def event_want_def s1(3))
    have d: "served = (t, event_want s t AND ?b) # d" "bs' = b"
      using Cons.prems(4) True * by (auto simp: s1(5))
    have td: "t \<notin> fst ` set d" "set ts \<subseteq> set (wlist s1 (Event_waiters i))"
      using serve_sets [OF *] t by (auto simp: s1(4))
    obtain s' where s': "event_walk i ts True s1 = Some (True, s')" "sched_ok (world s')" "event_bits (ev s' i) = b"
      "wlist s' (Event_waiters i) = filter (\<lambda>t. t \<notin> fst ` set d) (wlist s1 (Event_waiters i))"
      "thr s' = after_serve d (thr s1)" "event_flag (ev s' i) = event_flag (ev s1 i)"
      using Cons.IH [OF s1(2) t(3) td(2) same, of True] by auto
    have "map_of d t = None"
      using td(1) by (simp add: map_of_eq_None_iff)
    then have "thr s' = after_serve served (thr s)"
      by (auto simp: s'(5) d(1) after_serve_def s1(3) fun_eq_iff split: option.splits)
    moreover have "filter (\<lambda>x. x \<notin> fst ` set d) (removeAll t xs) = filter (\<lambda>x. x \<notin> fst ` set served) xs" for xs
      by (induction xs) (auto simp: d(1))
    ultimately show ?thesis
      using s' s1(1,4,6) d by simp
  qed
qed

lemma event_send_ok:
  assumes ok: "sched_ok (world s)" and set: "set_bits \<noteq> 0"
    and serve: "serve (event_opt s) (event_want s) (wlist s (Event_waiters i)) (event_bits (ev s i) OR set_bits) = (served, rest, bs')"
  obtains s' where "rt_event_send i set_bits s = Some (RT_EOK, s')" "sched_ok (world s')" "event_bits (ev s' i) = bs'"
    "wlist s' (Event_waiters i) = filter (\<lambda>t. t \<notin> fst ` set served) (wlist s (Event_waiters i))"
    "thr s' = after_serve served (thr s)" "event_flag (ev s' i) = event_flag (ev s i)"
    "served \<noteq> [] \<Longrightarrow> rt_scheduler_lock_nest (world s') = 0 \<Longrightarrow> runs_highest (world s')"
proof -
  let ?s0 = "upd_event i (\<lambda>e. e\<lparr>event_bits := event_bits e OR set_bits\<rparr>) s"
  have ok0: "sched_ok (world ?s0)"
    using ok by (simp add: kernel_simps)
  have l0: "wlist ?s0 (Event_waiters i) = wlist s (Event_waiters i)" "thr ?s0 = thr s" "event_flag (ev ?s0 i) = event_flag (ev s i)"
    by (simp_all add: kernel_simps)
  have sv0: "serve (event_opt ?s0) (event_want ?s0) (wlist ?s0 (Event_waiters i)) (event_bits (ev ?s0 i)) = (served, rest, bs')"
    unfolding serve [symmetric] l0 by (auto simp: event_opt_def event_want_def kernel_simps intro!: serve_cong)
  obtain s1 where s1: "event_walk i (wlist ?s0 (Event_waiters i)) False ?s0 = Some (served \<noteq> [], s1)" "sched_ok (world s1)"
    "event_bits (ev s1 i) = bs'" "wlist s1 (Event_waiters i) = filter (\<lambda>t. t \<notin> fst ` set served) (wlist s (Event_waiters i))"
    "thr s1 = after_serve served (thr s)" "event_flag (ev s1 i) = event_flag (ev s i)"
    using walk_ok [OF ok0 sched_okD(1) [OF ok0] subset_refl sv0, of False] unfolding l0 by auto
  show thesis
  proof (cases "served = []")
    case True
    then have "rt_event_send i set_bits s = Some (RT_EOK, s1)"
      using set s1(1) by (simp add: rt_event_send_def)
    then show thesis
      using that s1 True by blast
  next
    case False
    then obtain t r d where "served = (t, r) # d"
      by (cases served) auto
    then have ready: "stat (thr s1 t) = RT_THREAD_READY"
      by (simp add: s1(5) after_serve_def)
    obtain k' where k': "rt_schedule (world s1) = Some k'"
      by (rule schedule_returns [OF s1(2) ready])
    note fr = schedule_frame [OF k']
    have run: "rt_event_send i set_bits s = Some (RT_EOK, s1\<lparr>world := k'\<rparr>)"
      using set s1(1) False k' by (simp add: rt_event_send_def try_kernel_def)
    have "runs_highest k'" if "rt_scheduler_lock_nest k' = 0"
      unfolding runs_highest_def using schedule_picks_highest_aux [OF s1(2) ready] that k' fr(5) by auto
    then show thesis
      using that [OF run] s1 by (simp add: fr)
  qed
qed


definition legal_opt :: "u8 \<Rightarrow> bool" where
  "legal_opt opt \<longleftrightarrow> opt AND RT_EVENT_FLAG_AND \<noteq> 0 \<or> opt AND RT_EVENT_FLAG_OR \<noteq> 0"

lemma recv_status:
  "legal_opt opt \<Longrightarrow> (if opt AND RT_EVENT_FLAG_AND \<noteq> 0 then bs AND want = want else bs AND want \<noteq> 0) = satisfied opt want bs"
  by (auto simp: legal_opt_def satisfied_def ac_simps)

lemma event_recv_cases:
  assumes t: "rt_current_thread (world s) = Some t" and w: "want \<noteq> 0" "legal_opt opt"
  shows "rt_event_recv i want opt timeout s =
    (if satisfied opt want (event_bits (ev s i))
     then Some (Returns RT_EOK, Some (event_bits (ev s i) AND want),
       if clears opt then upd_event i (\<lambda>e. e\<lparr>event_bits := event_bits e AND NOT want\<rparr>) (clear_error t s) else clear_error t s)
     else if timeout = 0
     then Some (Returns RT_ETIMEOUT, None, on_kernel (upd_thread t (\<lambda>x. x\<lparr>error := RT_ETIMEOUT\<rparr>)) (clear_error t s))
     else do {
       s \<leftarrow> wait_in (Event_waiters i) t (event_flag (ev s i)) timeout
         (on_kernel (upd_thread t (\<lambda>x. x\<lparr>event_set := want, event_info := opt\<rparr>)) (clear_error t s));
       if rt_current_thread (world s) \<noteq> Some t then Some (Waits, None, s)
       else if error (thr s t) \<noteq> RT_EOK then Some (Returns (error (thr s t)), None, s)
       else Some (Returns RT_EOK, Some (event_set (thr s t)), s)
     })"
proof -
  have c: "event_bits (ev (clear_error t s) i) = event_bits (ev s i)"
    "event_flag (ev (on_kernel (upd_thread t f) (clear_error t s)) i) = event_flag (ev s i)" for f
    by (simp_all add: kernel_simps)
  have a: "c_assert (opt AND RT_EVENT_FLAG_AND \<noteq> 0 \<or> opt AND RT_EVENT_FLAG_OR \<noteq> 0) = Some ()"
    using w(2) unfolding legal_opt_def c_assert_def by (rule if_P)
  show ?thesis
    unfolding rt_event_recv_def Let_def c a recv_status [OF w(2)] t clears_def [symmetric] using w(1) by (simp add: c)
qed

lemma update_order: "x\<lparr>error := e, event_set := a, event_info := b\<rparr> = x\<lparr>event_set := a, event_info := b, error := e\<rparr>"
  by (cases x) simp

lemma event_recv_waits:
  assumes ok: "sched_ok (world s)" and t: "in_thread t u s"
    and w: "want \<noteq> 0" "legal_opt opt" "\<not> satisfied opt want (event_bits (ev s i))"
    and time: "timeout \<noteq> 0" "legal_time timeout" and fl: "legal_flag (event_flag (ev s i))"
  obtains s' where "rt_event_recv i want opt timeout s = Some (Waits, None, s')" "sched_ok (world s')"
    "thr s' = (thr s)(t := thr s t\<lparr>error := RT_EOK, event_set := want, event_info := opt, stat := RT_THREAD_SUSPEND\<rparr>)"
    "wlist s' (Event_waiters i) = joined (event_flag (ev s i)) t (wlist s (Event_waiters i)) s" "ev s' i = ev s i"
    "runs_highest (world s')"
proof -
  obtain s1 where s1: "s1 = on_kernel (upd_thread t (\<lambda>x. x\<lparr>event_set := want, event_info := opt\<rparr>)) s"
    by blast
  have comm: "on_kernel (upd_thread t (\<lambda>x. x\<lparr>event_set := want, event_info := opt\<rparr>)) (clear_error t s) = clear_error t s1"
    by (simp add: s1 clear_error_def on_kernel_def upd_thread_def update_order)
  have f1: "thr s1 = (thr s)(t := thr s t\<lparr>event_set := want, event_info := opt\<rparr>)" "wlist s1 = wlist s" "objects (world s1) = objects (world s)"
    by (simp_all add: s1 kernel_simps)
  have ok1: "sched_ok (world s1)"
    unfolding s1 on_kernel_simps by (rule sched_ok_upd [OF ok]) simp_all
  have t1: "in_thread t u s1"
    using t by (simp add: in_thread_def f1 s1 kernel_simps)
  obtain s' where s': "wait_in (Event_waiters i) t (event_flag (ev s i)) timeout (clear_error t s1) = Some s'" "sched_ok (world s')"
    "thr s' = (thr s1)(t := thr s1 t\<lparr>error := RT_EOK, stat := RT_THREAD_SUSPEND\<rparr>)"
    "wlist s' (Event_waiters i) = joined (event_flag (ev s i)) t (wlist s1 (Event_waiters i)) s1"
    "objects (world s') = objects (world s1)" "rt_current_thread (world s') \<noteq> Some t" "runs_highest (world s')"
    by (rule blocks [OF ok1 t1 event_head time(2) fl]) blast
  have "(\<lambda>u. current_priority (thr s1 u)) = (\<lambda>u. current_priority (thr s u))"
    by (auto simp: f1 fun_eq_iff)
  then have j: "joined fl t ts s1 = joined fl t ts s" for fl ts
    by (simp add: joined_def)
  have c: "rt_current_thread (world s) = Some t"
    using t by (simp add: in_thread_def)
  have run: "rt_event_recv i want opt timeout s = Some (Waits, None, s')"
    unfolding event_recv_cases [OF c w(1,2)] comm using w(3) time(1) s'(1,6) by simp
  show thesis
    by (rule that [OF run]) (use s' in \<open>simp_all add: f1 j fun_eq_iff\<close>)
qed

section \<open>Histories of an event\<close>

inductive event_run :: "nat \<Rightarrow> isys \<Rightarrow> bool" for i where
  set_up: "sched_ok (world s) \<Longrightarrow> legal_flag fl \<Longrightarrow> wlist s (Event_waiters i) = []
    \<Longrightarrow> rt_event_init i fl s = (e, s') \<Longrightarrow> event_run i s'"
| send: "event_run i s \<Longrightarrow> rt_event_send i set_bits s = Some (e, s') \<Longrightarrow> event_run i s'"
| recv: "event_run i s \<Longrightarrow> in_thread t u s \<Longrightarrow> legal_time timeout \<Longrightarrow> rt_event_recv i want opt timeout s = Some (r, v, s')
    \<Longrightarrow> event_run i s'"
| elsewhere: "event_run i s \<Longrightarrow> sched_ok (world s') \<Longrightarrow> ev s' i = ev s i
    \<Longrightarrow> set (wlist s' (Event_waiters i)) \<subseteq> set (wlist s (Event_waiters i))
    \<Longrightarrow> (\<And>t. t \<in> set (wlist s (Event_waiters i)) \<Longrightarrow> event_opt s' t = event_opt s t \<and> event_want s' t = event_want s t)
    \<Longrightarrow> event_run i s'"

definition event_inv :: "nat \<Rightarrow> isys \<Rightarrow> bool" where
  "event_inv i s \<longleftrightarrow> sched_ok (world s) \<and> legal_flag (event_flag (ev s i))
     \<and> (\<forall>t \<in> set (wlist s (Event_waiters i)). \<not> satisfied (event_opt s t) (event_want s t) (event_bits (ev s i)))"

lemma event_invD:
  assumes "event_inv i s"
  shows "sched_ok (world s)" "legal_flag (event_flag (ev s i))"
    "t \<in> set (wlist s (Event_waiters i)) \<Longrightarrow> \<not> satisfied (event_opt s t) (event_want s t) (event_bits (ev s i))"
  using assms by (auto simp: event_inv_def)

lemma event_send_inv:
  assumes inv: "event_inv i s" and run: "rt_event_send i set_bits s = Some (e, s')"
  shows "event_inv i s'"
proof (cases "set_bits = 0")
  case True
  then show ?thesis
    using run inv by (auto simp: rt_event_send_def)
next
  case False
  note D = event_invD [OF inv]
  obtain served rest bs' where sv: "serve (event_opt s) (event_want s) (wlist s (Event_waiters i)) (event_bits (ev s i) OR set_bits)
      = (served, rest, bs')"
    by (cases "serve (event_opt s) (event_want s) (wlist s (Event_waiters i)) (event_bits (ev s i) OR set_bits)")
  obtain s1 where s1: "rt_event_send i set_bits s = Some (RT_EOK, s1)" "sched_ok (world s1)" "event_bits (ev s1 i) = bs'"
    "wlist s1 (Event_waiters i) = filter (\<lambda>t. t \<notin> fst ` set served) (wlist s (Event_waiters i))"
    "thr s1 = after_serve served (thr s)" "event_flag (ev s1 i) = event_flag (ev s i)"
    by (rule event_send_ok [OF D(1) False sv]) blast
  have "\<not> satisfied (event_opt s1 t) (event_want s1 t) bs'" if "t \<in> set (wlist s1 (Event_waiters i))" for t
  proof -
    have t: "t \<in> set (wlist s (Event_waiters i))" "t \<notin> fst ` set served"
      using that by (auto simp: s1(4))
    then have "map_of served t = None"
      by (simp add: map_of_eq_None_iff)
    then have "event_opt s1 t = event_opt s t" "event_want s1 t = event_want s t"
      by (simp_all add: event_opt_def event_want_def s1(5) after_serve_def)
    moreover have "t \<in> set rest"
      using serve_sets [OF sv] t by auto
    ultimately show ?thesis
      using serve_rest [OF sv] by simp
  qed
  then show ?thesis
    using run s1 D(2) by (simp add: event_inv_def)
qed

lemma event_recv_inv:
  assumes inv: "event_inv i s" and t: "in_thread t u s" and time: "legal_time timeout"
    and run: "rt_event_recv i want opt timeout s = Some (r, v, s')"
  shows "event_inv i s'"
proof (cases "want = 0")
  case True
  then show ?thesis
    using run inv by (auto simp: rt_event_recv_def)
next
  case False
  note D = event_invD [OF inv]
  have legal: "legal_opt opt"
    using run False t by (auto simp: rt_event_recv_def in_thread_def legal_opt_def c_assert_def split: if_splits)
  have cur: "rt_current_thread (world s) = Some t"
    using t by (simp add: in_thread_def)
  have out: "t \<notin> set (wlist s (Event_waiters i))"
    using sched_okD(9) [OF D(1) event_head, of t i] t by (auto simp: in_thread_def)
  have ok0: "sched_ok (world (clear_error t s))"
    by (rule clear_error_ok [OF D(1)])
  consider (now) "satisfied opt want (event_bits (ev s i))" | (poll) "\<not> satisfied opt want (event_bits (ev s i))" "timeout = 0"
    | (wait) "\<not> satisfied opt want (event_bits (ev s i))" "timeout \<noteq> 0"
    by blast
  then show ?thesis
  proof cases
    case now
    have "\<not> satisfied (event_opt s x) (event_want s x) (event_bits (ev s i) AND NOT want)" if "x \<in> set (wlist s (Event_waiters i))" for x
      using D(3) [OF that] satisfied_mono [OF below_and] by blast
    moreover have "s' = (if clears opt then upd_event i (\<lambda>e. e\<lparr>event_bits := event_bits e AND NOT want\<rparr>) (clear_error t s)
        else clear_error t s)"
      using run now unfolding event_recv_cases [OF cur False legal] by simp
    ultimately show ?thesis
      using D ok0 by (auto simp: event_inv_def kernel_simps event_opt_def event_want_def)
  next
    case poll
    have "sched_ok (world (on_kernel (upd_thread t (\<lambda>x. x\<lparr>error := RT_ETIMEOUT\<rparr>)) (clear_error t s)))"
      unfolding on_kernel_simps by (rule sched_ok_upd [OF ok0]) simp_all
    moreover have "s' = on_kernel (upd_thread t (\<lambda>x. x\<lparr>error := RT_ETIMEOUT\<rparr>)) (clear_error t s)"
      using run poll unfolding event_recv_cases [OF cur False legal] by simp
    ultimately show ?thesis
      using D by (auto simp: event_inv_def kernel_simps event_opt_def event_want_def)
  next
    case wait
    obtain s1 where s1: "rt_event_recv i want opt timeout s = Some (Waits, None, s1)" "sched_ok (world s1)"
      "thr s1 = (thr s)(t := thr s t\<lparr>error := RT_EOK, event_set := want, event_info := opt, stat := RT_THREAD_SUSPEND\<rparr>)"
      "wlist s1 (Event_waiters i) = joined (event_flag (ev s i)) t (wlist s (Event_waiters i)) s" "ev s1 i = ev s i"
      by (rule event_recv_waits [OF D(1) t False legal wait time D(2)]) blast
    then show ?thesis
      using run D out wait(1) by (auto simp: event_inv_def event_opt_def event_want_def)
  qed
qed

lemma event_run_inv: "event_run i s \<Longrightarrow> event_inv i s"
proof (induction rule: event_run.induct)
  case (set_up s fl e s')
  then show ?case
    by (auto simp: event_inv_def rt_event_init_def kernel_simps set_list_nothing)
next
  case (send s set_bits e s')
  then show ?case
    using event_send_inv by blast
next
  case (recv s t u timeout want opt r v s')
  then show ?case
    using event_recv_inv by blast
next
  case (elsewhere s s')
  then show ?case
    by (auto simp: event_inv_def)
qed


text \<open>
  C34. No event is missed: in every history of an event the set bits never satisfy the condition of
  a thread that waits, and every waiting thread is suspended.
\<close>

theorem event_never_missed:
  assumes "event_run i s" "t \<in> set (wlist s (Event_waiters i))"
  shows "\<not> satisfied (event_opt s t) (event_want s t) (event_bits (ev s i)) \<and> stat (thr s t) = RT_THREAD_SUSPEND"
  using event_invD(1,3) [OF event_run_inv [OF assms(1)]] sched_okD(9) [OF _ event_head] assms(2) by blast

text \<open>
  C14. A send implements its specification, the list program \<open>serve\<close>: the waiting threads are served
  in their order, each one whose condition holds gets the bits it asked for and is ready, those
  that clear take their bits away from the ones behind, the others wait on, and the most urgent
  ready thread runs when the scheduler is not locked.
\<close>

theorem event_send_serves:
  assumes "event_run i s" "set_bits \<noteq> 0"
    and "serve (event_opt s) (event_want s) (wlist s (Event_waiters i)) (event_bits (ev s i) OR set_bits) = (served, rest, bs')"
  shows "\<exists>s'. rt_event_send i set_bits s = Some (RT_EOK, s') \<and> event_bits (ev s' i) = bs'
    \<and> wlist s' (Event_waiters i) = filter (\<lambda>t. t \<notin> fst ` set served) (wlist s (Event_waiters i))
    \<and> thr s' = after_serve served (thr s) \<and> event_run i s'
    \<and> (served \<noteq> [] \<longrightarrow> rt_scheduler_lock_nest (world s') = 0 \<longrightarrow> runs_highest (world s'))"
proof -
  obtain s' where s': "rt_event_send i set_bits s = Some (RT_EOK, s')" "sched_ok (world s')" "event_bits (ev s' i) = bs'"
    "wlist s' (Event_waiters i) = filter (\<lambda>t. t \<notin> fst ` set served) (wlist s (Event_waiters i))"
    "thr s' = after_serve served (thr s)" "event_flag (ev s' i) = event_flag (ev s i)"
    "served \<noteq> [] \<Longrightarrow> rt_scheduler_lock_nest (world s') = 0 \<Longrightarrow> runs_highest (world s')"
    by (rule event_send_ok [OF event_invD(1) [OF event_run_inv [OF assms(1)]] assms(2,3)]) blast
  then show ?thesis
    using event_run.send [OF assms(1) s'(1)] by blast
qed

text \<open>
  A thread that waits for an event gets it: with no other thread waiting, the send that makes
  its condition true readies it, and its call returns \<open>RT_EOK\<close> with those of the bits it asked for
  that are set.
\<close>

theorem event_hands_over:
  assumes run: "event_run i s" and t: "in_thread t u s" and w: "wlist s (Event_waiters i) = []"
    and want: "want \<noteq> 0" "legal_opt opt" "\<not> satisfied opt want (event_bits (ev s i))"
    and time: "timeout \<noteq> 0" "legal_time timeout"
    and send: "set_bits \<noteq> 0" "satisfied opt want (event_bits (ev s i) OR set_bits)"
  shows "\<exists>s1 s2. rt_event_recv i want opt timeout s = Some (Waits, None, s1) \<and> stat (thr s1 t) = RT_THREAD_SUSPEND
    \<and> rt_event_send i set_bits s1 = Some (RT_EOK, s2) \<and> stat (thr s2 t) = RT_THREAD_READY
    \<and> rt_event_received t s2 = (RT_EOK, Some (want AND (event_bits (ev s i) OR set_bits)))
    \<and> (clears opt \<longrightarrow> \<not> satisfied opt want (event_bits (ev s2 i)))"
proof -
  let ?b = "event_bits (ev s i) OR set_bits"
  note D = event_invD [OF event_run_inv [OF run]]
  obtain s1 where s1: "rt_event_recv i want opt timeout s = Some (Waits, None, s1)" "sched_ok (world s1)"
    "thr s1 = (thr s)(t := thr s t\<lparr>error := RT_EOK, event_set := want, event_info := opt, stat := RT_THREAD_SUSPEND\<rparr>)"
    "wlist s1 (Event_waiters i) = joined (event_flag (ev s i)) t (wlist s (Event_waiters i)) s" "ev s1 i = ev s i"
    by (rule event_recv_waits [OF D(1) t want time D(2)]) blast
  have l1: "wlist s1 (Event_waiters i) = [t]"
    by (simp add: s1(4) w joined_def)
  have sv: "serve (event_opt s1) (event_want s1) (wlist s1 (Event_waiters i)) (event_bits (ev s1 i) OR set_bits)
      = ([(t, want AND ?b)], [], if clears opt then ?b AND NOT (want AND ?b) else ?b)"
    using send(2) by (simp add: l1 event_opt_def event_want_def s1(3,5))
  obtain s2 where s2: "rt_event_send i set_bits s1 = Some (RT_EOK, s2)"
    "event_bits (ev s2 i) = (if clears opt then ?b AND NOT (want AND ?b) else ?b)"
    "thr s2 = after_serve [(t, want AND ?b)] (thr s1)"
    by (rule event_send_ok [OF s1(2) send(1) sv]) blast
  have "want AND (?b AND NOT (want AND ?b)) = 0"
    by (rule bit_word_eqI) (auto simp: bit_simps)
  then have "\<not> satisfied opt want (?b AND NOT (want AND ?b))"
    using want(1) by (simp add: satisfied_def)
  then show ?thesis
    using s1(1,3) s2 by (intro exI [of _ s1] exI [of _ s2]) (simp add: rt_event_received_def after_serve_def)
qed

section \<open>Examples\<close>

definition demo_event :: isys where
  "demo_event = snd (rt_event_init 0 RT_IPC_FLAG_FIFO (demo_sys 0))"

lemma demo_event_facts:
  "event_run 0 demo_event" "in_thread 0 2 demo_event" "wlist demo_event (Event_waiters 0) = []" "event_bits (ev demo_event 0) = 0"
proof -
  show "event_run 0 demo_event"
    by (rule event_run.set_up [of "demo_sys 0" RT_IPC_FLAG_FIFO 0 RT_EOK]) (simp_all add: demo_event_def rt_event_init_def)
  show "in_thread 0 2 demo_event"
    using demo_sys_simps(2) [of 0] by (simp add: demo_event_def rt_event_init_def in_thread_def kernel_simps)
qed (simp_all add: demo_event_def rt_event_init_def kernel_simps)

lemma event_hands_over_witness:
  "\<exists>s1 s2. rt_event_recv 0 3 RT_EVENT_FLAG_OR 5 demo_event = Some (Waits, None, s1) \<and> rt_event_send 0 2 s1 = Some (RT_EOK, s2)
    \<and> rt_event_received 0 s2 = (RT_EOK, Some 2)"
proof -
  have "legal_time 5"
    by (simp add: legal_time_def RT_TICK_MAX_def)
  moreover have "legal_opt RT_EVENT_FLAG_OR" "\<not> satisfied RT_EVENT_FLAG_OR 3 (0 :: u32)" "satisfied RT_EVENT_FLAG_OR 3 (0 OR (2 :: u32))"
    by (simp_all add: legal_opt_def satisfied_def RT_EVENT_FLAG_AND_def RT_EVENT_FLAG_OR_def)
  ultimately show ?thesis
    using event_hands_over [OF demo_event_facts(1-3), of 3 RT_EVENT_FLAG_OR 5 2] demo_event_facts(4) by fastforce
qed

lemma event_send_serves_witness: "\<exists>s'. rt_event_send 0 6 demo_event = Some (RT_EOK, s') \<and> event_bits (ev s' 0) = 6"
  using event_send_serves [OF demo_event_facts(1), of 6 "[]" "[]" 6] demo_event_facts(3,4) by auto

lemma event_never_missed_witness:
  "\<exists>s1. rt_event_recv 0 3 RT_EVENT_FLAG_OR 5 demo_event = Some (Waits, None, s1) \<and> event_run 0 s1
    \<and> stat (thr s1 0) = RT_THREAD_SUSPEND"
proof -
  have legal: "legal_time 5"
    by (simp add: legal_time_def RT_TICK_MAX_def)
  have opt: "legal_opt RT_EVENT_FLAG_OR" "\<not> satisfied RT_EVENT_FLAG_OR 3 (event_bits (ev demo_event 0))"
    by (simp_all add: legal_opt_def satisfied_def RT_EVENT_FLAG_AND_def RT_EVENT_FLAG_OR_def demo_event_facts(4))
  note D = event_invD [OF event_run_inv [OF demo_event_facts(1)]]
  obtain s1 where s1: "rt_event_recv 0 3 RT_EVENT_FLAG_OR 5 demo_event = Some (Waits, None, s1)"
    "wlist s1 (Event_waiters 0) = joined (event_flag (ev demo_event 0)) 0 (wlist demo_event (Event_waiters 0)) demo_event"
    by (rule event_recv_waits [OF D(1) demo_event_facts(2) _ opt _ legal D(2)]) auto
  have "event_run 0 s1"
    by (rule event_run.recv [OF demo_event_facts(1,2) legal s1(1)])
  then show ?thesis
    using event_never_missed [of 0 s1 0] s1 by auto
qed

end
