(* ===== verification/Kernel_Wait.thy ===== *)
theory Kernel_Wait
  imports Kernel_Sem
begin

text \<open>
  Time limits: the threads of \<open>Kernel_Thread\<close> over the timers and the tick of \<open>Kernel_Timer\<close>.

  The timer of a suspended thread calls \<open>rt_thread_timeout\<close>. In a tick all due timers do so one
  after the other, inside the loop of \<open>rt_timer_check\<close>; the theory shows what a tick does to the
  threads, and that a thread that sleeps or waits with a limit of \<open>n\<close> ticks is woken by the
  \<open>n\<close>-th tick and not before.
\<close>

section \<open>The invariant\<close>

definition waits_ok :: "'o sys \<Rightarrow> bool" where
  "waits_ok s \<longleftrightarrow> timers_ok s \<and> sched_ok (world s)
     \<and> (\<forall>t \<in> set (rt_timer_list s). stat (thr s t) = RT_THREAD_SUSPEND \<and> \<not> has RT_TIMER_FLAG_PERIODIC t s)"

text \<open>What the function of a thread's timer does to the kernel when it returns.\<close>

definition wake :: "nat \<Rightarrow> u32 \<Rightarrow> 'o kernel \<Rightarrow> 'o kernel" where
  "wake t n k = (case thread_timeout t k of None \<Rightarrow> k | Some k' \<Rightarrow> k')"

lemma wake_ok:
  assumes "sched_ok k" "stat (thread_of k t) = RT_THREAD_SUSPEND"
  shows "sched_ok (wake t n k)"
    "thread_of (wake t n k) = (thread_of k)(t := thread_of k t\<lparr>stat := RT_THREAD_READY, error := RT_ETIMEOUT\<rparr>)"
    "waiters_head h \<Longrightarrow> list_at (wake t n k) h = removeAll t (list_at k h)" "objects (wake t n k) = objects k"
    "rt_scheduler_lock_nest (wake t n k) = rt_scheduler_lock_nest k" "thread_timeout t k = Some (wake t n k)"
proof -
  obtain k' where "thread_timeout t k = Some k'" "sched_ok k'"
    "thread_of k' = (thread_of k)(t := thread_of k t\<lparr>stat := RT_THREAD_READY, error := RT_ETIMEOUT\<rparr>)"
    "\<And>h. waiters_head h \<Longrightarrow> list_at k' h = removeAll t (list_at k h)" "objects k' = objects k"
    "rt_scheduler_lock_nest k' = rt_scheduler_lock_nest k"
    by (rule thread_timeout_ok [OF assms]) blast
  then show "sched_ok (wake t n k)"
    "thread_of (wake t n k) = (thread_of k)(t := thread_of k t\<lparr>stat := RT_THREAD_READY, error := RT_ETIMEOUT\<rparr>)"
    "waiters_head h \<Longrightarrow> list_at (wake t n k) h = removeAll t (list_at k h)" "objects (wake t n k) = objects k"
    "rt_scheduler_lock_nest (wake t n k) = rt_scheduler_lock_nest k" "thread_timeout t k = Some (wake t n k)"
    by (simp_all add: wake_def)
qed

lemma wake_all:
  assumes "sched_ok k" "distinct ts" "\<forall>t \<in> set ts. stat (thread_of k t) = RT_THREAD_SUSPEND"
  shows "sched_ok (fold (\<lambda>t. wake t n) ts k)
    \<and> thread_of (fold (\<lambda>t. wake t n) ts k) = (\<lambda>t. if t \<in> set ts
        then thread_of k t\<lparr>stat := RT_THREAD_READY, error := RT_ETIMEOUT\<rparr> else thread_of k t)
    \<and> (\<forall>h. waiters_head h \<longrightarrow> list_at (fold (\<lambda>t. wake t n) ts k) h = filter (\<lambda>t. t \<notin> set ts) (list_at k h))
    \<and> objects (fold (\<lambda>t. wake t n) ts k) = objects k
    \<and> rt_scheduler_lock_nest (fold (\<lambda>t. wake t n) ts k) = rt_scheduler_lock_nest k"
  using assms
proof (induction ts arbitrary: k)
  case Nil
  then show ?case by simp
next
  case (Cons t ts)
  have t: "stat (thread_of k t) = RT_THREAD_SUSPEND" "t \<notin> set ts" "distinct ts"
    using Cons.prems(2,3) by auto
  note w = wake_ok [OF Cons.prems(1) t(1), where n = n]
  have "\<forall>u \<in> set ts. stat (thread_of (wake t n k) u) = RT_THREAD_SUSPEND"
    using Cons.prems(3) t(2) by (auto simp: w(2))
  note ih = Cons.IH [OF w(1) t(3) this]
  have "filter (\<lambda>u. u \<notin> set ts) (removeAll t xs) = filter (\<lambda>u. u \<notin> set (t # ts)) xs" for xs
    by (induction xs) auto
  then show ?case
    using ih t(2) by (auto simp: w(2-5) fun_eq_iff)
qed

section \<open>A tick\<close>

lemma loop_quiet:
  assumes "ordered b s" "rt_tick s = b + 1" "sched_ok (world s)"
    and "\<forall>t \<in> set (rt_timer_list s). stat (thr s t) = RT_THREAD_SUSPEND \<and> \<not> has RT_TIMER_FLAG_PERIODIC t s"
  shows "timer_check_loop rt_thread_timeout (rt_tick s) s = timer_check_loop (quiet wake) (rt_tick s) s"
  using assms
proof (induction "due b s" arbitrary: s)
  case Nil
  then show ?case
    using check_loop_step [OF Nil(2,3), of "quiet wake"] check_loop_step [OF Nil(2,3), of rt_thread_timeout]
    by (simp add: Nil(1) [symmetric])
next
  case (Cons t ds)
  from Cons(2) obtain ts where l: "rt_timer_list s = t # ts" "off b s t \<le> 1"
    by (cases "rt_timer_list s") (auto simp: due_def split: if_splits)
  have t: "stat (thr s t) = RT_THREAD_SUSPEND" "\<not> has RT_TIMER_FLAG_PERIODIC t s" "t \<notin> set ts"
    using Cons(3,6) l(1) by (auto simp: ordered_def)
  obtain s1 where s1: "expire (quiet wake) t s = Some s1" "ordered b s1" "rt_tick s1 = rt_tick s"
    "world s1 = wake t (rt_tick s) (world s)"
    "rt_timer_list s1 = (if has RT_TIMER_FLAG_PERIODIC t s then insert_timer (timeouts s1) t ts else ts)"
    "has RT_TIMER_FLAG_PERIODIC t s \<Longrightarrow> off b s1 t = Suc (unat (init_tick (timer_of s t)))"
    "\<And>u. u \<noteq> t \<Longrightarrow> timer_of s1 u = timer_of s u"
    "\<And>u. has RT_TIMER_FLAG_PERIODIC u s1 = has RT_TIMER_FLAG_PERIODIC u s"
    by (rule expire_step [OF Cons(3,4) l(1), of wake]) blast
  note w = wake_ok [OF Cons(5) t(1), where n = "rt_tick s"]
  have call: "rt_thread_timeout t (rt_timer_remove t s) = quiet wake t (rt_timer_remove t s)"
    using w(6) by (simp add: rt_thread_timeout_def try_kernel_def quiet_def)
  have e: "expire rt_thread_timeout t s = Some s1"
    using s1(1) by (simp add: expire_def call)
  have due: "due b s = t # due b s1"
    by (rule expire_due [OF Cons(3,4) l s1(2,5-7)])
  then have ds: "ds = due b s1"
    using Cons(2) by simp
  have susp: "\<forall>u \<in> set (rt_timer_list s1). stat (thr s1 u) = RT_THREAD_SUSPEND \<and> \<not> has RT_TIMER_FLAG_PERIODIC u s1"
    using Cons(6) l(1) t(2,3) s1(5,8) by (auto simp: s1(4) w(2))
  have "timer_check_loop rt_thread_timeout (rt_tick s1) s1 = timer_check_loop (quiet wake) (rt_tick s1) s1"
    by (rule Cons(1) [OF ds s1(2) _ _ susp]) (simp_all add: s1(3,4) Cons(4) wake_ok(1) [OF Cons(5) t(1)])
  then show ?case
    using check_loop_step [OF Cons(3,4), of "quiet wake"] check_loop_step [OF Cons(3,4), of rt_thread_timeout] due s1(1) e
    by simp
qed

text \<open>The threads whose timers are due are woken, the others are left alone.\<close>

definition expires :: "nat \<Rightarrow> 'o sys \<Rightarrow> bool" where
  "expires t s \<longleftrightarrow> t \<in> set (rt_timer_list s) \<and> off (rt_tick s) s t \<le> 1"

lemma tick_threads:
  assumes ok: "waits_ok s"
  obtains s' where "rt_tick_increase rt_thread_timeout s = Some s'" "waits_ok s'" "rt_tick s' = rt_tick s + 1"
    "thr s' = (\<lambda>t. if expires t s then thr s t\<lparr>stat := RT_THREAD_READY, error := RT_ETIMEOUT\<rparr> else thr s t)"
    "\<And>h. waiters_head h \<Longrightarrow> wlist s' h = filter (\<lambda>t. \<not> expires t s) (wlist s h)" "objects (world s') = objects (world s)"
    "\<And>t. t \<in> set (rt_timer_list s') \<longleftrightarrow> t \<in> set (rt_timer_list s) \<and> \<not> expires t s"
    "\<And>t. t \<in> set (rt_timer_list s') \<Longrightarrow> off (rt_tick s') s' t = off (rt_tick s) s t - 1"
    "rt_scheduler_lock_nest (world s') = rt_scheduler_lock_nest (world s)"
proof -
  let ?b = "rt_tick s"
  have o: "timers_ok s" "sched_ok (world s)" "ordered ?b s"
    "\<forall>t \<in> set (rt_timer_list s). stat (thr s t) = RT_THREAD_SUSPEND \<and> \<not> has RT_TIMER_FLAG_PERIODIC t s"
    using ok by (simp_all add: waits_ok_def timers_ok_def)
  let ?c = "s\<lparr>rt_tick := ?b + 1, remaining_tick := remaining_tick s - 1\<rparr>"
  let ?s1 = "if remaining_tick ?c = 0
    then ?c\<lparr>remaining_tick := thread_init_tick ?c, yields_done := yields_done ?c + 1\<rparr> else ?c"
  have run: "rt_tick_increase call s = timer_check_loop call (rt_tick ?s1) ?s1" for call
    by (simp add: rt_tick_increase_def rt_timer_check_def Let_def)
  obtain s1 where s1: "\<And>call. rt_tick_increase call s = timer_check_loop call (rt_tick s1) s1" "timer_of s1 = timer_of s"
    "rt_timer_list s1 = rt_timer_list s" "rt_soft_timer_list s1 = rt_soft_timer_list s" "world s1 = world s" "rt_tick s1 = ?b + 1"
    using that [of ?s1] run by simp
  have same: "off b s1 = off b s" "has fl t s1 = has fl t s" for b fl t
    by (simp_all add: off_def has_def s1 fun_eq_iff)
  have "ordered ?b s1"
    using o(3) by (simp add: ordered_def same s1)
  then have eq: "rt_tick_increase rt_thread_timeout s = rt_tick_increase (quiet wake) s"
    unfolding s1(1) by (rule loop_quiet) (use o(2,4) in \<open>simp_all add: s1 same\<close>)
  obtain s' where s': "rt_tick_increase (quiet wake) s = Some s'" "timers_ok s'" "rt_tick s' = ?b + 1"
    "world s' = fold (\<lambda>t. wake t (?b + 1)) (due ?b s) (world s)"
    "set (rt_timer_list s') = {t \<in> set (rt_timer_list s). t \<in> set (due ?b s) \<longrightarrow> has RT_TIMER_FLAG_PERIODIC t s}"
    "\<And>t. t \<notin> set (due ?b s) \<Longrightarrow> timer_of s' t = timer_of s t"
    "\<And>t. has RT_TIMER_FLAG_PERIODIC t s' = has RT_TIMER_FLAG_PERIODIC t s"
    by (rule tick_step [OF o(1), of wake]) blast
  have d: "t \<in> set (due ?b s) \<longleftrightarrow> expires t s" for t
    using in_due [OF o(3), of t] due_distinct(2) [of ?b s] by (auto simp: expires_def)
  have "\<forall>t \<in> set (due ?b s). stat (thr s t) = RT_THREAD_SUSPEND"
    using o(4) by (auto simp: d expires_def)
  from wake_all [OF o(2) due_distinct(1) [OF o(3)] this, of "?b + 1"]
  have w: "sched_ok (world s')" "objects (world s') = objects (world s)"
    "thr s' = (\<lambda>t. if expires t s then thr s t\<lparr>stat := RT_THREAD_READY, error := RT_ETIMEOUT\<rparr> else thr s t)"
    "\<And>h. waiters_head h \<Longrightarrow> wlist s' h = filter (\<lambda>t. \<not> expires t s) (wlist s h)"
    "rt_scheduler_lock_nest (world s') = rt_scheduler_lock_nest (world s)"
    by (simp_all add: s'(4) d)
  have l: "t \<in> set (rt_timer_list s') \<longleftrightarrow> t \<in> set (rt_timer_list s) \<and> \<not> expires t s" for t
    using o(4) by (auto simp: s'(5) d)
  have wo: "waits_ok s'"
    using s'(2) w(1) o(4) by (auto simp: waits_ok_def l w(3) s'(7))
  have later: "off (rt_tick s') s' t = off ?b s t - 1" if "t \<in> set (rt_timer_list s')" for t
  proof -
    have t: "\<not> expires t s" "t \<in> set (rt_timer_list s)"
      using that by (simp_all add: l)
    then have "off ?b s' t = off ?b s t" "0 < off ?b s t"
      using s'(6) [of t] by (simp_all add: d off_def expires_def)
    then show ?thesis
      using off_next [of ?b s' t] by (simp add: s'(3))
  qed
  show thesis
    by (rule that [of s']) (use eq s'(1,3) wo w l later in auto)
qed


text \<open>Ticks until the limit of a thread and beyond.\<close>

lemma ticks_wake:
  assumes ok: "waits_ok s" and t: "t \<in> set (rt_timer_list s)" "off (rt_tick s) s t = n" "0 < n"
  shows "\<exists>s2. ticks rt_thread_timeout k s = Some s2 \<and> waits_ok s2 \<and> rt_tick s2 = rt_tick s + of_nat k
    \<and> objects (world s2) = objects (world s)
    \<and> (\<forall>h. waiters_head h \<longrightarrow> (t \<in> set (wlist s2 h) \<longleftrightarrow> k < n \<and> t \<in> set (wlist s h)))
    \<and> (t \<in> set (rt_timer_list s2) \<longleftrightarrow> k < n) \<and> (k < n \<longrightarrow> off (rt_tick s2) s2 t = n - k)
    \<and> thr s2 t = (if k < n then thr s t else thr s t\<lparr>stat := RT_THREAD_READY, error := RT_ETIMEOUT\<rparr>)"
proof (induction k)
  case 0
  then show ?case
    using assms by simp
next
  case (Suc k)
  then obtain s2 where s2: "ticks rt_thread_timeout k s = Some s2" "waits_ok s2" "rt_tick s2 = rt_tick s + of_nat k"
    "objects (world s2) = objects (world s)"
    "\<And>h. waiters_head h \<Longrightarrow> (t \<in> set (wlist s2 h) \<longleftrightarrow> k < n \<and> t \<in> set (wlist s h))"
    "t \<in> set (rt_timer_list s2) \<longleftrightarrow> k < n" "k < n \<Longrightarrow> off (rt_tick s2) s2 t = n - k"
    "thr s2 t = (if k < n then thr s t else thr s t\<lparr>stat := RT_THREAD_READY, error := RT_ETIMEOUT\<rparr>)"
    by blast
  obtain s3 where s3: "rt_tick_increase rt_thread_timeout s2 = Some s3" "waits_ok s3" "rt_tick s3 = rt_tick s2 + 1"
    "thr s3 = (\<lambda>t. if expires t s2 then thr s2 t\<lparr>stat := RT_THREAD_READY, error := RT_ETIMEOUT\<rparr> else thr s2 t)"
    "\<And>h. waiters_head h \<Longrightarrow> wlist s3 h = filter (\<lambda>t. \<not> expires t s2) (wlist s2 h)" "objects (world s3) = objects (world s2)"
    "\<And>t. t \<in> set (rt_timer_list s3) \<longleftrightarrow> t \<in> set (rt_timer_list s2) \<and> \<not> expires t s2"
    "\<And>t. t \<in> set (rt_timer_list s3) \<Longrightarrow> off (rt_tick s3) s3 t = off (rt_tick s2) s2 t - 1"
    by (rule tick_threads [OF s2(2)]) blast
  have e: "expires t s2 \<longleftrightarrow> Suc k = n"
    using s2(6,7) by (auto simp: expires_def)
  have st: "stat (thr s t) = RT_THREAD_SUSPEND"
    using ok t(1) by (simp add: waits_ok_def)
  show ?case
    by (rule exI [of _ s3])
      (use s2 s3 e in \<open>auto simp: e not_less_eq less_Suc_eq\<close>)
qed

section \<open>The beginning of a wait\<close>

lemma ready_not_listed: "waits_ok s \<Longrightarrow> stat (thr s t) = RT_THREAD_READY \<Longrightarrow> t \<notin> set (rt_timer_list s)"
  by (auto simp: waits_ok_def)

lemma has_world [simp]: "has fl t (s\<lparr>world := w\<rparr>) = has fl t s"
  by (simp add: has_def)

lemma timers_ok_world [simp]: "timers_ok (s\<lparr>world := w\<rparr>) = timers_ok s"
  by (simp add: timers_ok_def ordered_def off_def)

lemma suspend_timers:
  assumes "timers_ok s" "t \<notin> set (rt_timer_list s)" "\<not> has RT_TIMER_FLAG_SOFT_TIMER t s"
    and "rt_thread_suspend t s = Some (e, s1)"
  shows "timers_ok s1" "rt_timer_list s1 = rt_timer_list s" "rt_tick s1 = rt_tick s"
    "has RT_TIMER_FLAG_PERIODIC u s1 = has RT_TIMER_FLAG_PERIODIC u s" "has RT_TIMER_FLAG_SOFT_TIMER u s1 = has RT_TIMER_FLAG_SOFT_TIMER u s"
proof -
  have "s1 = s \<or> (\<exists>w. s1 = snd (rt_timer_stop t (s\<lparr>world := w\<rparr>)))"
    using assms(4) by (auto simp: rt_thread_suspend_def try_kernel_def on_kernel_def Option.bind_eq_Some_conv split: if_splits)
  then show "timers_ok s1" "rt_timer_list s1 = rt_timer_list s" "rt_tick s1 = rt_tick s"
    "has RT_TIMER_FLAG_PERIODIC u s1 = has RT_TIMER_FLAG_PERIODIC u s" "has RT_TIMER_FLAG_SOFT_TIMER u s1 = has RT_TIMER_FLAG_SOFT_TIMER u s"
  proof (atomize (full), elim disjE exE, goal_cases)
    case 1
    then show ?case
      using assms(1) by simp
  next
    case (2 w)
    let ?s = "s\<lparr>world := w\<rparr>"
    have "timers_ok s1"
      using stopped(1) [of ?s t "fst (rt_timer_stop t ?s)" s1] assms(1,3) 2 by simp
    then show ?case
      using assms(2) 2 by (auto simp: rt_timer_stop_def clear_active_def has_def)
  qed
qed

lemma start_timers:
  assumes ok: "timers_ok s" "t \<notin> set (rt_timer_list s)" "\<not> has RT_TIMER_FLAG_SOFT_TIMER t s"
    and n: "n = unat time" "0 < n" "n < half" and run: "start_thread_timer t time s = Some s'"
  shows "timers_ok s'" "set (rt_timer_list s') = insert t (set (rt_timer_list s))" "off (rt_tick s') s' t = n"
    "rt_tick s' = rt_tick s" "has RT_TIMER_FLAG_PERIODIC u s' = has RT_TIMER_FLAG_PERIODIC u s"
proof -
  let ?s = "change t (\<lambda>x. x\<lparr>init_tick := time\<rparr>) s"
  have c: "snd (snd (rt_timer_control t RT_TIMER_CTRL_SET_TIME time s)) = ?s"
    by (simp add: rt_timer_control_def RT_TIMER_CTRL_SET_TIME_def RT_TIMER_CTRL_GET_TIME_def)
  have off: "off b ?s u = off b s u" for b u
    by (simp add: off_def)
  have has: "has fl u ?s = has fl u s" for fl u
    by (simp add: has_def)
  have "sorted_wrt (\<lambda>x y. off b ?s x \<le> off b ?s y) xs = sorted_wrt (\<lambda>x y. off b s x \<le> off b s y) xs" for b xs
    by (simp add: off)
  then have "timers_ok ?s"
    using ok(1,2) by (auto simp: timers_ok_def ordered_def off has)
  moreover have "unat (init_tick (timer_of ?s t)) = n"
    by (simp add: n(1))
  moreover obtain r where r: "rt_timer_start t ?s = Some (r, s')"
    using run c by (auto simp: start_thread_timer_def split_beta Option.bind_eq_Some_conv)
  ultimately obtain s'' where s'': "rt_timer_start t ?s = Some (RT_EOK, s'')" "timers_ok s''" "t \<in> set (rt_timer_list s'')"
    "off (rt_tick s'') s'' t = n" "rt_tick s'' = rt_tick ?s"
    using started [of ?s t n] ok(3) n(2,3) by (metis has)
  have same: "s'' = s'"
    using r s''(1) by simp
  show "timers_ok s'" "off (rt_tick s') s' t = n" "rt_tick s' = rt_tick s"
    using s'' by (simp_all add: same)
  have soft: "t \<notin> set (rt_soft_timer_list ?s)"
    using ok(1,3) by (auto simp: timers_ok_def ordered_def)
  obtain s3 where s3: "rt_timer_start t ?s = Some (RT_EOK, s3)"
    "timer_of s3 = (timer_of ?s)(t := timer_of ?s t
       \<lparr>flag := (flag (timer_of ?s t) AND NOT RT_TIMER_FLAG_ACTIVATED) OR RT_TIMER_FLAG_ACTIVATED,
         timeout_tick := rt_tick ?s + init_tick (timer_of ?s t)\<rparr>)"
    "rt_timer_list s3 = insert_timer (timeouts s3) t (removeAll t (rt_timer_list ?s))"
    by (rule start_fields [of t ?s]) (use ok(3) n(1,3) soft has in simp_all)
  have "s3 = s'"
    using r s3(1) by simp
  then show "set (rt_timer_list s') = insert t (set (rt_timer_list s))" "has RT_TIMER_FLAG_PERIODIC u s' = has RT_TIMER_FLAG_PERIODIC u s"
    using s3(2,3) ok(2) by (auto simp: has_def)
qed

text \<open>A thread that has been suspended and its timer started.\<close>

lemma begin_wait:
  assumes ok: "waits_ok s" and t: "stat (thr s t) = RT_THREAD_READY" "\<not> has RT_TIMER_FLAG_SOFT_TIMER t s" "\<not> has RT_TIMER_FLAG_PERIODIC t s"
    and n: "n = unat time" "0 < n" "n < half"
    and run: "rt_thread_suspend t s = Some (e, s1)" "start_thread_timer t time (s1\<lparr>world := w\<rparr>) = Some s2"
    and w: "sched_ok k" "thread_of k = (thread_of (world s))(t := thr s t\<lparr>stat := RT_THREAD_SUSPEND, error := er\<rparr>)"
  shows "waits_ok (s2\<lparr>world := k\<rparr>)" "t \<in> set (rt_timer_list s2)" "off (rt_tick s2) s2 t = n" "rt_tick s2 = rt_tick s"
proof -
  have listed: "t \<notin> set (rt_timer_list s)"
    using ready_not_listed [OF ok t(1)] .
  have tok: "timers_ok s"
    using ok by (simp add: waits_ok_def)
  note s1 = suspend_timers [OF tok listed t(2) run(1)]
  have "timers_ok (s1\<lparr>world := w\<rparr>)" "t \<notin> set (rt_timer_list (s1\<lparr>world := w\<rparr>))" "\<not> has RT_TIMER_FLAG_SOFT_TIMER t (s1\<lparr>world := w\<rparr>)"
    using s1 t(2) listed by simp_all
  note s2 = start_timers [OF this n run(2)]
  show "t \<in> set (rt_timer_list s2)" "off (rt_tick s2) s2 t = n" "rt_tick s2 = rt_tick s"
    using s2 s1(3) by simp_all
  show "waits_ok (s2\<lparr>world := k\<rparr>)"
    using s2 w ok t(3) s1(2,4) by (auto simp: waits_ok_def)
qed

lemma waits_ok_error: "waits_ok s \<Longrightarrow> waits_ok (clear_error t s)"
  using clear_error_ok [of "{}" s t]
  by (auto simp: waits_ok_def kernel_simps) (simp_all add: clear_error_def on_kernel_def)

lemma time_bound: "legal_time time \<Longrightarrow> 0 < sint time \<Longrightarrow> 0 < unat time \<and> unat time < half"
  by (auto simp: legal_time_def RT_TICK_MAX_half word_less_nat_alt half_def unat_gt_0)

text \<open>A wait at an IPC object with a limit of \<open>unat time\<close> ticks.\<close>

lemma timed_wait:
  assumes ok: "waits_ok s" and t: "in_thread t u s" "\<not> has RT_TIMER_FLAG_SOFT_TIMER t s" "\<not> has RT_TIMER_FLAG_PERIODIC t s"
    and h: "waiters_head h" and fl: "legal_flag fl" and time: "legal_time time" "0 < sint time"
  obtains s' where "wait_in h t fl time (clear_error t s) = Some s'" "waits_ok s'"
    "thr s' = (thr s)(t := thr s t\<lparr>error := RT_EOK, stat := RT_THREAD_SUSPEND\<rparr>)" "t \<in> set (wlist s' h)"
    "objects (world s') = objects (world s)" "rt_current_thread (world s') \<noteq> Some t"
    "t \<in> set (rt_timer_list s')" "off (rt_tick s') s' t = unat time" "rt_tick s' = rt_tick s"
proof -
  let ?s0 = "clear_error t s"
  have "sched_ok (world s)"
    using ok by (simp add: waits_ok_def)
  from blocks [OF this t(1) h time(1) fl] obtain s' where s': "wait_in h t fl time ?s0 = Some s'" "sched_ok (world s')"
    "thr s' = (thr s)(t := thr s t\<lparr>error := RT_EOK, stat := RT_THREAD_SUSPEND\<rparr>)"
    "wlist s' h = joined fl t (wlist s h) s" "objects (world s') = objects (world s)" "rt_current_thread (world s') \<noteq> Some t"
    by blast
  obtain e s1 where s1: "rt_thread_suspend t ?s0 = Some (e, s1)"
    using s'(1) by (auto simp: wait_in_def rt_ipc_list_suspend_def Option.bind_eq_Some_conv)
  have "\<exists>w. rt_ipc_list_suspend h t fl ?s0 = Some (s1\<lparr>world := w\<rparr>)"
    using fl s1 unfolding rt_ipc_list_suspend_def legal_flag_def on_kernel_def RT_IPC_FLAG_FIFO_def RT_IPC_FLAG_PRIO_def
    by (elim disjE) (simp_all add: Let_def, blast+)
  then obtain s2 w where susp: "rt_ipc_list_suspend h t fl ?s0 = Some s2" and w: "s2 = s1\<lparr>world := w\<rparr>"
    by blast
  obtain s3 where s3: "start_thread_timer t time s2 = Some s3" "try_kernel rt_schedule s3 = Some s'"
    using s'(1) time(2) by (auto simp: wait_in_def susp Option.bind_eq_Some_conv)
  have flags: "\<not> has RT_TIMER_FLAG_SOFT_TIMER t ?s0" "\<not> has RT_TIMER_FLAG_PERIODIC t ?s0"
    using t(2,3) by (simp_all add: clear_error_def on_kernel_def)
  have ready: "stat (thr ?s0 t) = RT_THREAD_READY"
    using t(1) by (simp add: in_thread_def kernel_simps)
  have thr: "thr s' = (thr ?s0)(t := thr ?s0 t\<lparr>stat := RT_THREAD_SUSPEND, error := RT_EOK\<rparr>)"
    by (simp add: s'(3) kernel_simps fun_eq_iff)
  have tb: "0 < unat time" "unat time < half"
    using time_bound [OF time] by simp_all
  note b = begin_wait [OF waits_ok_error [OF ok] ready flags refl tb s1 s3(1) [unfolded w] s'(2) thr]
  have eq: "s' = s3\<lparr>world := world s'\<rparr>"
    using s3(2) by (auto simp: try_kernel_def Option.bind_eq_Some_conv)
  have "rt_timer_list s' = rt_timer_list s3" "rt_tick s' = rt_tick s3" "off (rt_tick s') s' t = off (rt_tick s3) s3 t"
    by (subst eq, simp add: off_def)+
  moreover have "rt_tick ?s0 = rt_tick s"
    by (simp add: clear_error_def on_kernel_def)
  moreover have "waits_ok s'"
    using b(1) eq by simp
  ultimately show thesis
    using that [of s'] s' b by simp
qed

lemma timed_sleep:
  assumes ok: "waits_ok s" and t: "in_thread t u s" "\<not> has RT_TIMER_FLAG_SOFT_TIMER t s" "\<not> has RT_TIMER_FLAG_PERIODIC t s"
    and n: "0 < unat time" "unat time < half"
  obtains s' where "rt_thread_sleep time s = Some s'" "waits_ok s'"
    "thr s' = (thr s)(t := thr s t\<lparr>stat := RT_THREAD_SUSPEND\<rparr>)" "rt_current_thread (world s') \<noteq> Some t"
    "t \<in> set (rt_timer_list s')" "off (rt_tick s') s' t = unat time" "rt_tick s' = rt_tick s"
proof -
  have sched: "sched_ok (world s)"
    using ok by (simp add: waits_ok_def)
  have st: "rt_current_thread (world s) = Some t" "stat (thr s t) = RT_THREAD_READY" "stat (thr s u) = RT_THREAD_READY" "u \<noteq> t"
    "rt_scheduler_lock_nest (world s) = 0"
    using t(1) by (auto simp: in_thread_def)
  obtain s1 where s1: "rt_thread_suspend t s = Some (RT_EOK, s1)" "sched_ok_on {t} (world s1)"
    "thr s1 = (thr s)(t := thr s t\<lparr>stat := RT_THREAD_SUSPEND\<rparr>)"
    "rt_scheduler_lock_nest (world s1) = rt_scheduler_lock_nest (world s)"
    using suspend_thread [OF sched st(2)] by metis
  have t1: "stat (thr s1 t) = RT_THREAD_SUSPEND" "prio_ok (thr s1 t)"
    using sched_okD(7) [OF sched, of t] st(2) by (simp_all add: s1(3) prio_ok_def)
  have ok1: "sched_ok (world s1)"
    by (rule sched_but_outside [OF s1(2)]) (simp_all add: t1)
  have "time < RT_TICK_MAX div 2"
    using n by (simp add: RT_TICK_MAX_half word_less_nat_alt half_def)
  from start_thread_timer_returns [OF this] obtain s2 where s2: "start_thread_timer t time s1 = Some s2" "world s2 = world s1"
    by blast
  have "stat (thr s2 u) = RT_THREAD_READY" "sched_ok (world s2)" "rt_scheduler_lock_nest (world s2) = 0"
    using st ok1 by (simp_all add: s2(2) s1(3,4))
  from schedule_picks_highest_aux [OF this(2,1,3)]
  obtain k' v where k': "rt_schedule (world s2) = Some k'" "rt_current_thread k' = Some v" "sched_ok k'"
    "stat (thread_of k' v) = RT_THREAD_READY"
    by blast
  note fr = schedule_frame [OF k'(1)]
  have thr: "thread_of k' = (thr s)(t := thr s t\<lparr>stat := RT_THREAD_SUSPEND\<rparr>)"
    by (simp add: fr s2(2) s1(3))
  then have thr': "thread_of k' = (thr s)(t := thr s t\<lparr>stat := RT_THREAD_SUSPEND, error := error (thr s t)\<rparr>)"
    by simp
  have "s1\<lparr>world := world s1\<rparr> = s1"
    by simp
  then have run: "start_thread_timer t time (s1\<lparr>world := world s1\<rparr>) = Some s2"
    using s2(1) by simp
  note b = begin_wait [OF ok st(2) t(2,3) refl n s1(1) run k'(3) thr']
  have "v \<noteq> t"
    using k'(4) by (auto simp: thr)
  moreover have "rt_thread_sleep time s = Some (s2\<lparr>world := k'\<rparr>)"
    by (simp add: rt_thread_sleep_def st(1) s1(1) s2(1) try_kernel_def k'(1))
  moreover have "off b (s2\<lparr>world := k'\<rparr>) t = off b s2 t" for b
    by (simp add: off_def)
  ultimately show thesis
    using that [of "s2\<lparr>world := k'\<rparr>"] b thr k'(2) by simp
qed

section \<open>Limits are kept\<close>

text \<open>
  C13. A take of an empty semaphore with a limit of n ticks: after fewer than n ticks the thread is
  still suspended in the waiting list; from the n-th tick on it is ready, it has left the list,
  and its call returns \<open>RT_ETIMEOUT\<close> without a token.
\<close>

theorem sem_wait_times_out:
  assumes "waits_ok s" "in_thread t u s" "\<not> has RT_TIMER_FLAG_SOFT_TIMER t s" "\<not> has RT_TIMER_FLAG_PERIODIC t s"
    and "sem_value (sem s i) = 0" "legal_flag (sem_flag (sem s i))" "legal_time time" "0 < sint time"
  shows "\<exists>s1. rt_sem_take i time s = Some (Waits, s1)
    \<and> (\<forall>k. \<exists>s2. ticks rt_thread_timeout k s1 = Some s2 \<and> sched_ok (world s2) \<and> sem_value (sem s2 i) = 0
        \<and> (if k < unat time then stat (thr s2 t) = RT_THREAD_SUSPEND \<and> t \<in> set (wlist s2 (Sem_waiters i))
           else stat (thr s2 t) = RT_THREAD_READY \<and> t \<notin> set (wlist s2 (Sem_waiters i)) \<and> rt_sem_taken t s2 = RT_ETIMEOUT))"
proof -
  obtain s1 where s1: "wait_in (Sem_waiters i) t (sem_flag (sem s i)) time (clear_error t s) = Some s1" "waits_ok s1"
    "thr s1 = (thr s)(t := thr s t\<lparr>error := RT_EOK, stat := RT_THREAD_SUSPEND\<rparr>)" "t \<in> set (wlist s1 (Sem_waiters i))"
    "objects (world s1) = objects (world s)" "rt_current_thread (world s1) \<noteq> Some t"
    "t \<in> set (rt_timer_list s1)" "off (rt_tick s1) s1 t = unat time"
    by (rule timed_wait [OF assms(1-4) sem_head assms(6-8)]) blast
  have "time \<noteq> 0"
    using assms(8) by auto
  then have take: "rt_sem_take i time s = Some (Waits, s1)"
    using assms(2,5) s1(1,6) by (simp add: rt_sem_take_def in_thread_def after_wait_def)
  have pos: "0 < unat time"
    using time_bound [OF assms(7,8)] by simp
  have "\<exists>s2. ticks rt_thread_timeout k s1 = Some s2 \<and> sched_ok (world s2) \<and> sem_value (sem s2 i) = 0
        \<and> (if k < unat time then stat (thr s2 t) = RT_THREAD_SUSPEND \<and> t \<in> set (wlist s2 (Sem_waiters i))
           else stat (thr s2 t) = RT_THREAD_READY \<and> t \<notin> set (wlist s2 (Sem_waiters i)) \<and> rt_sem_taken t s2 = RT_ETIMEOUT)" for k
  proof -
    obtain s2 where "ticks rt_thread_timeout k s1 = Some s2" "waits_ok s2" "objects (world s2) = objects (world s1)"
      "\<And>h. waiters_head h \<Longrightarrow> (t \<in> set (wlist s2 h) \<longleftrightarrow> k < unat time \<and> t \<in> set (wlist s1 h))"
      "thr s2 t = (if k < unat time then thr s1 t else thr s1 t\<lparr>stat := RT_THREAD_READY, error := RT_ETIMEOUT\<rparr>)"
      using ticks_wake [OF s1(2,7,8) pos, of k] by blast
    then show ?thesis
      using s1(3-5) assms(5) by (intro exI [of _ s2]) (simp add: rt_sem_taken_def waits_ok_def)
  qed
  with take show ?thesis
    by blast
qed

text \<open>
  A thread that sleeps n ticks gives up the processor, is suspended until the n-th tick, which
  makes it ready, and then \<open>rt_thread_sleep\<close> returns \<open>RT_EOK\<close> with the error of the timer cleared.
\<close>

theorem sleep_wakes_on_time:
  assumes "waits_ok s" "in_thread t u s" "\<not> has RT_TIMER_FLAG_SOFT_TIMER t s" "\<not> has RT_TIMER_FLAG_PERIODIC t s"
    and "0 < time" "time < RT_TICK_MAX div 2"
  shows "\<exists>s1. rt_thread_sleep time s = Some s1 \<and> rt_current_thread (world s1) \<noteq> Some t
    \<and> (\<forall>k. \<exists>s2. ticks rt_thread_timeout k s1 = Some s2 \<and> rt_tick s2 = rt_tick s + of_nat k \<and> sched_ok (world s2)
        \<and> stat (thr s2 t) = (if k < unat time then RT_THREAD_SUSPEND else RT_THREAD_READY)
        \<and> (unat time \<le> k \<longrightarrow> fst (rt_thread_slept t (world s2)) = RT_EOK
             \<and> error (thread_of (snd (rt_thread_slept t (world s2))) t) = RT_EOK))"
proof -
  have n: "0 < unat time" "unat time < half"
    using assms(5,6) by (simp_all add: RT_TICK_MAX_half word_less_nat_alt half_def)
  obtain s1 where s1: "rt_thread_sleep time s = Some s1" "waits_ok s1"
    "thr s1 = (thr s)(t := thr s t\<lparr>stat := RT_THREAD_SUSPEND\<rparr>)" "rt_current_thread (world s1) \<noteq> Some t"
    "t \<in> set (rt_timer_list s1)" "off (rt_tick s1) s1 t = unat time" "rt_tick s1 = rt_tick s"
    by (rule timed_sleep [OF assms(1-4) n]) blast
  have "\<exists>s2. ticks rt_thread_timeout k s1 = Some s2 \<and> rt_tick s2 = rt_tick s + of_nat k \<and> sched_ok (world s2)
        \<and> stat (thr s2 t) = (if k < unat time then RT_THREAD_SUSPEND else RT_THREAD_READY)
        \<and> (unat time \<le> k \<longrightarrow> fst (rt_thread_slept t (world s2)) = RT_EOK
             \<and> error (thread_of (snd (rt_thread_slept t (world s2))) t) = RT_EOK)" for k
  proof -
    obtain s2 where "ticks rt_thread_timeout k s1 = Some s2" "waits_ok s2" "rt_tick s2 = rt_tick s1 + of_nat k"
      "thr s2 t = (if k < unat time then thr s1 t else thr s1 t\<lparr>stat := RT_THREAD_READY, error := RT_ETIMEOUT\<rparr>)"
      using ticks_wake [OF s1(2,5,6) n(1), of k] by blast
    then show ?thesis
      using s1(3,7) by (intro exI [of _ s2]) (simp add: rt_thread_slept_def waits_ok_def kernel_simps)
  qed
  with s1(1,4) show ?thesis
    by blast
qed

lemma demo_waits: "waits_ok (demo_sys n)" "\<not> has fl t (demo_sys n)" "rt_tick (demo_sys n) = 0"
  using demo_sys_simps(1) [of n]
  by (simp_all add: waits_ok_def timers_ok_def ordered_def demo_sys_def sys_of_def has_def)

lemma sem_wait_times_out_witness:
  "\<exists>s1 s2 s3. rt_sem_take 0 5 (demo_sys 0) = Some (Waits, s1)
    \<and> ticks rt_thread_timeout 4 s1 = Some s2 \<and> stat (thr s2 0) = RT_THREAD_SUSPEND
    \<and> ticks rt_thread_timeout 5 s1 = Some s3 \<and> stat (thr s3 0) = RT_THREAD_READY \<and> rt_sem_taken 0 s3 = RT_ETIMEOUT"
proof -
  have "legal_time 5" "0 < sint (5 :: u32)"
    by (simp_all add: legal_time_def RT_TICK_MAX_def)
  from sem_wait_times_out [of "demo_sys 0" 0 2 0, OF demo_waits(1) _ demo_waits(2,2) _ _ this]
  obtain s1 where s1: "rt_sem_take 0 5 (demo_sys 0) = Some (Waits, s1)"
    "\<forall>k. \<exists>s2. ticks rt_thread_timeout k s1 = Some s2 \<and> sched_ok (world s2) \<and> sem_value (sem s2 0) = 0
        \<and> (if k < 5 then stat (thr s2 0) = RT_THREAD_SUSPEND \<and> 0 \<in> set (wlist s2 (Sem_waiters 0))
           else stat (thr s2 0) = RT_THREAD_READY \<and> 0 \<notin> set (wlist s2 (Sem_waiters 0)) \<and> rt_sem_taken 0 s2 = RT_ETIMEOUT)"
    by (simp del: not_less) blast
  show ?thesis
    using s1(1) s1(2) [rule_format, of 4] s1(2) [rule_format, of 5] by auto
qed

lemma sleep_wakes_on_time_witness:
  "\<exists>s1 s2 s3. rt_thread_sleep 3 (demo_sys 0) = Some s1
    \<and> ticks rt_thread_timeout 2 s1 = Some s2 \<and> stat (thr s2 0) = RT_THREAD_SUSPEND
    \<and> ticks rt_thread_timeout 3 s1 = Some s3 \<and> stat (thr s3 0) = RT_THREAD_READY"
proof -
  have "(0 :: u32) < 3" "3 < RT_TICK_MAX div 2"
    by (simp_all add: RT_TICK_MAX_def)
  from sleep_wakes_on_time [of "demo_sys 0" 0 2, OF demo_waits(1) _ demo_waits(2,2) this]
  obtain s1 where s1: "rt_thread_sleep 3 (demo_sys 0) = Some s1"
    "\<forall>k. \<exists>s2. ticks rt_thread_timeout k s1 = Some s2
        \<and> stat (thr s2 0) = (if k < unat (3 :: u32) then RT_THREAD_SUSPEND else RT_THREAD_READY)"
    by (simp del: unat_numeral) metis
  show ?thesis
    using s1(1) s1(2) [rule_format, of 2] s1(2) [rule_format, of 3] by auto
qed

end
