(* ===== verification/Fram.thy ===== *)
theory Fram
  imports Prelude
begin

text \<open>
  The configuration memory: the driver \<^verbatim>\<open>components/drivers/i2c/fm24clxx.c\<close> of the serial FRAM
  and \<open>rt_device_read\<close>, \<open>rt_device_write\<close> of \<^verbatim>\<open>src/device.c\<close>, through which it is used.

  The chip is its documented behaviour: a transfer stores or gives bytes from the address on, and
  the address counter wraps at the end of the memory. The bus is a parameter in the state:
  \<open>bus\<close> says for every further transfer whether it succeeds (\<open>None\<close>) or breaks off after some
  bytes; when the list is used up all transfers succeed. \<open>power\<close> is the number of bytes that can
  still be stored before the power fails. What the program does after that reaches no cell, so
  the cells at the end are the ones the next start finds.
\<close>

section \<open>The chip\<close>

record fram =
  cells :: "u8 list"
  bus :: "nat option list"
  power :: nat
  ref_count :: u8

fun chip_write :: "nat \<Rightarrow> 'a list \<Rightarrow> 'a list \<Rightarrow> 'a list" where
  "chip_write a [] cs = cs"
| "chip_write a (b # bs) cs = chip_write (Suc a) bs (cs[a mod length cs := b])"

definition chip_read :: "nat \<Rightarrow> nat \<Rightarrow> 'a list \<Rightarrow> 'a list" where
  "chip_read a n cs = map (\<lambda>i. cs ! (i mod length cs)) [a..<a + n]"

definition store_bytes :: "nat \<Rightarrow> u8 list \<Rightarrow> fram \<Rightarrow> fram" where
  "store_bytes a bs d = d\<lparr>cells := chip_write a (take (power d) bs) (cells d), power := power d - length bs\<rparr>"

text \<open>The bytes of the data message that get through, and whether the transfer succeeds.\<close>

definition i2c_transfer :: "nat \<Rightarrow> fram \<Rightarrow> nat \<times> bool \<times> fram" where
  "i2c_transfer n d = (case bus d of
     [] \<Rightarrow> (n, True, d)
   | None # os \<Rightarrow> (n, True, d\<lparr>bus := os\<rparr>)
   | Some k # os \<Rightarrow> (min k n, False, d\<lparr>bus := os\<rparr>))"

section \<open>The driver\<close>

text \<open>\<open>cfg->size\<close> of \<^verbatim>\<open>fm24cl16_cfg\<close>. Only the low byte of the position is sent.\<close>

definition fm24cl16_size :: nat where "fm24cl16_size = 8 * 256"

definition mem_addr :: "nat \<Rightarrow> nat" where
  "mem_addr pos = unat (of_nat pos :: u8)"

text \<open>The buffer of the caller, before and after.\<close>

definition fm24clxx_read :: "nat \<Rightarrow> u8 list \<Rightarrow> fram \<Rightarrow> nat \<times> u8 list \<times> fram" where
  "fm24clxx_read pos buf d =
     (if pos > fm24cl16_size then (0, buf, d)
      else
        let n = (if pos + length buf > fm24cl16_size then fm24cl16_size - pos else length buf);
            (k, ok, d) = i2c_transfer n d
        in (if ok then n else 0, chip_read (mem_addr pos) k (cells d) @ drop k buf, d))"

definition fm24clxx_write :: "nat \<Rightarrow> u8 list \<Rightarrow> fram \<Rightarrow> nat \<times> fram" where
  "fm24clxx_write pos buf d =
     (if pos > fm24cl16_size then (0, d)
      else
        let n = (if pos + length buf > fm24cl16_size then fm24cl16_size - pos else length buf);
            (k, ok, d) = i2c_transfer n d
        in (if ok then n else 0, store_bytes (mem_addr pos) (take k buf) d))"

definition rt_device_read :: "nat \<Rightarrow> u8 list \<Rightarrow> fram \<Rightarrow> nat \<times> u8 list \<times> fram" where
  "rt_device_read pos buf d = (if ref_count d = 0 then (0, buf, d) else fm24clxx_read pos buf d)"

definition rt_device_write :: "nat \<Rightarrow> u8 list \<Rightarrow> fram \<Rightarrow> nat \<times> fram" where
  "rt_device_write pos buf d = (if ref_count d = 0 then (0, d) else fm24clxx_write pos buf d)"

section \<open>Numbers in memory\<close>

text \<open>The machine is little-endian.\<close>

definition le_bytes :: "nat \<Rightarrow> 'a::len word \<Rightarrow> u8 list" where
  "le_bytes n w = map (\<lambda>i. ucast (drop_bit (8 * i) w)) [0..<n]"

definition le_word :: "u8 list \<Rightarrow> 'a::len word" where
  "le_word bs = foldr (\<lambda>b w. ucast b OR push_bit 8 w) bs 0"

lemma length_le_bytes [simp]: "length (le_bytes n w) = n"
  by (simp add: le_bytes_def)

section \<open>What the driver does\<close>

lemma length_chip_write [simp]: "length (chip_write a bs cs) = length cs"
  by (induction a bs cs rule: chip_write.induct) simp_all

lemma chip_write_splice: "a + length bs \<le> length cs \<Longrightarrow> chip_write a bs cs = splice cs a bs"
proof (induction a bs cs rule: chip_write.induct)
  case (2 a b bs cs)
  then show ?case
    using splice_Cons [of a cs b bs] by simp
qed simp

lemma length_chip_read [simp]: "length (chip_read a n cs) = n"
  by (simp add: chip_read_def)

lemma chip_read_slice: "a + n \<le> length cs \<Longrightarrow> chip_read a n cs = take n (drop a cs)"
  by (rule nth_equalityI) (simp_all add: chip_read_def)

text \<open>A device whose memory has its size and which is open.\<close>

definition fram_ok :: "fram \<Rightarrow> bool" where
  "fram_ok d \<longleftrightarrow> length (cells d) = fm24cl16_size \<and> ref_count d \<noteq> 0"

lemma transfer_frame:
  assumes "i2c_transfer n d = (k, ok, d')"
  shows "cells d' = cells d" "power d' = power d" "ref_count d' = ref_count d" "k \<le> n" "ok \<Longrightarrow> k = n"
    "length (bus d') \<le> length (bus d)" "bus d = [] \<Longrightarrow> ok \<and> d' = d" "\<not> ok \<Longrightarrow> length (bus d') < length (bus d)"
  using assms by (auto simp: i2c_transfer_def split: list.splits option.splits)

lemma read_frame:
  assumes "rt_device_read pos buf d = (n, buf', d')"
  shows "cells d' = cells d" "power d' = power d" "ref_count d' = ref_count d" "bus d = [] \<Longrightarrow> d' = d"
  using assms transfer_frame
  by (auto simp: rt_device_read_def fm24clxx_read_def Let_def split: if_splits prod.splits)

lemma read_length:
  assumes "rt_device_read pos buf d = (n, buf', d')" "pos + length buf \<le> fm24cl16_size"
  shows "length buf' = length buf"
  using assms transfer_frame(4)
  by (fastforce simp: rt_device_read_def fm24clxx_read_def Let_def split: if_splits prod.splits)

lemma read_good:
  assumes "fram_ok d" "bus d = []" "pos + length buf \<le> 256"
  shows "rt_device_read pos buf d = (length buf, take (length buf) (drop (mem_addr pos) (cells d)), d)"
proof -
  have "mem_addr pos + length buf \<le> length (cells d)"
    using assms unat_u8 [of "of_nat pos"] by (simp add: mem_addr_def fram_ok_def fm24cl16_size_def)
  then show ?thesis
    using assms by (simp add: rt_device_read_def fm24clxx_read_def i2c_transfer_def fram_ok_def fm24cl16_size_def chip_read_slice Let_def)
qed

lemma mem_addr_small: "pos < 256 \<Longrightarrow> mem_addr pos = pos"
  by (simp add: mem_addr_def unsigned_of_nat take_bit_nat_eq_self)

lemma write_good:
  assumes "fram_ok d" "bus d = []" "pos + length buf \<le> 256" "pos < 256"
  shows "rt_device_write pos buf d =
    (length buf, d\<lparr>cells := splice (cells d) pos (take (power d) buf), power := power d - length buf\<rparr>)"
proof -
  have "pos + length (take (power d) buf) \<le> length (cells d)"
    using assms by (simp add: fram_ok_def fm24cl16_size_def)
  then show ?thesis
    using assms
    by (simp add: rt_device_write_def fm24clxx_write_def i2c_transfer_def fram_ok_def fm24cl16_size_def
        store_bytes_def mem_addr_small chip_write_splice Let_def min_def)
qed

lemma write_ok: "fram_ok d \<Longrightarrow> fram_ok (snd (rt_device_write pos buf d))"
  using transfer_frame
  by (auto simp: rt_device_write_def fm24clxx_write_def Let_def fram_ok_def store_bytes_def split: prod.splits)

lemma read_ok: "fram_ok d \<Longrightarrow> rt_device_read pos buf d = (n, buf', d') \<Longrightarrow> fram_ok d'"
  using read_frame [of pos buf d n buf' d'] by (simp add: fram_ok_def)

text \<open>
  The page of a position is not sent to the chip: position 256 is position 0. A write there
  overwrites the start of the memory.
\<close>

lemma write_aliases:
  assumes "fram_ok d" "bus d = []" "0 < power d"
  shows "cells (snd (rt_device_write 256 [b] d)) ! 0 = b"
proof -
  have "take (power d) [b] = [b]"
    using assms(3) by simp
  then show ?thesis
    using assms by (auto simp: rt_device_write_def fm24clxx_write_def i2c_transfer_def fram_ok_def fm24cl16_size_def
        store_bytes_def mem_addr_def)
qed

end
