(* ===== verification/Config.thy ===== *)
theory Config
  imports Fram
begin

text \<open>
  The stored configuration: \<^verbatim>\<open>conf_store.h\<close>, \<^verbatim>\<open>factory_setting.c\<close> and \<^verbatim>\<open>global.c\<close>.

  The first word of the memory says whether a factory reset or a full reset was under way when
  the power failed; \<open>global_init\<close> then repeats it. Numbers of type \<open>float\<close> are their bits.
\<close>

section \<open>The layout\<close>

definition EE_FULL_RECOVERY_ING :: u16 where "EE_FULL_RECOVERY_ING = 0x6066"
definition EE_FULL_RECOVERY_OVER :: u16 where "EE_FULL_RECOVERY_OVER = 0x60B6"
definition EE_RESET_FACTORY_ING :: u16 where "EE_RESET_FACTORY_ING = 0x6516"
definition EE_RESET_FACTORY_OVER :: u16 where "EE_RESET_FACTORY_OVER = 0x6A16"

text \<open>Every member with its size; members are aligned to their size.\<close>

definition E2P_TypeDef :: "(string \<times> nat) list" where
  "E2P_TypeDef = [(''eeprom'', 2), (''ee_rw_test'', 2), (''lcd_contrast'', 1), (''is_disp_reverse'', 1), (''password'', 4),
     (''unprotected'', 1), (''language'', 1), (''comm_format'', 1), (''comm_baud'', 1), (''comm_databit'', 1),
     (''comm_parity'', 1), (''comm_device_id'', 1), (''zhuodu_addr'', 1),
     (''relay_1_alarm_type'', 1), (''relay_1_alarm_val'', 4), (''relay_1_alarm_delay'', 4),
     (''relay_2_alarm_type'', 1), (''relay_2_alarm_val'', 4), (''relay_2_alarm_delay'', 4),
     (''unit'', 1), (''temp_compensate'', 2), (''serial_no'', 4), (''clean_interval'', 4), (''clean_time'', 4),
     (''backlight'', 1)]"

definition aligned :: "nat \<Rightarrow> nat \<Rightarrow> nat" where
  "aligned n a = (a + n - 1) div n * n"

fun offset_from :: "nat \<Rightarrow> (string \<times> nat) list \<Rightarrow> string \<Rightarrow> nat" where
  "offset_from a [] x = a"
| "offset_from a ((y, n) # ms) x = (if x = y then aligned n a else offset_from (aligned n a + n) ms x)"

definition E2P_OFFSET :: "string \<Rightarrow> nat" where
  "E2P_OFFSET = offset_from 0 E2P_TypeDef"

definition EE_UNPROTECTED :: nat where "EE_UNPROTECTED = E2P_OFFSET ''unprotected''"

fun struct_bytes :: "nat \<Rightarrow> nat list \<Rightarrow> u32 list \<Rightarrow> u8 list" where
  "struct_bytes a (n # ns) (v # vs) =
     replicate (aligned n a - a) 0 @ le_bytes n v @ struct_bytes (aligned n a + n) ns vs"
| "struct_bytes a _ _ = replicate (aligned 4 a - a) 0"

definition c_FactorySetting :: "u8 list" where
  "c_FactorySetting = struct_bytes 0 (map snd E2P_TypeDef)
     [ucast EE_FULL_RECOVERY_OVER, 0x55AA, 30, 1, 10000, 0, 1, 0, 3, 0, 0, 1, 1, 0, 0, 0, 0, 0, 0, 0, 0, 586007, 36000, 1, 0]"

section \<open>Resets\<close>

definition restore_factory_settings :: "fram \<Rightarrow> fram" where
  "restore_factory_settings d =
     (let d = snd (rt_device_write 0 (le_bytes 2 EE_RESET_FACTORY_ING) d);
          addr = EE_UNPROTECTED;
          d = snd (rt_device_write addr (drop addr c_FactorySetting) d)
      in snd (rt_device_write 0 (le_bytes 2 EE_RESET_FACTORY_OVER) d))"

definition full_reset_eeprom :: "fram \<Rightarrow> fram" where
  "full_reset_eeprom d =
     (let d = snd (rt_device_write 0 (le_bytes 2 EE_FULL_RECOVERY_ING) d);
          d = snd (rt_device_write 2 (drop 2 c_FactorySetting) d)
      in snd (rt_device_write 0 (le_bytes 2 EE_FULL_RECOVERY_OVER) d))"

section \<open>The settings in use\<close>

text \<open>Of the measured data the members that have a default.\<close>

type_synonym f32 = u32

record Zhuodu_t =
  canbi_set :: u16
  bright_range :: u16
  zd_temp :: u16
  coeff_a1 :: f32
  coeff_b1 :: f32
  coeff_a2 :: f32
  coeff_b2 :: f32
  coeff_a3 :: f32
  coeff_b3 :: f32
  coeff_a1k1 :: f32
  seg_range_1 :: f32
  seg_range_2 :: f32
  range_sel :: u16
  a2_zero :: u16
  num_cali :: u16
  seg_range_3 :: f32
  seg_range_4 :: f32
  coeff_a4 :: f32
  coeff_b4 :: f32

record GlobalDef =
  is_disp_reverse :: u8
  language :: u8
  comm_format :: u8
  comm_baud :: u8
  comm_parity :: u8
  comm_device_id :: u8
  password :: u32
  password_buf :: "u8 list"
  display_unit :: u8
  temp :: u16
  temp_compensate :: u16
  is_relay_test :: u8
  relay_1_alarm_type :: u8
  relay_1_alarm_val :: f32
  relay_1_alarm_delay :: f32
  relay_2_alarm_type :: u8
  relay_2_alarm_val :: f32
  relay_2_alarm_delay :: f32
  clean_interval :: u32
  clean_time :: u32
  backlight :: u8
  zhuodu_data :: Zhuodu_t

definition get_language :: "GlobalDef \<Rightarrow> u8" where "get_language = language"

definition f32_1 :: f32 where "f32_1 = 0x3F800000"
definition f32_1000 :: f32 where "f32_1000 = 0x447A0000"

definition default_init :: "GlobalDef \<Rightarrow> GlobalDef" where
  "default_init g = g\<lparr>backlight := 1, clean_interval := 36000, clean_time := 1, comm_baud := 3, comm_device_id := 1,
     comm_format := 0, comm_parity := 0, temp_compensate := 0, temp := 250, is_disp_reverse := 0, is_relay_test := 0,
     display_unit := 0, zhuodu_data := (zhuodu_data g)\<lparr>coeff_a1 := f32_1, coeff_a1k1 := f32_1, coeff_a2 := f32_1,
       coeff_a3 := f32_1, coeff_a4 := f32_1, coeff_b1 := 0, coeff_b2 := 0, coeff_b3 := 0, coeff_b4 := 0, a2_zero := 0,
       bright_range := 150, canbi_set := 5000, num_cali := 2, range_sel := 0, seg_range_1 := f32_1000,
       seg_range_2 := f32_1000, seg_range_3 := f32_1000, seg_range_4 := f32_1000, zd_temp := 250\<rparr>\<rparr>"

text \<open>\<open>"%06d"\<close> of a number of at most six digits.\<close>

definition six_digits :: "u32 \<Rightarrow> u8 list" where
  "six_digits n = map (\<lambda>i. 48 + of_nat (unat n div 10 ^ (5 - i) mod 10)) [0..<6]"

section \<open>Reading the memory\<close>

text \<open>
  A read goes into a local variable, which keeps its value, in part or as a whole, when the
  transfer breaks off. The results of these reads and writes are not looked at.
\<close>

definition read_u8 :: "string \<Rightarrow> u8 \<times> fram \<Rightarrow> u8 \<times> fram" where
  "read_u8 x = (\<lambda>(tmp, d). let (_, b, d) = rt_device_read (E2P_OFFSET x) [tmp] d in (hd b, d))"

definition read_u32 :: "string \<Rightarrow> u32 \<times> fram \<Rightarrow> u32 \<times> fram" where
  "read_u32 x = (\<lambda>(tmp, d). let (_, b, d) = rt_device_read (E2P_OFFSET x) (le_bytes 4 tmp) d in (le_word b, d))"

text \<open>A value above the limit is replaced, in memory too.\<close>

definition limit_u8 :: "string \<Rightarrow> u8 \<Rightarrow> u8 \<Rightarrow> u8 \<times> fram \<Rightarrow> u8 \<times> fram" where
  "limit_u8 x lim dflt td =
     (let (tmp, d) = read_u8 x td
      in if tmp > lim then (dflt, snd (rt_device_write (E2P_OFFSET x) [dflt] d)) else (tmp, d))"

definition limit_password :: "u32 \<times> fram \<Rightarrow> u32 \<times> fram" where
  "limit_password td =
     (let (tmp, d) = read_u32 ''password'' td
      in if tmp > 999999 then (10000, snd (rt_device_write (E2P_OFFSET ''password'') (le_bytes 4 (10000 :: u32)) d))
         else (tmp, d))"

definition load_settings :: "u8 \<Rightarrow> u32 \<Rightarrow> f32 \<Rightarrow> GlobalDef \<Rightarrow> fram \<Rightarrow> GlobalDef \<times> fram" where
  "load_settings t8 t32 tf g d =
     (let (t8, d) = read_u8 ''lcd_contrast'' (t8, d);
          (t8, d) = read_u8 ''is_disp_reverse'' (t8, d);
          (t32, d) = limit_password (t32, d);
          g = g\<lparr>password := t32, password_buf := six_digits t32\<rparr>;
          (t8, d) = limit_u8 ''unit'' 1 0 (t8, d);
          g = g\<lparr>display_unit := t8\<rparr>;
          (t8, d) = limit_u8 ''comm_format'' 1 0 (t8, d);
          g = g\<lparr>comm_format := t8\<rparr>;
          (t8, d) = limit_u8 ''comm_baud'' 5 3 (t8, d);
          g = g\<lparr>comm_baud := t8\<rparr>;
          (t8, d) = limit_u8 ''comm_parity'' 2 0 (t8, d);
          g = g\<lparr>comm_parity := t8\<rparr>;
          (t8, d) = limit_u8 ''comm_device_id'' 247 1 (t8, d);
          g = g\<lparr>comm_device_id := t8\<rparr>;
          (t8, d) = limit_u8 ''relay_1_alarm_type'' 1 1 (t8, d);
          g = g\<lparr>relay_1_alarm_type := t8\<rparr>;
          (tf, d) = read_u32 ''relay_1_alarm_val'' (tf, d);
          g = g\<lparr>relay_1_alarm_val := tf\<rparr>;
          (tf, d) = read_u32 ''relay_1_alarm_delay'' (tf, d);
          g = g\<lparr>relay_1_alarm_delay := tf\<rparr>;
          (t8, d) = limit_u8 ''relay_2_alarm_type'' 1 1 (t8, d);
          g = g\<lparr>relay_2_alarm_type := t8\<rparr>;
          (tf, d) = read_u32 ''relay_2_alarm_val'' (tf, d);
          g = g\<lparr>relay_2_alarm_val := tf\<rparr>;
          (tf, d) = read_u32 ''relay_2_alarm_delay'' (tf, d);
          g = g\<lparr>relay_2_alarm_delay := tf\<rparr>;
          (t32, d) = read_u32 ''clean_interval'' (t32, d);
          g = g\<lparr>clean_interval := t32\<rparr>;
          (t32, d) = read_u32 ''clean_time'' (t32, d);
          g = g\<lparr>clean_time := t32\<rparr>;
          (t8, d) = read_u8 ''backlight'' (t8, d)
      in (g\<lparr>backlight := t8\<rparr>, d))"

text \<open>The first read is repeated until it succeeds; between the attempts the thread waits a tick.\<close>

partial_function (option) read_marker :: "u8 list \<Rightarrow> fram \<Rightarrow> (u8 list \<times> fram) option" where
  "read_marker e d = (let (len, e, d) = rt_device_read (E2P_OFFSET ''eeprom'') e d
     in if len \<noteq> 2 then read_marker e d else Some (e, d))"

definition recover :: "u16 \<Rightarrow> fram \<Rightarrow> fram" where
  "recover eeprom d =
     (if eeprom = EE_FULL_RECOVERY_ING then full_reset_eeprom d
      else if eeprom = EE_FULL_RECOVERY_OVER then d
      else if eeprom = EE_RESET_FACTORY_ING then restore_factory_settings d
      else if eeprom = EE_RESET_FACTORY_OVER then d
      else full_reset_eeprom d)"

text \<open>The uninitialised locals \<open>eeprom\<close>, \<open>tmp_u8\<close>, \<open>tmp_u32\<close>, \<open>tmp_f32\<close> are arguments.\<close>

definition global_init :: "u16 \<Rightarrow> u8 \<Rightarrow> u32 \<Rightarrow> f32 \<Rightarrow> GlobalDef \<Rightarrow> fram \<Rightarrow> (GlobalDef \<times> fram) option" where
  "global_init eeprom t8 t32 tf g d = do {
     let g = default_init g;
     (e, d) \<leftarrow> read_marker (le_bytes 2 eeprom) d;
     Some (load_settings t8 t32 tf g (recover (le_word e) d))
   }"

end
