(* ===== verification/Config_Power.thy ===== *)
theory Config_Power
  imports Config
begin

text \<open>
  The stored configuration is repaired: whatever the memory holds and however the bus behaves, the
  settings in use are in their ranges; and a factory reset that is cut off by a power failure, at
  whatever byte, is completed by the next start that is not cut off.
\<close>

section \<open>The layout in numbers\<close>

lemma offsets [simp]:
  "E2P_OFFSET ''eeprom'' = 0" "E2P_OFFSET ''lcd_contrast'' = 4" "E2P_OFFSET ''is_disp_reverse'' = 5"
  "E2P_OFFSET ''password'' = 8" "E2P_OFFSET ''unprotected'' = 12" "E2P_OFFSET ''comm_format'' = 14"
  "E2P_OFFSET ''comm_baud'' = 15" "E2P_OFFSET ''comm_parity'' = 17" "E2P_OFFSET ''comm_device_id'' = 18"
  "E2P_OFFSET ''relay_1_alarm_type'' = 20" "E2P_OFFSET ''relay_1_alarm_val'' = 24"
  "E2P_OFFSET ''relay_1_alarm_delay'' = 28" "E2P_OFFSET ''relay_2_alarm_type'' = 32"
  "E2P_OFFSET ''relay_2_alarm_val'' = 36" "E2P_OFFSET ''relay_2_alarm_delay'' = 40" "E2P_OFFSET ''unit'' = 44"
  "E2P_OFFSET ''clean_interval'' = 52" "E2P_OFFSET ''clean_time'' = 56" "E2P_OFFSET ''backlight'' = 60"
  by code_simp+

lemma unprotected [simp]: "EE_UNPROTECTED = 12"
  by (simp add: EE_UNPROTECTED_def)

lemma factory: "c_FactorySetting =
  [0xB6, 0x60, 0xAA, 0x55, 0x1E, 1, 0, 0, 0x10, 0x27, 0, 0, 0, 1, 0, 3, 0, 0, 1, 1, 0, 0, 0, 0, 0, 0, 0, 0, 0, 0, 0, 0,
   0, 0, 0, 0, 0, 0, 0, 0, 0, 0, 0, 0, 0, 0, 0, 0, 0x17, 0xF1, 8, 0, 0xA0, 0x8C, 0, 0, 1, 0, 0, 0, 0, 0, 0, 0]"
  by code_simp

lemma length_factory [simp]: "length c_FactorySetting = 64"
  by (simp add: factory)

lemma markers:
  "le_bytes 2 EE_FULL_RECOVERY_ING = [0x66, 0x60]" "le_bytes 2 EE_FULL_RECOVERY_OVER = [0xB6, 0x60]"
  "le_bytes 2 EE_RESET_FACTORY_ING = [0x16, 0x65]" "le_bytes 2 EE_RESET_FACTORY_OVER = [0x16, 0x6A]"
  by code_simp+

lemma le_word_2: "le_word [a, b] = (w :: u16) \<longleftrightarrow> [a, b] = le_bytes 2 w"
proof
  assume "le_word [a, b] = w"
  then have w: "w = ucast a OR push_bit 8 (ucast b)"
    by (simp add: le_word_def)
  have "ucast w = a" "ucast (drop_bit 8 w) = b"
    unfolding w by (rule bit_word_eqI, auto simp: bit_simps dest: bit_imp_le_length)+
  then show "[a, b] = le_bytes 2 w"
    by (simp add: le_bytes_def upt_rec)
next
  assume "[a, b] = le_bytes 2 w"
  then have ab: "a = ucast w" "b = ucast (drop_bit 8 w)"
    by (simp_all add: le_bytes_def upt_rec)
  show "le_word [a, b] = w"
    unfolding ab by (rule bit_word_eqI) (auto simp: le_word_def bit_simps)
qed

section \<open>Settings in their ranges\<close>

definition settings_ok :: "GlobalDef \<Rightarrow> bool" where
  "settings_ok g \<longleftrightarrow> comm_format g \<le> 1 \<and> comm_baud g \<le> 5 \<and> comm_parity g \<le> 2 \<and> comm_device_id g \<le> 247
     \<and> display_unit g \<le> 1 \<and> relay_1_alarm_type g \<le> 1 \<and> relay_2_alarm_type g \<le> 1 \<and> password g \<le> 999999
     \<and> length (password_buf g) = 6 \<and> (\<forall>c \<in> set (password_buf g). 48 \<le> c \<and> c \<le> 57)"

lemma six_digits_ok: "length (six_digits n) = 6" "c \<in> set (six_digits n) \<Longrightarrow> 48 \<le> c \<and> c \<le> 57"
proof -
  show "length (six_digits n) = 6"
    by (simp add: six_digits_def)
  have "(48 :: u8) \<le> 48 + of_nat k \<and> (48 + of_nat k :: u8) \<le> 57" if "k < 10" for k
  proof -
    from that have "k = 0 \<or> k = 1 \<or> k = 2 \<or> k = 3 \<or> k = 4 \<or> k = 5 \<or> k = 6 \<or> k = 7 \<or> k = 8 \<or> k = 9"
      by arith
    then show ?thesis
      by (elim disjE) simp_all
  qed
  then show "48 \<le> c \<and> c \<le> 57" if "c \<in> set (six_digits n)"
    using that by (auto simp: six_digits_def)
qed

lemma read_u8_ok: "fram_ok (snd td) \<Longrightarrow> fram_ok (snd (read_u8 x td))"
  using read_ok by (auto simp: read_u8_def split: prod.splits)

lemma read_u32_ok: "fram_ok (snd td) \<Longrightarrow> fram_ok (snd (read_u32 x td))"
  using read_ok by (auto simp: read_u32_def split: prod.splits)

lemma limit_u8_ok: "fram_ok (snd td) \<Longrightarrow> fram_ok (snd (limit_u8 x lim dflt td))"
  using read_u8_ok [of td x] by (auto simp: limit_u8_def split_beta write_ok)

lemma limit_password_ok: "fram_ok (snd td) \<Longrightarrow> fram_ok (snd (limit_password td))"
  using read_u32_ok [of td] by (auto simp: limit_password_def split_beta write_ok)

lemma limit_u8_le: "dflt \<le> lim \<Longrightarrow> fst (limit_u8 x lim dflt td) \<le> lim"
  by (simp add: limit_u8_def split_beta not_less)

lemma limit_password_le: "fst (limit_password td) \<le> 999999"
  by (simp add: limit_password_def split_beta not_less)

lemma load_settings_ok:
  "settings_ok (fst (load_settings t8 t32 tf g d))" "fram_ok d \<Longrightarrow> fram_ok (snd (load_settings t8 t32 tf g d))"
  unfolding load_settings_def Let_def split_beta fst_conv snd_conv
  by (simp_all add: settings_ok_def limit_u8_le limit_password_le six_digits_ok limit_u8_ok limit_password_ok read_u8_ok read_u32_ok
      del: prod.collapse)

lemma recover_ok: "fram_ok d \<Longrightarrow> fram_ok (recover e d)"
  by (simp add: recover_def full_reset_eeprom_def restore_factory_settings_def Let_def write_ok)

lemma read_marker_returns:
  assumes "fram_ok d" "length e = 2"
  shows "\<exists>e' d'. read_marker e d = Some (e', d') \<and> fram_ok d'"
  using assms
proof (induction "length (bus d)" arbitrary: d e rule: less_induct)
  case less
  obtain n e1 d1 where r: "rt_device_read 0 e d = (n, e1, d1)"
    by (cases "rt_device_read 0 e d") auto
  have l: "length e1 = 2"
    using read_length [OF r] less.prems(2) by (simp add: fm24cl16_size_def)
  have ok: "fram_ok d1"
    by (rule read_ok [OF less.prems(1) r])
  show ?case
  proof (cases "n = 2")
    case True
    then show ?thesis
      using r ok by (subst read_marker.simps) simp
  next
    case False
    have "length (bus d1) < length (bus d)"
      using r less.prems False transfer_frame(5,8)
      by (auto simp: rt_device_read_def fm24clxx_read_def fram_ok_def fm24cl16_size_def Let_def split: prod.splits if_splits)
    from less.hyps [OF this ok l] show ?thesis
      using r False by (subst read_marker.simps) simp
  qed
qed

lemma global_init_returns: "fram_ok d \<Longrightarrow> \<exists>g' d'. global_init e t8 t32 tf g d = Some (g', d')"
  using read_marker_returns [of d "le_bytes 2 e"] by (auto simp: global_init_def)


section \<open>A reset that is cut off\<close>

definition mem_u32 :: "u8 list \<Rightarrow> nat \<Rightarrow> u32" where
  "mem_u32 m a = le_word (take 4 (drop a m))"

definition values_ok :: "u8 list \<Rightarrow> bool" where
  "values_ok m \<longleftrightarrow> mem_u32 m 8 \<le> 999999 \<and> m ! 14 \<le> 1 \<and> m ! 15 \<le> 5 \<and> m ! 17 \<le> 2 \<and> m ! 18 \<le> 247
     \<and> m ! 20 \<le> 1 \<and> m ! 32 \<le> 1 \<and> m ! 44 \<le> 1"

text \<open>Loading the settings changes no cell when all values are in range or there is no power left.\<close>

definition quiet :: "u8 list \<Rightarrow> fram \<Rightarrow> bool" where
  "quiet m d \<longleftrightarrow> cells d = m \<and> bus d = [] \<and> fram_ok d \<and> (values_ok m \<or> power d = 0)"

lemma read_u8_quiet: "quiet m (snd td) \<Longrightarrow> E2P_OFFSET x < 256 \<Longrightarrow> read_u8 x td = (m ! E2P_OFFSET x, snd td)"
  by (auto simp: read_u8_def split_beta quiet_def read_good mem_addr_small fram_ok_def fm24cl16_size_def hd_drop_conv_nth take_Suc)

lemma read_u32_quiet: "quiet m (snd td) \<Longrightarrow> E2P_OFFSET x < 252 \<Longrightarrow> read_u32 x td = (mem_u32 m (E2P_OFFSET x), snd td)"
  by (auto simp: read_u32_def split_beta quiet_def read_good mem_addr_small mem_u32_def)

lemma read_quiet:
  "quiet m (snd td) \<Longrightarrow> E2P_OFFSET x < 256 \<Longrightarrow> quiet m (snd (read_u8 x td))"
  "quiet m (snd td4) \<Longrightarrow> E2P_OFFSET x < 252 \<Longrightarrow> quiet m (snd (read_u32 x td4))"
  by (simp_all add: read_u8_quiet read_u32_quiet)

lemma quiet_write:
  assumes "quiet m d" "pos + length buf \<le> 256" "pos < 256" "\<not> values_ok m"
  shows "quiet m (snd (rt_device_write pos buf d))"
  using assms by (auto simp: quiet_def write_good fram_ok_def)

lemma limit_u8_quiet:
  assumes "quiet m (snd td)" "E2P_OFFSET x < 256" "values_ok m \<Longrightarrow> m ! E2P_OFFSET x \<le> lim"
  shows "quiet m (snd (limit_u8 x lim dflt td))"
  using assms quiet_write [of m "snd td" "E2P_OFFSET x" "[dflt]"]
  by (auto simp: limit_u8_def read_u8_quiet [OF assms(1,2)] simp flip: not_le)

lemma limit_password_quiet:
  assumes "quiet m (snd td)"
  shows "quiet m (snd (limit_password td))"
  using assms quiet_write [of m "snd td" 8 "le_bytes 4 (10000 :: u32)"]
  by (auto simp: limit_password_def read_u32_quiet [OF assms] values_ok_def simp flip: not_le)

lemma load_settings_quiet: "quiet m d \<Longrightarrow> quiet m (snd (load_settings t8 t32 tf g d))"
  unfolding load_settings_def Let_def split_beta fst_conv snd_conv
  by (rule limit_u8_quiet limit_password_quiet read_quiet | simp add: values_ok_def)+

lemma start_cells:
  assumes "fram_ok d" "bus d = []" and "quiet (cells (recover (le_word (take 2 (cells d))) d)) (recover (le_word (take 2 (cells d))) d)"
    and "global_init e t8 t32 tf g d = Some (g', d')"
  shows "cells d' = cells (recover (le_word (take 2 (cells d))) d)"
proof -
  have "read_marker (le_bytes 2 e) d = Some (take 2 (cells d), d)"
    using read_good [OF assms(1,2), of 0 "le_bytes 2 e"] by (subst read_marker.simps) (simp add: mem_addr_small)
  then have "d' = snd (load_settings t8 t32 tf (default_init g) (recover (le_word (take 2 (cells d))) d))"
    using assms(4) by (simp add: global_init_def prod_eq_iff)
  then show ?thesis
    using load_settings_quiet [OF assms(3)] by (simp add: quiet_def)
qed

text \<open>A start finds the chip open, with a working bus and power for so many bytes.\<close>

definition chip :: "u8 list \<Rightarrow> nat \<Rightarrow> fram" where
  "chip m k = \<lparr>cells = m, bus = [], power = k, ref_count = 1\<rparr>"

text \<open>What the memory becomes by starts that are cut off at any byte, or not.\<close>

inductive starts :: "u8 list \<Rightarrow> u8 list \<Rightarrow> bool" for m where
  none: "starts m m"
| start: "starts m c \<Longrightarrow> global_init e t8 t32 tf g (chip c k) = Some (g', d) \<Longrightarrow> starts m (cells d)"

definition factory_reset :: "u8 list \<Rightarrow> u8 list" where
  "factory_reset m = le_bytes 2 EE_RESET_FACTORY_OVER @ take 10 (drop 2 m) @ drop 12 c_FactorySetting @ drop 64 m"

definition full_reset :: "u8 list \<Rightarrow> u8 list" where
  "full_reset m = c_FactorySetting @ drop 64 m"

definition settled :: "u8 list \<Rightarrow> bool" where
  "settled m \<longleftrightarrow> take 2 m = le_bytes 2 EE_FULL_RECOVERY_OVER \<or> take 2 m = le_bytes 2 EE_RESET_FACTORY_OVER"

text \<open>The three kinds of memory that a cut leaves.\<close>

definition mixed :: "nat \<Rightarrow> u8 list \<Rightarrow> u8 list \<Rightarrow> bool" where
  "mixed a m c \<longleftrightarrow> length c = 2048 \<and> (\<forall>i < 2048. 2 \<le> i \<longrightarrow> c ! i = m ! i \<or> a \<le> i \<and> i < 64 \<and> c ! i = c_FactorySetting ! i)"

definition resetting :: "u8 list \<Rightarrow> u8 list \<Rightarrow> bool" where
  "resetting m c \<longleftrightarrow> mixed 12 m c \<and> take 2 c = le_bytes 2 EE_RESET_FACTORY_ING"

definition recovering :: "u8 list \<Rightarrow> u8 list \<Rightarrow> bool" where
  "recovering m c \<longleftrightarrow> mixed 2 m c \<and> (take 2 c = le_bytes 2 EE_FULL_RECOVERY_ING \<or> take 2 c = [0x16, 0x60])"

lemma take_pair: "take k [a, b] = (if k = 0 then [] else if k = 1 then [a] else [a, b])"
  by (cases k; cases "k - 1") auto

lemma chip_simps [simp]:
  "cells (chip m k) = m" "bus (chip m k) = []" "power (chip m k) = k" "fram_ok (chip m k) \<longleftrightarrow> length m = 2048"
  by (simp_all add: chip_def fram_ok_def fm24cl16_size_def)

lemma restore_cells:
  assumes "length c = 2048"
  shows "restore_factory_settings (chip c k) = chip (splice (splice (splice c 0 (take k [0x16, 0x65])) 12
      (take (k - 2) (drop 12 c_FactorySetting))) 0 (take (k - 54) [0x16, 0x6A])) (k - 56)"
  using assms
  by (simp add: restore_factory_settings_def Let_def markers write_good fram_ok_def fm24cl16_size_def chip_def flip: numeral_2_eq_2)

lemma full_cells:
  assumes "length c = 2048"
  shows "full_reset_eeprom (chip c k) = chip (splice (splice (splice c 0 (take k [0x66, 0x60])) 2
      (take (k - 2) (drop 2 c_FactorySetting))) 0 (take (k - 64) [0xB6, 0x60])) (k - 66)"
  using assms
  by (simp add: full_reset_eeprom_def Let_def markers write_good fram_ok_def fm24cl16_size_def chip_def flip: numeral_2_eq_2)

lemma restore_nth:
  assumes "length c = 2048" "i < 2048"
  shows "cells (restore_factory_settings (chip c k)) ! i =
    (if i = 0 then if 1 \<le> k then 0x16 else c ! 0
     else if i = 1 then if 56 \<le> k then 0x6A else if 2 \<le> k then 0x65 else c ! 1
     else if 12 \<le> i \<and> i < 64 \<and> i < k + 10 then c_FactorySetting ! i else c ! i)"
  using assms by (auto simp: restore_cells nth_splice take_pair nth_Cons' split: if_splits)

lemma full_nth:
  assumes "length c = 2048" "i < 2048"
  shows "cells (full_reset_eeprom (chip c k)) ! i =
    (if i = 0 then if 65 \<le> k then 0xB6 else if 1 \<le> k then 0x66 else c ! 0
     else if i = 1 then if 2 \<le> k then 0x60 else c ! 1
     else if i < 64 \<and> i < k then c_FactorySetting ! i else c ! i)"
proof -
  have "i \<noteq> 0 \<Longrightarrow> i \<noteq> Suc 0 \<Longrightarrow> Suc (Suc (i - 2)) = i"
    by simp
  then show ?thesis
    using assms by (auto simp: full_cells nth_splice take_pair nth_Cons' split: if_splits)
qed

lemma reset_lengths [simp]:
  "length c = 2048 \<Longrightarrow> length (cells (restore_factory_settings (chip c k))) = 2048"
  "length c = 2048 \<Longrightarrow> length (cells (full_reset_eeprom (chip c k))) = 2048"
  "length m = 2048 \<Longrightarrow> length (factory_reset m) = 2048" "length m = 2048 \<Longrightarrow> length (full_reset m) = 2048"
  by (simp_all add: restore_cells full_cells factory_reset_def full_reset_def)

lemma take_2: "2 \<le> length c \<Longrightarrow> take 2 c = [a, b] \<longleftrightarrow> c ! 0 = a \<and> c ! 1 = b"
  by (cases c; cases "tl c") auto

lemma reset_nth:
  assumes "length m = 2048" "i < 2048"
  shows "factory_reset m ! i = (if i = 0 then 0x16 else if i = 1 then 0x6A else if 12 \<le> i \<and> i < 64 then c_FactorySetting ! i else m ! i)"
    and "full_reset m ! i = (if i < 64 then c_FactorySetting ! i else m ! i)"
proof -
  have "i \<noteq> 0 \<Longrightarrow> i \<noteq> Suc 0 \<Longrightarrow> Suc (Suc (i - Suc (Suc 0))) = i" "\<not> i < 12 \<Longrightarrow> i < 64 \<Longrightarrow> 12 + (i - 12) = i"
    by simp_all
  then show "factory_reset m ! i = (if i = 0 then 0x16 else if i = 1 then 0x6A else if 12 \<le> i \<and> i < 64 then c_FactorySetting ! i else m ! i)"
    using assms by (auto simp: factory_reset_def markers nth_append nth_Cons' min_def)
  show "full_reset m ! i = (if i < 64 then c_FactorySetting ! i else m ! i)"
    using assms by (simp add: full_reset_def nth_append)
qed

lemma mem_u32_cong: "length m = 2048 \<Longrightarrow> length c = 2048 \<Longrightarrow> (\<And>i. 8 \<le> i \<Longrightarrow> i < 12 \<Longrightarrow> c ! i = m ! i) \<Longrightarrow> mem_u32 c 8 = mem_u32 m 8"
  unfolding mem_u32_def by (rule arg_cong [where f = le_word]) (auto intro!: nth_equalityI)

lemma factory_password: "mem_u32 c_FactorySetting 8 = 10000"
  unfolding factory by code_simp

lemma reset_values:
  assumes "length m = 2048"
  shows "values_ok m \<Longrightarrow> values_ok (factory_reset m)" "values_ok (full_reset m)"
proof -
  have "mem_u32 (factory_reset m) 8 = mem_u32 m 8"
    using assms by (intro mem_u32_cong) (simp_all add: reset_nth)
  then show "values_ok m \<Longrightarrow> values_ok (factory_reset m)"
    using assms by (simp add: values_ok_def reset_nth) (simp add: factory)
  have "mem_u32 (full_reset m) 8 = mem_u32 c_FactorySetting 8"
    by (simp add: full_reset_def mem_u32_def)
  then show "values_ok (full_reset m)"
    using assms by (simp add: values_ok_def reset_nth factory_password) (simp add: factory)
qed

lemma power_step:
  assumes len: "length c = 2048" and d1: "d1 = recover (le_word (take 2 c)) (chip c k)"
    and "values_ok (cells d1) \<or> power d1 = 0" and run: "global_init e t8 t32 tf g (chip c k) = Some (g', d)"
  shows "cells d = cells d1"
proof -
  have "bus d1 = []" "fram_ok d1"
    using len by (simp_all add: d1 recover_def full_cells restore_cells)
  then have "quiet (cells d1) d1"
    using assms(3) by (simp add: quiet_def)
  then show ?thesis
    using start_cells [of "chip c k"] len run by (simp add: d1)
qed

text \<open>What is read back as the marker.\<close>

lemma marker_word:
  assumes "2 \<le> length c"
  shows "le_word (take 2 c) = (w :: u16) \<longleftrightarrow> take 2 c = le_bytes 2 w"
proof -
  obtain a b where "take 2 c = [a, b]"
    using assms by (cases c; cases "tl c") auto
  then show ?thesis
    by (simp add: le_word_2)
qed

lemma recover_take:
  assumes "length c = 2048"
  shows "recover (le_word (take 2 c)) d = (if take 2 c = [0xB6, 0x60] \<or> take 2 c = [0x16, 0x6A] then d
    else if take 2 c = [0x16, 0x65] then restore_factory_settings d else full_reset_eeprom d)"
proof -
  have "2 \<le> length c"
    using assms by simp
  note word = marker_word [OF this]
  show ?thesis
    unfolding recover_def word markers by simp
qed

lemma recover_cases:
  assumes "length c = 2048"
  shows "settled c \<Longrightarrow> recover (le_word (take 2 c)) d = d"
    "take 2 c = le_bytes 2 EE_RESET_FACTORY_ING \<Longrightarrow> recover (le_word (take 2 c)) d = restore_factory_settings d"
    "take 2 c = le_bytes 2 EE_FULL_RECOVERY_ING \<or> take 2 c = [0x16, 0x60] \<Longrightarrow> recover (le_word (take 2 c)) d = full_reset_eeprom d"
  unfolding recover_take [OF assms] by (auto simp: settled_def markers)

lemma settled_step:
  assumes "length c = 2048" "settled c" "values_ok c" "global_init e t8 t32 tf g (chip c k) = Some (g', d)"
  shows "cells d = c"
  using power_step [OF assms(1) refl _ assms(4)] assms(2,3) by (simp add: recover_cases [OF assms(1)])

lemma resetting_step:
  assumes m: "length m = 2048" "values_ok m" and c: "resetting m c"
    and run: "global_init e t8 t32 tf g (chip c k) = Some (g', d)"
  shows "if 56 \<le> k then cells d = factory_reset m else resetting m (cells d)"
proof -
  let ?d1 = "restore_factory_settings (chip c k)"
  have len: "length c = 2048" and tk: "take 2 c = le_bytes 2 EE_RESET_FACTORY_ING"
    and rest: "\<And>i. i < 2048 \<Longrightarrow> 2 \<le> i \<Longrightarrow> c ! i = m ! i \<or> 12 \<le> i \<and> i < 64 \<and> c ! i = c_FactorySetting ! i"
    using c by (auto simp: resetting_def mixed_def)
  have same: "c ! i = m ! i" if "i < 2048" "0 < i" "i \<noteq> Suc 0" "\<not> 12 \<le> i \<or> \<not> i < 64" for i
    using rest [of i] that by auto
  have first: "c ! 0 = 0x16" "c ! 1 = 0x65"
    using tk len by (simp_all add: markers take_2)
  have all: "cells ?d1 = factory_reset m" if "56 \<le> k"
    by (rule nth_equalityI) (use len m that same in \<open>auto simp: restore_nth reset_nth\<close>)
  have "values_ok (cells ?d1) \<or> power ?d1 = 0"
    using all reset_values(1) [OF m] len by (cases "56 \<le> k") (simp_all add: restore_cells)
  from power_step [OF len refl _ run] this have cells: "cells d = cells ?d1"
    by (simp add: recover_cases(2) [OF len tk])
  have "resetting m (cells ?d1)" if "\<not> 56 \<le> k"
  proof -
    have "take 2 (cells ?d1) = [0x16, 0x65]"
      using that first len by (subst take_2) (auto simp: restore_nth)
    moreover have "mixed 12 m (cells ?d1)"
      unfolding mixed_def using len rest by (auto simp: restore_nth)
    ultimately show ?thesis
      by (simp add: resetting_def markers)
  qed
  then show ?thesis
    using all cells by simp
qed

lemma recovering_step:
  assumes m: "length m = 2048" "values_ok m" and c: "recovering m c"
    and run: "global_init e t8 t32 tf g (chip c k) = Some (g', d)"
  shows "if 65 \<le> k then cells d = full_reset m else recovering m (cells d)"
proof -
  let ?d1 = "full_reset_eeprom (chip c k)"
  have len: "length c = 2048" and tk: "take 2 c = le_bytes 2 EE_FULL_RECOVERY_ING \<or> take 2 c = [0x16, 0x60]"
    and rest: "\<And>i. i < 2048 \<Longrightarrow> 2 \<le> i \<Longrightarrow> c ! i = m ! i \<or> i < 64 \<and> c ! i = c_FactorySetting ! i"
    using c by (auto simp: recovering_def mixed_def)
  have same: "c ! i = m ! i" if "i < 2048" "\<not> i < 64" for i
    using rest [of i] that by auto
  have first: "c ! 0 = 0x66 \<or> c ! 0 = 0x16" "c ! 1 = 0x60"
    using tk len by (auto simp: markers take_2)
  have f01: "c_FactorySetting ! 0 = 0xB6" "c_FactorySetting ! Suc 0 = 0x60"
    by (simp_all add: factory)
  have all: "cells ?d1 = full_reset m" if "65 \<le> k"
    by (rule nth_equalityI) (use len m that same f01 in \<open>auto simp: full_nth reset_nth\<close>)
  have "values_ok (cells ?d1) \<or> power ?d1 = 0"
    using all reset_values(2) [OF m(1)] len by (cases "65 \<le> k") (simp_all add: full_cells)
  from power_step [OF len refl _ run] this have cells: "cells d = cells ?d1"
    by (simp add: recover_cases(3) [OF len tk])
  have "recovering m (cells ?d1)" if "\<not> 65 \<le> k"
  proof -
    have "take 2 (cells ?d1) = [0x66, 0x60] \<or> take 2 (cells ?d1) = [0x16, 0x60]"
      using that first len by (cases "k = 0") (auto simp: take_2 full_nth)
    moreover have "mixed 2 m (cells ?d1)"
      unfolding mixed_def using len rest by (auto simp: full_nth)
    ultimately show ?thesis
      by (auto simp: recovering_def markers)
  qed
  then show ?thesis
    using all cells by simp
qed

lemma starts_settled: "starts m c \<Longrightarrow> length m = 2048 \<Longrightarrow> settled m \<Longrightarrow> values_ok m \<Longrightarrow> c = m"
  by (induction rule: starts.induct) (auto dest: settled_step)

lemma settled_resets:
  assumes "length m = 2048"
  shows "settled (factory_reset m)" "settled (full_reset m)"
  by (simp_all add: settled_def factory_reset_def full_reset_def markers factory)

lemma starts_resetting:
  assumes "starts c0 c" "length m = 2048" "values_ok m" "resetting m c0 \<or> c0 = factory_reset m"
  shows "resetting m c \<or> c = factory_reset m"
  using assms
proof (induction rule: starts.induct)
  case (start c e t8 t32 tf g k g' d)
  then consider "resetting m c" | "c = factory_reset m"
    by blast
  then show ?case
  proof cases
    case 1
    then show ?thesis
      using resetting_step [OF start.prems(1,2) 1 start.hyps(2)] by (auto split: if_splits)
  next
    case 2
    then have "cells d = c"
      using start by (intro settled_step [OF _ _ _ start.hyps(2)]) (simp_all add: settled_resets reset_values)
    then show ?thesis
      using 2 by simp
  qed
qed simp

lemma starts_recovering:
  assumes "starts c0 c" "length m = 2048" "values_ok m" "recovering m c0"
  shows "recovering m c \<or> c = full_reset m"
  using assms
proof (induction rule: starts.induct)
  case (start c e t8 t32 tf g k g' d)
  then consider "recovering m c" | "c = full_reset m"
    by blast
  then show ?case
  proof cases
    case 1
    then show ?thesis
      using recovering_step [OF start.prems(1,2) 1 start.hyps(2)] by (auto split: if_splits)
  next
    case 2
    then have "cells d = c"
      using start by (intro settled_step [OF _ _ _ start.hyps(2)]) (simp_all add: settled_resets reset_values)
    then show ?thesis
      using 2 by simp
  qed
qed simp

text \<open>What a factory reset leaves that is cut off after \<open>k\<close> bytes.\<close>

lemma cut_reset:
  fixes m :: "u8 list" and k :: nat
  assumes m: "length m = 2048" "values_ok m" "settled m"
  defines "c \<equiv> cells (restore_factory_settings (chip m k))"
  shows "k = 0 \<or> k = 1 \<and> m ! 0 = 0x16 \<Longrightarrow> c = m" "k = 1 \<Longrightarrow> m ! 0 \<noteq> 0x16 \<Longrightarrow> recovering m c"
    "2 \<le> k \<Longrightarrow> k < 56 \<Longrightarrow> resetting m c" "56 \<le> k \<Longrightarrow> c = factory_reset m"
proof -
  have len: "length c = 2048"
    using m(1) by (simp add: c_def)
  have nth: "c ! i = (if i = 0 then if 1 \<le> k then 0x16 else m ! 0
     else if i = 1 then if 56 \<le> k then 0x6A else if 2 \<le> k then 0x65 else m ! 1
     else if 12 \<le> i \<and> i < 64 \<and> i < k + 10 then c_FactorySetting ! i else m ! i)" if "i < 2048" for i
    using restore_nth [OF m(1) that, of k] by (simp add: c_def)
  have m01: "m ! 0 \<noteq> 0x16 \<Longrightarrow> m ! Suc 0 = 0x60"
    using m(1,3) by (auto simp: settled_def markers take_2)
  show "k = 0 \<or> k = 1 \<and> m ! 0 = 0x16 \<Longrightarrow> c = m"
    by (rule nth_equalityI) (use len m(1) nth in auto)
  show "k = 1 \<Longrightarrow> m ! 0 \<noteq> 0x16 \<Longrightarrow> recovering m c"
    using len nth m01 by (auto simp: recovering_def mixed_def take_2)
  show "2 \<le> k \<Longrightarrow> k < 56 \<Longrightarrow> resetting m c"
    using len nth by (auto simp: resetting_def mixed_def markers take_2)
  show "56 \<le> k \<Longrightarrow> c = factory_reset m"
    by (rule nth_equalityI) (use len m(1) nth in \<open>auto simp: reset_nth\<close>)
qed

text \<open>
  C9. A factory reset whose power fails after k bytes, then any number of starts cut off at any
  byte, then a start that is not: the memory is as before the reset when its marker was not
  reached; it is the factory reset, which keeps the protected part with the password, when the
  marker was written; and when the power failed between the two bytes of the marker, everything
  has been reset, the password included. Nothing in between is possible.
\<close>

theorem factory_reset_survives:
  assumes "length m = 2048" "values_ok m" "settled m" "starts (cells (restore_factory_settings (chip m k))) c"
    and "66 \<le> n" "global_init e t8 t32 tf g (chip c n) = Some (g', d)"
  shows "cells d = (if k = 0 \<or> k = 1 \<and> m ! 0 = 0x16 then m else if k = 1 then full_reset m else factory_reset m)"
proof -
  note cut = cut_reset [OF assms(1-3), of k]
  consider "k = 0 \<or> k = 1 \<and> m ! 0 = 0x16" | "k = 1" "m ! 0 \<noteq> 0x16" | "2 \<le> k"
    by linarith
  then show ?thesis
  proof cases
    case 1
    then have "c = m"
      using starts_settled assms cut(1) by metis
    then show ?thesis
      using 1 settled_step assms by auto
  next
    case 2
    then have "recovering m c \<or> c = full_reset m"
      using starts_recovering [OF assms(4,1,2)] cut(2) by simp
    then have "cells d = full_reset m"
      using recovering_step [OF assms(1,2) _ assms(6)] settled_step [OF _ _ _ assms(6)] assms(1,5)
      by (auto simp: settled_resets reset_values)
    then show ?thesis
      using 2 by auto
  next
    case 3
    have "resetting m c \<or> c = factory_reset m"
      using starts_resetting [OF assms(4,1,2)] cut(3,4) 3 by (cases "k < 56") auto
    then have "cells d = factory_reset m"
      using resetting_step [OF assms(1,2) _ assms(6)] settled_step [OF _ _ _ assms(6)] assms(1,2,5)
      by (auto simp: settled_resets reset_values)
    then show ?thesis
      using 3 by auto
  qed
qed

section \<open>Examples\<close>

definition new_memory :: "u8 list" where
  "new_memory = c_FactorySetting @ replicate 1984 0"

definition no_settings :: GlobalDef where
  "no_settings = \<lparr>is_disp_reverse = 0, language = 0, comm_format = 0, comm_baud = 0, comm_parity = 0, comm_device_id = 0,
     password = 0, password_buf = [], display_unit = 0, temp = 0, temp_compensate = 0, is_relay_test = 0,
     relay_1_alarm_type = 0, relay_1_alarm_val = 0, relay_1_alarm_delay = 0, relay_2_alarm_type = 0,
     relay_2_alarm_val = 0, relay_2_alarm_delay = 0, clean_interval = 0, clean_time = 0, backlight = 0,
     zhuodu_data = \<lparr>canbi_set = 0, bright_range = 0, zd_temp = 0, coeff_a1 = 0, coeff_b1 = 0, coeff_a2 = 0, coeff_b2 = 0,
       coeff_a3 = 0, coeff_b3 = 0, coeff_a1k1 = 0, seg_range_1 = 0, seg_range_2 = 0, range_sel = 0, a2_zero = 0,
       num_cali = 0, seg_range_3 = 0, seg_range_4 = 0, coeff_a4 = 0, coeff_b4 = 0\<rparr>\<rparr>"

lemma new_memory_ok: "length new_memory = 2048" "values_ok new_memory" "settled new_memory" "new_memory ! 0 = 0xB6"
proof -
  show l: "length new_memory = 2048" "new_memory ! 0 = 0xB6"
    by (simp_all add: new_memory_def factory)
  have "new_memory = full_reset new_memory"
    by (simp add: new_memory_def full_reset_def)
  then show "values_ok new_memory" "settled new_memory"
    using reset_values(2) settled_resets(2) l(1) by metis+
qed


theorem factory_reset_survives_witness:
  "\<exists>g' d. global_init 0 0 0 0 no_settings (chip (cells (restore_factory_settings (chip new_memory 20))) 100) = Some (g', d)
    \<and> cells d = factory_reset new_memory"
proof -
  let ?c = "cells (restore_factory_settings (chip new_memory 20))"
  obtain g' d where run: "global_init 0 0 0 0 no_settings (chip ?c 100) = Some (g', d)"
    using global_init_returns [of "chip ?c 100" 0 0 0 0 no_settings] new_memory_ok(1) by auto
  show ?thesis
    using factory_reset_survives [OF new_memory_ok(1-3) starts.none _ run] run by auto
qed

end
