(* ===== verification/Config_Start.thy ===== *)
theory Config_Start
  imports Config_Power Mb_Slave
begin

text \<open>The Modbus slave is started with the stored configuration: \<open>modbus_s_thread_entry\<close> of \<^verbatim>\<open>main_app.c\<close>.\<close>

section \<open>The start of the slave\<close>

text \<open>
  \<open>modbus_s_thread_entry\<close>. \<open>baud\<close> has no value when the number of the baud rate is above 5; the
  numbers of the format and of the parity are the codes of \<open>eMBMode\<close> and \<open>eMBParity\<close>.
\<close>

definition baud_of :: "u8 \<Rightarrow> u32 option" where
  "baud_of b = (if b = 0 then Some 1200 else if b = 1 then Some 2400 else if b = 2 then Some 4800
     else if b = 3 then Some 9600 else if b = 4 then Some 19200 else if b = 5 then Some 38400 else None)"

definition mode_of :: "u8 \<Rightarrow> eMBMode option" where
  "mode_of f = (if f = 0 then Some MB_RTU else if f = 1 then Some MB_ASCII else if f = 2 then Some MB_TCP else None)"

definition parity_of :: "u8 \<Rightarrow> eMBParity option" where
  "parity_of p = (if p = 0 then Some MB_PAR_NONE else if p = 1 then Some MB_PAR_ODD else if p = 2 then Some MB_PAR_EVEN else None)"

definition start_slave :: "bool \<Rightarrow> GlobalDef \<Rightarrow> slave_state \<Rightarrow> (eMBErrorCode \<times> slave_state) option" where
  "start_slave opened g s = do {
     baud \<leftarrow> baud_of (comm_baud g);
     mode \<leftarrow> mode_of (comm_format g);
     parity \<leftarrow> parity_of (comm_parity g);
     (_, s) \<leftarrow> eMBInit opened mode (comm_device_id g) 3 baud parity s;
     eMBEnable s
   }"


lemma u8_cases:
  fixes x :: u8
  shows "x \<le> 1 \<Longrightarrow> x = 0 \<or> x = 1" "x \<le> 2 \<Longrightarrow> x = 0 \<or> x = 1 \<or> x = 2"
    "x \<le> 5 \<Longrightarrow> x = 0 \<or> x = 1 \<or> x = 2 \<or> x = 3 \<or> x = 4 \<or> x = 5"
  by (unfold word_le_nat_alt word_unat_eq_iff, simp_all, arith+)

lemma rtu_init_accepts:
  assumes "baud \<noteq> 0"
  obtains r where "eMBRTUInit True addr 3 baud parity r0 = Some (MB_ENOERR, r)"
  using assms by (auto simp: eMBRTUInit_def xMBPortSerialInit_def xMBPortTimersInit_def)

text \<open>
  C33. With settings that a start has loaded, the slave gets running exactly when the format is RTU
  and the address is not 0. Otherwise, as with the ASCII format that the menu offers, the settings
  are accepted but \<open>eMBInit\<close> refuses them, \<open>eMBEnable\<close> fails, and every poll returns at once with
  an error, so the loop of the thread never blocks again.
\<close>

theorem stored_settings_start:
  assumes "settings_ok g" "eMBState s = STATE_NOT_INITIALIZED"
  shows "\<exists>e s'. start_slave True g s = Some (e, s')
    \<and> (e = MB_ENOERR \<longleftrightarrow> comm_format g = 0 \<and> comm_device_id g \<noteq> 0)
    \<and> (e = MB_ENOERR \<longrightarrow> eMBState s' = STATE_ENABLED \<and> ucMBAddress s' = comm_device_id g)
    \<and> (e \<noteq> MB_ENOERR \<longrightarrow> eMBPoll s' = Some (Returned MB_EILLSTATE, s'))"
proof -
  have r: "comm_format g \<le> 1" "comm_baud g \<le> 5" "comm_parity g \<le> 2" "comm_device_id g \<le> 247"
    using assms(1) by (simp_all add: settings_ok_def)
  have id: "comm_device_id g < 1 \<longleftrightarrow> comm_device_id g = 0" "\<not> 247 < comm_device_id g"
    using r(4) by (simp_all add: word_less_1)
  obtain baud where baud: "baud_of (comm_baud g) = Some baud" "baud \<noteq> 0"
    using u8_cases(3) [OF r(2)] by (auto simp: baud_of_def)
  obtain parity where parity: "parity_of (comm_parity g) = Some parity"
    using u8_cases(2) [OF r(3)] by (auto simp: parity_of_def)
  obtain r1 where r1: "eMBRTUInit True (comm_device_id g) 3 baud parity (rtu s) = Some (MB_ENOERR, r1)"
    using rtu_init_accepts [OF baud(2)] .
  show ?thesis
    using u8_cases(1) [OF r(1)] baud parity assms(2) id r1
    by (auto simp: start_slave_def mode_of_def eMBInit_def eMBEnable_def eMBPoll_def address_defs
        xMBPortEventInit_def)
qed

definition ascii_settings :: GlobalDef where
  "ascii_settings = default_init no_settings\<lparr>password_buf := six_digits 10000, comm_format := 1\<rparr>"

theorem stored_settings_start_witness:
  "\<exists>e s'. start_slave True ascii_settings slave_boot = Some (e, s')
    \<and> (e = MB_ENOERR \<longleftrightarrow> comm_format ascii_settings = 0
        \<and> comm_device_id ascii_settings \<noteq> 0)
    \<and> (e = MB_ENOERR \<longrightarrow> eMBState s' = STATE_ENABLED
        \<and> ucMBAddress s' = comm_device_id ascii_settings)
    \<and> (e \<noteq> MB_ENOERR \<longrightarrow> eMBPoll s' = Some (Returned MB_EILLSTATE, s'))"
  by (rule stored_settings_start)
    (simp_all add: slave_boot_def settings_ok_def ascii_settings_def default_init_def no_settings_def
      six_digits_def upt_rec)

end
