(* ===== verification/Mbm_Rtu.thy ===== *)
theory Mbm_Rtu
  imports Mb_Slave
begin

text \<open>
  The RTU framing of the Modbus master, \<^verbatim>\<open>components/net/freemodbus/modbus/rtu/mbrtu_m.c\<close>, and its
  port: \<^verbatim>\<open>port/portserial_m.c\<close>, \<^verbatim>\<open>port/porttimer_m.c\<close>, \<^verbatim>\<open>port/portevent_m.c\<close>.

  The static variables of these files and of \<^verbatim>\<open>mb_m.c\<close> are the fields of one record. A pointer to
  a frame says which of the two buffers it points into, always at index 1. The names
  \<open>eSndState\<close> and \<open>eRcvState\<close>, which the slave has too, are \<open>mSndState\<close> and \<open>mRcvState\<close> here.
\<close>

section \<open>State\<close>

datatype eMBMasterRcvState = STATE_M_RX_INIT | STATE_M_RX_IDLE | STATE_M_RX_RCV | STATE_M_RX_ERROR

datatype eMBMasterSndState = STATE_M_TX_IDLE | STATE_M_TX_XMIT | STATE_M_TX_XFWR

datatype eMBMasterTimerMode = MB_TMODE_T35 | MB_TMODE_RESPOND_TIMEOUT | MB_TMODE_CONVERT_DELAY

datatype eMBMasterEventType =
  EV_MASTER_READY | EV_MASTER_FRAME_RECEIVED | EV_MASTER_EXECUTE | EV_MASTER_FRAME_SENT
| EV_MASTER_ERROR_PROCESS | EV_MASTER_PROCESS_SUCESS | EV_MASTER_ERROR_RESPOND_TIMEOUT
| EV_MASTER_ERROR_RECEIVE_DATA | EV_MASTER_ERROR_EXECUTE_FUNCTION

fun master_event_bit :: "eMBMasterEventType \<Rightarrow> u32" where
  "master_event_bit EV_MASTER_READY = 1"
| "master_event_bit EV_MASTER_FRAME_RECEIVED = 2"
| "master_event_bit EV_MASTER_EXECUTE = 4"
| "master_event_bit EV_MASTER_FRAME_SENT = 8"
| "master_event_bit EV_MASTER_ERROR_PROCESS = 16"
| "master_event_bit EV_MASTER_PROCESS_SUCESS = 32"
| "master_event_bit EV_MASTER_ERROR_RESPOND_TIMEOUT = 64"
| "master_event_bit EV_MASTER_ERROR_RECEIVE_DATA = 128"
| "master_event_bit EV_MASTER_ERROR_EXECUTE_FUNCTION = 256"

datatype eMBMasterErrorEventType =
  EV_ERROR_RESPOND_TIMEOUT | EV_ERROR_RECEIVE_DATA | EV_ERROR_EXECUTE_FUNCTION

datatype eMBMasterReqErrCode =
  MB_MRE_NO_ERR | MB_MRE_NO_REG | MB_MRE_ILL_ARG | MB_MRE_REV_DATA | MB_MRE_TIMEDOUT
| MB_MRE_MASTER_BUSY | MB_MRE_EXE_FUN

datatype frame_ptr = In_Snd | In_Rcv

record master =
  mState :: eMBState_t
  m_functions :: bool \<comment> \<open>the function pointers of \<^verbatim>\<open>mb_m.c\<close> have been set\<close>
  ucMBMasterDestAddress :: u8
  xMBRunInMasterMode :: bool
  eMBMasterCurErrorType :: eMBMasterErrorEventType
  mFrame :: "frame_ptr option" \<comment> \<open>\<open>ucMBFrame\<close> of \<open>eMBMasterPoll\<close>\<close>
  mRcvAddress :: u8
  mFunctionCode :: u8
  mLength :: u16
  mException :: u8
  m_serial :: "u8 option"
  m_baud :: u32
  m_data_bits :: nat
  m_parity :: eMBParity
  m_rx_enabled :: bool
  m_tx_start :: bool \<comment> \<open>\<open>EVENT_SERIAL_TRANS_START\<close>\<close>
  m_line_out :: "u8 list"
  usT35TimeOut50us :: u16
  m_timer_tick :: nat
  m_timer_running :: bool
  xMasterOsEvent :: u32
  xMasterRunRes :: u16
  mSndState :: eMBMasterSndState
  mRcvState :: eMBMasterRcvState
  ucMasterRTUSndBuf :: "u8 list"
  ucMasterRTURcvBuf :: "u8 list"
  usMasterSendPDULength :: u16
  pucMasterSndBufferCur :: nat
  usMasterSndBufferCount :: u16
  usMasterRcvBufferPos :: u16
  xFrameIsBroadcast :: bool
  eMasterCurTimerMode :: eMBMasterTimerMode

definition MB_MASTER_TOTAL_SLAVE_NUM :: u8 where "MB_MASTER_TOTAL_SLAVE_NUM = 8"
definition MB_MASTER_DELAY_MS_CONVERT :: nat where "MB_MASTER_DELAY_MS_CONVERT = 200"
definition MB_MASTER_TIMEOUT_MS_RESPOND :: nat where "MB_MASTER_TIMEOUT_MS_RESPOND = 150"
definition MB_PDU_SIZE_MAX :: nat where "MB_PDU_SIZE_MAX = 253"

text \<open>The values the C start-up code gives the static variables of these files.\<close>

definition master_boot :: master where
  "master_boot = \<lparr>mState = STATE_NOT_INITIALIZED, m_functions = False, ucMBMasterDestAddress = 0, xMBRunInMasterMode = False,
     eMBMasterCurErrorType = EV_ERROR_RESPOND_TIMEOUT, mFrame = None, mRcvAddress = 0, mFunctionCode = 0,
     mLength = 0, mException = 0, m_serial = None, m_baud = 0, m_data_bits = 0, m_parity = MB_PAR_NONE,
     m_rx_enabled = False, m_tx_start = False, m_line_out = [], usT35TimeOut50us = 0, m_timer_tick = 0, m_timer_running = False,
     xMasterOsEvent = 0, xMasterRunRes = 0, mSndState = STATE_M_TX_IDLE, mRcvState = STATE_M_RX_INIT,
     ucMasterRTUSndBuf = replicate MB_PDU_SIZE_MAX 0, ucMasterRTURcvBuf = replicate 256 0, usMasterSendPDULength = 0,
     pucMasterSndBufferCur = 0, usMasterSndBufferCount = 0, usMasterRcvBufferPos = 0, xFrameIsBroadcast = False,
     eMasterCurTimerMode = MB_TMODE_T35\<rparr>"

section \<open>The port\<close>

text \<open>\<^verbatim>\<open>port/portserial_m.c\<close>. \<open>opened\<close> is the outcome of \<open>rt_device_open\<close>.\<close>

definition xMBMasterPortSerialInit ::
  "bool \<Rightarrow> u8 \<Rightarrow> u32 \<Rightarrow> u8 \<Rightarrow> eMBParity \<Rightarrow> master \<Rightarrow> (bool \<times> master) option" where
  "xMBMasterPortSerialInit opened ucPORT ulBaudRate ucDataBits eParity s = do {
     let dev = (if ucPORT = 1 then Some 1 else if ucPORT = 2 then Some 2
                else if ucPORT = 3 then Some 3 else m_serial s);
     c_assert (dev \<noteq> None);
     let s = s\<lparr>m_serial := dev, m_baud := ulBaudRate,
               m_data_bits := (if eParity = MB_PAR_NONE then 8 else 9), m_parity := eParity\<rparr>;
     if opened then Some (True, s\<lparr>m_tx_start := False\<rparr>) else Some (False, s)
   }"

definition vMBMasterPortSerialEnable :: "bool \<Rightarrow> bool \<Rightarrow> master \<Rightarrow> master" where
  "vMBMasterPortSerialEnable xRxEnable xTxEnable s = s\<lparr>m_rx_enabled := xRxEnable, m_tx_start := xTxEnable\<rparr>"

definition xMBMasterPortSerialPutByte :: "u8 \<Rightarrow> master \<Rightarrow> master" where
  "xMBMasterPortSerialPutByte ucByte s = s\<lparr>m_line_out := m_line_out s @ [ucByte]\<rparr>"

text \<open>\<^verbatim>\<open>port/porttimer_m.c\<close>: one tick is 1 ms. One timer serves for three times.\<close>

definition xMBMasterPortTimersInit :: "u16 \<Rightarrow> master \<Rightarrow> bool \<times> master" where
  "xMBMasterPortTimersInit usTimeOut50us s =
     (True, s\<lparr>usT35TimeOut50us := usTimeOut50us,
              m_timer_tick := 50 * unat usTimeOut50us div (1000 * 1000 div 1000) + 1, m_timer_running := False\<rparr>)"

definition vMBMasterSetCurTimerMode :: "eMBMasterTimerMode \<Rightarrow> master \<Rightarrow> master" where
  "vMBMasterSetCurTimerMode m s = s\<lparr>eMasterCurTimerMode := m\<rparr>"

definition start_master_timer :: "nat \<Rightarrow> master \<Rightarrow> master" where
  "start_master_timer tick s = s\<lparr>m_timer_tick := tick, m_timer_running := True\<rparr>"

definition vMBMasterPortTimersT35Enable :: "master \<Rightarrow> master" where
  "vMBMasterPortTimersT35Enable s =
     start_master_timer (50 * unat (usT35TimeOut50us s) div (1000 * 1000 div 1000)) (vMBMasterSetCurTimerMode MB_TMODE_T35 s)"

definition vMBMasterPortTimersConvertDelayEnable :: "master \<Rightarrow> master" where
  "vMBMasterPortTimersConvertDelayEnable s =
     start_master_timer (MB_MASTER_DELAY_MS_CONVERT * 1000 div 1000) (vMBMasterSetCurTimerMode MB_TMODE_CONVERT_DELAY s)"

definition vMBMasterPortTimersRespondTimeoutEnable :: "master \<Rightarrow> master" where
  "vMBMasterPortTimersRespondTimeoutEnable s =
     start_master_timer (MB_MASTER_TIMEOUT_MS_RESPOND * 1000 div 1000) (vMBMasterSetCurTimerMode MB_TMODE_RESPOND_TIMEOUT s)"

definition vMBMasterPortTimersDisable :: "master \<Rightarrow> master" where
  "vMBMasterPortTimersDisable s = s\<lparr>m_timer_running := False\<rparr>"

text \<open>
  \<^verbatim>\<open>port/portevent_m.c\<close>. The poll thread and the thread with the request wait for different flags of
  one event set. \<open>xMBMasterRunResTake\<close> is the take when it comes through: \<open>False\<close> means that
  the time of the caller was over.
\<close>

definition xMBMasterPortEventInit :: "master \<Rightarrow> bool \<times> master" where
  "xMBMasterPortEventInit s = (True, s\<lparr>xMasterOsEvent := 0\<rparr>)"

definition xMBMasterPortEventPost :: "eMBMasterEventType \<Rightarrow> master \<Rightarrow> bool \<times> master" where
  "xMBMasterPortEventPost e s = (True, s\<lparr>xMasterOsEvent := xMasterOsEvent s OR master_event_bit e\<rparr>)"

definition master_event_of :: "u32 \<Rightarrow> eMBMasterEventType option" where
  "master_event_of recvedEvent =
     (if recvedEvent = 1 then Some EV_MASTER_READY else if recvedEvent = 2 then Some EV_MASTER_FRAME_RECEIVED
      else if recvedEvent = 4 then Some EV_MASTER_EXECUTE else if recvedEvent = 8 then Some EV_MASTER_FRAME_SENT
      else if recvedEvent = 16 then Some EV_MASTER_ERROR_PROCESS else None)"

definition xMBMasterPortEventGet :: "master \<Rightarrow> eMBMasterEventType option blocking \<times> master" where
  "xMBMasterPortEventGet s =
     (let recvedEvent = xMasterOsEvent s AND 31 in
      if recvedEvent = 0 then (Blocked, s)
      else (Returned (master_event_of recvedEvent), s\<lparr>xMasterOsEvent := xMasterOsEvent s AND NOT 31\<rparr>))"

definition vMBMasterOsResInit :: "master \<Rightarrow> master" where
  "vMBMasterOsResInit s = s\<lparr>xMasterRunRes := 1\<rparr>"

definition xMBMasterRunResTake :: "master \<Rightarrow> bool \<times> master" where
  "xMBMasterRunResTake s =
     (if xMasterRunRes s > 0 then (True, s\<lparr>xMasterRunRes := xMasterRunRes s - 1\<rparr>) else (False, s))"

definition vMBMasterRunResRelease :: "master \<Rightarrow> master" where
  "vMBMasterRunResRelease s = s\<lparr>xMasterRunRes := xMasterRunRes s + 1\<rparr>"

definition vMBMasterErrorCBRespondTimeout :: "master \<Rightarrow> master" where
  "vMBMasterErrorCBRespondTimeout s = snd (xMBMasterPortEventPost EV_MASTER_ERROR_RESPOND_TIMEOUT s)"

definition vMBMasterErrorCBReceiveData :: "master \<Rightarrow> master" where
  "vMBMasterErrorCBReceiveData s = snd (xMBMasterPortEventPost EV_MASTER_ERROR_RECEIVE_DATA s)"

definition vMBMasterErrorCBExecuteFunction :: "master \<Rightarrow> master" where
  "vMBMasterErrorCBExecuteFunction s = snd (xMBMasterPortEventPost EV_MASTER_ERROR_EXECUTE_FUNCTION s)"

definition vMBMasterCBRequestScuuess :: "master \<Rightarrow> master" where
  "vMBMasterCBRequestScuuess s = snd (xMBMasterPortEventPost EV_MASTER_PROCESS_SUCESS s)"

text \<open>Of several flags none matches: the result is then that of success.\<close>

definition eMBMasterWaitRequestFinish :: "master \<Rightarrow> eMBMasterReqErrCode blocking \<times> master" where
  "eMBMasterWaitRequestFinish s =
     (let recvedEvent = xMasterOsEvent s AND 480 in
      if recvedEvent = 0 then (Blocked, s)
      else (Returned (if recvedEvent = 32 then MB_MRE_NO_ERR else if recvedEvent = 64 then MB_MRE_TIMEDOUT
                      else if recvedEvent = 128 then MB_MRE_REV_DATA else if recvedEvent = 256 then MB_MRE_EXE_FUN
                      else MB_MRE_NO_ERR),
            s\<lparr>xMasterOsEvent := xMasterOsEvent s AND NOT 480\<rparr>))"

text \<open>Accessors of \<^verbatim>\<open>mb_m.c\<close> and \<^verbatim>\<open>mbrtu_m.c\<close> that other files set the statics with.\<close>

definition vMBMasterSetDestAddress :: "u8 \<Rightarrow> master \<Rightarrow> master" where
  "vMBMasterSetDestAddress a s = s\<lparr>ucMBMasterDestAddress := a\<rparr>"

definition vMBMasterSetErrorType :: "eMBMasterErrorEventType \<Rightarrow> master \<Rightarrow> master" where
  "vMBMasterSetErrorType e s = s\<lparr>eMBMasterCurErrorType := e\<rparr>"

definition vMBMasterSetCBRunInMasterMode :: "bool \<Rightarrow> master \<Rightarrow> master" where
  "vMBMasterSetCBRunInMasterMode b s = s\<lparr>xMBRunInMasterMode := b\<rparr>"

definition vMBMasterSetPDUSndLength :: "u16 \<Rightarrow> master \<Rightarrow> master" where
  "vMBMasterSetPDUSndLength n s = s\<lparr>usMasterSendPDULength := n\<rparr>"

lemmas master_port_defs =
  vMBMasterPortSerialEnable_def xMBMasterPortSerialPutByte_def vMBMasterSetCurTimerMode_def start_master_timer_def
  vMBMasterPortTimersT35Enable_def vMBMasterPortTimersConvertDelayEnable_def vMBMasterPortTimersRespondTimeoutEnable_def
  vMBMasterPortTimersDisable_def xMBMasterPortEventPost_def vMBMasterRunResRelease_def vMBMasterErrorCBRespondTimeout_def
  vMBMasterErrorCBReceiveData_def vMBMasterErrorCBExecuteFunction_def vMBMasterCBRequestScuuess_def
  vMBMasterSetDestAddress_def vMBMasterSetErrorType_def vMBMasterSetCBRunInMasterMode_def vMBMasterSetPDUSndLength_def

lemmas master_const_defs = MB_MASTER_TOTAL_SLAVE_NUM_def MB_MASTER_DELAY_MS_CONVERT_def
  MB_MASTER_TIMEOUT_MS_RESPOND_def MB_PDU_SIZE_MAX_def

section \<open>mbrtu_m.c\<close>

definition eMBMasterRTUInit ::
  "bool \<Rightarrow> u8 \<Rightarrow> u32 \<Rightarrow> eMBParity \<Rightarrow> master \<Rightarrow> (eMBErrorCode \<times> master) option" where
  "eMBMasterRTUInit opened ucPort ulBaudRate eParity s = do {
     (ok, s) \<leftarrow> xMBMasterPortSerialInit opened ucPort ulBaudRate 8 eParity s;
     if \<not> ok then Some (MB_EPORTERR, s)
     else do {
       c_assert (ulBaudRate \<noteq> 0);
       let usTimerT35_50us = (if ulBaudRate > 19200 then 35
                              else of_nat ((7 * 220000) div unat (2 * ulBaudRate)) :: u32);
       let (ok, s) = xMBMasterPortTimersInit (ucast usTimerT35_50us) s;
       if \<not> ok then Some (MB_EPORTERR, s) else Some (MB_ENOERR, s)
     }
   }"

definition eMBMasterRTUStart :: "master \<Rightarrow> master" where
  "eMBMasterRTUStart s =
     vMBMasterPortTimersT35Enable (vMBMasterPortSerialEnable True False (s\<lparr>mRcvState := STATE_M_RX_INIT\<rparr>))"

definition eMBMasterRTUStop :: "master \<Rightarrow> master" where
  "eMBMasterRTUStop s = vMBMasterPortTimersDisable (vMBMasterPortSerialEnable False False s)"

definition eMBMasterRTUReceive :: "master \<Rightarrow> (eMBErrorCode \<times> (u8 \<times> frame_ptr \<times> u16) option) option" where
  "eMBMasterRTUReceive s = do {
     c_assert (usMasterRcvBufferPos s < MB_SER_PDU_SIZE_MAX);
     if usMasterRcvBufferPos s \<ge> MB_SER_PDU_SIZE_MIN
     then do {
       crc \<leftarrow> usMBCRC16 (ucMasterRTURcvBuf s) 0 (usMasterRcvBufferPos s);
       if crc = 0
       then do {
         addr \<leftarrow> rd (ucMasterRTURcvBuf s) MB_SER_PDU_ADDR_OFF;
         Some (MB_ENOERR, Some (addr, In_Rcv,
                                usMasterRcvBufferPos s - of_nat MB_SER_PDU_PDU_OFF - MB_SER_PDU_SIZE_CRC))
       }
       else Some (MB_EIO, None)
     }
     else Some (MB_EIO, None)
   }"

text \<open>\<open>pucFrame\<close> is an index into \<open>ucMasterRTUSndBuf\<close>, which holds 253 bytes.\<close>

definition eMBMasterRTUSend :: "u8 \<Rightarrow> nat \<Rightarrow> u16 \<Rightarrow> master \<Rightarrow> (eMBErrorCode \<times> master) option" where
  "eMBMasterRTUSend ucSlaveAddress pucFrame len s =
     (if ucSlaveAddress > MB_MASTER_TOTAL_SLAVE_NUM then Some (MB_EINVAL, s)
      else if mRcvState s = STATE_M_RX_IDLE
      then do {
        c_assert (1 \<le> pucFrame);
        let cur = pucFrame - 1;
        buf \<leftarrow> wr (ucMasterRTUSndBuf s) (cur + MB_SER_PDU_ADDR_OFF) ucSlaveAddress;
        let cnt = 1 + len;
        usCRC16 \<leftarrow> usMBCRC16 buf cur cnt;
        buf \<leftarrow> wr buf (unat cnt) (lo8 usCRC16);
        buf \<leftarrow> wr buf (unat (cnt + 1)) (hi8 usCRC16);
        Some (MB_ENOERR, vMBMasterPortSerialEnable False True
          (s\<lparr>pucMasterSndBufferCur := cur, ucMasterRTUSndBuf := buf, usMasterSndBufferCount := cnt + 2,
             mSndState := STATE_M_TX_XMIT\<rparr>))
      }
      else Some (MB_EIO, s))"

definition xMBMasterRTUReceiveFSM :: "u8 \<Rightarrow> master \<Rightarrow> (bool \<times> master) option" where
  "xMBMasterRTUReceiveFSM ucByte s = do {
     c_assert (mSndState s = STATE_M_TX_IDLE \<or> mSndState s = STATE_M_TX_XFWR);
     case mRcvState s of
       STATE_M_RX_INIT \<Rightarrow> Some (False, vMBMasterPortTimersT35Enable s)
     | STATE_M_RX_ERROR \<Rightarrow> Some (False, vMBMasterPortTimersT35Enable s)
     | STATE_M_RX_IDLE \<Rightarrow> do {
         let s = (vMBMasterPortTimersDisable s)\<lparr>mSndState := STATE_M_TX_IDLE\<rparr>;
         buf \<leftarrow> wr (ucMasterRTURcvBuf s) 0 ucByte;
         Some (False, vMBMasterPortTimersT35Enable
           (s\<lparr>ucMasterRTURcvBuf := buf, usMasterRcvBufferPos := 1, mRcvState := STATE_M_RX_RCV\<rparr>))
       }
     | STATE_M_RX_RCV \<Rightarrow>
         if usMasterRcvBufferPos s < MB_SER_PDU_SIZE_MAX
         then do {
           buf \<leftarrow> wr (ucMasterRTURcvBuf s) (unat (usMasterRcvBufferPos s)) ucByte;
           Some (False, vMBMasterPortTimersT35Enable
             (s\<lparr>ucMasterRTURcvBuf := buf, usMasterRcvBufferPos := usMasterRcvBufferPos s + 1\<rparr>))
         }
         else Some (False, vMBMasterPortTimersT35Enable (s\<lparr>mRcvState := STATE_M_RX_ERROR\<rparr>))
   }"

definition xMBMasterRTUTransmitFSM :: "master \<Rightarrow> (bool \<times> master) option" where
  "xMBMasterRTUTransmitFSM s = do {
     c_assert (mRcvState s = STATE_M_RX_IDLE);
     case mSndState s of
       STATE_M_TX_IDLE \<Rightarrow> Some (False, vMBMasterPortSerialEnable True False s)
     | STATE_M_TX_XMIT \<Rightarrow>
         if usMasterSndBufferCount s \<noteq> 0
         then do {
           b \<leftarrow> rd (ucMasterRTUSndBuf s) (pucMasterSndBufferCur s);
           Some (False, (xMBMasterPortSerialPutByte b s)
             \<lparr>pucMasterSndBufferCur := pucMasterSndBufferCur s + 1,
              usMasterSndBufferCount := usMasterSndBufferCount s - 1\<rparr>)
         }
         else do {
           b \<leftarrow> rd (ucMasterRTUSndBuf s) MB_SER_PDU_ADDR_OFF;
           let s = (vMBMasterPortSerialEnable True False (s\<lparr>xFrameIsBroadcast := (b = MB_ADDRESS_BROADCAST)\<rparr>))
                     \<lparr>mSndState := STATE_M_TX_XFWR\<rparr>;
           Some (False, if xFrameIsBroadcast s then vMBMasterPortTimersConvertDelayEnable s
                        else vMBMasterPortTimersRespondTimeoutEnable s)
         }
     | STATE_M_TX_XFWR \<Rightarrow> Some (False, s)
   }"

definition xMBMasterRTUTimerExpired :: "master \<Rightarrow> (bool \<times> master) option" where
  "xMBMasterRTUTimerExpired s = do {
     let (np, s) = (case mRcvState s of
          STATE_M_RX_INIT \<Rightarrow> xMBMasterPortEventPost EV_MASTER_READY s
        | STATE_M_RX_RCV \<Rightarrow> xMBMasterPortEventPost EV_MASTER_FRAME_RECEIVED s
        | STATE_M_RX_ERROR \<Rightarrow> xMBMasterPortEventPost EV_MASTER_ERROR_PROCESS (vMBMasterSetErrorType EV_ERROR_RECEIVE_DATA s)
        | STATE_M_RX_IDLE \<Rightarrow> (False, s));
     let s = s\<lparr>mRcvState := STATE_M_RX_IDLE\<rparr>;
     (np, s) \<leftarrow> (case mSndState s of
          STATE_M_TX_XFWR \<Rightarrow>
            Some (if \<not> xFrameIsBroadcast s
                  then xMBMasterPortEventPost EV_MASTER_ERROR_PROCESS (vMBMasterSetErrorType EV_ERROR_RESPOND_TIMEOUT s)
                  else (np, s))
        | STATE_M_TX_IDLE \<Rightarrow> Some (np, s)
        | STATE_M_TX_XMIT \<Rightarrow> None);
     let s = vMBMasterPortTimersDisable (s\<lparr>mSndState := STATE_M_TX_IDLE\<rparr>);
     Some (if eMasterCurTimerMode s = MB_TMODE_CONVERT_DELAY then xMBMasterPortEventPost EV_MASTER_EXECUTE s else (np, s))
   }"

end
