(* ===== verification/Mbm_Func.thy ===== *)
theory Mbm_Func
  imports Mbm_Rtu
begin

text \<open>
  What the Modbus master does with requests and replies: the register callbacks of
  \<^verbatim>\<open>port/user_mb_app_m.c\<close>, and the requests and reply handlers of \<^verbatim>\<open>mbfuncholding_m.c\<close>,
  \<^verbatim>\<open>mbfuncinput_m.c\<close>, \<^verbatim>\<open>mbfunccoils_m.c\<close>, \<^verbatim>\<open>mbfuncdisc_m.c\<close>.
\<close>

section \<open>The tables\<close>

text \<open>
  One row for each of the eight slaves; a table is the bytes or words of its rows, one after the
  other. \<open>m_zhuodu\<close> is \<open>global.zhuodu_data\<close>, as in \<open>Mb_Regs\<close>.
\<close>

definition M_DISCRETE_INPUT_START :: nat where "M_DISCRETE_INPUT_START = 0"
definition M_DISCRETE_INPUT_NDISCRETES :: nat where "M_DISCRETE_INPUT_NDISCRETES = 16"
definition M_COIL_START :: nat where "M_COIL_START = 0"
definition M_COIL_NCOILS :: nat where "M_COIL_NCOILS = 16"
definition M_REG_INPUT_START :: nat where "M_REG_INPUT_START = 0"
definition M_REG_INPUT_NREGS :: nat where "M_REG_INPUT_NREGS = 100"
definition M_REG_HOLDING_NREGS :: nat where "M_REG_HOLDING_NREGS = 100"

lemmas master_range_defs = M_DISCRETE_INPUT_START_def M_DISCRETE_INPUT_NDISCRETES_def M_COIL_START_def M_COIL_NCOILS_def
  M_REG_INPUT_START_def M_REG_INPUT_NREGS_def M_REG_HOLDING_NREGS_def

record master_regs =
  ucMDiscInBuf :: "u8 list"
  ucMCoilBuf :: "u8 list"
  usMRegInBuf :: "u16 list"
  usMRegHoldBuf :: "u16 list"
  m_zhuodu :: "u16 list"

text \<open>The start of a row; there is none for address 0.\<close>

definition table_row :: "u8 \<Rightarrow> nat \<Rightarrow> nat option" where
  "table_row dest n = do { c_assert (dest \<noteq> 0); Some ((unat dest - 1) * n) }"

section \<open>The register callbacks\<close>

definition eMBMasterRegInputCB ::
  "u8 \<Rightarrow> u8 list \<Rightarrow> nat \<Rightarrow> u16 \<Rightarrow> u16 \<Rightarrow> master_regs \<Rightarrow> (eMBErrorCode \<times> master_regs) option" where
  "eMBMasterRegInputCB dest mem p usAddress usNRegs r = do {
     row \<leftarrow> table_row dest M_REG_INPUT_NREGS;
     let a = unat (usAddress - 1);
     if M_REG_INPUT_START \<le> a \<and> a + unat usNRegs \<le> M_REG_INPUT_START + M_REG_INPUT_NREGS
     then do {
       buf \<leftarrow> bytes_to_regs (usMRegInBuf r) (row + (a - M_REG_INPUT_START)) mem p (unat usNRegs);
       Some (MB_ENOERR, r\<lparr>usMRegInBuf := buf\<rparr>)
     }
     else Some (MB_ENOREG, r)
   }"

text \<open>
  The copy of the table of a slave into \<open>Zhuodu_t\<close>: \<open>p[i] = q[i]\<close>, and \<open>p[i] = q[i + 1]\<close>,
  \<open>p[i + 1] = q[i]\<close> for numbers of two words.
\<close>

fun copy_words :: "u16 list \<Rightarrow> nat \<Rightarrow> u16 list \<Rightarrow> nat \<Rightarrow> nat \<Rightarrow> u16 list option" where
  "copy_words p i q j 0 = Some p"
| "copy_words p i q j (Suc n) = do { v \<leftarrow> rd q j; p \<leftarrow> wr p i v; copy_words p (i + 1) q (j + 1) n }"

fun copy_swapped :: "u16 list \<Rightarrow> nat \<Rightarrow> u16 list \<Rightarrow> nat \<Rightarrow> nat \<Rightarrow> u16 list option" where
  "copy_swapped p i q j 0 = Some p"
| "copy_swapped p i q j (Suc n) = do {
     v \<leftarrow> rd q (j + 1);
     p \<leftarrow> wr p i v;
     v \<leftarrow> rd q j;
     p \<leftarrow> wr p (i + 1) v;
     copy_swapped p (i + 2) q (j + 2) n
   }"

definition publish_100 :: "u16 list \<Rightarrow> nat \<Rightarrow> u16 list \<Rightarrow> u16 list option" where
  "publish_100 q row z = do {
     z \<leftarrow> copy_words z off_canbi_set q row 5;
     let p = off_turbidimeter;
     z \<leftarrow> copy_swapped z p q (row + 5) 12;
     z \<leftarrow> copy_words z (p + 29) q (row + 29) 2;
     z \<leftarrow> copy_swapped z (p + 31) q (row + 31) 1;
     copy_words z (p + 33) q (row + 33) 4
   }"

definition publish_200 :: "u16 list \<Rightarrow> nat \<Rightarrow> u16 list \<Rightarrow> u16 list option" where
  "publish_200 q row z = do {
     let p = off_turbidimeter_cali_buf;
     z \<leftarrow> copy_swapped z p q row 8;
     z \<leftarrow> copy_words z (p + 16) q (row + 16) 2;
     z \<leftarrow> copy_swapped z (p + 18) q (row + 18) 4;
     copy_words z (p + 26) q (row + 26) 3
   }"

text \<open>
  \<open>eMode\<close> is overwritten with \<open>MB_REG_WRITE\<close>: both the values of a reply to a read and those of
  a confirmed write go into the table. Below 0x100 the range is not set (undefined); the range
  and the copy for 0x200 come second in an \<open>if\<close> whose first condition covers them.
\<close>

definition eMBMasterRegHoldingCB ::
  "u8 \<Rightarrow> u8 list \<Rightarrow> nat \<Rightarrow> u16 \<Rightarrow> u16 \<Rightarrow> eMBRegisterMode \<Rightarrow> master_regs \<Rightarrow> (eMBErrorCode \<times> master_regs) option" where
  "eMBMasterRegHoldingCB dest mem p usAddress usNRegs eMode r = do {
     row \<leftarrow> table_row dest M_REG_HOLDING_NREGS;
     let a = unat (usAddress - 1);
     start \<leftarrow> (if a \<ge> 0x100 then Some 0x100 else if a \<ge> 0x200 then Some 0x200 else None);
     if start \<le> a \<and> a + unat usNRegs \<le> start + 100
     then do {
       buf \<leftarrow> bytes_to_regs (usMRegHoldBuf r) (row + (a - start)) mem p (unat usNRegs);
       z \<leftarrow> (if a \<ge> 0x100 then publish_100 buf row (m_zhuodu r)
             else if a \<ge> 0x200 then publish_200 buf row (m_zhuodu r) else Some (m_zhuodu r));
       Some (MB_ENOERR, r\<lparr>usMRegHoldBuf := buf, m_zhuodu := z\<rparr>)
     }
     else Some (MB_ENOREG, r)
   }"

definition eMBMasterRegCoilsCB ::
  "u8 \<Rightarrow> u8 list \<Rightarrow> nat \<Rightarrow> u16 \<Rightarrow> u16 \<Rightarrow> eMBRegisterMode \<Rightarrow> master_regs \<Rightarrow> (eMBErrorCode \<times> master_regs) option" where
  "eMBMasterRegCoilsCB dest mem p usAddress usNCoils eMode r = do {
     row \<leftarrow> table_row dest (M_COIL_NCOILS div 8);
     let a = unat (usAddress - 1);
     if M_COIL_START \<le> a \<and> a + unat usNCoils \<le> M_COIL_START + M_COIL_NCOILS
     then do {
       buf \<leftarrow> write_bits (ucMCoilBuf r) (row + (a - M_COIL_START) div 8) (of_nat ((a - M_COIL_START) mod 8)) mem p (unat usNCoils);
       Some (MB_ENOERR, r\<lparr>ucMCoilBuf := buf\<rparr>)
     }
     else Some (MB_ENOREG, r)
   }"

definition eMBMasterRegDiscreteCB ::
  "u8 \<Rightarrow> u8 list \<Rightarrow> nat \<Rightarrow> u16 \<Rightarrow> u16 \<Rightarrow> master_regs \<Rightarrow> (eMBErrorCode \<times> master_regs) option" where
  "eMBMasterRegDiscreteCB dest mem p usAddress usNDiscrete r = do {
     row \<leftarrow> table_row dest (M_DISCRETE_INPUT_NDISCRETES div 8);
     let a = unat (usAddress - 1);
     if M_DISCRETE_INPUT_START \<le> a \<and> a + unat usNDiscrete \<le> M_DISCRETE_INPUT_START + M_DISCRETE_INPUT_NDISCRETES
     then do {
       buf \<leftarrow> write_bits (ucMDiscInBuf r) (row + (a - M_DISCRETE_INPUT_START) div 8)
                (of_nat ((a - M_DISCRETE_INPUT_START) mod 8)) mem p (unat usNDiscrete);
       Some (MB_ENOERR, r\<lparr>ucMDiscInBuf := buf\<rparr>)
     }
     else Some (MB_ENOREG, r)
   }"

section \<open>Requests\<close>

text \<open>
  What every request does before it waits: it takes the resource, builds the PDU in the send
  buffer and posts the event for the poll thread. \<open>pdu\<close> is \<open>None\<close> when building it would read
  beyond the data of the caller. \<open>Waiting\<close>: \<open>eMBMasterWaitRequestFinish\<close> comes next.
\<close>

datatype request_result = Refused eMBMasterReqErrCode | Waiting

definition issue_request :: "u8 \<Rightarrow> u8 list option \<Rightarrow> master \<Rightarrow> (request_result \<times> master) option" where
  "issue_request ucSndAddr pdu s =
     (let (ok, s) = xMBMasterRunResTake s in
      if \<not> ok then Some (Refused MB_MRE_MASTER_BUSY, s)
      else do {
        let s = vMBMasterSetDestAddress ucSndAddr s;
        pdu \<leftarrow> pdu;
        buf \<leftarrow> copy_bytes (ucMasterRTUSndBuf s) MB_SER_PDU_PDU_OFF pdu 0 (length pdu);
        let s = vMBMasterSetPDUSndLength (of_nat (length pdu)) (s\<lparr>ucMasterRTUSndBuf := buf\<rparr>);
        Some (Waiting, snd (xMBMasterPortEventPost EV_MASTER_FRAME_SENT s))
      })"

definition take_data :: "nat \<Rightarrow> 'a list \<Rightarrow> 'a list option" where
  "take_data n d = (if n \<le> length d then Some (take n d) else None)"

definition eMBMasterReqWriteHoldingRegister :: "u8 \<Rightarrow> u16 \<Rightarrow> u16 \<Rightarrow> master \<Rightarrow> (request_result \<times> master) option" where
  "eMBMasterReqWriteHoldingRegister ucSndAddr usRegAddr usRegData s =
     (if ucSndAddr > MB_MASTER_TOTAL_SLAVE_NUM then Some (Refused MB_MRE_ILL_ARG, s)
      else issue_request ucSndAddr
        (Some [MB_FUNC_WRITE_REGISTER, hi8 usRegAddr, lo8 usRegAddr, hi8 usRegData, lo8 usRegData]) s)"

definition eMBMasterReqWriteMultipleHoldingRegister ::
  "u8 \<Rightarrow> u16 \<Rightarrow> u16 \<Rightarrow> u16 list \<Rightarrow> master \<Rightarrow> (request_result \<times> master) option" where
  "eMBMasterReqWriteMultipleHoldingRegister ucSndAddr usRegAddr usNRegs pusDataBuffer s =
     (if ucSndAddr > MB_MASTER_TOTAL_SLAVE_NUM then Some (Refused MB_MRE_ILL_ARG, s)
      else issue_request ucSndAddr
        (do { d \<leftarrow> take_data (unat usNRegs) pusDataBuffer;
              Some ([MB_FUNC_WRITE_MULTIPLE_REGISTERS, hi8 usRegAddr, lo8 usRegAddr, hi8 usNRegs, lo8 usNRegs,
                     ucast (usNRegs * 2)] @ be_bytes d) }) s)"

definition eMBMasterReqReadHoldingRegister :: "u8 \<Rightarrow> u16 \<Rightarrow> u16 \<Rightarrow> master \<Rightarrow> (request_result \<times> master) option" where
  "eMBMasterReqReadHoldingRegister ucSndAddr usRegAddr usNRegs s =
     (if ucSndAddr > MB_MASTER_TOTAL_SLAVE_NUM then Some (Refused MB_MRE_ILL_ARG, s)
      else issue_request ucSndAddr
        (Some [MB_FUNC_READ_HOLDING_REGISTER, hi8 usRegAddr, lo8 usRegAddr, hi8 usNRegs, lo8 usNRegs]) s)"

definition eMBMasterReqReadWriteMultipleHoldingRegister ::
  "u8 \<Rightarrow> u16 \<Rightarrow> u16 \<Rightarrow> u16 list \<Rightarrow> u16 \<Rightarrow> u16 \<Rightarrow> master \<Rightarrow> (request_result \<times> master) option" where
  "eMBMasterReqReadWriteMultipleHoldingRegister ucSndAddr usReadRegAddr usNReadRegs pusDataBuffer usWriteRegAddr usNWriteRegs s =
     (if ucSndAddr > MB_MASTER_TOTAL_SLAVE_NUM then Some (Refused MB_MRE_ILL_ARG, s)
      else issue_request ucSndAddr
        (do { d \<leftarrow> take_data (unat usNWriteRegs) pusDataBuffer;
              Some ([MB_FUNC_READWRITE_MULTIPLE_REGISTERS, hi8 usReadRegAddr, lo8 usReadRegAddr, hi8 usNReadRegs, lo8 usNReadRegs,
                     hi8 usWriteRegAddr, lo8 usWriteRegAddr, hi8 usNWriteRegs, lo8 usNWriteRegs,
                     ucast (usNWriteRegs * 2)] @ be_bytes d) }) s)"

definition eMBMasterReqReadInputRegister :: "u8 \<Rightarrow> u16 \<Rightarrow> u16 \<Rightarrow> master \<Rightarrow> (request_result \<times> master) option" where
  "eMBMasterReqReadInputRegister ucSndAddr usRegAddr usNRegs s =
     (if ucSndAddr > MB_MASTER_TOTAL_SLAVE_NUM then Some (Refused MB_MRE_ILL_ARG, s)
      else issue_request ucSndAddr
        (Some [MB_FUNC_READ_INPUT_REGISTER, hi8 usRegAddr, lo8 usRegAddr, hi8 usNRegs, lo8 usNRegs]) s)"

definition eMBMasterReqReadCoils :: "u8 \<Rightarrow> u16 \<Rightarrow> u16 \<Rightarrow> master \<Rightarrow> (request_result \<times> master) option" where
  "eMBMasterReqReadCoils ucSndAddr usCoilAddr usNCoils s =
     (if ucSndAddr > MB_MASTER_TOTAL_SLAVE_NUM then Some (Refused MB_MRE_ILL_ARG, s)
      else issue_request ucSndAddr
        (Some [MB_FUNC_READ_COILS, hi8 usCoilAddr, lo8 usCoilAddr, hi8 usNCoils, lo8 usNCoils]) s)"

definition eMBMasterReqWriteCoil :: "u8 \<Rightarrow> u16 \<Rightarrow> u16 \<Rightarrow> master \<Rightarrow> (request_result \<times> master) option" where
  "eMBMasterReqWriteCoil ucSndAddr usCoilAddr usCoilData s =
     (if ucSndAddr > MB_MASTER_TOTAL_SLAVE_NUM then Some (Refused MB_MRE_ILL_ARG, s)
      else if usCoilData \<noteq> 0xFF00 \<and> usCoilData \<noteq> 0 then Some (Refused MB_MRE_ILL_ARG, s)
      else issue_request ucSndAddr
        (Some [MB_FUNC_WRITE_SINGLE_COIL, hi8 usCoilAddr, lo8 usCoilAddr, hi8 usCoilData, lo8 usCoilData]) s)"

definition MB_PDU_REQ_WRITE_MUL_COILCNT_MAX :: u16 where "MB_PDU_REQ_WRITE_MUL_COILCNT_MAX = 0x7B0"

definition eMBMasterReqWriteMultipleCoils ::
  "u8 \<Rightarrow> u16 \<Rightarrow> u16 \<Rightarrow> u8 list \<Rightarrow> master \<Rightarrow> (request_result \<times> master) option" where
  "eMBMasterReqWriteMultipleCoils ucSndAddr usCoilAddr usNCoils pucDataBuffer s =
     (if ucSndAddr > MB_MASTER_TOTAL_SLAVE_NUM then Some (Refused MB_MRE_ILL_ARG, s)
      else if usNCoils > MB_PDU_REQ_WRITE_MUL_COILCNT_MAX then Some (Refused MB_MRE_ILL_ARG, s)
      else issue_request ucSndAddr
        (do { d \<leftarrow> take_data (unat (ucNBytes usNCoils)) pucDataBuffer;
              Some ([MB_FUNC_WRITE_MULTIPLE_COILS, hi8 usCoilAddr, lo8 usCoilAddr, hi8 usNCoils, lo8 usNCoils,
                     ucNBytes usNCoils] @ d) }) s)"

definition eMBMasterReqReadDiscreteInputs :: "u8 \<Rightarrow> u16 \<Rightarrow> u16 \<Rightarrow> master \<Rightarrow> (request_result \<times> master) option" where
  "eMBMasterReqReadDiscreteInputs ucSndAddr usDiscreteAddr usNDiscreteIn s =
     (if ucSndAddr > MB_MASTER_TOTAL_SLAVE_NUM then Some (Refused MB_MRE_ILL_ARG, s)
      else issue_request ucSndAddr
        (Some [MB_FUNC_READ_DISCRETE_INPUTS, hi8 usDiscreteAddr, lo8 usDiscreteAddr, hi8 usNDiscreteIn, lo8 usNDiscreteIn]) s)"

section \<open>Replies\<close>

text \<open>
  The handlers get the frame with the reply, or the request itself after a broadcast, and take
  the address and count of a read from the request, which is still in the send buffer.
\<close>

definition frame_mem :: "master \<Rightarrow> frame_ptr \<Rightarrow> u8 list" where
  "frame_mem s f = (case f of In_Snd \<Rightarrow> ucMasterRTUSndBuf s | In_Rcv \<Rightarrow> ucMasterRTURcvBuf s)"

definition reply_status :: "eMBErrorCode \<Rightarrow> eMBException" where
  "reply_status e = (if e \<noteq> MB_ENOERR then prveMBError2Exception e else MB_EX_NONE)"

definition req_at :: nat where "req_at = MB_SER_PDU_PDU_OFF + MB_PDU_DATA_OFF"

definition eMBMasterFuncWriteHoldingRegister ::
  "master \<Rightarrow> frame_ptr \<Rightarrow> u16 \<Rightarrow> master_regs \<Rightarrow> (eMBException \<times> master_regs) option" where
  "eMBMasterFuncWriteHoldingRegister s f len r =
     (if len = MB_PDU_SIZE_MIN + MB_PDU_FUNC_WRITE_SIZE
      then do {
        addr \<leftarrow> frame_word (frame_mem s f) req_at;
        (e, r) \<leftarrow> eMBMasterRegHoldingCB (ucMBMasterDestAddress s) (frame_mem s f) (req_at + 2) (addr + 1) 1 MB_REG_WRITE r;
        Some (reply_status e, r)
      }
      else Some (MB_EX_ILLEGAL_DATA_VALUE, r))"

definition eMBMasterFuncWriteMultipleHoldingRegister ::
  "master \<Rightarrow> frame_ptr \<Rightarrow> u16 \<Rightarrow> master_regs \<Rightarrow> (eMBException \<times> master_regs) option" where
  "eMBMasterFuncWriteMultipleHoldingRegister s f len r =
     (if len = MB_PDU_SIZE_MIN + 4 \<or> xFrameIsBroadcast s
      then do {
        let req = ucMasterRTUSndBuf s;
        addr \<leftarrow> frame_word req req_at;
        cnt \<leftarrow> frame_word req (req_at + 2);
        ucRegByteCount \<leftarrow> rd req (req_at + 4);
        if unat ucRegByteCount = 2 * unat cnt
        then do {
          (e, r) \<leftarrow> eMBMasterRegHoldingCB (ucMBMasterDestAddress s) req (req_at + 5) (addr + 1) cnt MB_REG_WRITE r;
          Some (reply_status e, r)
        }
        else Some (MB_EX_ILLEGAL_DATA_VALUE, r)
      }
      else Some (MB_EX_ILLEGAL_DATA_VALUE, r))"

definition eMBMasterFuncReadHoldingRegister ::
  "master \<Rightarrow> frame_ptr \<Rightarrow> u16 \<Rightarrow> master_regs \<Rightarrow> (eMBException \<times> master_regs) option" where
  "eMBMasterFuncReadHoldingRegister s f len r =
     (if xFrameIsBroadcast s then Some (MB_EX_NONE, r)
      else if len \<ge> MB_PDU_SIZE_MIN + 1
      then do {
        addr \<leftarrow> frame_word (ucMasterRTUSndBuf s) req_at;
        cnt \<leftarrow> frame_word (ucMasterRTUSndBuf s) (req_at + 2);
        bytes \<leftarrow> rd (frame_mem s f) req_at;
        if cnt \<ge> 1 \<and> 2 * unat cnt = unat bytes
        then do {
          (e, r) \<leftarrow> eMBMasterRegHoldingCB (ucMBMasterDestAddress s) (frame_mem s f) (req_at + 1) (addr + 1) cnt MB_REG_READ r;
          Some (reply_status e, r)
        }
        else Some (MB_EX_ILLEGAL_DATA_VALUE, r)
      }
      else Some (MB_EX_ILLEGAL_DATA_VALUE, r))"

text \<open>A reply of one byte is taken for success.\<close>

definition eMBMasterFuncReadWriteMultipleHoldingRegister ::
  "master \<Rightarrow> frame_ptr \<Rightarrow> u16 \<Rightarrow> master_regs \<Rightarrow> (eMBException \<times> master_regs) option" where
  "eMBMasterFuncReadWriteMultipleHoldingRegister s f len r =
     (if xFrameIsBroadcast s then Some (MB_EX_NONE, r)
      else if len \<ge> MB_PDU_SIZE_MIN + 1
      then do {
        let req = ucMasterRTUSndBuf s;
        raddr \<leftarrow> frame_word req req_at;
        rcnt \<leftarrow> frame_word req (req_at + 2);
        waddr \<leftarrow> frame_word req (req_at + 4);
        wcnt \<leftarrow> frame_word req (req_at + 6);
        bytes \<leftarrow> rd (frame_mem s f) req_at;
        if 2 * unat rcnt = unat bytes
        then do {
          (e, r) \<leftarrow> eMBMasterRegHoldingCB (ucMBMasterDestAddress s) req (req_at + 9) (waddr + 1) wcnt MB_REG_WRITE r;
          (e, r) \<leftarrow> (if e = MB_ENOERR
             then eMBMasterRegHoldingCB (ucMBMasterDestAddress s) (frame_mem s f) (req_at + 1) (raddr + 1) rcnt MB_REG_READ r
             else Some (e, r));
          Some (reply_status e, r)
        }
        else Some (MB_EX_ILLEGAL_DATA_VALUE, r)
      }
      else Some (MB_EX_NONE, r))"

definition eMBMasterFuncReadInputRegister ::
  "master \<Rightarrow> frame_ptr \<Rightarrow> u16 \<Rightarrow> master_regs \<Rightarrow> (eMBException \<times> master_regs) option" where
  "eMBMasterFuncReadInputRegister s f len r =
     (if xFrameIsBroadcast s then Some (MB_EX_NONE, r)
      else if len \<ge> MB_PDU_SIZE_MIN + 1
      then do {
        addr \<leftarrow> frame_word (ucMasterRTUSndBuf s) req_at;
        cnt \<leftarrow> frame_word (ucMasterRTUSndBuf s) (req_at + 2);
        bytes \<leftarrow> rd (frame_mem s f) req_at;
        if cnt \<ge> 1 \<and> 2 * unat cnt = unat bytes
        then do {
          (e, r) \<leftarrow> eMBMasterRegInputCB (ucMBMasterDestAddress s) (frame_mem s f) (req_at + 1) (addr + 1) cnt r;
          Some (reply_status e, r)
        }
        else Some (MB_EX_ILLEGAL_DATA_VALUE, r)
      }
      else Some (MB_EX_ILLEGAL_DATA_VALUE, r))"

definition eMBMasterFuncReadCoils ::
  "master \<Rightarrow> frame_ptr \<Rightarrow> u16 \<Rightarrow> master_regs \<Rightarrow> (eMBException \<times> master_regs) option" where
  "eMBMasterFuncReadCoils s f len r =
     (if xFrameIsBroadcast s then Some (MB_EX_NONE, r)
      else if len \<ge> MB_PDU_SIZE_MIN + 1
      then do {
        addr \<leftarrow> frame_word (ucMasterRTUSndBuf s) req_at;
        cnt \<leftarrow> frame_word (ucMasterRTUSndBuf s) (req_at + 2);
        bytes \<leftarrow> rd (frame_mem s f) req_at;
        if cnt \<ge> 1 \<and> ucNBytes cnt = bytes
        then do {
          (e, r) \<leftarrow> eMBMasterRegCoilsCB (ucMBMasterDestAddress s) (frame_mem s f) (req_at + 1) (addr + 1) cnt MB_REG_READ r;
          Some (reply_status e, r)
        }
        else Some (MB_EX_ILLEGAL_DATA_VALUE, r)
      }
      else Some (MB_EX_ILLEGAL_DATA_VALUE, r))"

definition eMBMasterFuncWriteCoil ::
  "master \<Rightarrow> frame_ptr \<Rightarrow> u16 \<Rightarrow> master_regs \<Rightarrow> (eMBException \<times> master_regs) option" where
  "eMBMasterFuncWriteCoil s f len r =
     (if len = MB_PDU_FUNC_WRITE_SIZE + MB_PDU_SIZE_MIN
      then do {
        addr \<leftarrow> frame_word (frame_mem s f) req_at;
        v \<leftarrow> rd (frame_mem s f) (req_at + 2);
        z \<leftarrow> rd (frame_mem s f) (req_at + 3);
        if z = 0 \<and> (v = 0xFF \<or> v = 0)
        then do {
          (e, r) \<leftarrow> eMBMasterRegCoilsCB (ucMBMasterDestAddress s) [if v = 0xFF then 1 else 0, 0] 0 (addr + 1) 1 MB_REG_WRITE r;
          Some (reply_status e, r)
        }
        else Some (MB_EX_ILLEGAL_DATA_VALUE, r)
      }
      else Some (MB_EX_ILLEGAL_DATA_VALUE, r))"

definition eMBMasterFuncWriteMultipleCoils ::
  "master \<Rightarrow> frame_ptr \<Rightarrow> u16 \<Rightarrow> master_regs \<Rightarrow> (eMBException \<times> master_regs) option" where
  "eMBMasterFuncWriteMultipleCoils s f len r =
     (if len = 5 \<or> xFrameIsBroadcast s
      then do {
        addr \<leftarrow> frame_word (frame_mem s f) req_at;
        cnt \<leftarrow> frame_word (frame_mem s f) (req_at + 2);
        bytes \<leftarrow> rd (ucMasterRTUSndBuf s) (req_at + 4);
        if cnt \<ge> 1 \<and> ucNBytes cnt = bytes
        then do {
          (e, r) \<leftarrow> eMBMasterRegCoilsCB (ucMBMasterDestAddress s) (ucMasterRTUSndBuf s) (req_at + 5) (addr + 1) cnt MB_REG_WRITE r;
          Some (reply_status e, r)
        }
        else Some (MB_EX_ILLEGAL_DATA_VALUE, r)
      }
      else Some (MB_EX_ILLEGAL_DATA_VALUE, r))"

definition eMBMasterFuncReadDiscreteInputs ::
  "master \<Rightarrow> frame_ptr \<Rightarrow> u16 \<Rightarrow> master_regs \<Rightarrow> (eMBException \<times> master_regs) option" where
  "eMBMasterFuncReadDiscreteInputs s f len r =
     (if xFrameIsBroadcast s then Some (MB_EX_NONE, r)
      else if len \<ge> MB_PDU_SIZE_MIN + 1
      then do {
        addr \<leftarrow> frame_word (ucMasterRTUSndBuf s) req_at;
        cnt \<leftarrow> frame_word (ucMasterRTUSndBuf s) (req_at + 2);
        bytes \<leftarrow> rd (frame_mem s f) req_at;
        if cnt \<ge> 1 \<and> ucNBytes cnt = bytes
        then do {
          (e, r) \<leftarrow> eMBMasterRegDiscreteCB (ucMBMasterDestAddress s) (frame_mem s f) (req_at + 1) (addr + 1) cnt r;
          Some (reply_status e, r)
        }
        else Some (MB_EX_ILLEGAL_DATA_VALUE, r)
      }
      else Some (MB_EX_ILLEGAL_DATA_VALUE, r))"

end
