(* ===== verification/Mbm_Core.thy ===== *)
theory Mbm_Core
  imports Mbm_Func
begin

text \<open>
  \<^verbatim>\<open>components/net/freemodbus/modbus/mb_m.c\<close>: the life cycle and the poll loop of the Modbus master.
\<close>

record master_app =
  mregs :: master_regs
  m_sid :: slave_id

section \<open>The handlers\<close>

text \<open>
  The result is the exception, the frame buffers, the length and the tables. For function code 17
  the table of the master names the handler of the slave, which overwrites the frame.
\<close>

definition set_frame_mem :: "frame_ptr \<Rightarrow> u8 list \<Rightarrow> master \<Rightarrow> master" where
  "set_frame_mem f mem s = (case f of In_Snd \<Rightarrow> s\<lparr>ucMasterRTUSndBuf := mem\<rparr> | In_Rcv \<Rightarrow> s\<lparr>ucMasterRTURcvBuf := mem\<rparr>)"

definition on_mregs ::
  "(master \<Rightarrow> frame_ptr \<Rightarrow> u16 \<Rightarrow> master_regs \<Rightarrow> (eMBException \<times> master_regs) option)
    \<Rightarrow> frame_ptr \<Rightarrow> master \<times> master_app \<Rightarrow> (eMBException \<times> master \<times> master_app) option" where
  "on_mregs h f = (\<lambda>(s, a). do { (ex, r) \<leftarrow> h s f (mLength s) (mregs a); Some (ex, s, a\<lparr>mregs := r\<rparr>) })"

fun master_handler :: "handler \<Rightarrow> frame_ptr \<Rightarrow> master \<times> master_app \<Rightarrow> (eMBException \<times> master \<times> master_app) option" where
  "master_handler H_ReportSlaveID f (s, a) = do {
     (ex, mem, len, i) \<leftarrow> eMBFuncReportSlaveID (frame_mem s f) MB_SER_PDU_PDU_OFF (mLength s) (m_sid a);
     Some (ex, (set_frame_mem f mem s)\<lparr>mLength := len\<rparr>, a\<lparr>m_sid := i\<rparr>)
   }"
| "master_handler H_ReadInputRegister f sa = on_mregs eMBMasterFuncReadInputRegister f sa"
| "master_handler H_ReadHoldingRegister f sa = on_mregs eMBMasterFuncReadHoldingRegister f sa"
| "master_handler H_WriteMultipleHoldingRegister f sa = on_mregs eMBMasterFuncWriteMultipleHoldingRegister f sa"
| "master_handler H_WriteHoldingRegister f sa = on_mregs eMBMasterFuncWriteHoldingRegister f sa"
| "master_handler H_ReadWriteMultipleHoldingRegister f sa = on_mregs eMBMasterFuncReadWriteMultipleHoldingRegister f sa"
| "master_handler H_ReadCoils f sa = on_mregs eMBMasterFuncReadCoils f sa"
| "master_handler H_WriteCoil f sa = on_mregs eMBMasterFuncWriteCoil f sa"
| "master_handler H_WriteMultipleCoils f sa = on_mregs eMBMasterFuncWriteMultipleCoils f sa"
| "master_handler H_ReadDiscreteInputs f sa = on_mregs eMBMasterFuncReadDiscreteInputs f sa"

definition xMasterFuncHandlers :: "(u8 \<times> handler option) list" where
  "xMasterFuncHandlers =
    [(MB_FUNC_OTHER_REPORT_SLAVEID, Some H_ReportSlaveID),
     (MB_FUNC_READ_INPUT_REGISTER, Some H_ReadInputRegister),
     (MB_FUNC_READ_HOLDING_REGISTER, Some H_ReadHoldingRegister),
     (MB_FUNC_WRITE_MULTIPLE_REGISTERS, Some H_WriteMultipleHoldingRegister),
     (MB_FUNC_WRITE_REGISTER, Some H_WriteHoldingRegister),
     (MB_FUNC_READWRITE_MULTIPLE_REGISTERS, Some H_ReadWriteMultipleHoldingRegister),
     (MB_FUNC_READ_COILS, Some H_ReadCoils),
     (MB_FUNC_WRITE_SINGLE_COIL, Some H_WriteCoil),
     (MB_FUNC_WRITE_MULTIPLE_COILS, Some H_WriteMultipleCoils),
     (MB_FUNC_READ_DISCRETE_INPUTS, Some H_ReadDiscreteInputs)] @ replicate 6 (0, None)"

section \<open>Life cycle\<close>

definition eMBMasterInit :: "bool \<Rightarrow> eMBMode \<Rightarrow> u8 \<Rightarrow> u32 \<Rightarrow> eMBParity \<Rightarrow> master \<Rightarrow> (eMBErrorCode \<times> master) option" where
  "eMBMasterInit opened eMode ucPort ulBaudRate eParity s = do {
     (eStatus, s) \<leftarrow> (if eMode = MB_RTU
        then eMBMasterRTUInit opened ucPort ulBaudRate eParity (s\<lparr>m_functions := True\<rparr>) else Some (MB_EINVAL, s));
     Some (if eStatus = MB_ENOERR
       then let (ok, s) = xMBMasterPortEventInit s;
                (eStatus, s) = (if \<not> ok then (MB_EPORTERR, s) else (eStatus, s\<lparr>mState := STATE_DISABLED\<rparr>))
            in (eStatus, vMBMasterOsResInit s)
       else (eStatus, s))
   }"

text \<open>\<open>MB_PORT_HAS_CLOSE\<close> is 0: there is nothing to close.\<close>

definition eMBMasterClose :: "master \<Rightarrow> eMBErrorCode \<times> master" where
  "eMBMasterClose s = (if mState s = STATE_DISABLED then MB_ENOERR else MB_EILLSTATE, s)"

definition eMBMasterEnable :: "master \<Rightarrow> (eMBErrorCode \<times> master) option" where
  "eMBMasterEnable s =
     (if mState s = STATE_DISABLED
      then do { c_assert (m_functions s); Some (MB_ENOERR, (eMBMasterRTUStart s)\<lparr>mState := STATE_ENABLED\<rparr>) }
      else Some (MB_EILLSTATE, s))"

definition eMBMasterDisable :: "master \<Rightarrow> (eMBErrorCode \<times> master) option" where
  "eMBMasterDisable s =
     (if mState s = STATE_ENABLED
      then do { c_assert (m_functions s); Some (MB_ENOERR, (eMBMasterRTUStop s)\<lparr>mState := STATE_DISABLED\<rparr>) }
      else if mState s = STATE_DISABLED then Some (MB_ENOERR, s)
      else Some (MB_EILLSTATE, s))"

section \<open>The poll loop\<close>

text \<open>The loop over all slaves after a broadcast, from slave \<open>j\<close> on.\<close>

fun execute_for_all ::
  "handler \<Rightarrow> frame_ptr \<Rightarrow> u8 list \<Rightarrow> eMBException \<times> master \<times> master_app \<Rightarrow> (eMBException \<times> master \<times> master_app) option" where
  "execute_for_all h f [] esa = Some esa"
| "execute_for_all h f (j # js) (ex, s, a) = do {
     esa \<leftarrow> master_handler h f (vMBMasterSetDestAddress j s, a);
     execute_for_all h f js esa
   }"

definition slave_numbers :: "u8 list" where
  "slave_numbers = map of_nat [1..<unat MB_MASTER_TOTAL_SLAVE_NUM + 1]"

definition execute_function :: "handler \<Rightarrow> frame_ptr \<Rightarrow> master \<times> master_app \<Rightarrow> (eMBException \<times> master \<times> master_app) option" where
  "execute_function h f = (\<lambda>(s, a). do {
     let s = vMBMasterSetCBRunInMasterMode True s;
     (ex, s, a) \<leftarrow> (if xFrameIsBroadcast s
        then execute_for_all h f slave_numbers (MB_EX_ILLEGAL_FUNCTION, s\<lparr>mLength := usMasterSendPDULength s\<rparr>, a)
        else master_handler h f (s, a));
     Some (ex, vMBMasterSetCBRunInMasterMode False s, a)
   })"

definition master_failed :: "eMBMasterErrorEventType \<Rightarrow> master \<Rightarrow> master" where
  "master_failed e s = snd (xMBMasterPortEventPost EV_MASTER_ERROR_PROCESS (vMBMasterSetErrorType e s))"

definition master_execute :: "master \<times> master_app \<Rightarrow> (master \<times> master_app) option" where
  "master_execute = (\<lambda>(s, a). do {
     f \<leftarrow> mFrame s;
     code \<leftarrow> rd (frame_mem s f) (MB_SER_PDU_PDU_OFF + MB_PDU_FUNC_OFF);
     let s = s\<lparr>mFunctionCode := code, mException := ex_code MB_EX_ILLEGAL_FUNCTION\<rparr>;
     (s, a) \<leftarrow> (if drop_bit 7 code \<noteq> 0
        then do { e \<leftarrow> rd (frame_mem s f) (MB_SER_PDU_PDU_OFF + MB_PDU_DATA_OFF); Some (s\<lparr>mException := e\<rparr>, a) }
        else (case find_handler xMasterFuncHandlers code of
            None \<Rightarrow> Some (s, a)
          | Some px \<Rightarrow> do {
              h \<leftarrow> px;
              (ex, s, a) \<leftarrow> execute_function h f (s, a);
              Some (s\<lparr>mException := ex_code ex\<rparr>, a)
            }));
     Some (if mException s \<noteq> ex_code MB_EX_NONE then master_failed EV_ERROR_EXECUTE_FUNCTION s
           else vMBMasterRunResRelease (vMBMasterCBRequestScuuess s), a)
   })"

fun master_switch :: "eMBMasterEventType \<Rightarrow> master \<times> master_app \<Rightarrow> (master \<times> master_app) option" where
  "master_switch EV_MASTER_FRAME_RECEIVED (s, a) = do {
     (eStatus, out) \<leftarrow> eMBMasterRTUReceive s;
     let s = (case out of None \<Rightarrow> s | Some (addr, f, len) \<Rightarrow> s\<lparr>mRcvAddress := addr, mFrame := Some f, mLength := len\<rparr>);
     Some (if eStatus = MB_ENOERR \<and> mRcvAddress s = ucMBMasterDestAddress s
           then snd (xMBMasterPortEventPost EV_MASTER_EXECUTE s) else master_failed EV_ERROR_RECEIVE_DATA s, a)
   }"
| "master_switch EV_MASTER_EXECUTE (s, a) = master_execute (s, a)"
| "master_switch EV_MASTER_FRAME_SENT (s, a) = do {
     let s = s\<lparr>mFrame := Some In_Snd\<rparr>;
     (eStatus, s) \<leftarrow> eMBMasterRTUSend (ucMBMasterDestAddress s) MB_SER_PDU_PDU_OFF (usMasterSendPDULength s) s;
     Some (s, a)
   }"
| "master_switch EV_MASTER_ERROR_PROCESS (s, a) = (
     let s = s\<lparr>mFrame := Some In_Snd\<rparr>;
         s = (case eMBMasterCurErrorType s of
                EV_ERROR_RESPOND_TIMEOUT \<Rightarrow> vMBMasterErrorCBRespondTimeout s
              | EV_ERROR_RECEIVE_DATA \<Rightarrow> vMBMasterErrorCBReceiveData s
              | EV_ERROR_EXECUTE_FUNCTION \<Rightarrow> vMBMasterErrorCBExecuteFunction s)
     in Some (vMBMasterRunResRelease s, a))"
| "master_switch _ (s, a) = Some (s, a)"

text \<open>When several events are pending the local \<open>eEvent\<close> stays uninitialised (\<open>None\<close>).\<close>

definition eMBMasterPoll :: "master \<times> master_app \<Rightarrow> (eMBErrorCode blocking \<times> master \<times> master_app) option" where
  "eMBMasterPoll = (\<lambda>(s, a).
     if mState s \<noteq> STATE_ENABLED then Some (Returned MB_EILLSTATE, s, a)
     else case xMBMasterPortEventGet s of
       (Blocked, _) \<Rightarrow> Some (Blocked, s, a)
     | (Returned ev, s) \<Rightarrow> do {
         eEvent \<leftarrow> ev;
         sa \<leftarrow> master_switch eEvent (s, a);
         Some (Returned MB_ENOERR, sa)
       })"

end
