(* ===== verification/Mbm_Safe.thy ===== *)
theory Mbm_Safe
  imports Mbm_Core
begin

text \<open>
  The callbacks and reply handlers of the Modbus master return: what they need of the request in
  the send buffer, of the reply and of the tables.
\<close>

section \<open>The callbacks\<close>

text \<open>The bit tables are taken with two more bytes than declared, as for the slave.\<close>

definition mregs_ok :: "master_regs \<Rightarrow> bool" where
  "mregs_ok r \<longleftrightarrow> 18 \<le> length (ucMDiscInBuf r) \<and> 18 \<le> length (ucMCoilBuf r) \<and> length (usMRegInBuf r) = 800
     \<and> length (usMRegHoldBuf r) = 800 \<and> length (m_zhuodu r) = zhuodu_size"

fun swap_pairs :: "'a list \<Rightarrow> 'a list" where
  "swap_pairs (a # b # xs) = b # a # swap_pairs xs"
| "swap_pairs xs = xs"

lemma length_swap_pairs [simp]: "length (swap_pairs xs) = length xs"
  by (induction xs rule: swap_pairs.induct) simp_all

lemma copy_words_eq:
  "j + n \<le> length q \<Longrightarrow> i + n \<le> length p \<Longrightarrow> copy_words p i q j n = Some (splice p i (take n (drop j q)))"
proof (induction n arbitrary: p i j)
  case (Suc n)
  then show ?case
    by (simp add: rd_in wr_in splice_Cons drop_splice_Cons [of j q "Suc n" n])
qed simp

lemma copy_swapped_eq:
  "j + 2 * n \<le> length q \<Longrightarrow> i + 2 * n \<le> length p \<Longrightarrow>
    copy_swapped p i q j n = Some (splice p i (swap_pairs (take (2 * n) (drop j q))))"
proof (induction n arbitrary: p i j)
  case (Suc n)
  have t: "take (2 * Suc n) (drop j q) = q ! j # q ! Suc j # take (2 * n) (drop (j + 2) q)"
    using Suc.prems(1) by (simp add: Cons_nth_drop_Suc [symmetric])
  show ?case
    unfolding t using Suc by (simp add: rd_in wr_in splice_Cons)
qed simp

lemma publish_100_eq:
  assumes "row + 37 \<le> length q" "length z = zhuodu_size"
  shows "\<exists>z'. publish_100 q row z = Some z' \<and> length z' = zhuodu_size"
  using assms
  by (simp add: publish_100_def copy_words_eq copy_swapped_eq zhuodu_size_def off_canbi_set_def off_turbidimeter_def Let_def
      rd_in wr_in)

lemma row_range: "d \<noteq> 0 \<Longrightarrow> d \<le> 8 \<Longrightarrow> table_row d n = Some ((unat d - 1) * n) \<and> (unat d - 1) * n + n \<le> 8 * n" for d :: u8
proof -
  assume d: "d \<noteq> 0" "d \<le> 8"
  then have "0 < unat d" "unat d \<le> 8"
    by (simp_all add: word_le_nat_alt unat_gt_0)
  then have "(unat d - 1) * n + n \<le> 8 * n"
    by (metis Suc_pred' Suc_eq_plus1 add_mult_distrib mult_1 mult_le_mono1)
  then show ?thesis
    using d by (simp add: table_row_def)
qed

lemma holding_yields:
  assumes "mregs_ok r" "d \<noteq> 0" "d \<le> 8" "0x100 \<le> unat (addr - 1)" "unat n \<le> 100 \<Longrightarrow> p + 2 * unat n \<le> length mem"
  shows "yields (eMBMasterRegHoldingCB d mem p addr n m r) (\<lambda>(e, r'). mregs_ok r')"
proof -
  let ?a = "unat (addr - 1)" and ?row = "(unat d - 1) * 100"
  have row: "table_row d 100 = Some ?row" "?row + 100 \<le> 800"
    using row_range [OF assms(2,3), of 100] by simp_all
  show ?thesis
  proof (cases "?a + unat n \<le> 0x100 + 100")
    case True
    then have n: "unat n \<le> 100" "p + 2 * unat n \<le> length mem"
      using assms(4,5) by linarith+
    let ?buf = "splice (usMRegHoldBuf r) (?row + (?a - 0x100)) (be_regs (take (2 * unat n) (drop p mem)))"
    have fit: "?row + (?a - 0x100) + unat n \<le> length (usMRegHoldBuf r)"
      using True assms(1,4) row(2) by (simp add: mregs_ok_def)
    then have l: "length ?buf = 800"
      using assms(1) n by (simp add: mregs_ok_def)
    obtain z where z: "publish_100 ?buf ?row (m_zhuodu r) = Some z" "length z = zhuodu_size"
      using publish_100_eq [of ?row ?buf "m_zhuodu r"] row(2) l assms(1) by (auto simp: mregs_ok_def)
    show ?thesis
      using True assms(1,4) l z bytes_to_regs_eq [OF fit n(2)]
      by (simp add: eMBMasterRegHoldingCB_def row M_REG_HOLDING_NREGS_def Let_def wp_simps mregs_ok_def)
  next
    case False
    then show ?thesis
      using assms(1,4) by (simp add: eMBMasterRegHoldingCB_def row M_REG_HOLDING_NREGS_def Let_def wp_simps)
  qed
qed

lemma input_yields:
  assumes "mregs_ok r" "d \<noteq> 0" "d \<le> 8" "unat n \<le> 100 \<Longrightarrow> p + 2 * unat n \<le> length mem"
  shows "yields (eMBMasterRegInputCB d mem p addr n r) (\<lambda>(e, r'). mregs_ok r')"
proof -
  let ?a = "unat (addr - 1)" and ?row = "(unat d - 1) * 100"
  have row: "table_row d 100 = Some ?row" "?row + 100 \<le> 800"
    using row_range [OF assms(2,3), of 100] by simp_all
  show ?thesis
  proof (cases "?a + unat n \<le> 100")
    case True
    then have n: "p + 2 * unat n \<le> length mem"
      using assms(4) by linarith
    have fit: "?row + ?a + unat n \<le> length (usMRegInBuf r)"
      using True assms(1) row(2) by (simp add: mregs_ok_def)
    show ?thesis
      using True assms(1) fit n bytes_to_regs_eq [OF fit n]
      by (simp add: eMBMasterRegInputCB_def row master_range_defs Let_def wp_simps mregs_ok_def)
  next
    case False
    then show ?thesis
      using assms(1) by (simp add: eMBMasterRegInputCB_def row master_range_defs Let_def wp_simps)
  qed
qed

lemma row_bits_yields:
  assumes "18 \<le> length buf" "(d :: u8) \<noteq> 0" "d \<le> 8" "a + n \<le> 16" "p + (n div 8 + 1) \<le> length mem"
  shows "yields (write_bits buf ((unat d - 1) * 2 + a div 8) (of_nat (a mod 8)) mem p n) (\<lambda>buf'. length buf' = length buf)"
proof -
  have c: "coil_bytes n \<le> n div 8 + 1" "a div 8 + n div 8 \<le> 2"
    by (simp_all add: coil_bytes_def two_bytes [OF assms(4)])
  have "(unat d - 1) * 2 + 2 \<le> 16"
    using row_range [OF assms(2,3), of 2] by simp
  then show ?thesis
    using write_bits_eq [of "(unat d - 1) * 2 + a div 8" n buf "of_nat (a mod 8)" p mem] bit_index(2) [of a] assms c
    by (auto simp: yields_iff)
qed

lemma coils_yields:
  assumes "mregs_ok r" "d \<noteq> 0" "d \<le> 8" "unat n \<le> 16 \<Longrightarrow> p + (unat n div 8 + 1) \<le> length mem"
  shows "yields (eMBMasterRegCoilsCB d mem p addr n m r) (\<lambda>(e, r'). mregs_ok r')"
    and "yields (eMBMasterRegDiscreteCB d mem p addr n r) (\<lambda>(e, r'). mregs_ok r')"
proof -
  let ?a = "unat (addr - 1)"
  have row: "table_row d 2 = Some ((unat d - 1) * 2)"
    using row_range [OF assms(2,3)] by simp
  have w: "yields (write_bits buf ((unat d - 1) * 2 + ?a div 8) (of_nat (?a mod 8)) mem p (unat n)) (\<lambda>buf'. length buf' = length buf)"
    if "?a + unat n \<le> 16" "18 \<le> length buf" for buf
    using row_bits_yields [OF that(2) assms(2,3) that(1)] that(1) assms(4) by simp
  show "yields (eMBMasterRegCoilsCB d mem p addr n m r) (\<lambda>(e, r'). mregs_ok r')"
    "yields (eMBMasterRegDiscreteCB d mem p addr n r) (\<lambda>(e, r'). mregs_ok r')"
    using assms(1)
    by (auto simp: eMBMasterRegCoilsCB_def eMBMasterRegDiscreteCB_def row master_range_defs Let_def wp_simps mregs_ok_def
        intro: yields_mono [OF w [unfolded One_nat_def]])
qed

section \<open>The handlers\<close>

text \<open>
  \<open>request_ok\<close>: the request is one of those the code can build, and asks for holding registers from
  0x100 on only. \<open>honest\<close>: the reply has the function code of the request, with or without the
  mark of an exception, and the confirmation of a single register names its address.
\<close>

definition request_ok :: "u8 list \<Rightarrow> bool" where
  "request_ok req \<longleftrightarrow> req ! 1 \<in> {1, 2, 3, 4, 5, 6, 15, 16, 23}
     \<and> (req ! 1 \<in> {3, 6, 16, 23} \<longrightarrow> 1 \<le> req ! 2) \<and> (req ! 1 = 23 \<longrightarrow> 1 \<le> req ! 6)"

definition honest :: "master \<Rightarrow> bool" where
  "honest s \<longleftrightarrow> ucMasterRTURcvBuf s ! 1 AND 127 = ucMasterRTUSndBuf s ! 1
     \<and> (ucMasterRTUSndBuf s ! 1 = 6 \<longrightarrow> ucMasterRTURcvBuf s ! 2 = ucMasterRTUSndBuf s ! 2)"

definition buffers_ok :: "master \<Rightarrow> bool" where
  "buffers_ok s \<longleftrightarrow> length (ucMasterRTUSndBuf s) = MB_PDU_SIZE_MAX \<and> length (ucMasterRTURcvBuf s) = 256"

lemma yields_frame_word [wp_simps]:
  "yields (frame_word mem q) P \<longleftrightarrow> q + 1 < length mem \<and> P (be16 (mem ! q) (mem ! (q + 1)))"
  by (auto simp: frame_word_def wp_simps)

lemma high_address: "1 \<le> a \<Longrightarrow> 256 \<le> unat (be16 a b)"
  by (simp add: unat_be16 word_le_nat_alt)

lemma even_byte: "2 * unat (n :: u16) = unat (b :: u8) \<Longrightarrow> unat n \<le> 127"
  using unat_u8 [of b] by linarith

lemma small_word: "unat n \<le> 16 \<Longrightarrow> unat n div 8 \<le> 2"
  by linarith

lemma req_at_2: "req_at = 2"
  by (simp add: req_at_def ser_pdu_defs pdu_defs)

lemmas handler_defs = buffers_ok_def MB_PDU_SIZE_MAX_def req_at_2 ser_pdu_defs pdu_defs frame_mem_def

lemma holding_handlers:
  assumes "buffers_ok s" "mregs_ok r" "ucMBMasterDestAddress s \<noteq> 0" "ucMBMasterDestAddress s \<le> 8"
    and "1 \<le> ucMasterRTUSndBuf s ! 2"
  shows "yields (eMBMasterFuncReadHoldingRegister s f len r) (\<lambda>(ex, r'). mregs_ok r')"
    and "yields (eMBMasterFuncWriteMultipleHoldingRegister s f len r) (\<lambda>(ex, r'). mregs_ok r')"
    and "1 \<le> frame_mem s f ! 2 \<Longrightarrow> yields (eMBMasterFuncWriteHoldingRegister s f len r) (\<lambda>(ex, r'). mregs_ok r')"
  using assms high_address [OF assms(5)]
  by (auto simp: eMBMasterFuncReadHoldingRegister_def eMBMasterFuncWriteMultipleHoldingRegister_def
      eMBMasterFuncWriteHoldingRegister_def handler_defs wp_simps Let_def high_address split: frame_ptr.splits
      intro!: yields_mono [OF holding_yields])

lemma read_write_handler:
  assumes "buffers_ok s" "mregs_ok r" "ucMBMasterDestAddress s \<noteq> 0" "ucMBMasterDestAddress s \<le> 8"
    and "1 \<le> ucMasterRTUSndBuf s ! 2" "1 \<le> ucMasterRTUSndBuf s ! 6"
  shows "yields (eMBMasterFuncReadWriteMultipleHoldingRegister s f len r) (\<lambda>(ex, r'). mregs_ok r')"
  using assms high_address [OF assms(5)] high_address [OF assms(6)]
  by (auto simp: eMBMasterFuncReadWriteMultipleHoldingRegister_def handler_defs wp_simps Let_def split: frame_ptr.splits
      intro!: yields_mono [OF holding_yields])

lemma other_handlers:
  assumes "buffers_ok s" "mregs_ok r" "ucMBMasterDestAddress s \<noteq> 0" "ucMBMasterDestAddress s \<le> 8"
  shows "yields (eMBMasterFuncReadInputRegister s f len r) (\<lambda>(ex, r'). mregs_ok r')"
    and "yields (eMBMasterFuncReadCoils s f len r) (\<lambda>(ex, r'). mregs_ok r')"
    and "yields (eMBMasterFuncWriteCoil s f len r) (\<lambda>(ex, r'). mregs_ok r')"
    and "yields (eMBMasterFuncWriteMultipleCoils s f len r) (\<lambda>(ex, r'). mregs_ok r')"
    and "yields (eMBMasterFuncReadDiscreteInputs s f len r) (\<lambda>(ex, r'). mregs_ok r')"
  using assms
  by (auto simp: eMBMasterFuncReadInputRegister_def eMBMasterFuncReadCoils_def eMBMasterFuncWriteCoil_def
      eMBMasterFuncWriteMultipleCoils_def eMBMasterFuncReadDiscreteInputs_def handler_defs wp_simps Let_def split: frame_ptr.splits
      intro!: yields_mono [OF input_yields] yields_mono [OF coils_yields(1)] yields_mono [OF coils_yields(2)] dest: small_word)

lemma master_table: "xMasterFuncHandlers = xFuncHandlers_init"
  by (simp add: xMasterFuncHandlers_def xFuncHandlers_init_def MB_FUNC_HANDLERS_MAX_def)

lemmas find_master_handler = find_standard [folded master_table]

lemma on_mregs_yields:
  "yields (h s f (mLength s) (mregs a)) (\<lambda>(ex, r'). mregs_ok r') \<Longrightarrow>
    yields (on_mregs h f (s, a)) (\<lambda>(ex, s', a'). s' = s \<and> mregs_ok (mregs a') \<and> m_sid a' = m_sid a)"
  by (auto simp: on_mregs_def yields_iff)

lemma plain_code: "drop_bit 7 c = 0 \<Longrightarrow> c AND 127 = c" for c :: u8
  using bits_ident [of 7 c] by (simp add: take_bit_eq_mask mask_eq_exp_minus_1)

text \<open>Every function code that a reply to a legal request can have is executed.\<close>

definition replies_to :: "u8 list \<Rightarrow> u8 list \<Rightarrow> bool" where
  "replies_to req mem \<longleftrightarrow> mem ! 1 = req ! 1 \<and> (req ! 1 = 6 \<longrightarrow> mem ! 2 = req ! 2)"

lemma handler_returns:
  assumes "buffers_ok s" "mregs_ok (mregs a)" "ucMBMasterDestAddress s \<noteq> 0" "ucMBMasterDestAddress s \<le> 8"
    and "request_ok (ucMasterRTUSndBuf s)" "replies_to (ucMasterRTUSndBuf s) (frame_mem s f)"
    and "find_handler xMasterFuncHandlers (frame_mem s f ! 1) = Some (Some h)"
  shows "yields (master_handler h f (s, a)) (\<lambda>(ex, s', a'). s' = s \<and> mregs_ok (mregs a') \<and> m_sid a' = m_sid a)"
  using assms
  by (auto simp: request_ok_def replies_to_def find_master_handler split: if_splits
      intro!: on_mregs_yields holding_handlers read_write_handler other_handlers)

lemma known_code:
  assumes "request_ok req"
  obtains h where "find_handler xMasterFuncHandlers (req ! 1) = Some (Some h)"
  using assms by (auto simp: request_ok_def find_master_handler)

section \<open>The execution of a reply\<close>

lemma frame_mem_update [simp]:
  "frame_mem (mException_update g s) f = frame_mem s f" "frame_mem (mFunctionCode_update h s) f = frame_mem s f"
  by (simp_all add: frame_mem_def split: frame_ptr.splits)

lemma slave_numbers_eq: "slave_numbers = [1, 2, 3, 4, 5, 6, 7, 8]"
  by (simp add: slave_numbers_def MB_MASTER_TOTAL_SLAVE_NUM_def upt_rec)

lemma execute_for_all_yields:
  assumes "buffers_ok s" "mregs_ok (mregs a)" "request_ok (ucMasterRTUSndBuf s)"
    and "replies_to (ucMasterRTUSndBuf s) (frame_mem s f)"
    and "find_handler xMasterFuncHandlers (frame_mem s f ! 1) = Some (Some h)" "\<forall>j \<in> set js. j \<noteq> 0 \<and> j \<le> 8"
    and "ucMBMasterDestAddress s \<le> 8"
  shows "yields (execute_for_all h f js (ex, s, a))
    (\<lambda>(ex, s', a'). mregs_ok (mregs a') \<and> m_sid a' = m_sid a \<and> (\<exists>d \<le> 8. s' = s\<lparr>ucMBMasterDestAddress := d\<rparr>))"
  using assms
proof (induction js arbitrary: ex s a)
  case Nil
  then show ?case
    by (auto simp: wp_simps intro!: exI [of _ "ucMBMasterDestAddress s"])
next
  case (Cons j js)
  let ?s = "s\<lparr>ucMBMasterDestAddress := j\<rparr>"
  have same: "frame_mem ?s f = frame_mem s f" "buffers_ok ?s"
    using Cons.prems(1) by (simp_all add: frame_mem_def buffers_ok_def split: frame_ptr.splits)
  have "yields (master_handler h f (?s, a)) (\<lambda>(ex, s', a'). s' = ?s \<and> mregs_ok (mregs a') \<and> m_sid a' = m_sid a)"
    using Cons.prems same by (intro handler_returns) auto
  then obtain ex' a' where h: "master_handler h f (?s, a) = Some (ex', ?s, a')" "mregs_ok (mregs a')" "m_sid a' = m_sid a"
    by (auto simp: yields_iff)
  have "yields (execute_for_all h f js (ex', ?s, a'))
    (\<lambda>(ex, s', b). mregs_ok (mregs b) \<and> m_sid b = m_sid a' \<and> (\<exists>d \<le> 8. s' = ?s\<lparr>ucMBMasterDestAddress := d\<rparr>))"
    using Cons.prems same h by (intro Cons.IH) auto
  then show ?case
    using h by (auto simp: vMBMasterSetDestAddress_def yields_iff)
qed

definition after_execute :: "master \<Rightarrow> master \<Rightarrow> bool" where
  "after_execute s t \<longleftrightarrow> (\<exists>d n r c x. d \<le> 8
     \<and> t = s\<lparr>ucMBMasterDestAddress := d, xMBRunInMasterMode := r, mFunctionCode := c, mLength := n, mException := x\<rparr>)"

lemma execute_returns:
  assumes "buffers_ok s" "mregs_ok (mregs a)" "ucMBMasterDestAddress s \<le> 8" "request_ok (ucMasterRTUSndBuf s)"
    and "mFrame s = Some f" "f = In_Rcv \<Longrightarrow> honest s" "xFrameIsBroadcast s \<or> ucMBMasterDestAddress s \<noteq> 0"
  shows "yields (master_execute (s, a)) (\<lambda>(s', a'). mregs_ok (mregs a') \<and> m_sid a' = m_sid a \<and> (\<exists>t. after_execute s t
    \<and> (s' = master_failed EV_ERROR_EXECUTE_FUNCTION t \<or> s' = vMBMasterRunResRelease (vMBMasterCBRequestScuuess t))))"
proof -
  let ?c = "frame_mem s f ! 1"
  let ?s = "s\<lparr>mFunctionCode := ?c, mException := ex_code MB_EX_ILLEGAL_FUNCTION\<rparr>"
  have len: "2 < length (frame_mem s f)"
    using assms(1) by (simp add: frame_mem_def buffers_ok_def MB_PDU_SIZE_MAX_def split: frame_ptr.splits)
  show ?thesis
  proof (cases "drop_bit 7 ?c = 0")
    case False
    have "?s\<lparr>mException := x\<rparr> = s\<lparr>ucMBMasterDestAddress := ucMBMasterDestAddress s, xMBRunInMasterMode := xMBRunInMasterMode s,
        mFunctionCode := ?c, mLength := mLength s, mException := x\<rparr>" for x
      by simp
    then have "after_execute s (?s\<lparr>mException := x\<rparr>)" for x
      unfolding after_execute_def using assms(3) by blast
    then show ?thesis
      using False assms(2,5) len
      by (auto simp: master_execute_def wp_simps pdu_defs ser_pdu_defs numeral_2_eq_2 Let_def)
  next
    case True
    have reply: "replies_to (ucMasterRTUSndBuf s) (frame_mem s f)"
      using assms(6) plain_code [OF True]
      by (cases f) (simp_all add: replies_to_def frame_mem_def honest_def)
    obtain h where h: "find_handler xMasterFuncHandlers ?c = Some (Some h)"
      using known_code [OF assms(4)] reply by (auto simp: replies_to_def)
    have "yields (execute_function h f (?s, a)) (\<lambda>(ex, s', a'). mregs_ok (mregs a') \<and> m_sid a' = m_sid a
      \<and> (\<exists>d n. d \<le> 8 \<and> s' = ?s\<lparr>ucMBMasterDestAddress := d, mLength := n, xMBRunInMasterMode := False\<rparr>))"
    proof (cases "xFrameIsBroadcast s")
      case True
      let ?t = "?s\<lparr>xMBRunInMasterMode := True, mLength := usMasterSendPDULength s\<rparr>"
      have "yields (execute_for_all h f slave_numbers (MB_EX_ILLEGAL_FUNCTION, ?t, a))
        (\<lambda>(ex, s', a'). mregs_ok (mregs a') \<and> m_sid a' = m_sid a \<and> (\<exists>d \<le> 8. s' = ?t\<lparr>ucMBMasterDestAddress := d\<rparr>))"
        using assms reply h
        by (intro execute_for_all_yields) (auto simp: frame_mem_def buffers_ok_def slave_numbers_eq split: frame_ptr.splits)
      then obtain ex a' d where m: "execute_for_all h f slave_numbers (MB_EX_ILLEGAL_FUNCTION, ?t, a)
          = Some (ex, ?t\<lparr>ucMBMasterDestAddress := d\<rparr>, a')" "mregs_ok (mregs a')" "m_sid a' = m_sid a" "d \<le> 8"
        by (auto simp: yields_iff)
      have "?t\<lparr>ucMBMasterDestAddress := d, xMBRunInMasterMode := False\<rparr>
          = ?s\<lparr>ucMBMasterDestAddress := d, mLength := usMasterSendPDULength s, xMBRunInMasterMode := False\<rparr>"
        by simp
      then show ?thesis
        using True m
        by (auto simp: execute_function_def vMBMasterSetCBRunInMasterMode_def Let_def yields_iff
            intro!: exI [of _ d] exI [of _ "usMasterSendPDULength s"])
    next
      case False
      let ?t = "?s\<lparr>xMBRunInMasterMode := True\<rparr>"
      have "yields (master_handler h f (?t, a)) (\<lambda>(ex, s', a'). s' = ?t \<and> mregs_ok (mregs a') \<and> m_sid a' = m_sid a)"
        using assms reply h False
        by (intro handler_returns) (auto simp: frame_mem_def buffers_ok_def split: frame_ptr.splits)
      then obtain ex a' where m: "master_handler h f (?t, a) = Some (ex, ?t, a')" "mregs_ok (mregs a')" "m_sid a' = m_sid a"
        by (auto simp: yields_iff)
      have "?t\<lparr>xMBRunInMasterMode := False\<rparr>
          = ?s\<lparr>ucMBMasterDestAddress := ucMBMasterDestAddress s, mLength := mLength s, xMBRunInMasterMode := False\<rparr>"
        by simp
      then show ?thesis
        using False assms(3) m
        by (auto simp: execute_function_def vMBMasterSetCBRunInMasterMode_def Let_def yields_iff
            intro!: exI [of _ "ucMBMasterDestAddress s"] exI [of _ "mLength s"])
    qed
    then obtain ex a' d n where e: "execute_function h f (?s, a)
        = Some (ex, ?s\<lparr>ucMBMasterDestAddress := d, mLength := n, xMBRunInMasterMode := False\<rparr>, a')"
        "mregs_ok (mregs a')" "m_sid a' = m_sid a" "d \<le> 8"
      by (auto simp: yields_iff)
    have "after_execute s (?s\<lparr>ucMBMasterDestAddress := d, mLength := n, xMBRunInMasterMode := False, mException := x\<rparr>)" for x
      unfolding after_execute_def
      by (rule exI [of _ d], rule exI [of _ n], rule exI [of _ False], rule exI [of _ ?c], rule exI [of _ x])
        (simp add: e(4))
    then show ?thesis
      using assms(5) len True h e
      by (auto simp: master_execute_def wp_simps pdu_defs ser_pdu_defs rd_in yields_iff Let_def)
  qed
qed

end
