(* ===== verification/Mbm_Run.thy ===== *)
theory Mbm_Run
  imports Mbm_Safe
begin

text \<open>
  The Modbus master as a whole: a thread that makes requests, the poll thread, the transmit thread,
  the timer and the receive interrupt, in any order.
\<close>

section \<open>Requests\<close>

datatype master_request =
  WriteHolding u8 u16 u16
| WriteMultipleHolding u8 u16 u16 "u16 list"
| ReadHolding u8 u16 u16
| ReadWriteHolding u8 u16 u16 "u16 list" u16 u16
| ReadInput u8 u16 u16
| ReadCoils u8 u16 u16
| WriteCoil u8 u16 u16
| WriteMultipleCoils u8 u16 u16 "u8 list"
| ReadDiscrete u8 u16 u16

fun perform_request :: "master_request \<Rightarrow> master \<Rightarrow> (request_result \<times> master) option" where
  "perform_request (WriteHolding d a v) = eMBMasterReqWriteHoldingRegister d a v"
| "perform_request (WriteMultipleHolding d a n vs) = eMBMasterReqWriteMultipleHoldingRegister d a n vs"
| "perform_request (ReadHolding d a n) = eMBMasterReqReadHoldingRegister d a n"
| "perform_request (ReadWriteHolding d a n vs b m) = eMBMasterReqReadWriteMultipleHoldingRegister d a n vs b m"
| "perform_request (ReadInput d a n) = eMBMasterReqReadInputRegister d a n"
| "perform_request (ReadCoils d a n) = eMBMasterReqReadCoils d a n"
| "perform_request (WriteCoil d a v) = eMBMasterReqWriteCoil d a v"
| "perform_request (WriteMultipleCoils d a n vs) = eMBMasterReqWriteMultipleCoils d a n vs"
| "perform_request (ReadDiscrete d a n) = eMBMasterReqReadDiscreteInputs d a n"

text \<open>
  The requests that fit the buffer and whose holding registers lie in the range of the callback.
  The code checks neither.
\<close>

fun legal_request :: "master_request \<Rightarrow> bool" where
  "legal_request (WriteHolding d a v) = (0x100 \<le> a)"
| "legal_request (WriteMultipleHolding d a n vs) = (0x100 \<le> a \<and> n \<le> 122 \<and> unat n \<le> length vs)"
| "legal_request (ReadHolding d a n) = (0x100 \<le> a)"
| "legal_request (ReadWriteHolding d a n vs b m) = (0x100 \<le> a \<and> 0x100 \<le> b \<and> m \<le> 120 \<and> unat m \<le> length vs)"
| "legal_request (WriteMultipleCoils d a n vs) = (n \<le> 1952 \<and> unat (ucNBytes n) \<le> length vs)"
| "legal_request _ = True"

definition pdu_ok :: "u8 list \<Rightarrow> bool" where
  "pdu_ok pdu \<longleftrightarrow> 5 \<le> length pdu \<and> length pdu \<le> 250 \<and> pdu ! 0 \<in> {1, 2, 3, 4, 5, 6, 15, 16, 23}
     \<and> (pdu ! 0 \<in> {3, 6, 16, 23} \<longrightarrow> 1 \<le> pdu ! 1) \<and> (pdu ! 0 = 23 \<longrightarrow> 10 \<le> length pdu \<and> 1 \<le> pdu ! 5)"

lemma hi8_high: "0x100 \<le> a \<Longrightarrow> 1 \<le> hi8 a"
  using unat_be16 [of "hi8 a" "lo8 a"] unat_u8 [of "lo8 a"]
  by (simp add: byte_simps word_le_nat_alt)

lemma coil_count: "n \<le> 1952 \<Longrightarrow> unat (ucNBytes n) \<le> 244"
proof (cases "n = 1952")
  case False
  assume "n \<le> 1952"
  then have "unat n \<le> 1952" "unat n \<noteq> 1952"
    using False by (simp_all add: word_le_nat_alt word_unat_eq_iff)
  then show ?thesis
    by (auto simp: unat_ucNBytes)
qed (simp add: unat_ucNBytes)

text \<open>The station that a request names, and the PDU that goes onto the line.\<close>

fun request_dest :: "master_request \<Rightarrow> u8" where
  "request_dest (WriteHolding d a v) = d"
| "request_dest (WriteMultipleHolding d a n vs) = d"
| "request_dest (ReadHolding d a n) = d"
| "request_dest (ReadWriteHolding d a n vs b m) = d"
| "request_dest (ReadInput d a n) = d"
| "request_dest (ReadCoils d a n) = d"
| "request_dest (WriteCoil d a v) = d"
| "request_dest (WriteMultipleCoils d a n vs) = d"
| "request_dest (ReadDiscrete d a n) = d"

fun request_bytes :: "master_request \<Rightarrow> u8 list" where
  "request_bytes (WriteHolding d a v) = two_word_pdu 6 a v"
| "request_bytes (WriteMultipleHolding d a n vs) = two_word_pdu 16 a n @ [ucast (n * 2)] @ be_bytes (take (unat n) vs)"
| "request_bytes (ReadHolding d a n) = two_word_pdu 3 a n"
| "request_bytes (ReadWriteHolding d a n vs b m) =
     two_word_pdu 23 a n @ [hi8 b, lo8 b, hi8 m, lo8 m, ucast (m * 2)] @ be_bytes (take (unat m) vs)"
| "request_bytes (ReadInput d a n) = two_word_pdu 4 a n"
| "request_bytes (ReadCoils d a n) = two_word_pdu 1 a n"
| "request_bytes (WriteCoil d a v) = two_word_pdu 5 a v"
| "request_bytes (WriteMultipleCoils d a n vs) = two_word_pdu 15 a n @ [ucNBytes n] @ take (unat (ucNBytes n)) vs"
| "request_bytes (ReadDiscrete d a n) = two_word_pdu 2 a n"

lemmas request_defs =
  eMBMasterReqWriteHoldingRegister_def eMBMasterReqWriteMultipleHoldingRegister_def
  eMBMasterReqReadHoldingRegister_def eMBMasterReqReadWriteMultipleHoldingRegister_def eMBMasterReqReadInputRegister_def
  eMBMasterReqReadCoils_def eMBMasterReqWriteCoil_def eMBMasterReqWriteMultipleCoils_def eMBMasterReqReadDiscreteInputs_def

lemma perform_legal:
  assumes "legal_request q"
  shows "perform_request q s = Some (Refused MB_MRE_ILL_ARG, s)
    \<or> request_dest q \<le> 8 \<and> perform_request q s = issue_request (request_dest q) (Some (request_bytes q)) s"
  using assms
  by (cases q) (auto simp: request_defs take_data_def mb_func_defs two_word_pdu_def MB_MASTER_TOTAL_SLAVE_NUM_def)

lemma request_bytes_ok: "legal_request q \<Longrightarrow> pdu_ok (request_bytes q)"
  by (cases q) (auto simp: two_word_pdu_def pdu_ok_def hi8_high word_le_nat_alt [of _ "122 :: u16"]
    word_le_nat_alt [of _ "120 :: u16"] dest: coil_count)

section \<open>Phases of a request\<close>

definition master_common :: "master \<Rightarrow> master_app \<Rightarrow> bool" where
  "master_common s a \<longleftrightarrow> buffers_ok s \<and> mState s = STATE_ENABLED \<and> unat (usMasterRcvBufferPos s) \<le> 256
     \<and> ucMBMasterDestAddress s \<le> 8 \<and> (m_rx_enabled s \<longleftrightarrow> mSndState s \<noteq> STATE_M_TX_XMIT)
     \<and> (m_tx_start s \<longleftrightarrow> mSndState s = STATE_M_TX_XMIT)
     \<and> (m_timer_running s \<longleftrightarrow> mRcvState s \<noteq> STATE_M_RX_IDLE \<or> mSndState s = STATE_M_TX_XFWR) \<and> mregs_ok (mregs a)"

definition request_in_buffer :: "master \<Rightarrow> bool" where
  "request_in_buffer s \<longleftrightarrow> request_ok (ucMasterRTUSndBuf s) \<and> 5 \<le> unat (usMasterSendPDULength s)
     \<and> unat (usMasterSendPDULength s) \<le> 250 \<and> (ucMasterRTUSndBuf s ! 1 = 23 \<longrightarrow> 10 \<le> unat (usMasterSendPDULength s))"

definition line_quiet :: "master \<Rightarrow> bool" where
  "line_quiet s \<longleftrightarrow> mSndState s = STATE_M_TX_IDLE \<and> mRcvState s = STATE_M_RX_IDLE"

definition quiet_phase :: "master \<Rightarrow> bool" where
  "quiet_phase s \<longleftrightarrow> xMasterOsEvent s = 0 \<and> xMasterRunRes s = 1 \<and> line_quiet s"

definition asked_phase :: "master \<Rightarrow> bool" where
  "asked_phase s \<longleftrightarrow> xMasterOsEvent s = 8 \<and> xMasterRunRes s = 0 \<and> line_quiet s \<and> request_in_buffer s"

definition sending_phase :: "master \<Rightarrow> bool" where
  "sending_phase s \<longleftrightarrow> xMasterOsEvent s = 0 \<and> xMasterRunRes s = 0 \<and> mSndState s = STATE_M_TX_XMIT
     \<and> mRcvState s = STATE_M_RX_IDLE \<and> request_in_buffer s \<and> ucMasterRTUSndBuf s ! 0 = ucMBMasterDestAddress s
     \<and> pucMasterSndBufferCur s + unat (usMasterSndBufferCount s) \<le> 253 \<and> mFrame s = Some In_Snd"

definition awaiting_phase :: "master \<Rightarrow> bool" where
  "awaiting_phase s \<longleftrightarrow> xMasterOsEvent s = 0 \<and> xMasterRunRes s = 0 \<and> mSndState s = STATE_M_TX_XFWR
     \<and> mRcvState s = STATE_M_RX_IDLE \<and> request_in_buffer s \<and> (xFrameIsBroadcast s \<longleftrightarrow> ucMBMasterDestAddress s = 0)
     \<and> eMasterCurTimerMode s = (if xFrameIsBroadcast s then MB_TMODE_CONVERT_DELAY else MB_TMODE_RESPOND_TIMEOUT)
     \<and> mFrame s = Some In_Snd"

definition receiving_phase :: "master \<Rightarrow> bool" where
  "receiving_phase s \<longleftrightarrow> xMasterOsEvent s = 0 \<and> xMasterRunRes s = 0 \<and> mSndState s = STATE_M_TX_IDLE
     \<and> mRcvState s \<in> {STATE_M_RX_RCV, STATE_M_RX_ERROR} \<and> request_in_buffer s
     \<and> (xFrameIsBroadcast s \<longleftrightarrow> ucMBMasterDestAddress s = 0) \<and> eMasterCurTimerMode s = MB_TMODE_T35"

definition pending_phase :: "master \<Rightarrow> bool" where
  "pending_phase s \<longleftrightarrow> xMasterOsEvent s \<in> {2, 4, 16} \<and> xMasterRunRes s = 0 \<and> line_quiet s \<and> request_in_buffer s
     \<and> (xMasterOsEvent s \<noteq> 16 \<longrightarrow> (xFrameIsBroadcast s \<longleftrightarrow> ucMBMasterDestAddress s = 0))
     \<and> (xMasterOsEvent s = 4 \<longrightarrow> mFrame s \<noteq> None)"

definition answered_phase :: "master \<Rightarrow> bool" where
  "answered_phase s \<longleftrightarrow> xMasterOsEvent s \<in> {32, 64, 128, 256} \<and> xMasterRunRes s = 1 \<and> line_quiet s"

lemmas phase_defs = master_common_def line_quiet_def quiet_phase_def asked_phase_def sending_phase_def awaiting_phase_def
  receiving_phase_def pending_phase_def answered_phase_def

text \<open>What the thread with the request sees.\<close>

definition busy :: "master \<Rightarrow> bool" where
  "busy s \<longleftrightarrow> asked_phase s \<or> sending_phase s \<or> awaiting_phase s \<or> receiving_phase s \<or> pending_phase s"

definition master_inv :: "master \<times> master_app \<times> bool \<Rightarrow> bool" where
  "master_inv = (\<lambda>(s, a, w). master_common s a \<and> (if w then busy s \<or> answered_phase s else quiet_phase s))"

section \<open>Steps\<close>

text \<open>
  The steps that the master makes by itself, and those of the thread with the request and of the
  line. On the line there is nothing but replies: bytes come only while a reply is awaited or has
  begun (\<open>expecting\<close>). \<open>reply_fine\<close>: what the poll thread needs of a complete reply.
\<close>

definition expecting :: "master \<Rightarrow> bool" where
  "expecting s \<longleftrightarrow> mSndState s = STATE_M_TX_XFWR \<or> mRcvState s \<in> {STATE_M_RX_RCV, STATE_M_RX_ERROR}"

definition reply_fine :: "master \<Rightarrow> bool" where
  "reply_fine s \<longleftrightarrow> usMasterRcvBufferPos s < 256 \<and> honest s"

definition poll_fine :: "master \<Rightarrow> bool" where
  "poll_fine s \<longleftrightarrow> (xMasterOsEvent s AND 2 \<noteq> 0 \<or> xMasterOsEvent s AND 4 \<noteq> 0 \<and> mFrame s = Some In_Rcv \<longrightarrow> reply_fine s)"

inductive internal :: "master \<times> master_app \<Rightarrow> master \<times> master_app \<Rightarrow> bool" where
  tx: "m_tx_start s \<Longrightarrow> xMBMasterRTUTransmitFSM s = Some (np, s') \<Longrightarrow> internal (s, a) (s', a)"
| timer: "m_timer_running s \<Longrightarrow> xMBMasterRTUTimerExpired s = Some (np, s') \<Longrightarrow> internal (s, a) (s', a)"
| poll: "poll_fine s \<Longrightarrow> eMBMasterPoll (s, a) = Some (Returned e, s', a') \<Longrightarrow> internal (s, a) (s', a')"

inductive master_step :: "master \<times> master_app \<times> bool \<Rightarrow> master \<times> master_app \<times> bool \<Rightarrow> bool" where
  request: "legal_request q \<Longrightarrow> perform_request q s = Some (Waiting, s') \<Longrightarrow> master_step (s, a, False) (s', a, True)"
| finish: "eMBMasterWaitRequestFinish s = (Returned e, s') \<Longrightarrow> master_step (s, a, True) (s', a, False)"
| inside: "internal (s, a) (s', a') \<Longrightarrow> master_step (s, a, w) (s', a', w)"
| rx: "expecting s \<Longrightarrow> m_rx_enabled s \<Longrightarrow> xMBMasterRTUReceiveFSM b s = Some (np, s') \<Longrightarrow> master_step (s, a, w) (s', a, w)"

inductive master_reachable :: "master \<times> master_app \<times> bool \<Rightarrow> master \<times> master_app \<times> bool \<Rightarrow> bool" for c0 where
  start: "master_reachable c0 c0"
| move: "master_reachable c0 c \<Longrightarrow> master_step c c' \<Longrightarrow> master_reachable c0 c'"

section \<open>A request is made\<close>

lemma copy_pdu:
  assumes "length buf = 253" "length pdu \<le> 250"
  shows "copy_bytes buf 1 pdu 0 (length pdu) = Some (splice buf 1 pdu)"
  using copy_bytes_eq [of 1 "length pdu" buf 0 pdu] assms by simp

lemma issue_free:
  assumes "buffers_ok s" "pdu_ok pdu" "xMasterRunRes s \<noteq> 0"
  shows "issue_request d (Some pdu) s = Some (Waiting, s\<lparr>xMasterRunRes := xMasterRunRes s - 1, ucMBMasterDestAddress := d,
    ucMasterRTUSndBuf := splice (ucMasterRTUSndBuf s) 1 pdu, usMasterSendPDULength := of_nat (length pdu),
    xMasterOsEvent := xMasterOsEvent s OR 8\<rparr>)"
  using assms copy_pdu [of "ucMasterRTUSndBuf s" pdu]
  by (simp add: issue_request_def xMBMasterRunResTake_def master_port_defs ser_pdu_defs buffers_ok_def MB_PDU_SIZE_MAX_def
      pdu_ok_def Let_def word_greater_zero_iff)

lemma issue_ok:
  assumes "buffers_ok s" "pdu_ok pdu" "xMasterRunRes s = 1"
  shows "issue_request d (Some pdu) s = Some (Waiting, s\<lparr>xMasterRunRes := 0, ucMBMasterDestAddress := d,
    ucMasterRTUSndBuf := splice (ucMasterRTUSndBuf s) 1 pdu, usMasterSendPDULength := of_nat (length pdu),
    xMasterOsEvent := xMasterOsEvent s OR 8\<rparr>)"
  using issue_free [OF assms(1,2)] assms(3) by simp

lemma issued:
  assumes "length buf = 253" "pdu_ok pdu"
  shows "length (splice buf 1 pdu) = 253" "splice buf 1 pdu ! 1 = pdu ! 0" "request_ok (splice buf 1 pdu)"
    "unat (of_nat (length pdu) :: u16) = length pdu"
proof -
  have len: "5 \<le> length pdu" "length pdu \<le> 250"
    using assms(2) by (simp_all add: pdu_ok_def)
  have "splice buf 1 pdu ! i = pdu ! (i - 1)" if "1 \<le> i" "i < length pdu + 1" for i
    using that assms(1) len by (subst nth_splice) auto
  moreover have "pdu \<noteq> []"
    using len by auto
  ultimately have at: "splice buf 1 pdu ! 1 = pdu ! 0" "splice buf 1 pdu ! 2 = pdu ! 1" "10 \<le> length pdu \<Longrightarrow> splice buf 1 pdu ! 6 = pdu ! 5"
    using len by simp_all
  show "request_ok (splice buf 1 pdu)"
    using assms(2) at unfolding request_ok_def pdu_ok_def by simp
  show "length (splice buf 1 pdu) = 253" "splice buf 1 pdu ! 1 = pdu ! 0" "unat (of_nat (length pdu) :: u16) = length pdu"
    using assms(1) len at by (simp_all add: unat16_of_nat)
qed

lemma request_inv:
  assumes "master_inv (s, a, False)" "legal_request q" "perform_request q s = Some (Waiting, s')"
  shows "master_inv (s', a, True)" "asked_phase s'"
proof -
  have q: "master_common s a" "quiet_phase s"
    using assms(1) by (simp_all add: master_inv_def)
  have pdu: "pdu_ok (request_bytes q)"
    by (rule request_bytes_ok [OF assms(2)])
  have b: "buffers_ok s" "xMasterRunRes s = 1"
    using q by (simp_all add: phase_defs)
  have d: "request_dest q \<le> 8" "perform_request q s = issue_request (request_dest q) (Some (request_bytes q)) s"
    using perform_legal [OF assms(2), of s] assms(3) by auto
  have s': "s' = s\<lparr>xMasterRunRes := 0, ucMBMasterDestAddress := request_dest q,
      ucMasterRTUSndBuf := splice (ucMasterRTUSndBuf s) 1 (request_bytes q),
      usMasterSendPDULength := of_nat (length (request_bytes q)), xMasterOsEvent := xMasterOsEvent s OR 8\<rparr>"
    using assms(3) d(2) issue_ok [OF b(1) pdu b(2)] by simp
  have l: "length (ucMasterRTUSndBuf s) = 253"
    using b(1) by (simp add: buffers_ok_def MB_PDU_SIZE_MAX_def)
  note i = issued [OF l pdu]
  have len: "5 \<le> length (request_bytes q)" "length (request_bytes q) \<le> 250" "request_bytes q ! 0 = 23 \<Longrightarrow> 10 \<le> length (request_bytes q)"
    using pdu by (simp_all add: pdu_ok_def)
  show asked: "asked_phase s'"
    using q(2) i len unfolding s' by (simp add: asked_phase_def quiet_phase_def line_quiet_def request_in_buffer_def)
  have "master_common s' a"
    using q(1) i(1) d(1) unfolding s' by (simp add: master_common_def buffers_ok_def MB_PDU_SIZE_MAX_def)
  with asked show "master_inv (s', a, True)"
    by (simp add: master_inv_def busy_def)
qed

section \<open>The other steps\<close>

lemma in_buffer_frame:
  assumes "request_in_buffer s" "ucMasterRTUSndBuf s' = ucMasterRTUSndBuf s" "usMasterSendPDULength s' = usMasterSendPDULength s"
  shows "request_in_buffer s'"
  using assms by (simp add: request_in_buffer_def)

lemma tx_inv:
  assumes "master_common s a" "sending_phase s"
  shows "\<exists>s'. xMBMasterRTUTransmitFSM s = Some (False, s') \<and> master_common s' a
    \<and> (if usMasterSndBufferCount s = 0 then awaiting_phase s'
       else sending_phase s' \<and> usMasterSndBufferCount s' = usMasterSndBufferCount s - 1)"
proof (cases "usMasterSndBufferCount s = 0")
  case True
  let ?s = "s\<lparr>xFrameIsBroadcast := (ucMBMasterDestAddress s = 0), m_rx_enabled := True, m_tx_start := False, mSndState := STATE_M_TX_XFWR\<rparr>"
  have "0 < length (ucMasterRTUSndBuf s)"
    using assms(1) by (simp add: master_common_def buffers_ok_def MB_PDU_SIZE_MAX_def)
  then have r: "xMBMasterRTUTransmitFSM s = Some (False, if ucMBMasterDestAddress s = 0
      then vMBMasterPortTimersConvertDelayEnable ?s else vMBMasterPortTimersRespondTimeoutEnable ?s)"
    using assms(2) True
    by (simp add: xMBMasterRTUTransmitFSM_def sending_phase_def rd_in ser_pdu_defs MB_ADDRESS_BROADCAST_def
        vMBMasterPortSerialEnable_def)
  show ?thesis
    using assms True unfolding r
    by (simp add: phase_defs buffers_ok_def request_in_buffer_def master_port_defs)
next
  case False
  then have c: "unat (usMasterSndBufferCount s - 1) = unat (usMasterSndBufferCount s) - 1" "0 < unat (usMasterSndBufferCount s)"
    by (simp_all add: unat_minus_one unat_gt_0)
  let ?s = "(xMBMasterPortSerialPutByte (ucMasterRTUSndBuf s ! pucMasterSndBufferCur s) s)
    \<lparr>pucMasterSndBufferCur := pucMasterSndBufferCur s + 1, usMasterSndBufferCount := usMasterSndBufferCount s - 1\<rparr>"
  have "pucMasterSndBufferCur s < length (ucMasterRTUSndBuf s)"
    using assms c(2) by (simp add: phase_defs buffers_ok_def MB_PDU_SIZE_MAX_def)
  then have r: "xMBMasterRTUTransmitFSM s = Some (False, ?s)"
    using assms(2) False by (simp add: xMBMasterRTUTransmitFSM_def sending_phase_def rd_in)
  show ?thesis
    using assms False c unfolding r
    by (simp add: phase_defs buffers_ok_def request_in_buffer_def master_port_defs)
qed

lemma timer_inv:
  assumes "master_common s a" "awaiting_phase s \<or> receiving_phase s"
  shows "\<exists>s' np. xMBMasterRTUTimerExpired s = Some (np, s') \<and> master_common s' a \<and> pending_phase s'
    \<and> (receiving_phase s \<or> xFrameIsBroadcast s \<or> xMasterOsEvent s' = 16)
    \<and> (mRcvState s = STATE_M_RX_RCV \<longrightarrow> xMasterOsEvent s' = 2) \<and> (xMasterOsEvent s' = 2 \<longrightarrow> receiving_phase s)
    \<and> ucMasterRTURcvBuf s' = ucMasterRTURcvBuf s \<and> usMasterRcvBufferPos s' = usMasterRcvBufferPos s
    \<and> ucMasterRTUSndBuf s' = ucMasterRTUSndBuf s \<and> mFrame s' = mFrame s"
  using assms(2)
proof
  assume "awaiting_phase s"
  then show ?thesis
    using assms(1)
    by (auto simp: xMBMasterRTUTimerExpired_def phase_defs buffers_ok_def request_in_buffer_def master_port_defs Let_def)
next
  assume "receiving_phase s"
  then show ?thesis
    using assms(1)
    by (auto simp: xMBMasterRTUTimerExpired_def phase_defs buffers_ok_def request_in_buffer_def master_port_defs Let_def)
qed

lemma rx_inv:
  assumes "master_common s a" "awaiting_phase s \<or> receiving_phase s"
  shows "\<exists>s'. xMBMasterRTUReceiveFSM b s = Some (False, s') \<and> master_common s' a \<and> receiving_phase s'"
  using assms(2)
proof
  assume "awaiting_phase s"
  then show ?thesis
    using assms(1)
    by (simp add: xMBMasterRTUReceiveFSM_def phase_defs buffers_ok_def request_in_buffer_def master_port_defs Let_def wr_in)
next
  assume r: "receiving_phase s"
  have "unat (usMasterRcvBufferPos s + 1) = Suc (unat (usMasterRcvBufferPos s))" if "usMasterRcvBufferPos s < 256"
    using that by (simp add: word_less_nat_alt unat_word_ariths)
  then show ?thesis
    using assms(1) r
    by (auto simp: xMBMasterRTUReceiveFSM_def phase_defs buffers_ok_def request_in_buffer_def master_port_defs Let_def wr_in
        ser_pdu_defs word_less_nat_alt [of _ "256 :: u16"])
qed

lemma master_send:
  assumes "mRcvState s = STATE_M_RX_IDLE" "length (ucMasterRTUSndBuf s) = 253" "addr \<le> 8"
    and "take (length pdu) (drop 1 (ucMasterRTUSndBuf s)) = pdu" "length pdu \<le> 250"
  shows "eMBMasterRTUSend addr 1 (of_nat (length pdu)) s = Some (MB_ENOERR,
    s\<lparr>m_rx_enabled := False, m_tx_start := True, mSndState := STATE_M_TX_XMIT, pucMasterSndBufferCur := 0,
      usMasterSndBufferCount := of_nat (length pdu + 3),
      ucMasterRTUSndBuf := seal_frame crc16 (addr # pdu) @ drop (length pdu + 3) (ucMasterRTUSndBuf s)\<rparr>)"
proof -
  let ?n = "length pdu" and ?b = "(ucMasterRTUSndBuf s)[0 := addr]"
  have n: "unat (1 + word_of_nat ?n :: u16) = Suc ?n" "unat (2 + word_of_nat ?n :: u16) = Suc (Suc ?n)"
    using assms(5) unat16_of_nat [of "Suc ?n"] unat16_of_nat [of "Suc (Suc ?n)"] by simp_all
  obtain x xs where buf: "ucMasterRTUSndBuf s = x # xs"
    using assms(2) by (cases "ucMasterRTUSndBuf s") auto
  have tk: "take (Suc ?n) ?b = addr # pdu"
    using assms(4) by (simp add: buf)
  have crc: "usMBCRC16 ?b 0 (1 + word_of_nat ?n) = Some (crc16 (addr # pdu))"
    using assms(2,5) n(1) tk by (simp add: usMBCRC16_eq)
  have "?b[Suc ?n := lo, Suc (Suc ?n) := hi] = take (Suc ?n) ?b @ [lo, hi] @ drop (?n + 3) (ucMasterRTUSndBuf s)" for lo hi
    using assms(2,5) by (intro nth_equalityI) (auto simp: nth_append nth_list_update nth_Cons')
  then show ?thesis
    using assms(1-3,5) crc n
    by (simp add: eMBMasterRTUSend_def ser_pdu_defs Let_def wr_in vMBMasterPortSerialEnable_def tk seal_frame_def ac_simps
        MB_MASTER_TOTAL_SLAVE_NUM_def not_less)
qed

lemma sealed_request:
  fixes addr :: u8
  assumes "length buf = 253" "request_ok buf" "5 \<le> n" "n \<le> 250" "buf ! 1 = 23 \<Longrightarrow> 10 \<le> n"
  defines "new \<equiv> seal_frame crc16 (addr # take n (drop 1 buf)) @ drop (n + 3) buf"
  shows "length new = 253" "request_ok new" "new ! 1 = buf ! 1" "new ! 0 = addr"
proof -
  have at: "new ! i = buf ! i" if "1 \<le> i" "i < n + 1" for i
    using that assms(1,4) by (cases i) (simp_all add: new_def seal_frame_def nth_append)
  show "length new = 253" "new ! 0 = addr"
    using assms(1,4) by (simp_all add: new_def seal_frame_def)
  show "new ! 1 = buf ! 1"
    using at [of 1] assms(3) by simp
  moreover have "new ! 2 = buf ! 2" "buf ! 1 = 23 \<Longrightarrow> new ! 6 = buf ! 6"
    using at [of 2] at [of 6] assms(3,5) by simp_all
  ultimately show "request_ok new"
    using assms(2) unfolding request_ok_def by simp
qed

lemma poll_event:
  assumes "mState s = STATE_ENABLED" "xMasterOsEvent s AND 31 = m" "m \<noteq> 0"
  shows "eMBMasterPoll (s, a) = do {
    e \<leftarrow> master_event_of m;
    sa \<leftarrow> master_switch e (s\<lparr>xMasterOsEvent := xMasterOsEvent s AND NOT 31\<rparr>, a);
    Some (Returned MB_ENOERR, sa) }"
  using assms by (simp add: eMBMasterPoll_def xMBMasterPortEventGet_def)

lemma poll_sends:
  assumes "mState s = STATE_ENABLED" "xMasterOsEvent s = 8" "mRcvState s = STATE_M_RX_IDLE" "length (ucMasterRTUSndBuf s) = 253"
    and "ucMBMasterDestAddress s \<le> 8" "take (length pdu) (drop 1 (ucMasterRTUSndBuf s)) = pdu" "length pdu \<le> 250"
    and "usMasterSendPDULength s = of_nat (length pdu)"
  shows "eMBMasterPoll (s, a) = Some (Returned MB_ENOERR, s\<lparr>xMasterOsEvent := 0, mFrame := Some In_Snd, m_rx_enabled := False,
    m_tx_start := True, mSndState := STATE_M_TX_XMIT, pucMasterSndBufferCur := 0, usMasterSndBufferCount := of_nat (length pdu + 3),
    ucMasterRTUSndBuf := seal_frame crc16 (ucMBMasterDestAddress s # pdu) @ drop (length pdu + 3) (ucMasterRTUSndBuf s)\<rparr>, a)"
  using assms master_send [of "s\<lparr>xMasterOsEvent := 0, mFrame := Some In_Snd\<rparr>" "ucMBMasterDestAddress s" pdu]
  by (simp add: poll_event master_event_of_def ser_pdu_defs del: of_nat_add)

lemma poll_asked:
  assumes "master_common s a" "asked_phase s"
  shows "\<exists>s'. eMBMasterPoll (s, a) = Some (Returned MB_ENOERR, s', a) \<and> master_common s' a \<and> sending_phase s'"
proof -
  let ?n = "unat (usMasterSendPDULength s)" and ?b = "ucMasterRTUSndBuf s"
  let ?s = "s\<lparr>xMasterOsEvent := 0, mFrame := Some In_Snd\<rparr>"
  let ?pdu = "take ?n (drop 1 ?b)"
  have b: "length ?b = 253" "request_ok ?b" "5 \<le> ?n" "?n \<le> 250" "?b ! 1 = 23 \<Longrightarrow> 10 \<le> ?n"
    using assms by (simp_all add: phase_defs buffers_ok_def MB_PDU_SIZE_MAX_def request_in_buffer_def)
  then have len: "length ?pdu = ?n"
    by simp
  let ?new = "seal_frame crc16 (ucMBMasterDestAddress s # ?pdu) @ drop (?n + 3) ?b"
  note new = sealed_request [OF b, of "ucMBMasterDestAddress s"]
  have r: "eMBMasterPoll (s, a) = Some (Returned MB_ENOERR,
    ?s\<lparr>m_rx_enabled := False, m_tx_start := True, mSndState := STATE_M_TX_XMIT, pucMasterSndBufferCur := 0,
      usMasterSndBufferCount := of_nat (?n + 3), ucMasterRTUSndBuf := ?new\<rparr>, a)"
    using assms b len poll_sends [of s ?pdu a] by (simp add: phase_defs del: of_nat_add)
  have c: "unat (of_nat (?n + 3) :: u16) = ?n + 3"
    using b(4) by (intro unat16_of_nat) simp
  show ?thesis
    using assms b(3-5) new unfolding r
    by (simp add: phase_defs buffers_ok_def request_in_buffer_def MB_PDU_SIZE_MAX_def c del: of_nat_add)
qed

lemma receive_returns:
  assumes "length (ucMasterRTURcvBuf s) = 256" "usMasterRcvBufferPos s < 256"
  obtains "eMBMasterRTUReceive s = Some (MB_EIO, None)"
  | addr len where "eMBMasterRTUReceive s = Some (MB_ENOERR, Some (addr, In_Rcv, len))"
proof -
  have "0 + unat (usMasterRcvBufferPos s) \<le> length (ucMasterRTURcvBuf s)"
    using assms by (simp add: word_less_nat_alt)
  from usMBCRC16_eq [OF this] assms that show thesis
    by (cases "usMasterRcvBufferPos s \<ge> 4 \<and> crc16 (take (unat (usMasterRcvBufferPos s)) (ucMasterRTURcvBuf s)) = 0")
      (auto simp: eMBMasterRTUReceive_def ser_pdu_defs rd_in)
qed

lemma master_poll_received:
  assumes "master_common s a" "pending_phase s" "xMasterOsEvent s = 2" "usMasterRcvBufferPos s < 256"
  shows "\<exists>s'. eMBMasterPoll (s, a) = Some (Returned MB_ENOERR, s', a) \<and> master_common s' a \<and> pending_phase s'
    \<and> xMasterOsEvent s' \<in> {4, 16} \<and> (honest s' \<longleftrightarrow> honest s) \<and> usMasterRcvBufferPos s' = usMasterRcvBufferPos s"
proof -
  let ?s = "s\<lparr>xMasterOsEvent := 0\<rparr>"
  have l: "length (ucMasterRTURcvBuf ?s) = 256" "usMasterRcvBufferPos ?s < 256"
    using assms(1,4) by (simp_all add: master_common_def buffers_ok_def)
  have p: "eMBMasterPoll (s, a) = do { sa \<leftarrow> master_switch EV_MASTER_FRAME_RECEIVED (?s, a); Some (Returned MB_ENOERR, sa) }"
    using assms(1,3) by (simp add: poll_event master_common_def master_event_of_def)
  from l show ?thesis
    by (cases rule: receive_returns)
      (use assms(1-3) in \<open>auto simp: p phase_defs buffers_ok_def request_in_buffer_def honest_def master_failed_def
        master_port_defs Let_def\<close>)
qed

lemma poll_execute_request:
  assumes "master_common s a" "pending_phase s" "xMasterOsEvent s = 4" "mFrame s = Some In_Rcv \<Longrightarrow> honest s"
  shows "\<exists>s' a'. eMBMasterPoll (s, a) = Some (Returned MB_ENOERR, s', a') \<and> master_common s' a'
    \<and> (pending_phase s' \<and> xMasterOsEvent s' = 16 \<or> answered_phase s')"
proof -
  let ?s = "s\<lparr>xMasterOsEvent := 0\<rparr>"
  obtain f where f: "mFrame s = Some f"
    using assms(2,3) by (auto simp: pending_phase_def)
  have "yields (master_execute (?s, a)) (\<lambda>(s', a'). mregs_ok (mregs a') \<and> m_sid a' = m_sid a \<and> (\<exists>t. after_execute ?s t
    \<and> (s' = master_failed EV_ERROR_EXECUTE_FUNCTION t \<or> s' = vMBMasterRunResRelease (vMBMasterCBRequestScuuess t))))"
    using assms f by (intro execute_returns [of _ _ f]) (auto simp: phase_defs buffers_ok_def request_in_buffer_def honest_def)
  then obtain s' a' t where e: "master_execute (?s, a) = Some (s', a')" "mregs_ok (mregs a')" "after_execute ?s t"
      "s' = master_failed EV_ERROR_EXECUTE_FUNCTION t \<or> s' = vMBMasterRunResRelease (vMBMasterCBRequestScuuess t)"
    by (auto simp: yields_iff)
  have p: "eMBMasterPoll (s, a) = Some (Returned MB_ENOERR, s', a')"
    using assms(1,3) e(1) by (simp add: poll_event master_common_def master_event_of_def)
  obtain d n r c x where t: "d \<le> 8" "t = ?s\<lparr>ucMBMasterDestAddress := d, xMBRunInMasterMode := r, mFunctionCode := c,
      mLength := n, mException := x\<rparr>"
    using e(3) unfolding after_execute_def by blast
  have c: "master_common (master_failed EV_ERROR_EXECUTE_FUNCTION t) a'"
    "pending_phase (master_failed EV_ERROR_EXECUTE_FUNCTION t)" "xMasterOsEvent (master_failed EV_ERROR_EXECUTE_FUNCTION t) = 16"
    "master_common (vMBMasterRunResRelease (vMBMasterCBRequestScuuess t)) a'"
    "answered_phase (vMBMasterRunResRelease (vMBMasterCBRequestScuuess t))"
    using assms(1-2) e(2) t(1) unfolding t(2)
    by (simp_all add: phase_defs buffers_ok_def request_in_buffer_def master_failed_def master_port_defs)
  from e(4) show ?thesis
    unfolding p using c by auto
qed

lemma poll_error:
  assumes "master_common s a" "pending_phase s" "xMasterOsEvent s = 16"
  shows "\<exists>s'. eMBMasterPoll (s, a) = Some (Returned MB_ENOERR, s', a) \<and> master_common s' a \<and> answered_phase s'
    \<and> xMasterOsEvent s' = (case eMBMasterCurErrorType s of EV_ERROR_RESPOND_TIMEOUT \<Rightarrow> 64 | EV_ERROR_RECEIVE_DATA \<Rightarrow> 128
        | EV_ERROR_EXECUTE_FUNCTION \<Rightarrow> 256)"
  using assms
  by (cases "eMBMasterCurErrorType s")
    (simp_all add: poll_event master_event_of_def phase_defs buffers_ok_def master_port_defs)

section \<open>Every step keeps the invariant\<close>

definition distance :: "master \<Rightarrow> nat" where
  "distance s = (if xMasterOsEvent s = 8 then 100000 else if mSndState s = STATE_M_TX_XMIT then 1000 + unat (usMasterSndBufferCount s)
     else if mSndState s = STATE_M_TX_XFWR then 900 else if mRcvState s \<noteq> STATE_M_RX_IDLE then 800
     else if xMasterOsEvent s = 2 then 700 else if xMasterOsEvent s = 4 then 600 else if xMasterOsEvent s = 16 then 500 else 0)"

definition reply_begun :: "master \<Rightarrow> bool" where
  "reply_begun s \<longleftrightarrow> mRcvState s \<noteq> STATE_M_RX_IDLE \<or> xMasterOsEvent s = 2 \<or> xMasterOsEvent s = 4 \<and> mFrame s = Some In_Rcv"

lemma no_event:
  assumes "mState s = STATE_ENABLED" "xMasterOsEvent s AND 31 = 0"
  shows "eMBMasterPoll (s, a) = Some (Blocked, s, a)"
  using assms by (simp add: eMBMasterPoll_def xMBMasterPortEventGet_def)

lemma asleep:
  assumes "master_common s a" "quiet_phase s \<or> answered_phase s"
  shows "\<not> internal (s, a) c" "\<not> expecting s"
proof -
  have "eMBMasterPoll (s, a) = Some (Blocked, s, a)"
    using assms by (intro no_event) (auto simp: phase_defs)
  then show "\<not> internal (s, a) c" "\<not> expecting s"
    using assms by (auto simp: phase_defs expecting_def elim!: internal.cases)
qed

text \<open>A step goes from the phase it belongs to into the next one.\<close>

lemma internal_inv:
  assumes "internal (s, a) (s', a')" "master_common s a" "busy s"
  shows "master_common s' a' \<and> (busy s' \<or> answered_phase s') \<and> distance s' < distance s
    \<and> ((reply_begun s \<longrightarrow> reply_fine s) \<longrightarrow> (reply_begun s' \<longrightarrow> reply_fine s'))"
  using assms(1)
proof (cases rule: internal.cases)
  case (tx np)
  then have ph: "sending_phase s"
    using assms(2,3) by (auto simp: busy_def phase_defs)
  from tx_inv [OF assms(2) ph] tx have s': "master_common s' a" "if usMasterSndBufferCount s = 0 then awaiting_phase s'
      else sending_phase s' \<and> usMasterSndBufferCount s' = usMasterSndBufferCount s - 1"
    by auto
  have "unat (usMasterSndBufferCount s - 1) < unat (usMasterSndBufferCount s)" if "usMasterSndBufferCount s \<noteq> 0"
    using that by (simp add: unat_minus_one unat_gt_0)
  then show ?thesis
    using s' tx(1) ph
    by (cases "usMasterSndBufferCount s = 0") (auto simp: busy_def distance_def sending_phase_def awaiting_phase_def reply_begun_def)
next
  case (timer np)
  then have ph: "awaiting_phase s \<or> receiving_phase s"
    using assms(2,3) by (auto simp: busy_def phase_defs)
  from timer_inv [OF assms(2) ph] timer have s': "master_common s' a" "pending_phase s'"
      "xMasterOsEvent s' = 2 \<longrightarrow> receiving_phase s" "ucMasterRTURcvBuf s' = ucMasterRTURcvBuf s"
      "usMasterRcvBufferPos s' = usMasterRcvBufferPos s" "ucMasterRTUSndBuf s' = ucMasterRTUSndBuf s" "mFrame s' = mFrame s"
    by auto
  have "reply_fine s' \<longleftrightarrow> reply_fine s"
    using s' by (simp add: reply_fine_def honest_def)
  moreover have "reply_begun s' \<longrightarrow> receiving_phase s"
    using s' ph by (auto simp: reply_begun_def pending_phase_def line_quiet_def awaiting_phase_def)
  moreover have "receiving_phase s \<longrightarrow> reply_begun s"
    by (auto simp: receiving_phase_def reply_begun_def)
  moreover have "distance s' \<le> 700" "800 \<le> distance s"
    using s'(2) ph by (auto simp: distance_def pending_phase_def line_quiet_def awaiting_phase_def receiving_phase_def)
  ultimately show ?thesis
    using s' timer(1) by (auto simp: busy_def)
next
  case (poll e)
  have "xMasterOsEvent s \<noteq> 0"
    using no_event [of s a] poll(2) assms(2) by (auto simp: master_common_def)
  then consider "asked_phase s" | "pending_phase s" "xMasterOsEvent s = 2" | "pending_phase s" "xMasterOsEvent s = 4"
    | "pending_phase s" "xMasterOsEvent s = 16"
    using assms(3) by (auto simp: busy_def phase_defs)
  then show ?thesis
  proof cases
    case 1
    from poll_asked [OF assms(2) 1] poll have s': "master_common s' a'" "sending_phase s'"
      by auto
    moreover have "distance s' < 100000" "distance s = 100000"
      using s'(2) 1 unat_u16 [of "usMasterSndBufferCount s'"] by (auto simp: distance_def sending_phase_def asked_phase_def)
    ultimately show ?thesis
      by (auto simp: busy_def sending_phase_def reply_begun_def)
  next
    case 2
    have "usMasterRcvBufferPos s < 256"
      using poll(1) 2 by (simp add: poll_fine_def reply_fine_def)
    from master_poll_received [OF assms(2) 2 this] poll have s': "master_common s' a'" "pending_phase s'" "xMasterOsEvent s' \<in> {4, 16}"
        "honest s' \<longleftrightarrow> honest s" "usMasterRcvBufferPos s' = usMasterRcvBufferPos s"
      by auto
    then have "distance s' \<le> 600" "distance s = 700"
      using 2 by (auto simp: distance_def pending_phase_def line_quiet_def)
    then show ?thesis
      using s' 2 by (auto simp: busy_def reply_fine_def reply_begun_def)
  next
    case 3
    have "mFrame s = Some In_Rcv \<Longrightarrow> honest s"
      using poll(1) 3 by (simp add: poll_fine_def reply_fine_def)
    from poll_execute_request [OF assms(2) 3 this] poll have s': "master_common s' a'"
        "pending_phase s' \<and> xMasterOsEvent s' = 16 \<or> answered_phase s'"
      by auto
    then have "distance s' \<le> 500" "distance s = 600" "\<not> reply_begun s'"
      using 3 by (auto simp: distance_def pending_phase_def answered_phase_def line_quiet_def reply_begun_def)
    then show ?thesis
      using s' by (auto simp: busy_def)
  next
    case 4
    from poll_error [OF assms(2) 4] poll have s': "master_common s' a'" "answered_phase s'"
      by auto
    then have "distance s' = 0" "distance s = 500" "\<not> reply_begun s'"
      using 4 by (auto simp: distance_def pending_phase_def answered_phase_def line_quiet_def reply_begun_def)
    then show ?thesis
      using s' by auto
  qed
qed

lemma busy_waits: "busy s \<Longrightarrow> eMBMasterWaitRequestFinish s = (Blocked, s)"
proof -
  assume "busy s"
  then have "xMasterOsEvent s \<in> {0, 2, 4, 8, 16}"
    by (auto simp: busy_def asked_phase_def sending_phase_def awaiting_phase_def receiving_phase_def pending_phase_def)
  then show ?thesis
    by (auto simp: eMBMasterWaitRequestFinish_def)
qed

lemma finish_inv:
  assumes "master_inv (s, a, True)" "eMBMasterWaitRequestFinish s = (Returned e, s')"
  shows "master_inv (s', a, False)"
proof -
  have "\<not> busy s"
    using busy_waits [of s] assms(2) by auto
  then have a: "answered_phase s"
    using assms(1) by (simp add: master_inv_def)
  then have s': "s' = s\<lparr>xMasterOsEvent := 0\<rparr>"
    using assms(2) by (auto simp: answered_phase_def eMBMasterWaitRequestFinish_def)
  have "master_common s a"
    using assms(1) by (simp add: master_inv_def)
  then show ?thesis
    using a unfolding s' by (simp add: master_inv_def master_common_def answered_phase_def quiet_phase_def line_quiet_def buffers_ok_def)
qed

lemma step_inv_master:
  assumes "master_step c c'" "master_inv c"
  shows "master_inv c'"
  using assms
proof (cases rule: master_step.cases)
  case (request q s s' a)
  then show ?thesis
    using request_inv(1) assms(2) by simp
next
  case (finish s e s' a)
  then show ?thesis
    using finish_inv assms(2) by simp
next
  case (inside s a s' a' w)
  then have "busy s" "w"
    using assms(2) asleep(1) by (auto simp: master_inv_def split: if_splits)
  then show ?thesis
    using inside internal_inv assms(2) by (auto simp: master_inv_def)
next
  case (rx s b np s' a w)
  then have b: "busy s" "w"
    using assms(2) asleep(2) by (auto simp: master_inv_def split: if_splits)
  then have "awaiting_phase s \<or> receiving_phase s"
    using rx(3) by (auto simp: busy_def phase_defs expecting_def)
  then show ?thesis
    using rx_inv [of s a b] rx b assms(2) by (auto simp: master_inv_def busy_def)
qed

lemma reachable_master_inv: "master_reachable c0 c \<Longrightarrow> master_inv c0 \<Longrightarrow> master_inv c"
  by (induction rule: master_reachable.induct) (auto intro: step_inv_master)

end
