(* ===== verification/Mbm_Live.thy ===== *)
theory Mbm_Live
  imports Mbm_Run
begin

section \<open>The start\<close>

text \<open>
  The master after its start on port 2 with 9600 baud, and tables of zeros with the guard bytes of
  \<open>mregs_ok\<close>; the witnesses start here.
\<close>

definition master_ready :: master where
  "master_ready = master_boot\<lparr>mState := STATE_ENABLED, m_functions := True, m_serial := Some 2, m_baud := 9600, m_data_bits := 8,
     m_rx_enabled := True, usT35TimeOut50us := 80, m_timer_tick := 4, xMasterRunRes := 1, mRcvState := STATE_M_RX_IDLE\<rparr>"

definition zero_tables :: "u8 list \<Rightarrow> master_app" where
  "zero_tables ident = \<lparr>mregs = \<lparr>ucMDiscInBuf = replicate 18 0, ucMCoilBuf = replicate 18 0, usMRegInBuf = replicate 800 0,
     usMRegHoldBuf = replicate 800 0, m_zhuodu = replicate zhuodu_size 0\<rparr>, m_sid = \<lparr>ucMBSlaveID = ident, usMBSlaveIDLen = 0\<rparr>\<rparr>"

lemma master_ready_started:
  "\<exists>s1 s2 s3. eMBMasterInit True MB_RTU 2 9600 MB_PAR_NONE master_boot = Some (MB_ENOERR, s1)
     \<and> eMBMasterEnable s1 = Some (MB_ENOERR, s2) \<and> xMBMasterRTUTimerExpired s2 = Some (True, s3)
     \<and> eMBMasterPoll (s3, a) = Some (Returned MB_ENOERR, master_ready, a)"
  by (simp add: eMBMasterInit_def eMBMasterRTUInit_def xMBMasterPortSerialInit_def xMBMasterPortTimersInit_def
      xMBMasterPortEventInit_def vMBMasterOsResInit_def eMBMasterEnable_def eMBMasterRTUStart_def xMBMasterRTUTimerExpired_def
      eMBMasterPoll_def xMBMasterPortEventGet_def master_event_of_def master_port_defs master_boot_def master_ready_def Let_def)

lemma master_ready_quiet: "master_common master_ready (zero_tables ident)" "quiet_phase master_ready"
  by (simp_all add: master_common_def buffers_ok_def mregs_ok_def zero_tables_def master_ready_def master_boot_def
      quiet_phase_def line_quiet_def)

text \<open>The first request of the polling thread, from \<^verbatim>\<open>main_app.c\<close>.\<close>

lemma first_request:
  "\<exists>s. master_reachable (master_ready, zero_tables [], False) (s, zero_tables [], True) \<and> busy s \<and> asked_phase s"
proof -
  let ?q = "ReadHolding 1 0x100 37"
  have q: "legal_request ?q" "request_dest ?q = 1"
    by simp_all
  have b: "buffers_ok master_ready" "xMasterRunRes master_ready = 1"
    using master_ready_quiet by (simp_all add: master_common_def quiet_phase_def)
  have "eMBMasterReqReadHoldingRegister 1 0x100 37 master_ready \<noteq> Some (Refused MB_MRE_ILL_ARG, master_ready)"
    using issue_ok [OF b(1) request_bytes_ok [OF q(1)] b(2), of 1]
    by (simp add: eMBMasterReqReadHoldingRegister_def MB_MASTER_TOTAL_SLAVE_NUM_def two_word_pdu_def mb_func_defs)
  then obtain s where s: "perform_request ?q master_ready = Some (Waiting, s)"
    using perform_legal [OF q(1), of master_ready] issue_ok [OF b(1) request_bytes_ok [OF q(1)] b(2)] by auto
  have "master_step (master_ready, zero_tables [], False) (s, zero_tables [], True)"
    by (rule master_step.request [OF q(1) s])
  moreover have "asked_phase s"
    using master_ready_quiet by (intro request_inv(2) [OF _ q(1) s, of "zero_tables []"]) (simp add: master_inv_def)
  moreover have "busy s"
    using \<open>asked_phase s\<close> by (simp add: busy_def)
  ultimately show ?thesis
    using master_reachable.move [OF master_reachable.start] by blast
qed

section \<open>No step faults, and every request is answered\<close>

lemma busy_event: "busy s \<Longrightarrow> xMasterOsEvent s \<in> {0, 2, 4, 8, 16} \<and> xMasterRunRes s = 0"
  by (auto simp: busy_def asked_phase_def sending_phase_def awaiting_phase_def receiving_phase_def pending_phase_def)

lemma one_event:
  assumes "busy s \<or> answered_phase s \<or> quiet_phase s"
  shows "xMasterOsEvent s \<in> {0, 2, 4, 8, 16, 32, 64, 128, 256}" "xMasterRunRes s = (if busy s then 0 else 1)"
  using assms busy_event [of s] by (auto simp: answered_phase_def quiet_phase_def)

lemma busy_poll:
  assumes "master_common s a" "busy s" "poll_fine s"
  shows "eMBMasterPoll (s, a) \<noteq> None"
proof -
  consider "asked_phase s" | "pending_phase s" "xMasterOsEvent s = 2" | "pending_phase s" "xMasterOsEvent s = 4"
    | "pending_phase s" "xMasterOsEvent s = 16" | "xMasterOsEvent s = 0"
    using assms(2) by (auto simp: busy_def phase_defs)
  then show ?thesis
  proof cases
    case 1
    with poll_asked [OF assms(1)] show ?thesis by force
  next
    case 2
    with master_poll_received [OF assms(1)] assms(3) show ?thesis by (force simp: poll_fine_def reply_fine_def)
  next
    case 3
    with poll_execute_request [OF assms(1)] assms(3) show ?thesis by (force simp: poll_fine_def reply_fine_def)
  next
    case 4
    with poll_error [OF assms(1)] show ?thesis by force
  next
    case 5
    with no_event [of s a] assms(1) show ?thesis by (simp add: master_common_def)
  qed
qed



text \<open>On all ways that the master can go by itself the requesting thread gets a result.\<close>

inductive settles :: "master \<times> master_app \<Rightarrow> bool" where
  finished: "eMBMasterWaitRequestFinish s = (Returned e, s') \<Longrightarrow> settles (s, a)"
| later: "internal c c1 \<Longrightarrow> (\<And>c'. internal c c' \<Longrightarrow> settles c') \<Longrightarrow> settles c"

lemma busy_moves:
  assumes "master_common s a" "busy s" "reply_begun s \<longrightarrow> reply_fine s"
  shows "\<exists>c. internal (s, a) c"
proof -
  consider "sending_phase s" | "awaiting_phase s \<or> receiving_phase s" | "asked_phase s" | "pending_phase s"
    using assms(2) by (auto simp: busy_def)
  then show ?thesis
  proof cases
    case 1
    obtain s' where "xMBMasterRTUTransmitFSM s = Some (False, s')"
      using tx_inv [OF assms(1) 1] by blast
    moreover have "m_tx_start s"
      using 1 assms(1) by (simp add: sending_phase_def master_common_def)
    ultimately show ?thesis
      using internal.tx [of s _ _ a] by blast
  next
    case 2
    obtain s' np where "xMBMasterRTUTimerExpired s = Some (np, s')"
      using timer_inv [OF assms(1) 2] by blast
    moreover have "m_timer_running s"
      using 2 assms(1) by (auto simp: awaiting_phase_def receiving_phase_def master_common_def)
    ultimately show ?thesis
      using internal.timer [of s _ _ a] by blast
  next
    case 3
    have "poll_fine s"
      using 3 by (simp add: poll_fine_def asked_phase_def)
    with poll_asked [OF assms(1) 3] internal.poll [of s a] show ?thesis by blast
  next
    case 4
    then have pf: "poll_fine s"
      using assms(3) by (auto simp: poll_fine_def pending_phase_def reply_begun_def)
    consider "xMasterOsEvent s = 2" | "xMasterOsEvent s = 4" | "xMasterOsEvent s = 16"
      using 4 by (auto simp: pending_phase_def)
    then have "\<exists>s' a'. eMBMasterPoll (s, a) = Some (Returned MB_ENOERR, s', a')"
    proof cases
      case 1
      with pf master_poll_received [OF assms(1) 4] show ?thesis
        by (force simp: poll_fine_def reply_fine_def)
    next
      case 2
      with pf poll_execute_request [OF assms(1) 4] show ?thesis
        by (force simp: poll_fine_def reply_fine_def)
    next
      case 3
      with poll_error [OF assms(1) 4] show ?thesis
        by blast
    qed
    with pf internal.poll [of s a] show ?thesis by blast
  qed
qed

lemma settles_when_busy:
  "master_common s a \<Longrightarrow> busy s \<or> answered_phase s \<Longrightarrow> reply_begun s \<longrightarrow> reply_fine s \<Longrightarrow> settles (s, a)"
proof (induction "distance s" arbitrary: s a rule: less_induct)
  case less
  show ?case
  proof (cases "busy s")
    case False
    then have "xMasterOsEvent s \<in> {32, 64, 128, 256}"
      using less.prems(2) by (simp add: answered_phase_def)
    then have "\<exists>e s'. eMBMasterWaitRequestFinish s = (Returned e, s')"
      by (auto simp: eMBMasterWaitRequestFinish_def)
    then show ?thesis
      by (auto intro: settles.finished)
  next
    case True
    obtain c where c: "internal (s, a) c"
      using busy_moves [OF less.prems(1) True less.prems(3)] by blast
    have "settles c'" if "internal (s, a) c'" for c'
    proof (cases c')
      case (Pair s' a')
      with internal_inv [of s a s' a'] that less.prems True less.hyps [of s' a'] show ?thesis
        by auto
    qed
    with c show ?thesis by (rule settles.later)
  qed
qed



end
