(* ===== verification/Mbm_Serve.thy ===== *)
theory Mbm_Serve
  imports Mbm_Live
begin

text \<open>
  One exchange of the Modbus master from the request to its result.
\<close>

section \<open>The exchange\<close>

text \<open>
  The calls that the threads and interrupts make for one request: \<open>reply\<close> is what comes on the line
  before the timer expires, and nothing is there when the station is silent. 260 rounds of the transmit
  thread are more than the 254 that the longest request takes; three polls take every event, and one
  without an event blocks and changes nothing.
\<close>

fun master_transmit :: "nat \<Rightarrow> master \<Rightarrow> master option" where
  "master_transmit 0 s = Some s"
| "master_transmit (Suc n) s =
     (if m_tx_start s then do { (_, s) \<leftarrow> xMBMasterRTUTransmitFSM s; master_transmit n s } else Some s)"

fun master_feed :: "u8 list \<Rightarrow> master \<Rightarrow> master option" where
  "master_feed [] s = Some s"
| "master_feed (b # bs) s = do { (_, s) \<leftarrow> xMBMasterRTUReceiveFSM b s; master_feed bs s }"

definition master_send_request :: "master_request \<Rightarrow> master \<times> master_app \<Rightarrow> (request_result \<times> master \<times> master_app) option" where
  "master_send_request q = (\<lambda>(s, a). do {
     (res, s) \<leftarrow> perform_request q s;
     (case res of
        Refused e \<Rightarrow> Some (res, s, a)
      | Waiting \<Rightarrow> do {
          (_, s, a) \<leftarrow> eMBMasterPoll (s, a);
          s \<leftarrow> master_transmit 260 s;
          Some (res, s, a)
        })
   })"

definition master_take_reply :: "u8 list \<Rightarrow> master \<times> master_app \<Rightarrow> (master \<times> master_app) option" where
  "master_take_reply reply = (\<lambda>(s, a). do {
     s \<leftarrow> master_feed reply s;
     (_, s) \<leftarrow> xMBMasterRTUTimerExpired s;
     (_, s, a) \<leftarrow> eMBMasterPoll (s, a);
     (_, s, a) \<leftarrow> eMBMasterPoll (s, a);
     (_, s, a) \<leftarrow> eMBMasterPoll (s, a);
     Some (s, a)
   })"

definition master_exchange ::
  "master_request \<Rightarrow> u8 list \<Rightarrow> master \<times> master_app \<Rightarrow> (eMBMasterReqErrCode blocking \<times> master \<times> master_app) option" where
  "master_exchange q reply sa = do {
     (res, s, a) \<leftarrow> master_send_request q sa;
     (case res of
        Refused e \<Rightarrow> Some (Returned e, s, a)
      | Waiting \<Rightarrow> do {
          (s, a) \<leftarrow> master_take_reply reply (s, a);
          let (e, s) = eMBMasterWaitRequestFinish s;
          Some (e, s, a)
        })
   }"

section \<open>The request goes out\<close>

definition request_sent :: "u8 \<Rightarrow> u8 list \<Rightarrow> master \<Rightarrow> master" where
  "request_sent d pdu s = s\<lparr>xMasterRunRes := 0, xMasterOsEvent := 0, ucMBMasterDestAddress := d, mFrame := Some In_Snd,
     ucMasterRTUSndBuf := seal_frame crc16 (d # pdu) @ drop (length pdu + 3) (ucMasterRTUSndBuf s),
     usMasterSendPDULength := of_nat (length pdu), pucMasterSndBufferCur := length pdu + 3, usMasterSndBufferCount := 0,
     m_line_out := m_line_out s @ seal_frame crc16 (d # pdu), m_rx_enabled := True, m_tx_start := False,
     mSndState := STATE_M_TX_XFWR, xFrameIsBroadcast := (d = 0), m_timer_tick := (if d = 0 then 200 else 150),
     m_timer_running := True,
     eMasterCurTimerMode := (if d = 0 then MB_TMODE_CONVERT_DELAY else MB_TMODE_RESPOND_TIMEOUT)\<rparr>"

lemma master_transmit_bytes:
  assumes "mSndState s = STATE_M_TX_XMIT" "mRcvState s = STATE_M_RX_IDLE" "m_tx_start s"
    and "usMasterSndBufferCount s = of_nat n" "n < 65536" "pucMasterSndBufferCur s + n \<le> length (ucMasterRTUSndBuf s)"
  shows "master_transmit n s = Some (s\<lparr>m_line_out := m_line_out s @ take n (drop (pucMasterSndBufferCur s) (ucMasterRTUSndBuf s)),
    pucMasterSndBufferCur := pucMasterSndBufferCur s + n, usMasterSndBufferCount := 0\<rparr>)"
  using assms
proof (induction n arbitrary: s)
  case (Suc n)
  let ?s = "s\<lparr>m_line_out := m_line_out s @ [ucMasterRTUSndBuf s ! pucMasterSndBufferCur s],
    pucMasterSndBufferCur := pucMasterSndBufferCur s + 1, usMasterSndBufferCount := of_nat n\<rparr>"
  have "(of_nat (Suc n) :: u16) \<noteq> 0"
    using unat16_of_nat [of "Suc n"] Suc.prems(5) by (metis nat.simps(3) unsigned_0)
  then have r: "master_transmit (Suc n) s = master_transmit n ?s"
    using Suc.prems by (simp add: xMBMasterRTUTransmitFSM_def rd_in xMBMasterPortSerialPutByte_def)
  show ?case
    using Suc.prems unfolding r by (subst Suc.IH) (auto simp: Cons_nth_drop_Suc [symmetric])
qed simp

lemma master_transmit_stopped: "\<not> m_tx_start s \<Longrightarrow> master_transmit n s = Some s"
  by (cases n) simp_all

lemma master_transmit_add: "master_transmit (m + n) s = Option.bind (master_transmit m s) (master_transmit n)"
  by (induction m arbitrary: s) (auto simp: master_transmit_stopped split: bind_splits)

text \<open>The transmitter sends what the count says, starts the timer for the reply and stops.\<close>

lemma master_transmit_all:
  assumes "mSndState s = STATE_M_TX_XMIT" "mRcvState s = STATE_M_RX_IDLE" "m_tx_start s"
    and "usMasterSndBufferCount s = of_nat n" "n < 260" "pucMasterSndBufferCur s + n \<le> length (ucMasterRTUSndBuf s)"
    and "ucMasterRTUSndBuf s \<noteq> []"
  defines "d \<equiv> ucMasterRTUSndBuf s ! 0"
  shows "master_transmit 260 s = Some (s\<lparr>m_line_out := m_line_out s @ take n (drop (pucMasterSndBufferCur s) (ucMasterRTUSndBuf s)),
    pucMasterSndBufferCur := pucMasterSndBufferCur s + n, usMasterSndBufferCount := 0, m_rx_enabled := True, m_tx_start := False,
    mSndState := STATE_M_TX_XFWR, xFrameIsBroadcast := (d = 0), m_timer_tick := (if d = 0 then 200 else 150), m_timer_running := True,
    eMasterCurTimerMode := (if d = 0 then MB_TMODE_CONVERT_DELAY else MB_TMODE_RESPOND_TIMEOUT)\<rparr>)"
proof -
  have "n + Suc (260 - n - 1) = 260"
    using assms(5) by simp
  then have r: "master_transmit 260 s = Option.bind (master_transmit n s) (master_transmit (Suc (260 - n - 1)))"
    by (metis master_transmit_add)
  have "n < 65536"
    using assms(5) by simp
  note b = master_transmit_bytes [OF assms(1-4) this assms(6)]
  show ?thesis
    using assms(1-3,7) unfolding r b
    by (simp add: xMBMasterRTUTransmitFSM_def rd_in ser_pdu_defs MB_ADDRESS_BROADCAST_def master_port_defs master_const_defs
        master_transmit_stopped d_def)
qed

lemma sends_request:
  assumes "master_common s a" "quiet_phase s" "pdu_ok pdu" "d \<le> 8" "perform_request q s = issue_request d (Some pdu) s"
  shows "master_send_request q (s, a) = Some (Waiting, request_sent d pdu s, a)"
proof -
  let ?buf = "splice (ucMasterRTUSndBuf s) 1 pdu"
  let ?s1 = "s\<lparr>xMasterRunRes := 0, ucMBMasterDestAddress := d, ucMasterRTUSndBuf := ?buf,
    usMasterSendPDULength := of_nat (length pdu), xMasterOsEvent := xMasterOsEvent s OR 8\<rparr>"
  let ?new = "seal_frame crc16 (d # pdu) @ drop (length pdu + 3) (ucMasterRTUSndBuf s)"
  let ?s2 = "?s1\<lparr>xMasterOsEvent := 0, mFrame := Some In_Snd, m_rx_enabled := False,
    m_tx_start := True, mSndState := STATE_M_TX_XMIT, pucMasterSndBufferCur := 0, usMasterSndBufferCount := of_nat (length pdu + 3),
    ucMasterRTUSndBuf := ?new\<rparr>"
  have b: "buffers_ok s" "xMasterRunRes s = 1" "length (ucMasterRTUSndBuf s) = 253" "length pdu \<le> 250"
    using assms(1-3) by (simp_all add: master_common_def quiet_phase_def buffers_ok_def MB_PDU_SIZE_MAX_def pdu_ok_def)
  have i: "perform_request q s = Some (Waiting, ?s1)"
    unfolding assms(5) by (rule issue_ok [OF b(1) assms(3) b(2)])
  have "drop (length pdu + 3) ?buf = drop (length pdu + 3) (ucMasterRTUSndBuf s)" "take (length pdu) (drop 1 ?buf) = pdu"
    using b(3,4) by (simp_all add: splice_def numeral_3_eq_3)
  then have p: "eMBMasterPoll (?s1, a) = Some (Returned MB_ENOERR, ?s2, a)"
    using assms(1,2,4) b(3,4) poll_sends [of ?s1 pdu a] by (simp add: master_common_def quiet_phase_def line_quiet_def)
  have "master_transmit 260 ?s2 = Some (request_sent d pdu s)"
    using assms(2) b(3,4) master_transmit_all [of ?s2 "length pdu + 3"]
    by (simp add: request_sent_def quiet_phase_def line_quiet_def seal_frame_def numeral_3_eq_3 del: of_nat_add)
  with i p show ?thesis
    by (simp add: master_send_request_def)
qed

section \<open>The reply comes in\<close>

lemma master_feed_rcv:
  assumes "mSndState s = STATE_M_TX_IDLE" "mRcvState s = STATE_M_RX_RCV" "m_timer_running s" "eMasterCurTimerMode s = MB_TMODE_T35"
    and "m_timer_tick s = 50 * unat (usT35TimeOut50us s) div 1000" "length (ucMasterRTURcvBuf s) = 256"
    and "unat (usMasterRcvBufferPos s) + length bs \<le> 256"
  shows "master_feed bs s = Some (s\<lparr>ucMasterRTURcvBuf := take (unat (usMasterRcvBufferPos s)) (ucMasterRTURcvBuf s) @ bs
      @ drop (unat (usMasterRcvBufferPos s) + length bs) (ucMasterRTURcvBuf s),
    usMasterRcvBufferPos := usMasterRcvBufferPos s + of_nat (length bs)\<rparr>)"
  using assms
proof (induction bs arbitrary: s)
  case (Cons b bs)
  let ?k = "unat (usMasterRcvBufferPos s)"
  let ?s = "s\<lparr>ucMasterRTURcvBuf := (ucMasterRTURcvBuf s)[?k := b], usMasterRcvBufferPos := usMasterRcvBufferPos s + 1\<rparr>"
  have k: "?k < 256" "usMasterRcvBufferPos s < 256" "unat (usMasterRcvBufferPos s + 1) = Suc ?k"
    using Cons.prems(7) by (simp_all add: word_less_nat_alt unat_word_ariths)
  let ?t = "?s\<lparr>eMasterCurTimerMode := MB_TMODE_T35, m_timer_tick := unat (usT35TimeOut50us s) div 20, m_timer_running := True\<rparr>"
  have "?t = ?s"
    using Cons.prems(3-5) by (intro master.equality) simp_all
  moreover have "master_feed (b # bs) s = master_feed bs ?t"
    using Cons.prems k by (simp add: xMBMasterRTUReceiveFSM_def ser_pdu_defs wr_in master_port_defs)
  ultimately have "master_feed (b # bs) s = master_feed bs ?s"
    by (simp only:)
  also have "\<dots> = Some (?s\<lparr>ucMasterRTURcvBuf := take (unat (usMasterRcvBufferPos ?s)) (ucMasterRTURcvBuf ?s) @ bs
      @ drop (unat (usMasterRcvBufferPos ?s) + length bs) (ucMasterRTURcvBuf ?s),
    usMasterRcvBufferPos := usMasterRcvBufferPos ?s + of_nat (length bs)\<rparr>)"
    using Cons.prems k by (intro Cons.IH) auto
  finally show ?case
    using k Cons.prems(7) list_update_fill [of ?k "ucMasterRTURcvBuf s" b bs "length bs"] Cons.prems(6)
    by (simp add: ac_simps)
qed simp

text \<open>The state after a whole reply and the timer, and after the poll thread has looked at the frame.\<close>

definition reply_in :: "u8 list \<Rightarrow> master \<Rightarrow> master" where
  "reply_in frame s = s\<lparr>ucMasterRTURcvBuf := frame @ drop (length frame) (ucMasterRTURcvBuf s),
     usMasterRcvBufferPos := of_nat (length frame), mSndState := STATE_M_TX_IDLE, eMasterCurTimerMode := MB_TMODE_T35,
     m_timer_tick := 50 * unat (usT35TimeOut50us s) div 1000, m_timer_running := False, xMasterOsEvent := 2\<rparr>"

lemma feeds_reply:
  assumes "mSndState s \<noteq> STATE_M_TX_XMIT" "mRcvState s = STATE_M_RX_IDLE" "xMasterOsEvent s = 0"
    and "length (ucMasterRTURcvBuf s) = 256" "frame \<noteq> []" "length frame \<le> 256"
  shows "\<exists>t. master_feed frame s = Some t \<and> xMBMasterRTUTimerExpired t = Some (True, reply_in frame s)"
proof -
  obtain b bs where bs: "frame = b # bs"
    using assms(5) by (cases frame) auto
  let ?s = "s\<lparr>mSndState := STATE_M_TX_IDLE, ucMasterRTURcvBuf := (ucMasterRTURcvBuf s)[0 := b], usMasterRcvBufferPos := 1,
    mRcvState := STATE_M_RX_RCV, eMasterCurTimerMode := MB_TMODE_T35,
    m_timer_tick := 50 * unat (usT35TimeOut50us s) div 1000, m_timer_running := True\<rparr>"
  let ?t = "?s\<lparr>ucMasterRTURcvBuf := frame @ drop (length frame) (ucMasterRTURcvBuf s),
    usMasterRcvBufferPos := of_nat (length frame)\<rparr>"
  have "master_feed frame s = master_feed bs ?s"
    using assms by (cases "mSndState s") (simp_all add: bs xMBMasterRTUReceiveFSM_def wr_in master_port_defs)
  also have "\<dots> = Some ?t"
    using assms list_update_fill [of 0 "ucMasterRTURcvBuf s" b bs "length bs"] master_feed_rcv [of ?s bs] by (simp add: bs)
  finally have "master_feed frame s = Some ?t" .
  moreover have "xMBMasterRTUTimerExpired ?t
      = Some (True, ?t\<lparr>xMasterOsEvent := 2, mRcvState := STATE_M_RX_IDLE, mSndState := STATE_M_TX_IDLE, m_timer_running := False\<rparr>)"
    using assms(3) by (simp add: xMBMasterRTUTimerExpired_def master_port_defs)
  moreover have "?t\<lparr>xMasterOsEvent := 2, mRcvState := STATE_M_RX_IDLE, mSndState := STATE_M_TX_IDLE, m_timer_running := False\<rparr>
      = reply_in frame s"
    unfolding reply_in_def using assms(2) by (intro master.equality) simp_all
  ultimately show ?thesis by metis
qed

definition reply_accepted :: "u8 \<Rightarrow> u8 list \<Rightarrow> master \<Rightarrow> master" where
  "reply_accepted d pdu s = (reply_in (seal_frame crc16 (d # pdu)) s)\<lparr>mRcvAddress := d, mFrame := Some In_Rcv,
     mLength := of_nat (length pdu), xMasterOsEvent := 4\<rparr>"

lemma master_receive_sealed:
  assumes "length (ucMasterRTURcvBuf s) = 256" "usMasterRcvBufferPos s = of_nat (length pdu + 3)"
    and "1 \<le> length pdu" "length pdu \<le> 252" "take (length pdu + 3) (ucMasterRTURcvBuf s) = seal_frame crc16 (d # pdu)"
  shows "eMBMasterRTUReceive s = Some (MB_ENOERR, Some (d, In_Rcv, of_nat (length pdu)))"
proof -
  have n: "unat (of_nat (length pdu + 3) :: u16) = length pdu + 3"
    using assms(4) by (intro unat16_of_nat) simp
  have "usMBCRC16 (ucMasterRTURcvBuf s) 0 (of_nat (length pdu + 3)) = Some 0"
    using assms n mb_crc.sealed_ok [of "d # pdu"] by (simp add: usMBCRC16_eq)
  moreover have "ucMasterRTURcvBuf s ! 0 = d"
    using assms(5) by (metis append_Cons nth_Cons_0 nth_take seal_frame_def zero_less_numeral add_gr_0)
  moreover have "(of_nat (length pdu + 3) :: u16) < 256" "(4 :: u16) \<le> of_nat (length pdu + 3)"
    using n assms(3,4) by (simp_all add: word_less_nat_alt word_le_nat_alt)
  moreover have "(of_nat (length pdu + 3) :: u16) - 1 - 2 = of_nat (length pdu)"
    by simp
  ultimately show ?thesis
    using assms(1,2) by (simp add: eMBMasterRTUReceive_def ser_pdu_defs rd_in)
qed

lemma polls_reply:
  assumes "mState s = STATE_ENABLED" "length (ucMasterRTURcvBuf s) = 256" "1 \<le> length pdu" "length pdu \<le> 252"
    and "ucMBMasterDestAddress s = d"
  shows "eMBMasterPoll (reply_in (seal_frame crc16 (d # pdu)) s, a) = Some (Returned MB_ENOERR, reply_accepted d pdu s, a)"
proof -
  let ?t = "(reply_in (seal_frame crc16 (d # pdu)) s)\<lparr>xMasterOsEvent := 0\<rparr>"
  have "eMBMasterRTUReceive ?t = Some (MB_ENOERR, Some (d, In_Rcv, of_nat (length pdu)))"
    using assms by (intro master_receive_sealed) (simp_all add: reply_in_def numeral_3_eq_3)
  then show ?thesis
    using assms(1,5) by (simp add: poll_event reply_in_def reply_accepted_def master_event_of_def master_port_defs)
qed

text \<open>The state in which the handler runs.\<close>

definition handler_state :: "u8 \<Rightarrow> u8 list \<Rightarrow> u8 list \<Rightarrow> master \<Rightarrow> master" where
  "handler_state d pdu reply s = (reply_accepted d reply (request_sent d pdu s))\<lparr>xMasterOsEvent := 0,
     mFunctionCode := hd reply, mException := ex_code MB_EX_ILLEGAL_FUNCTION, xMBRunInMasterMode := True\<rparr>"

lemma handler_state_simps [simp]:
  "ucMasterRTURcvBuf (handler_state d pdu reply s) = seal_frame crc16 (d # reply) @ drop (length reply + 3) (ucMasterRTURcvBuf s)"
  "ucMasterRTUSndBuf (handler_state d pdu reply s) = seal_frame crc16 (d # pdu) @ drop (length pdu + 3) (ucMasterRTUSndBuf s)"
  "mLength (handler_state d pdu reply s) = of_nat (length reply)"
  "ucMBMasterDestAddress (handler_state d pdu reply s) = d"
  "xFrameIsBroadcast (handler_state d pdu reply s) \<longleftrightarrow> d = 0"
  by (simp_all add: handler_state_def reply_accepted_def reply_in_def request_sent_def numeral_3_eq_3)

lemma executes_reply:
  assumes "d \<noteq> 0" "reply \<noteq> []" "drop_bit 7 (hd reply) = 0" "find_handler xMasterFuncHandlers (hd reply) = Some (Some h)"
    and "master_handler h In_Rcv (handler_state d pdu reply s, a) = Some (ex, handler_state d pdu reply s, a')"
  shows "master_execute ((reply_accepted d reply (request_sent d pdu s))\<lparr>xMasterOsEvent := 0\<rparr>, a) = Some
    (if ex \<noteq> MB_EX_NONE then master_failed EV_ERROR_EXECUTE_FUNCTION
       ((handler_state d pdu reply s)\<lparr>xMBRunInMasterMode := False, mException := ex_code ex\<rparr>)
     else vMBMasterRunResRelease (vMBMasterCBRequestScuuess
       ((handler_state d pdu reply s)\<lparr>xMBRunInMasterMode := False, mException := ex_code ex\<rparr>)), a')"
proof -
  let ?t = "(reply_accepted d reply (request_sent d pdu s))\<lparr>xMasterOsEvent := 0\<rparr>"
  have f: "mFrame ?t = Some In_Rcv" "rd (frame_mem ?t In_Rcv) 1 = Some (hd reply)"
    using assms(2) by (simp_all add: reply_accepted_def reply_in_def frame_mem_def rd_def seal_frame_def nth_append hd_conv_nth)
  have h: "(?t\<lparr>mFunctionCode := hd reply, mException := 1, xMBRunInMasterMode := True\<rparr>)
      = handler_state d pdu reply s"
    by (simp add: handler_state_def)
  have b: "\<not> xFrameIsBroadcast ?t"
    using assms(1) by (simp add: reply_accepted_def reply_in_def request_sent_def)
  have "ex_code ex \<noteq> ex_code MB_EX_NONE \<longleftrightarrow> ex \<noteq> MB_EX_NONE"
    by (cases ex) simp_all
  with f b assms(3-5) show ?thesis
    by (simp add: master_execute_def execute_function_def pdu_defs ser_pdu_defs vMBMasterSetCBRunInMasterMode_def h)
qed

text \<open>Request and reply together: the result says what the handler made of the reply.\<close>

lemma exchange_result:
  assumes "master_common s a" "quiet_phase s" "legal_request q" "request_dest q \<noteq> 0"
    and "perform_request q s \<noteq> Some (Refused MB_MRE_ILL_ARG, s)"
    and "reply \<noteq> []" "length reply \<le> 252" "drop_bit 7 (hd reply) = 0" "find_handler xMasterFuncHandlers (hd reply) = Some (Some h)"
  defines "t \<equiv> handler_state (request_dest q) (request_bytes q) reply s"
  assumes "master_handler h In_Rcv (t, a) = Some (ex, t, a')"
  shows "\<exists>s'. master_exchange q (seal_frame crc16 (request_dest q # reply)) (s, a)
      = Some (Returned (if ex = MB_EX_NONE then MB_MRE_NO_ERR else MB_MRE_EXE_FUN), s', a')
    \<and> m_line_out s' = m_line_out s @ seal_frame crc16 (request_dest q # request_bytes q)
    \<and> quiet_phase s' \<and> (mregs_ok (mregs a') \<longrightarrow> master_common s' a')"
proof -
  let ?d = "request_dest q" and ?f = "seal_frame crc16 (request_dest q # reply)"
  let ?u = "request_sent ?d (request_bytes q) s"
  have pdu: "pdu_ok (request_bytes q)"
    by (rule request_bytes_ok [OF assms(3)])
  have d: "?d \<le> 8" "perform_request q s = issue_request ?d (Some (request_bytes q)) s"
    using perform_legal [OF assms(3), of s] assms(5) by blast+
  have send: "master_send_request q (s, a) = Some (Waiting, ?u, a)"
    by (rule sends_request [OF assms(1,2) pdu d])
  have u: "mState ?u = STATE_ENABLED" "length (ucMasterRTURcvBuf ?u) = 256" "ucMBMasterDestAddress ?u = ?d"
      "mSndState ?u \<noteq> STATE_M_TX_XMIT" "mRcvState ?u = STATE_M_RX_IDLE" "xMasterOsEvent ?u = 0"
    using assms(1,2) by (simp_all add: request_sent_def master_common_def buffers_ok_def quiet_phase_def line_quiet_def)
  have n: "1 \<le> length reply" "length ?f \<le> 256" "?f \<noteq> []"
    using assms(6,7) by (auto simp: Suc_le_eq)
  obtain v where v: "master_feed ?f ?u = Some v" "xMBMasterRTUTimerExpired v = Some (True, reply_in ?f ?u)"
    using feeds_reply [OF u(4,5,6,2) n(3,2)] by blast
  note p1 = polls_reply [OF u(1,2) n(1) assms(7) u(3)]
  have "mState (reply_accepted ?d reply ?u) = STATE_ENABLED" "xMasterOsEvent (reply_accepted ?d reply ?u) = 4"
    using u(1) by (simp_all add: reply_accepted_def reply_in_def)
  then have p2: "eMBMasterPoll (reply_accepted ?d reply ?u, a) = do {
      sa \<leftarrow> master_execute ((reply_accepted ?d reply ?u)\<lparr>xMasterOsEvent := 0\<rparr>, a);
      Some (Returned MB_ENOERR, sa) }" for a
    by (simp add: poll_event master_event_of_def)
  let ?t = "t\<lparr>xMBRunInMasterMode := False, mException := ex_code ex\<rparr>"
  note e = executes_reply [OF assms(4,6,8,9) assms(11) [unfolded t_def], folded t_def]
  have t: "mState ?t = STATE_ENABLED" "xMasterOsEvent ?t = 0" "m_line_out ?t = m_line_out s @ seal_frame crc16 (?d # request_bytes q)"
      "xMasterRunRes ?t = 0" "line_quiet ?t" "buffers_ok ?t" "ucMBMasterDestAddress ?t \<le> 8"
      "unat (usMasterRcvBufferPos ?t) \<le> 256" "m_rx_enabled ?t" "\<not> m_tx_start ?t" "\<not> m_timer_running ?t"
    using assms(1,2) d(1) pdu n(2) unat16_of_nat [of "length reply + 3"]
    by (simp_all add: t_def handler_state_def reply_accepted_def reply_in_def request_sent_def line_quiet_def quiet_phase_def
        master_common_def buffers_ok_def MB_PDU_SIZE_MAX_def pdu_ok_def numeral_3_eq_3)
  show ?thesis
  proof (cases "ex = MB_EX_NONE")
    case True
    let ?v = "vMBMasterRunResRelease (vMBMasterCBRequestScuuess ?t)"
    have p3: "eMBMasterPoll (?v, a') = Some (Blocked, ?v, a')"
      using t(1,2) by (intro no_event) (simp_all add: master_port_defs)
    have "master_take_reply ?f (?u, a) = Some (?v, a')"
      using True e p3 by (simp add: master_take_reply_def v p1 p2)
    moreover have "eMBMasterWaitRequestFinish ?v = (Returned MB_MRE_NO_ERR, ?v\<lparr>xMasterOsEvent := 0\<rparr>)"
      using t(2) by (simp add: eMBMasterWaitRequestFinish_def master_port_defs)
    ultimately have x: "master_exchange q ?f (s, a) = Some (Returned MB_MRE_NO_ERR, ?v\<lparr>xMasterOsEvent := 0\<rparr>, a')"
      by (simp add: master_exchange_def send)
    show ?thesis
      using True t unfolding x
      by (simp add: master_port_defs quiet_phase_def line_quiet_def master_common_def buffers_ok_def)
  next
    case False
    let ?v = "master_failed EV_ERROR_EXECUTE_FUNCTION ?t"
    let ?w = "vMBMasterRunResRelease (vMBMasterErrorCBExecuteFunction (?v\<lparr>xMasterOsEvent := 0, mFrame := Some In_Snd\<rparr>))"
    have p3: "eMBMasterPoll (?v, a') = Some (Returned MB_ENOERR, ?w, a')"
      using t(1,2) by (simp add: poll_event master_event_of_def master_failed_def master_port_defs)
    have "master_take_reply ?f (?u, a) = Some (?w, a')"
      using False e p3 by (simp add: master_take_reply_def v p1 p2)
    moreover have "eMBMasterWaitRequestFinish ?w = (Returned MB_MRE_EXE_FUN, ?w\<lparr>xMasterOsEvent := 0\<rparr>)"
      by (simp add: eMBMasterWaitRequestFinish_def master_port_defs)
    ultimately have x: "master_exchange q ?f (s, a) = Some (Returned MB_MRE_EXE_FUN, ?w\<lparr>xMasterOsEvent := 0\<rparr>, a')"
      by (simp add: master_exchange_def send)
    show ?thesis
      using False t unfolding x
      by (simp add: master_failed_def master_port_defs quiet_phase_def line_quiet_def master_common_def buffers_ok_def)
  qed
qed

section \<open>Registers of the station\<close>

lemma holding_stores:
  assumes "mregs_ok r" "d \<noteq> 0" "d \<le> 8" "0x100 \<le> unat addr" "unat addr + unat n \<le> 0x164" "p + 2 * unat n \<le> length mem"
  defines "row \<equiv> (unat d - 1) * 100"
  defines "buf \<equiv> splice (usMRegHoldBuf r) (row + (unat addr - 0x100)) (be_regs (take (2 * unat n) (drop p mem)))"
  shows "\<exists>z. eMBMasterRegHoldingCB d mem p (addr + 1) n m r = Some (MB_ENOERR, r\<lparr>usMRegHoldBuf := buf, m_zhuodu := z\<rparr>)
    \<and> publish_100 buf row (m_zhuodu r) = Some z \<and> length buf = 800 \<and> length z = zhuodu_size \<and> row + 100 \<le> 800"
proof -
  have row: "table_row d 100 = Some row" "row + 100 \<le> 800"
    using row_range [OF assms(2,3), of 100] by (simp_all add: row_def)
  have fit: "row + (unat addr - 0x100) + unat n \<le> length (usMRegHoldBuf r)"
    using assms(1,4,5) row(2) by (simp add: mregs_ok_def)
  then have l: "length buf = 800"
    using assms(1,6) by (simp add: mregs_ok_def buf_def)
  obtain z where z: "publish_100 buf row (m_zhuodu r) = Some z" "length z = zhuodu_size"
    using publish_100_eq [of row buf "m_zhuodu r"] row(2) l assms(1) by (auto simp: mregs_ok_def)
  show ?thesis
    using assms(4,5) l z row(2) bytes_to_regs_eq [OF fit assms(6)]
    by (simp add: eMBMasterRegHoldingCB_def row M_REG_HOLDING_NREGS_def Let_def buf_def)
qed

lemma holding_refuses:
  assumes "d \<noteq> 0" "0x100 \<le> unat addr" "0x164 < unat addr + unat n"
  shows "eMBMasterRegHoldingCB d mem p (addr + 1) n m r = Some (MB_ENOREG, r)"
  using assms by (simp add: eMBMasterRegHoldingCB_def table_row_def Let_def)

lemma request_frame:
  assumes "buf = seal_frame crc16 (d # two_word_pdu code v w) @ rest"
  shows "frame_word buf 2 = Some v" "frame_word buf 4 = Some w"
  using two_word_frame [of buf d code v w "[lo8 (crc16 (d # two_word_pdu code v w)), hi8 (crc16 (d # two_word_pdu code v w))] @ rest"]
    assms by (simp_all add: seal_frame_def)

text \<open>The row of a station after a reply with the values \<open>vals\<close> from address \<open>addr\<close> on.\<close>

definition stored :: "u8 \<Rightarrow> u16 \<Rightarrow> u16 list \<Rightarrow> u16 list \<Rightarrow> u16 list" where
  "stored d addr vals buf = splice buf ((unat d - 1) * 100 + (unat addr - 0x100)) vals"

definition read_reply :: "u16 list \<Rightarrow> u8 list" where
  "read_reply vals = 3 # of_nat (2 * length vals) # be_bytes vals"

lemma reads_stored:
  fixes s :: master
  assumes "mregs_ok (mregs a)" "d \<noteq> 0" "d \<le> 8" "0x100 \<le> unat addr" "vals \<noteq> []" "unat addr + length vals \<le> 0x164"
  defines "t \<equiv> handler_state d (two_word_pdu 3 addr (of_nat (length vals))) (read_reply vals) s"
  defines "buf \<equiv> stored d addr vals (usMRegHoldBuf (mregs a))"
  shows "\<exists>z. master_handler H_ReadHoldingRegister In_Rcv (t, a)
      = Some (MB_EX_NONE, t, a\<lparr>mregs := (mregs a)\<lparr>usMRegHoldBuf := buf, m_zhuodu := z\<rparr>\<rparr>)
    \<and> publish_100 buf ((unat d - 1) * 100) (m_zhuodu (mregs a)) = Some z \<and> length buf = 800 \<and> length z = zhuodu_size"
proof -
  let ?n = "length vals"
  have n: "unat (of_nat ?n :: u16) = ?n" "1 \<le> ?n" "?n \<le> 100"
    using assms(4-6) by (auto simp: unat16_of_nat Suc_le_eq)
  have b: "unat (of_nat (2 * ?n) :: u8) = 2 * ?n"
    using n(3) by (simp add: unat_of_nat take_bit_nat_eq_self del: of_nat_mult)
  have mem: "ucMasterRTURcvBuf t = d # 3 # of_nat (2 * ?n) # be_bytes vals
      @ [lo8 (crc16 (d # read_reply vals)), hi8 (crc16 (d # read_reply vals))] @ drop (2 * ?n + 5) (ucMasterRTURcvBuf s)"
    by (simp add: t_def seal_frame_def read_reply_def eval_nat_numeral)
  have data: "take (2 * ?n) (drop 3 (ucMasterRTURcvBuf t)) = be_bytes vals" "3 + 2 * ?n \<le> length (ucMasterRTURcvBuf t)"
    "rd (ucMasterRTURcvBuf t) 2 = Some (of_nat (2 * ?n))"
    unfolding mem by (simp_all add: eval_nat_numeral rd_def)
  have req: "frame_word (ucMasterRTUSndBuf t) 2 = Some addr" "frame_word (ucMasterRTUSndBuf t) 4 = Some (of_nat ?n)"
    using request_frame [of "ucMasterRTUSndBuf t" d 3 addr "of_nat ?n"] by (simp_all add: t_def)
  have "(1 :: u16) \<le> of_nat ?n"
    using n by (simp add: word_le_nat_alt)
  moreover have "length (read_reply vals) = 2 * ?n + 2"
    by (simp add: read_reply_def)
  then have "unat (of_nat (length (read_reply vals)) :: u16) = 2 * ?n + 2"
    using n(3) by (simp only: unat16_of_nat)
  then have "(2 :: u16) \<le> of_nat (length (read_reply vals))"
    by (simp add: word_le_nat_alt)
  moreover obtain z where "eMBMasterRegHoldingCB d (ucMasterRTURcvBuf t) 3 (addr + 1) (of_nat ?n) MB_REG_READ (mregs a)
      = Some (MB_ENOERR, (mregs a)\<lparr>usMRegHoldBuf := buf, m_zhuodu := z\<rparr>)"
    "publish_100 buf ((unat d - 1) * 100) (m_zhuodu (mregs a)) = Some z" "length buf = 800" "length z = zhuodu_size"
    using holding_stores [of "mregs a" d addr "of_nat ?n" 3 "ucMasterRTURcvBuf t" MB_REG_READ] assms(1-4,6) n data
    by (auto simp: buf_def stored_def be_regs_be_bytes)
  ultimately show ?thesis
    using assms(2) data req b n
    by (simp add: on_mregs_def eMBMasterFuncReadHoldingRegister_def req_at_2 frame_mem_def pdu_defs reply_status_def t_def)
qed

lemma accepted:
  assumes "master_common s a" "quiet_phase s" "legal_request q" "perform_request q s = issue_request d (Some (request_bytes q)) s"
  shows "perform_request q s \<noteq> Some (Refused e, t)"
proof -
  have "buffers_ok s" "xMasterRunRes s = 1"
    using assms(1,2) by (simp_all add: master_common_def quiet_phase_def)
  from issue_ok [OF this(1) request_bytes_ok [OF assms(3)] this(2)] assms(4) show ?thesis
    by simp
qed

lemma exchange_reads:
  assumes "master_common s a" "quiet_phase s" "d \<noteq> 0" "d \<le> 8"
    and "0x100 \<le> unat addr" "vals \<noteq> []" "unat addr + length vals \<le> 0x164"
  shows "\<exists>s' z. master_exchange (ReadHolding d addr (of_nat (length vals))) (seal_frame crc16 (d # read_reply vals)) (s, a)
      = Some (Returned MB_MRE_NO_ERR, s',
          a\<lparr>mregs := (mregs a)\<lparr>usMRegHoldBuf := stored d addr vals (usMRegHoldBuf (mregs a)), m_zhuodu := z\<rparr>\<rparr>)
    \<and> m_line_out s' = m_line_out s @ seal_frame crc16 (d # two_word_pdu 3 addr (of_nat (length vals)))
    \<and> publish_100 (stored d addr vals (usMRegHoldBuf (mregs a))) ((unat d - 1) * 100) (m_zhuodu (mregs a)) = Some z
    \<and> quiet_phase s'
    \<and> master_common s' (a\<lparr>mregs := (mregs a)\<lparr>usMRegHoldBuf := stored d addr vals (usMRegHoldBuf (mregs a)), m_zhuodu := z\<rparr>\<rparr>)"
proof -
  let ?q = "ReadHolding d addr (of_nat (length vals))"
  have q: "legal_request ?q" "request_dest ?q = d" "request_bytes ?q = two_word_pdu 3 addr (of_nat (length vals))"
    using assms(5) by (simp_all add: word_le_nat_alt)
  have r: "mregs_ok (mregs a)"
    using assms(1) by (simp add: master_common_def)
  have rep: "read_reply vals \<noteq> []" "length (read_reply vals) \<le> 252" "drop_bit 7 (hd (read_reply vals)) = 0"
      "find_handler xMasterFuncHandlers (hd (read_reply vals)) = Some (Some H_ReadHoldingRegister)"
    using assms(5,7) by (simp_all add: read_reply_def find_master_handler)
  have "perform_request ?q s \<noteq> Some (Refused MB_MRE_ILL_ARG, s)"
    using leD [OF assms(4)]
    by (intro accepted [OF assms(1,2) q(1), of d])
      (simp add: request_defs MB_MASTER_TOTAL_SLAVE_NUM_def two_word_pdu_def mb_func_defs)
  from exchange_result [OF assms(1,2) q(1) _ this rep] reads_stored [OF r assms(3-7), of s] assms(3) r
  show ?thesis
    unfolding q(2,3) by (fastforce simp: mregs_ok_def)
qed

lemma reads_refused:
  fixes s :: master
  assumes "d \<noteq> 0" "0x100 \<le> unat addr" "length vals \<le> 125" "0x164 < unat addr + length vals"
  defines "t \<equiv> handler_state d (two_word_pdu 3 addr (of_nat (length vals))) (read_reply vals) s"
  shows "\<exists>ex. master_handler H_ReadHoldingRegister In_Rcv (t, a) = Some (ex, t, a) \<and> ex \<noteq> MB_EX_NONE"
proof -
  have n: "unat (of_nat (length vals) :: u16) = length vals"
    using assms(3) by (simp add: unat16_of_nat)
  have "frame_word (ucMasterRTUSndBuf t) 2 = Some addr" "frame_word (ucMasterRTUSndBuf t) 4 = Some (of_nat (length vals))"
    using request_frame [of "ucMasterRTUSndBuf t" d 3 addr "of_nat (length vals)"] by (simp_all add: t_def)
  moreover have "rd (ucMasterRTURcvBuf t) 2 = Some (of_nat (2 * length vals))"
    by (simp add: t_def seal_frame_def read_reply_def rd_def)
  moreover note holding_refuses [OF assms(1,2), of "of_nat (length vals)", unfolded n, OF assms(4)]
  ultimately show ?thesis
    using assms(1)
    by (simp add: on_mregs_def eMBMasterFuncReadHoldingRegister_def req_at_2 frame_mem_def pdu_defs reply_status_def
        prveMBError2Exception.simps t_def)
qed

lemma write_refused:
  fixes s :: master and v :: u16
  assumes "d \<noteq> 0" "0x164 \<le> unat addr"
  defines "t \<equiv> handler_state d (two_word_pdu 6 addr v) (two_word_pdu 6 addr v) s"
  shows "\<exists>ex. master_handler H_WriteHoldingRegister In_Rcv (t, a) = Some (ex, t, a) \<and> ex \<noteq> MB_EX_NONE"
proof -
  have "frame_word (ucMasterRTURcvBuf t) 2 = Some addr"
    using request_frame [of "ucMasterRTURcvBuf t" d 6 addr v] by (simp add: t_def)
  moreover have "eMBMasterRegHoldingCB d mem p (addr + 1) 1 m r = Some (MB_ENOREG, r)" for mem p m r
    using assms(2) by (intro holding_refuses [OF assms(1)]) simp_all
  ultimately show ?thesis
    using assms(1)
    by (simp add: on_mregs_def eMBMasterFuncWriteHoldingRegister_def req_at_2 frame_mem_def pdu_defs reply_status_def
        prveMBError2Exception.simps t_def two_word_pdu_def)
qed

lemma exchange_fails:
  assumes "master_common s a" "quiet_phase s" "d \<noteq> 0" "d \<le> 8" "legal_request q" "request_dest q = d"
    and "perform_request q s = issue_request d (Some (request_bytes q)) s" "reply \<noteq> []" "length reply \<le> 252"
    and "drop_bit 7 (hd reply) = 0" "find_handler xMasterFuncHandlers (hd reply) = Some (Some h)"
    and "\<exists>ex. master_handler h In_Rcv (handler_state d (request_bytes q) reply s, a)
      = Some (ex, handler_state d (request_bytes q) reply s, a) \<and> ex \<noteq> MB_EX_NONE"
  shows "\<exists>s'. master_exchange q (seal_frame crc16 (d # reply)) (s, a) = Some (Returned MB_MRE_EXE_FUN, s', a)
    \<and> m_line_out s' = m_line_out s @ seal_frame crc16 (d # request_bytes q) \<and> quiet_phase s' \<and> master_common s' a"
proof -
  obtain ex where "master_handler h In_Rcv (handler_state d (request_bytes q) reply s, a)
      = Some (ex, handler_state d (request_bytes q) reply s, a)" "ex \<noteq> MB_EX_NONE"
    using assms(12) by blast
  moreover have "mregs_ok (mregs a)"
    using assms(1) by (simp add: master_common_def)
  ultimately show ?thesis
    using exchange_result [OF assms(1,2,5) _ accepted [OF assms(1,2,5,7)] assms(8-11), where a' = a and ex = ex] assms(3,6) by auto
qed

section \<open>Properties of an exchange\<close>

text \<open>
  C22. Reading registers of the sensor from end to end: a request for registers from 0x100 to 0x163 of
  a station 1 to 8 puts exactly its frame on the line; the reply with the values ends it without
  error, stores the values in the row of the station, copies the row into the measurement record, and
  leaves the master ready for the next request.
\<close>

theorem register_read_stored:
  assumes "master_common s a" "quiet_phase s" "d \<noteq> 0" "d \<le> 8"
    and "0x100 \<le> unat addr" "vals \<noteq> []" "unat addr + length vals \<le> 0x164"
  shows "\<exists>s' z. master_exchange (ReadHolding d addr (of_nat (length vals))) (seal_frame crc16 (d # read_reply vals)) (s, a)
      = Some (Returned MB_MRE_NO_ERR, s',
          a\<lparr>mregs := (mregs a)\<lparr>usMRegHoldBuf := stored d addr vals (usMRegHoldBuf (mregs a)), m_zhuodu := z\<rparr>\<rparr>)
    \<and> m_line_out s' = m_line_out s @ seal_frame crc16 (d # two_word_pdu 3 addr (of_nat (length vals)))
    \<and> publish_100 (stored d addr vals (usMRegHoldBuf (mregs a))) ((unat d - 1) * 100) (m_zhuodu (mregs a)) = Some z
    \<and> quiet_phase s'
    \<and> master_common s' (a\<lparr>mregs := (mregs a)\<lparr>usMRegHoldBuf := stored d addr vals (usMRegHoldBuf (mregs a)), m_zhuodu := z\<rparr>\<rparr>)"
  by (rule exchange_reads [OF assms])

theorem register_read_stored_witness:
  "\<exists>s' z. master_exchange (ReadHolding 2 0x105 (of_nat (length [0x42C8, 7 :: u16])))
        (seal_frame crc16 (2 # read_reply [0x42C8, 7])) (master_ready, zero_tables [])
      = Some (Returned MB_MRE_NO_ERR, s', (zero_tables [])\<lparr>mregs := (mregs (zero_tables []))
          \<lparr>usMRegHoldBuf := stored 2 0x105 [0x42C8, 7] (usMRegHoldBuf (mregs (zero_tables []))), m_zhuodu := z\<rparr>\<rparr>)
    \<and> m_line_out s' = m_line_out master_ready @ seal_frame crc16 (2 # two_word_pdu 3 0x105 (of_nat (length [0x42C8, 7 :: u16])))
    \<and> publish_100 (stored 2 0x105 [0x42C8, 7] (usMRegHoldBuf (mregs (zero_tables [])))) ((unat (2 :: u8) - 1) * 100)
        (m_zhuodu (mregs (zero_tables []))) = Some z
    \<and> quiet_phase s'
    \<and> master_common s' ((zero_tables [])\<lparr>mregs := (mregs (zero_tables []))
          \<lparr>usMRegHoldBuf := stored 2 0x105 [0x42C8, 7] (usMRegHoldBuf (mregs (zero_tables []))), m_zhuodu := z\<rparr>\<rparr>)"
  by (rule register_read_stored [OF master_ready_quiet]) simp_all

lemma exchange_refused_read:
  assumes "master_common s a" "quiet_phase s" "d \<noteq> 0" "d \<le> 8" "0x100 \<le> unat addr"
    and "0x164 < unat addr + length vals" "length vals \<le> 125"
  shows "\<exists>s'. master_exchange (ReadHolding d addr (of_nat (length vals))) (seal_frame crc16 (d # read_reply vals)) (s, a)
    = Some (Returned MB_MRE_EXE_FUN, s', a)
    \<and> m_line_out s' = m_line_out s @ seal_frame crc16 (d # two_word_pdu 3 addr (of_nat (length vals)))
    \<and> quiet_phase s' \<and> master_common s' a"
proof -
  let ?q = "ReadHolding d addr (of_nat (length vals))"
  have q: "request_bytes ?q = two_word_pdu 3 addr (of_nat (length vals))"
    by simp
  have "perform_request ?q s = issue_request d (Some (request_bytes ?q)) s"
    using leD [OF assms(4)] by (simp add: request_defs MB_MASTER_TOTAL_SLAVE_NUM_def two_word_pdu_def mb_func_defs)
  from exchange_fails [OF assms(1-4) _ _ this, of "read_reply vals" H_ReadHoldingRegister, unfolded q] show ?thesis
    using reads_refused [OF assms(3,5,7,6), of s a] assms(5,7)
    by (simp add: read_reply_def find_master_handler word_le_nat_alt)
qed

lemma exchange_refused_write:
  assumes "master_common s a" "quiet_phase s" "d \<noteq> 0" "d \<le> 8" "0x164 \<le> unat addr"
  shows "\<exists>s'. master_exchange (WriteHolding d addr v) (seal_frame crc16 (d # two_word_pdu 6 addr v)) (s, a)
    = Some (Returned MB_MRE_EXE_FUN, s', a)
    \<and> m_line_out s' = m_line_out s @ seal_frame crc16 (d # two_word_pdu 6 addr v) \<and> quiet_phase s' \<and> master_common s' a"
proof -
  let ?q = "WriteHolding d addr v"
  have q: "request_bytes ?q = two_word_pdu 6 addr v"
    by simp
  have "perform_request ?q s = issue_request d (Some (request_bytes ?q)) s"
    using leD [OF assms(4)] by (simp add: request_defs MB_MASTER_TOTAL_SLAVE_NUM_def two_word_pdu_def mb_func_defs)
  from exchange_fails [OF assms(1-4) _ _ this, of "two_word_pdu 6 addr v" H_WriteHoldingRegister, unfolded q] show ?thesis
    using write_refused [OF assms(3,5), of v s a] assms(5)
    by (simp add: two_word_pdu_def find_master_handler word_le_nat_alt)
qed

text \<open>
  C27. Registers that do not lie below 0x164 as a whole never get through: a correct reply to a read of
  them (the firmware reads 29 from 0x200 on in every cycle) and the station's confirmation of a write
  both end in \<open>MB_MRE_EXE_FUN\<close>, with nothing stored, although the station has carried the write out.
\<close>

theorem high_registers_fail:
  assumes "master_common s a" "quiet_phase s" "d \<noteq> 0" "d \<le> 8"
    and "0x100 \<le> unat addr" "0x164 < unat addr + length vals" "length vals \<le> 125" "0x164 \<le> unat w"
  shows "(\<exists>s'. master_exchange (ReadHolding d addr (of_nat (length vals))) (seal_frame crc16 (d # read_reply vals)) (s, a)
      = Some (Returned MB_MRE_EXE_FUN, s', a))
    \<and> (\<exists>s'. master_exchange (WriteHolding d w v) (seal_frame crc16 (d # two_word_pdu 6 w v)) (s, a)
      = Some (Returned MB_MRE_EXE_FUN, s', a) \<and> m_line_out s' = m_line_out s @ seal_frame crc16 (d # two_word_pdu 6 w v))"
  using exchange_refused_read [OF assms(1-7)] exchange_refused_write [OF assms(1-4,8), of v] by blast

theorem high_registers_fail_witness:
  "(\<exists>s'. master_exchange (ReadHolding 1 0x200 (of_nat (length (replicate 29 (5 :: u16)))))
        (seal_frame crc16 (1 # read_reply (replicate 29 5))) (master_ready, zero_tables [])
      = Some (Returned MB_MRE_EXE_FUN, s', zero_tables []))
    \<and> (\<exists>s'. master_exchange (WriteHolding 1 0x200 3) (seal_frame crc16 (1 # two_word_pdu 6 0x200 3)) (master_ready, zero_tables [])
      = Some (Returned MB_MRE_EXE_FUN, s', zero_tables [])
      \<and> m_line_out s' = m_line_out master_ready @ seal_frame crc16 (1 # two_word_pdu 6 0x200 3))"
  by (rule high_registers_fail [OF master_ready_quiet]) simp_all

lemma feed_one: "master_feed [b] s = Some t \<Longrightarrow> \<exists>n. xMBMasterRTUReceiveFSM b s = Some (n, t)"
  by (auto simp: bind_eq_Some_conv)

text \<open>
  C25. One disturbed byte on the idle line spoils the result of a request that comes later: the byte is
  taken for a reply that is too short, the poll thread posts a receive error and releases the resource
  that nobody holds (it is then free twice), and the next request returns \<open>MB_MRE_REV_DATA\<close> at once,
  before anything of it has been sent.
\<close>

theorem noise_spoils_next_request:
  fixes n :: u16
  assumes "master_common s a" "quiet_phase s" "d \<le> 8" "0x100 \<le> unat addr"
  defines "q \<equiv> ReadHolding d addr n"
  shows "\<exists>n1 s1 n2 s2 s3 s4 s5 s6. xMBMasterRTUReceiveFSM b s = Some (n1, s1) \<and> xMBMasterRTUTimerExpired s1 = Some (n2, s2)
    \<and> eMBMasterPoll (s2, a) = Some (Returned MB_ENOERR, s3, a) \<and> eMBMasterPoll (s3, a) = Some (Returned MB_ENOERR, s4, a)
    \<and> xMasterRunRes s4 = 2 \<and> perform_request q s4 = Some (Waiting, s5)
    \<and> eMBMasterWaitRequestFinish s5 = (Returned MB_MRE_REV_DATA, s6) \<and> m_line_out s6 = m_line_out s \<and> xMasterOsEvent s6 = 8"
proof -
  let ?s2 = "reply_in [b] s"
  let ?s3 = "master_failed EV_ERROR_RECEIVE_DATA (?s2\<lparr>xMasterOsEvent := 0\<rparr>)"
  let ?s4 = "vMBMasterRunResRelease (vMBMasterErrorCBReceiveData (?s3\<lparr>xMasterOsEvent := 0, mFrame := Some In_Snd\<rparr>))"
  have s: "mState s = STATE_ENABLED" "mSndState s = STATE_M_TX_IDLE" "mRcvState s = STATE_M_RX_IDLE" "xMasterOsEvent s = 0"
      "xMasterRunRes s = 1" "length (ucMasterRTURcvBuf s) = 256" "buffers_ok s"
    using assms(1,2) by (simp_all add: master_common_def quiet_phase_def line_quiet_def buffers_ok_def)
  obtain s1 where s1: "master_feed [b] s = Some s1" "xMBMasterRTUTimerExpired s1 = Some (True, ?s2)"
    using feeds_reply [of s "[b]"] s by auto
  have four: "\<not> (4 :: u16) \<le> 1"
    by (simp add: word_le_nat_alt)
  have "eMBMasterRTUReceive (?s2\<lparr>xMasterOsEvent := 0\<rparr>) = Some (MB_EIO, None)"
    using four by (simp add: eMBMasterRTUReceive_def reply_in_def ser_pdu_defs)
  then have p1: "eMBMasterPoll (?s2, a) = Some (Returned MB_ENOERR, ?s3, a)"
    using s(1) by (simp add: poll_event reply_in_def master_event_of_def)
  have p2: "eMBMasterPoll (?s3, a) = Some (Returned MB_ENOERR, ?s4, a)"
    using s(1) by (simp add: poll_event reply_in_def master_event_of_def master_failed_def master_port_defs)
  have s4: "buffers_ok ?s4" "xMasterRunRes ?s4 = 2" "xMasterOsEvent ?s4 = 128" "m_line_out ?s4 = m_line_out s"
    using s by (simp_all add: master_failed_def master_port_defs reply_in_def buffers_ok_def)
  have q: "legal_request q" "perform_request q t = issue_request d (Some (request_bytes q)) t" for t
    using assms(4) leD [OF assms(3)]
    by (simp_all add: q_def word_le_nat_alt request_defs MB_MASTER_TOTAL_SLAVE_NUM_def two_word_pdu_def mb_func_defs)
  let ?s5 = "?s4\<lparr>xMasterRunRes := xMasterRunRes ?s4 - 1, ucMBMasterDestAddress := d,
    ucMasterRTUSndBuf := splice (ucMasterRTUSndBuf ?s4) 1 (request_bytes q), usMasterSendPDULength := of_nat (length (request_bytes q)),
    xMasterOsEvent := xMasterOsEvent ?s4 OR 8\<rparr>"
  have p: "perform_request q ?s4 = Some (Waiting, ?s5)"
    unfolding q(2) using s4(2) by (intro issue_free [OF s4(1) request_bytes_ok [OF q(1)]]) simp
  have w: "eMBMasterWaitRequestFinish ?s5 = (Returned MB_MRE_REV_DATA, ?s5\<lparr>xMasterOsEvent := 8\<rparr>)"
    using s4(3) by (simp add: eMBMasterWaitRequestFinish_def)
  have e: "m_line_out (?s5\<lparr>xMasterOsEvent := 8\<rparr>) = m_line_out s" "xMasterOsEvent (?s5\<lparr>xMasterOsEvent := 8\<rparr>) = 8"
    using s4(4) by simp_all
  obtain n1 where "xMBMasterRTUReceiveFSM b s = Some (n1, s1)"
    using feed_one [OF s1(1)] by blast
  with s1(2) p1 p2 s4(2) p w e show ?thesis
    by blast
qed

theorem noise_spoils_next_request_witness:
  "\<exists>n1 s1 n2 s2 s3 s4 s5 s6. xMBMasterRTUReceiveFSM 0xFF master_ready = Some (n1, s1) \<and> xMBMasterRTUTimerExpired s1 = Some (n2, s2)
    \<and> eMBMasterPoll (s2, zero_tables []) = Some (Returned MB_ENOERR, s3, zero_tables [])
    \<and> eMBMasterPoll (s3, zero_tables []) = Some (Returned MB_ENOERR, s4, zero_tables [])
    \<and> xMasterRunRes s4 = 2 \<and> perform_request (ReadHolding 1 0x100 37) s4 = Some (Waiting, s5)
    \<and> eMBMasterWaitRequestFinish s5 = (Returned MB_MRE_REV_DATA, s6) \<and> m_line_out s6 = m_line_out master_ready
    \<and> xMasterOsEvent s6 = 8"
  by (rule noise_spoils_next_request [OF master_ready_quiet]) simp_all

lemma init_state:
  assumes "eMBMasterInit True MB_RTU port baud par master_boot = Some (MB_ENOERR, s0)"
  shows "mState s0 = STATE_DISABLED \<and> m_functions s0 \<and> mSndState s0 = STATE_M_TX_IDLE \<and> xMasterOsEvent s0 = 0 \<and> xMasterRunRes s0 = 1
    \<and> buffers_ok s0 \<and> m_line_out s0 = []"
  using assms
  by (auto simp: eMBMasterInit_def eMBMasterRTUInit_def xMBMasterPortSerialInit_def xMBMasterPortTimersInit_def
      xMBMasterPortEventInit_def vMBMasterOsResInit_def master_boot_def buffers_ok_def Let_def bind_eq_Some_conv split: if_splits)

lemma enabled_state:
  assumes "eMBMasterInit True MB_RTU port baud par master_boot = Some (MB_ENOERR, s0)" "eMBMasterEnable s0 = Some (MB_ENOERR, s1)"
  shows "mState s1 = STATE_ENABLED \<and> mRcvState s1 = STATE_M_RX_INIT \<and> mSndState s1 = STATE_M_TX_IDLE \<and> xMasterOsEvent s1 = 0
    \<and> xMasterRunRes s1 = 1 \<and> buffers_ok s1 \<and> \<not> m_tx_start s1 \<and> m_line_out s1 = [] \<and> eMasterCurTimerMode s1 = MB_TMODE_T35"
  using init_state [OF assms(1)] assms(2)
  by (auto simp: eMBMasterEnable_def eMBMasterRTUStart_def master_port_defs buffers_ok_def)

text \<open>
  C26. A request that is made before the first t3.5 after the start is over never returns: \<open>eMBMasterRTUSend\<close>
  refuses to send with \<open>MB_EIO\<close>, which \<open>eMBMasterPoll\<close> drops; when the timer has expired nothing is
  pending any more, no timer runs and nothing is sent, and both threads wait, the requesting one with
  the resource taken.
\<close>

theorem early_request_hangs:
  assumes "eMBMasterInit True MB_RTU port baud par master_boot = Some (MB_ENOERR, s0)" "eMBMasterEnable s0 = Some (MB_ENOERR, s1)"
    and "d \<le> 8" "0x100 \<le> unat addr"
  shows "\<exists>s2 s3 s4 s5. perform_request (ReadHolding d addr n) s1 = Some (Waiting, s2)
    \<and> eMBMasterPoll (s2, a) = Some (Returned MB_ENOERR, s3, a) \<and> xMBMasterRTUTimerExpired s3 = Some (True, s4)
    \<and> eMBMasterPoll (s4, a) = Some (Returned MB_ENOERR, s5, a)
    \<and> \<not> m_tx_start s5 \<and> \<not> m_timer_running s5 \<and> eMBMasterPoll (s5, a) = Some (Blocked, s5, a)
    \<and> eMBMasterWaitRequestFinish s5 = (Blocked, s5) \<and> m_line_out s5 = [] \<and> xMasterRunRes s5 = 0"
proof -
  let ?q = "ReadHolding d addr n"
  have s1: "mState s1 = STATE_ENABLED" "mRcvState s1 = STATE_M_RX_INIT" "mSndState s1 = STATE_M_TX_IDLE" "xMasterOsEvent s1 = 0"
      "xMasterRunRes s1 = 1" "buffers_ok s1" "\<not> m_tx_start s1" "m_line_out s1 = []" "eMasterCurTimerMode s1 = MB_TMODE_T35"
    using enabled_state [OF assms(1,2)] by blast+
  have q: "legal_request ?q" "perform_request ?q t = issue_request d (Some (request_bytes ?q)) t" for t
    using assms(4) leD [OF assms(3)]
    by (simp_all add: word_le_nat_alt request_defs MB_MASTER_TOTAL_SLAVE_NUM_def two_word_pdu_def mb_func_defs)
  let ?s2 = "s1\<lparr>xMasterRunRes := 0, ucMBMasterDestAddress := d, ucMasterRTUSndBuf := splice (ucMasterRTUSndBuf s1) 1 (request_bytes ?q),
    usMasterSendPDULength := of_nat (length (request_bytes ?q)), xMasterOsEvent := xMasterOsEvent s1 OR 8\<rparr>"
  let ?s3 = "?s2\<lparr>xMasterOsEvent := 0, mFrame := Some In_Snd\<rparr>"
  let ?s4 = "?s3\<lparr>xMasterOsEvent := 1, mRcvState := STATE_M_RX_IDLE, mSndState := STATE_M_TX_IDLE, m_timer_running := False\<rparr>"
  let ?s5 = "?s4\<lparr>xMasterOsEvent := 0\<rparr>"
  have p: "perform_request ?q s1 = Some (Waiting, ?s2)"
    unfolding q(2) by (rule issue_ok [OF s1(6) request_bytes_ok [OF q(1)] s1(5)])
  have "eMBMasterRTUSend d 1 m ?s3 = Some (MB_EIO, ?s3)" for m
    using s1(2) leD [OF assms(3)] by (simp add: eMBMasterRTUSend_def MB_MASTER_TOTAL_SLAVE_NUM_def)
  then have p2: "eMBMasterPoll (?s2, a) = Some (Returned MB_ENOERR, ?s3, a)"
    using s1(1,4) by (simp add: poll_event master_event_of_def ser_pdu_defs)
  have t: "xMBMasterRTUTimerExpired ?s3 = Some (True, ?s4)"
    using s1(2,3,9) by (simp add: xMBMasterRTUTimerExpired_def master_port_defs)
  have p4: "eMBMasterPoll (?s4, a) = Some (Returned MB_ENOERR, ?s5, a)"
    using s1(1) by (simp add: poll_event master_event_of_def)
  have b: "eMBMasterPoll (?s5, a) = Some (Blocked, ?s5, a)" "eMBMasterWaitRequestFinish ?s5 = (Blocked, ?s5)"
    using s1(1) by (simp_all add: no_event eMBMasterWaitRequestFinish_def)
  have "\<not> m_tx_start ?s5" "\<not> m_timer_running ?s5" "m_line_out ?s5 = []" "xMasterRunRes ?s5 = 0"
    using s1(7,8) by simp_all
  with p p2 t p4 b show ?thesis
    by blast
qed

theorem early_request_hangs_witness:
  "\<exists>s0 s1 s2 s3 s4 s5. eMBMasterInit True MB_RTU 2 9600 MB_PAR_NONE master_boot = Some (MB_ENOERR, s0)
    \<and> eMBMasterEnable s0 = Some (MB_ENOERR, s1)
    \<and> perform_request (ReadHolding 1 0x100 37) s1 = Some (Waiting, s2)
    \<and> eMBMasterPoll (s2, zero_tables []) = Some (Returned MB_ENOERR, s3, zero_tables [])
    \<and> xMBMasterRTUTimerExpired s3 = Some (True, s4)
    \<and> eMBMasterPoll (s4, zero_tables []) = Some (Returned MB_ENOERR, s5, zero_tables [])
    \<and> \<not> m_tx_start s5 \<and> \<not> m_timer_running s5 \<and> eMBMasterPoll (s5, zero_tables []) = Some (Blocked, s5, zero_tables [])
    \<and> eMBMasterWaitRequestFinish s5 = (Blocked, s5) \<and> m_line_out s5 = [] \<and> xMasterRunRes s5 = 0"
proof -
  obtain s0 s1 where s: "eMBMasterInit True MB_RTU 2 9600 MB_PAR_NONE master_boot = Some (MB_ENOERR, s0)"
      "eMBMasterEnable s0 = Some (MB_ENOERR, s1)"
    using master_ready_started [of "zero_tables []"] by blast
  from early_request_hangs [OF s, of 1 "0x100" 37 "zero_tables []"] s show ?thesis
    by auto
qed

lemma overlong_request:
  assumes "master_common s a" "quiet_phase s" "d \<le> 8" "252 \<le> length pdu" "perform_request q s = issue_request d (Some pdu) s"
  shows "master_send_request q (s, a) = None"
proof -
  have s: "xMasterRunRes s = 1" "length (ucMasterRTUSndBuf s) = 253" "mState s = STATE_ENABLED"
      "mRcvState s = STATE_M_RX_IDLE" "xMasterOsEvent s = 0"
    using assms(1,2) by (simp_all add: master_common_def quiet_phase_def line_quiet_def buffers_ok_def MB_PDU_SIZE_MAX_def)
  show ?thesis
  proof (cases "length pdu = 252")
    case True
    let ?s = "s\<lparr>xMasterRunRes := 0, ucMBMasterDestAddress := d, ucMasterRTUSndBuf := splice (ucMasterRTUSndBuf s) 1 pdu,
      usMasterSendPDULength := of_nat (length pdu), xMasterOsEvent := 8\<rparr>"
    have "copy_bytes (ucMasterRTUSndBuf s) 1 pdu 0 (length pdu) = Some (splice (ucMasterRTUSndBuf s) 1 pdu)"
      using True copy_bytes_eq [of 1 252 "ucMasterRTUSndBuf s" 0 pdu] s(2) by simp
    then have "perform_request q s = Some (Waiting, ?s)"
      unfolding assms(5) using s(1,5) by (simp add: issue_request_def xMBMasterRunResTake_def ser_pdu_defs master_port_defs)
    moreover have "eMBMasterRTUSend d 1 252 (?s\<lparr>xMasterOsEvent := 0, mFrame := Some In_Snd\<rparr>) = None"
      using s(2,4) True leD [OF assms(3)]
      by (simp add: eMBMasterRTUSend_def ser_pdu_defs MB_MASTER_TOTAL_SLAVE_NUM_def wr_in usMBCRC16_eq wr_out)
    then have "eMBMasterPoll (?s, a) = None"
      using s(3) True by (simp add: poll_event master_event_of_def ser_pdu_defs)
    ultimately show ?thesis
      by (simp add: master_send_request_def)
  next
    case False
    then have "copy_bytes (ucMasterRTUSndBuf s) 1 pdu 0 (length pdu) = None"
      using s(2) assms(4) by (intro copy_bytes_fault) auto
    then show ?thesis
      using s(1) by (simp add: master_send_request_def assms(5) issue_request_def xMBMasterRunResTake_def ser_pdu_defs master_port_defs)
  qed
qed

text \<open>
  C28. The send buffer of the master takes writes of at most 122 registers. The code does not check the
  number: with 123 registers the CRC, and with more the values, are written behind the buffer.
\<close>

theorem write_fits_buffer:
  assumes "master_common s a" "quiet_phase s" "d \<le> 8" "0x100 \<le> unat addr" "unat n \<le> length vals"
  shows "master_send_request (WriteMultipleHolding d addr n vals) (s, a) \<noteq> None \<longleftrightarrow> n \<le> 122"
proof -
  let ?q = "WriteMultipleHolding d addr n vals"
  let ?pdu = "two_word_pdu 16 addr n @ [ucast (n * 2)] @ be_bytes (take (unat n) vals)"
  have i: "perform_request ?q s = issue_request d (Some ?pdu) s"
    using leD [OF assms(3)] assms(5)
    by (simp add: request_defs take_data_def MB_MASTER_TOTAL_SLAVE_NUM_def two_word_pdu_def mb_func_defs)
  have len: "length ?pdu = 2 * unat n + 6"
    using assms(5) by (simp add: two_word_pdu_def)
  show ?thesis
  proof (cases "n \<le> 122")
    case True
    then have "legal_request ?q"
      using assms(4,5) by (simp add: word_le_nat_alt)
    from request_bytes_ok [OF this] have "pdu_ok ?pdu"
      by simp
    from sends_request [OF assms(1,2) this assms(3) i] True show ?thesis
      by simp
  next
    case False
    then have "252 \<le> length ?pdu"
      unfolding len by (simp add: word_le_nat_alt)
    from overlong_request [OF assms(1-3) this i] False show ?thesis
      by simp
  qed
qed

theorem write_fits_buffer_witness:
  "(master_send_request (WriteMultipleHolding 1 0x100 122 (replicate 123 7)) (master_ready, zero_tables []) \<noteq> None
      \<longleftrightarrow> (122 :: u16) \<le> 122)
    \<and> (master_send_request (WriteMultipleHolding 1 0x100 123 (replicate 123 7)) (master_ready, zero_tables []) \<noteq> None
      \<longleftrightarrow> (123 :: u16) \<le> 122)"
  using write_fits_buffer [OF master_ready_quiet, of 1 "0x100" 122 "replicate 123 7"]
    write_fits_buffer [OF master_ready_quiet, of 1 "0x100" 123 "replicate 123 7"] by simp

section \<open>From the sensor to the plant\<close>

text \<open>
  \<open>global.zhuodu_data\<close> is one object: the callbacks of the master write it and those of the slave
  read it. The master stores the turbidity with the halves swapped, the slave swaps them back.
\<close>

definition share_zhuodu :: "u16 list \<Rightarrow> slave_state \<Rightarrow> slave_state" where
  "share_zhuodu z s = s\<lparr>app := (app s)\<lparr>regs := (regs (app s))\<lparr>zhuodu_data := z\<rparr>\<rparr>\<rparr>"

lemma published_turbidity:
  assumes "publish_100 q row z = Some z'" "row + 37 \<le> length q" "length z = zhuodu_size"
  shows "z' ! 6 = q ! (row + 6)" "z' ! 7 = q ! (row + 5)" "length z' = zhuodu_size"
proof -
  have "take 24 (drop (row + 5) q) = q ! (row + 5) # q ! (row + 6) # take 22 (drop (row + 7) q)"
    using assms(2) by (simp add: drop_splice_Cons [of _ q "24" 23] drop_splice_Cons [of _ q "23" 22] add.commute)
  then have sw: "swap_pairs (take 24 (drop (row + 5) q)) = q ! (row + 6) # q ! (row + 5) # swap_pairs (take 22 (drop (row + 7) q))"
    by simp
  show "length z' = zhuodu_size"
    using publish_100_eq [OF assms(2,3)] assms(1) by simp
  show "z' ! 6 = q ! (row + 6)" "z' ! 7 = q ! (row + 5)"
    using assms sw
    by (auto simp: publish_100_def copy_words_eq copy_swapped_eq zhuodu_size_def off_canbi_set_def off_turbidimeter_def
        Let_def nth_splice rd_in wr_in)
qed

text \<open>
  C3. A reading from the sensor to the plant: after the master has read the sensor's registers from
  0x100 on (at least 7 of them), the slave answers a request for its registers 100 and 101 with the
  sensor's registers 0x105 and 0x106, the turbidity, in this order.
\<close>

theorem sensor_reading_served:
  assumes "master_common m a" "quiet_phase m" "d \<noteq> 0" "d \<le> 8" "7 \<le> length vals" "length vals \<le> 100"
    and "slave_idle s" "ucMBAddress s \<noteq> 0" "xFuncHandlers s = xFuncHandlers_init" "tables_declared (regs (app s))"
  shows "\<exists>m' a' s'. master_exchange (ReadHolding d 0x100 (of_nat (length vals))) (seal_frame crc16 (d # read_reply vals)) (m, a)
      = Some (Returned MB_MRE_NO_ERR, m', a')
    \<and> slave_serve (seal_frame crc16 (ucMBAddress s # two_word_pdu 3 100 2)) (share_zhuodu (m_zhuodu (mregs a')) s) = Some s'
    \<and> line_out (rtu s') = line_out (rtu s) @ seal_frame crc16 (ucMBAddress s # 3 # 4 # be_bytes [vals ! 5, vals ! 6])"
proof -
  let ?buf = "stored d 0x100 vals (usMRegHoldBuf (mregs a))" and ?row = "(unat d - 1) * 100"
  have r: "length (usMRegHoldBuf (mregs a)) = 800" "length (m_zhuodu (mregs a)) = zhuodu_size"
    using assms(1) by (simp_all add: master_common_def mregs_ok_def)
  have row: "?row + 100 \<le> 800"
    using row_range [OF assms(3,4), of 100] by simp
  have buf: "?buf = splice (usMRegHoldBuf (mregs a)) ?row vals"
    by (simp add: stored_def)
  have "vals \<noteq> []" "256 + length vals \<le> 356"
    using assms(5,6) by auto
  then obtain m' z where x: "master_exchange (ReadHolding d 0x100 (of_nat (length vals))) (seal_frame crc16 (d # read_reply vals)) (m, a)
      = Some (Returned MB_MRE_NO_ERR, m', a\<lparr>mregs := (mregs a)\<lparr>usMRegHoldBuf := ?buf, m_zhuodu := z\<rparr>\<rparr>)"
    and z: "publish_100 ?buf ?row (m_zhuodu (mregs a)) = Some z"
    using exchange_reads [OF assms(1-4), of "0x100" vals] by auto
  have l: "length ?buf = 800"
    unfolding buf using r(1) row assms(6) by simp
  have v: "?buf ! (?row + 5) = vals ! 5" "?buf ! (?row + 6) = vals ! 6"
    unfolding buf using r(1) row assms(5,6) by (simp_all add: nth_splice)
  have "?row + 37 \<le> length ?buf"
    using l row by simp
  note zs = published_turbidity [OF z this r(2), unfolded v]
  let ?s = "share_zhuodu z s"
  let ?hold = "with_turbidity z (usSRegHoldBuf (regs (app s)))"
  have s: "slave_idle ?s" "ucMBAddress ?s \<noteq> 0" "xFuncHandlers ?s = xFuncHandlers_init" "tables_declared (regs (app ?s))"
    "ucMBAddress ?s = ucMBAddress s" "line_out (rtu ?s) = line_out (rtu s)"
    using assms(7-10) zs(3) by (simp_all add: share_zhuodu_def slave_idle_def tables_declared_def)
  have "length (usSRegHoldBuf (regs (app s))) = 10"
    using assms(10) by (simp add: tables_declared_def)
  then have h: "take 2 (drop (100 - 100) ?hold) = [vals ! 5, vals ! 6]"
    using zs(1,2) by (auto simp: with_turbidity_def list_eq_iff_nth_eq less_2_cases_iff nth_Cons')
  obtain s' where "slave_serve (seal_frame crc16 (ucMBAddress s # two_word_pdu 3 100 2)) ?s = Some s'"
    "line_out (rtu s') = line_out (rtu s) @ seal_frame crc16 (ucMBAddress s # 3 # 4 # be_bytes [vals ! 5, vals ! 6])"
    using holding_read_served [OF s(1-4), of 100 2] h s(5,6) by (auto simp: share_zhuodu_def)
  with x show ?thesis
    by auto
qed

theorem sensor_reading_served_witness:
  "\<exists>m' a' s'. master_exchange (ReadHolding 1 0x100 (of_nat (length [0, 0, 0, 0, 0, 0x42C8, 7 :: u16])))
        (seal_frame crc16 (1 # read_reply [0, 0, 0, 0, 0, 0x42C8, 7])) (master_ready, zero_tables [])
      = Some (Returned MB_MRE_NO_ERR, m', a')
    \<and> slave_serve (seal_frame crc16 (ucMBAddress slave_ready # two_word_pdu 3 100 2))
        (share_zhuodu (m_zhuodu (mregs a')) slave_ready) = Some s'
    \<and> line_out (rtu s') = line_out (rtu slave_ready) @ seal_frame crc16 (ucMBAddress slave_ready # 3 # 4
        # be_bytes [[0, 0, 0, 0, 0, 0x42C8, 7 :: u16] ! 5, [0, 0, 0, 0, 0, 0x42C8, 7] ! 6])"
  by (rule sensor_reading_served [OF master_ready_quiet _ _ _ _ slave_ready_idle])
     (use app_boot_ok in \<open>simp_all add: app_ok_def regs_guarded_def\<close>)

end
