(* ===== verification/Mbm_Send.thy ===== *)
theory Mbm_Send
  imports Mbm_Serve
begin

text \<open>
  The thread of \<^verbatim>\<open>main_app.c\<close> that writes the settings of the sensor: it takes messages
  (\<^verbatim>\<open>modbus_send_msg.h\<close>) from a queue and repeats each write until the master reports success.
\<close>

section \<open>Messages\<close>

text \<open>\<open>dat\<close> is the union: \<open>dat_f32\<close> by its bits, and \<open>dat_u16\<close> its low half.\<close>

record modbus_msg_t =
  retry_times :: u8
  dev_addr :: u8
  cmd :: u8
  data_addr :: u16
  data_type :: u8
  dat :: u32

definition SWAP_32 :: "u32 \<Rightarrow> u32" where
  "SWAP_32 a = drop_bit 16 (a AND 0xFFFF0000) OR push_bit 16 (a AND 0x0000FFFF)"

definition swap_f32 :: "u32 \<Rightarrow> u32" where
  "swap_f32 a = SWAP_32 a"

definition data_f_buf :: "u32 \<Rightarrow> u16 list" where
  "data_f_buf a = [ucast a, ucast (drop_bit 16 a)]"

lemma unat_ucast_u8: "unat (ucast x :: u16) = unat x" for x :: u8
  using unat_u8 [of x] by (simp add: unsigned_ucast_eq unsigned_take_bit_eq take_bit_nat_eq_self)

lemma next_retry: "retry < ucast tries \<Longrightarrow> unat (retry + 1) = unat retry + 1 \<and> unat retry < unat tries"
  for retry :: u16 and tries :: u8
proof -
  assume "retry < ucast tries"
  then have "unat retry < unat tries"
    by (simp add: word_less_nat_alt unat_ucast_u8)
  then show ?thesis
    using unat_u8 [of tries] by (simp add: unat_word_ariths)
qed

text \<open>
  The loop; \<open>line k\<close> is what comes on the line after the \<open>k\<close>-th attempt. The result is \<open>retry\<close>.
\<close>

function retry_write ::
  "(nat \<Rightarrow> u8 list) \<Rightarrow> master_request \<Rightarrow> u8 \<Rightarrow> u16 \<Rightarrow> master \<times> master_app \<Rightarrow> (u16 \<times> master \<times> master_app) option" where
  "retry_write line q tries retry sa =
     (if retry < ucast tries
      then do {
        (res, sa) \<leftarrow> master_exchange q (line (unat retry)) sa;
        (case res of
           Blocked \<Rightarrow> None
         | Returned mb_err \<Rightarrow>
             if mb_err = MB_MRE_NO_ERR then Some (retry, sa) else retry_write line q tries (retry + 1) sa)
      }
      else Some (retry, sa))"
  by pat_completeness auto

termination
  by (relation "measure (\<lambda>(line, q, tries, retry, sa). unat tries - unat retry)") (auto dest!: next_retry)

declare retry_write.simps [simp del]

definition message_request :: "modbus_msg_t \<Rightarrow> master_request" where
  "message_request msg =
     (if data_type msg = 0 then WriteHolding (dev_addr msg) (data_addr msg) (ucast (dat msg))
      else WriteMultipleHolding (dev_addr msg) (data_addr msg) 2 (data_f_buf (swap_f32 (dat msg))))"

definition send_message :: "(nat \<Rightarrow> u8 list) \<Rightarrow> modbus_msg_t \<Rightarrow> master \<times> master_app \<Rightarrow> (u16 \<times> master \<times> master_app) option" where
  "send_message line msg sa = retry_write line (message_request msg) (retry_times msg) 0 sa"

section \<open>No answer, and a confirmation\<close>

lemma exchange_silent:
  assumes "master_common s a" "quiet_phase s" "legal_request q" "request_dest q = d" "d \<noteq> 0" "d \<le> 8"
    and "perform_request q s = issue_request d (Some (request_bytes q)) s"
  shows "\<exists>s'. master_exchange q [] (s, a) = Some (Returned MB_MRE_TIMEDOUT, s', a)
    \<and> m_line_out s' = m_line_out s @ seal_frame crc16 (d # request_bytes q) \<and> quiet_phase s' \<and> master_common s' a"
proof -
  let ?u = "request_sent d (request_bytes q) s"
  have pdu: "pdu_ok (request_bytes q)"
    by (rule request_bytes_ok [OF assms(3)])
  have send: "master_send_request q (s, a) = Some (Waiting, ?u, a)"
    by (rule sends_request [OF assms(1,2) pdu assms(6,7)])
  have n: "mRcvState s = STATE_M_RX_IDLE" "mState s = STATE_ENABLED"
    using assms(1,2) by (simp_all add: master_common_def quiet_phase_def line_quiet_def)
  let ?v = "?u\<lparr>eMBMasterCurErrorType := EV_ERROR_RESPOND_TIMEOUT, xMasterOsEvent := 16, mSndState := STATE_M_TX_IDLE,
    m_timer_running := False\<rparr>"
  let ?w = "?v\<lparr>mFrame := Some In_Snd, xMasterOsEvent := 64, xMasterRunRes := 1\<rparr>"
  have u: "mSndState ?u = STATE_M_TX_XFWR" "mRcvState ?u = STATE_M_RX_IDLE" "\<not> xFrameIsBroadcast ?u" "xMasterOsEvent ?u = 0"
      "eMasterCurTimerMode ?u = MB_TMODE_RESPOND_TIMEOUT" "xMasterRunRes ?u = 0" "mState ?u = STATE_ENABLED"
    using n assms(5) by (simp_all add: request_sent_def)
  have "?u\<lparr>mRcvState := STATE_M_RX_IDLE, eMBMasterCurErrorType := EV_ERROR_RESPOND_TIMEOUT, xMasterOsEvent := 16,
      mSndState := STATE_M_TX_IDLE, m_timer_running := False\<rparr> = ?v"
    using u(2) by (intro master.equality) simp_all
  moreover have "xMBMasterRTUTimerExpired ?u = Some (True, ?u\<lparr>mRcvState := STATE_M_RX_IDLE,
      eMBMasterCurErrorType := EV_ERROR_RESPOND_TIMEOUT, xMasterOsEvent := 16, mSndState := STATE_M_TX_IDLE, m_timer_running := False\<rparr>)"
    using u by (simp add: xMBMasterRTUTimerExpired_def master_port_defs)
  ultimately have t: "xMBMasterRTUTimerExpired ?u = Some (True, ?v)"
    by (simp only:)
  have p1: "eMBMasterPoll (?v, a) = Some (Returned MB_ENOERR, ?w, a)"
    using u(6,7) by (simp add: poll_event master_event_of_def master_port_defs)
  have p2: "eMBMasterPoll (?w, a) = Some (Blocked, ?w, a)"
    using u(7) by (simp add: no_event)
  have "master_take_reply [] (?u, a) = Some (?w, a)"
    using p2 by (simp add: master_take_reply_def t p1)
  moreover have "eMBMasterWaitRequestFinish ?w = (Returned MB_MRE_TIMEDOUT, ?w\<lparr>xMasterOsEvent := 0\<rparr>)"
    by (simp add: eMBMasterWaitRequestFinish_def)
  ultimately have x: "master_exchange q [] (s, a) = Some (Returned MB_MRE_TIMEDOUT, ?w\<lparr>xMasterOsEvent := 0\<rparr>, a)"
    by (simp add: master_exchange_def send)
  show ?thesis
    using assms(1,2,6) pdu unfolding x
    by (simp add: request_sent_def quiet_phase_def line_quiet_def master_common_def buffers_ok_def MB_PDU_SIZE_MAX_def pdu_ok_def)
qed

lemma write_confirmed:
  fixes s :: master and v :: u16
  assumes "mregs_ok (mregs a)" "d \<noteq> 0" "d \<le> 8" "0x100 \<le> unat addr" "unat addr < 0x164"
  defines "t \<equiv> handler_state d (two_word_pdu 6 addr v) (two_word_pdu 6 addr v) s"
  defines "buf \<equiv> stored d addr [v] (usMRegHoldBuf (mregs a))"
  shows "\<exists>z. master_handler H_WriteHoldingRegister In_Rcv (t, a)
      = Some (MB_EX_NONE, t, a\<lparr>mregs := (mregs a)\<lparr>usMRegHoldBuf := buf, m_zhuodu := z\<rparr>\<rparr>)
    \<and> length buf = 800 \<and> length z = zhuodu_size"
proof -
  have mem: "ucMasterRTURcvBuf t = d # two_word_pdu 6 addr v
      @ [lo8 (crc16 (d # two_word_pdu 6 addr v)), hi8 (crc16 (d # two_word_pdu 6 addr v))] @ drop 8 (ucMasterRTURcvBuf s)"
    by (simp add: t_def seal_frame_def two_word_pdu_def eval_nat_numeral)
  have a: "frame_word (ucMasterRTURcvBuf t) 2 = Some addr"
    using request_frame [of "ucMasterRTURcvBuf t" d 6 addr v] by (simp add: t_def)
  have "be_regs (take (2 * unat (1 :: u16)) (drop 4 (ucMasterRTURcvBuf t))) = [v]" "4 + 2 * unat (1 :: u16) \<le> length (ucMasterRTURcvBuf t)"
    unfolding mem by (simp_all add: two_word_pdu_def byte_simps)
  with holding_stores [of "mregs a" d addr 1 4 "ucMasterRTURcvBuf t" MB_REG_WRITE] assms(1-5)
  obtain z where z: "eMBMasterRegHoldingCB d (ucMasterRTURcvBuf t) 4 (addr + 1) 1 MB_REG_WRITE (mregs a)
      = Some (MB_ENOERR, (mregs a)\<lparr>usMRegHoldBuf := buf, m_zhuodu := z\<rparr>)" "length buf = 800" "length z = zhuodu_size"
    by (auto simp: buf_def stored_def)
  show ?thesis
    using z a
    by (intro exI [of _ z]) (simp add: on_mregs_def eMBMasterFuncWriteHoldingRegister_def req_at_2 frame_mem_def pdu_defs reply_status_def t_def
        two_word_pdu_def)
qed

lemma multiple_confirmed:
  fixes s :: master
  assumes "mregs_ok (mregs a)" "d \<noteq> 0" "d \<le> 8" "0x100 \<le> unat addr" "unat addr + length vals \<le> 0x164"
  defines "n \<equiv> of_nat (length vals) :: u16"
  defines "pdu \<equiv> two_word_pdu 16 addr n @ [ucast (n * 2)] @ be_bytes vals"
  defines "t \<equiv> handler_state d pdu (two_word_pdu 16 addr n) s"
  defines "buf \<equiv> stored d addr vals (usMRegHoldBuf (mregs a))"
  shows "\<exists>z. master_handler H_WriteMultipleHoldingRegister In_Rcv (t, a)
      = Some (MB_EX_NONE, t, a\<lparr>mregs := (mregs a)\<lparr>usMRegHoldBuf := buf, m_zhuodu := z\<rparr>\<rparr>)
    \<and> length buf = 800 \<and> length z = zhuodu_size"
proof -
  have n: "unat n = length vals" "length vals \<le> 100"
    using assms(4,5) by (simp_all add: n_def unat16_of_nat)
  have mem: "ucMasterRTUSndBuf t = d # two_word_pdu 16 addr n @ ucast (n * 2) # be_bytes vals
      @ [lo8 (crc16 (d # pdu)), hi8 (crc16 (d # pdu))] @ drop (length pdu + 3) (ucMasterRTUSndBuf s)"
    by (simp add: t_def seal_frame_def pdu_def)
  have a: "frame_word (ucMasterRTUSndBuf t) 2 = Some addr" "frame_word (ucMasterRTUSndBuf t) 4 = Some n"
    "rd (ucMasterRTUSndBuf t) 6 = Some (ucast (n * 2))"
    using two_word_frame [OF mem] by (simp_all add: mem two_word_pdu_def rd_def)
  have "unat (n * 2) = 2 * length vals"
    using n by (simp add: unat_word_ariths)
  then have b: "unat (ucast (n * 2) :: u8) = 2 * unat n"
    using n by (simp add: unsigned_ucast_eq take_bit_nat_eq_self)
  have "be_regs (take (2 * unat n) (drop 7 (ucMasterRTUSndBuf t))) = vals" "7 + 2 * unat n \<le> length (ucMasterRTUSndBuf t)"
    unfolding mem n(1) by (simp_all add: two_word_pdu_def be_regs_be_bytes)
  with holding_stores [of "mregs a" d addr n 7 "ucMasterRTUSndBuf t" MB_REG_WRITE] assms(1-5) n
  obtain z where z: "eMBMasterRegHoldingCB d (ucMasterRTUSndBuf t) 7 (addr + 1) n MB_REG_WRITE (mregs a)
      = Some (MB_ENOERR, (mregs a)\<lparr>usMRegHoldBuf := buf, m_zhuodu := z\<rparr>)" "length buf = 800" "length z = zhuodu_size"
    by (auto simp: buf_def stored_def)
  have "mLength t = 5"
    by (simp add: t_def two_word_pdu_def)
  with z a b show ?thesis
    by (intro exI [of _ z]) (simp add: on_mregs_def eMBMasterFuncWriteMultipleHoldingRegister_def req_at_2 pdu_defs reply_status_def t_def)
qed

section \<open>The loop\<close>

definition attempt_fails :: "master_request \<Rightarrow> u8 list \<Rightarrow> u8 list \<Rightarrow> master_app \<Rightarrow> bool" where
  "attempt_fails q frame reply a \<longleftrightarrow> (\<forall>s. master_common s a \<longrightarrow> quiet_phase s \<longrightarrow>
     (\<exists>e s'. master_exchange q reply (s, a) = Some (Returned e, s', a) \<and> e \<noteq> MB_MRE_NO_ERR
       \<and> m_line_out s' = m_line_out s @ frame \<and> quiet_phase s' \<and> master_common s' a))"

lemma retry_fails:
  assumes "master_common s a" "quiet_phase s" "m + j \<le> unat tries" "\<forall>k. m \<le> k \<and> k < m + j \<longrightarrow> attempt_fails q frame (line k) a"
  shows "\<exists>s'. retry_write line q tries (of_nat m) (s, a) = retry_write line q tries (of_nat (m + j)) (s', a)
    \<and> m_line_out s' = m_line_out s @ concat (replicate j frame) \<and> quiet_phase s' \<and> master_common s' a"
  using assms
proof (induction j arbitrary: m s)
  case 0
  then show ?case
    by auto
next
  case (Suc j)
  have m: "unat (of_nat m :: u16) = m" "m < unat tries"
    using Suc.prems(3) unat_u8 [of tries] by (simp_all add: unat16_of_nat)
  then have "(of_nat m :: u16) < ucast tries"
    by (simp add: word_less_nat_alt unat_ucast_u8)
  moreover have "attempt_fails q frame (line m) a"
    using Suc.prems(4) by simp
  then obtain e t where t: "master_exchange q (line m) (s, a) = Some (Returned e, t, a)" "e \<noteq> MB_MRE_NO_ERR"
      "m_line_out t = m_line_out s @ frame" "quiet_phase t" "master_common t a"
    using Suc.prems(1,2) unfolding attempt_fails_def by blast
  ultimately have r: "retry_write line q tries (of_nat m) (s, a) = retry_write line q tries (of_nat (Suc m)) (t, a)"
    using m by (subst retry_write.simps) (simp add: ac_simps)
  show ?case
    using Suc.IH [OF t(5,4), of "Suc m"] Suc.prems(3,4) t(3) unfolding r by auto
qed

lemma swapped_halves: "data_f_buf (swap_f32 a) = [ucast (drop_bit 16 a), ucast a]"
proof -
  have m: "(0xFFFF0000 :: u32) = push_bit 16 (mask 16)" "(0x0000FFFF :: u32) = mask 16"
    by (simp_all add: mask_eq_exp_minus_1 push_bit_eq_mult)
  show ?thesis
    unfolding data_f_buf_def swap_f32_def SWAP_32_def m by (auto simp: bit_simps intro!: bit_word_eqI)
qed

section \<open>A setting reaches the sensor\<close>

definition message_values :: "modbus_msg_t \<Rightarrow> u16 list" where
  "message_values msg = (if data_type msg = 0 then [ucast (dat msg)] else [ucast (drop_bit 16 (dat msg)), ucast (dat msg)])"

text \<open>The frame of the write, and the confirmation of a station that follows the protocol.\<close>

definition write_frame :: "modbus_msg_t \<Rightarrow> u8 list" where
  "write_frame msg = seal_frame crc16 (dev_addr msg #
     (if data_type msg = 0 then two_word_pdu 6 (data_addr msg) (ucast (dat msg))
      else two_word_pdu 16 (data_addr msg) 2 @ [4] @ be_bytes (message_values msg)))"

definition confirmation :: "modbus_msg_t \<Rightarrow> u8 list" where
  "confirmation msg = seal_frame crc16 (dev_addr msg #
     (if data_type msg = 0 then two_word_pdu 6 (data_addr msg) (ucast (dat msg)) else two_word_pdu 16 (data_addr msg) 2))"

definition msg_legal :: "modbus_msg_t \<Rightarrow> bool" where
  "msg_legal msg \<longleftrightarrow> dev_addr msg \<noteq> 0 \<and> dev_addr msg \<le> 8 \<and> 0x100 \<le> unat (data_addr msg)"

lemma message_facts:
  assumes "msg_legal msg"
  shows "legal_request (message_request msg)" "request_dest (message_request msg) = dev_addr msg"
    "seal_frame crc16 (dev_addr msg # request_bytes (message_request msg)) = write_frame msg"
    "perform_request (message_request msg) t = issue_request (dev_addr msg) (Some (request_bytes (message_request msg))) t"
  using assms leD [of "dev_addr msg" 8]
  by (auto simp: message_request_def msg_legal_def write_frame_def message_values_def swapped_halves word_le_nat_alt request_defs
      take_data_def MB_MASTER_TOTAL_SLAVE_NUM_def two_word_pdu_def mb_func_defs)

lemma confirmed_exchange:
  assumes "master_common s a" "quiet_phase s" "msg_legal msg" "unat (data_addr msg) + length (message_values msg) \<le> 0x164"
  defines "buf \<equiv> stored (dev_addr msg) (data_addr msg) (message_values msg) (usMRegHoldBuf (mregs a))"
  shows "\<exists>s' z. master_exchange (message_request msg) (confirmation msg) (s, a)
      = Some (Returned MB_MRE_NO_ERR, s', a\<lparr>mregs := (mregs a)\<lparr>usMRegHoldBuf := buf, m_zhuodu := z\<rparr>\<rparr>)
    \<and> m_line_out s' = m_line_out s @ write_frame msg \<and> quiet_phase s'
    \<and> master_common s' (a\<lparr>mregs := (mregs a)\<lparr>usMRegHoldBuf := buf, m_zhuodu := z\<rparr>\<rparr>)"
proof -
  note f = message_facts [OF assms(3)]
  have r: "mregs_ok (mregs a)"
    using assms(1) by (simp add: master_common_def)
  have d: "dev_addr msg \<noteq> 0" "dev_addr msg \<le> 8" "0x100 \<le> unat (data_addr msg)"
    using assms(3) by (simp_all add: msg_legal_def)
  have acc: "perform_request (message_request msg) s \<noteq> Some (Refused MB_MRE_ILL_ARG, s)"
    by (rule accepted [OF assms(1,2) f(1,4)])
  let ?t = "\<lambda>pdu. handler_state (dev_addr msg) (request_bytes (message_request msg)) pdu s"
  obtain h pdu z where z: "master_handler h In_Rcv (?t pdu, a)
        = Some (MB_EX_NONE, ?t pdu, a\<lparr>mregs := (mregs a)\<lparr>usMRegHoldBuf := buf, m_zhuodu := z\<rparr>\<rparr>)"
      "length buf = 800" "length z = zhuodu_size"
    and pdu: "pdu \<noteq> []" "length pdu \<le> 252" "drop_bit 7 (hd pdu) = 0"
      "find_handler xMasterFuncHandlers (hd pdu) = Some (Some h)"
    and c: "confirmation msg = seal_frame crc16 (dev_addr msg # pdu)"
  proof (cases "data_type msg = 0")
    case True
    with write_confirmed [OF r d, of "ucast (dat msg)" s] assms(4) that
      [of H_WriteHoldingRegister "two_word_pdu 6 (data_addr msg) (ucast (dat msg))"] show thesis
      by (auto simp: message_request_def message_values_def buf_def two_word_pdu_def find_master_handler confirmation_def)
  next
    case False
    with multiple_confirmed [OF r d assms(4), of s] assms(4) that
      [of H_WriteMultipleHoldingRegister "two_word_pdu 16 (data_addr msg) 2"] show thesis
      by (auto simp: message_request_def message_values_def buf_def swapped_halves two_word_pdu_def find_master_handler confirmation_def)
  qed
  from exchange_result [OF assms(1,2) f(1) _ acc pdu, unfolded f(2,3), OF d(1) z(1)] z(2,3) r show ?thesis
    unfolding c by (auto simp: mregs_ok_def)
qed

lemma silence_fails:
  assumes "msg_legal msg"
  shows "attempt_fails (message_request msg) (write_frame msg) [] a"
  unfolding attempt_fails_def
proof (intro allI impI)
  note f = message_facts [OF assms]
  have d: "dev_addr msg \<noteq> 0" "dev_addr msg \<le> 8"
    using assms by (simp_all add: msg_legal_def)
  fix s
  assume "master_common s a" "quiet_phase s"
  from exchange_silent [OF this f(1,2) d f(4)] show "\<exists>e s'. master_exchange (message_request msg) [] (s, a) = Some (Returned e, s', a)
      \<and> e \<noteq> MB_MRE_NO_ERR \<and> m_line_out s' = m_line_out s @ write_frame msg \<and> quiet_phase s' \<and> master_common s' a"
    unfolding f(3) by blast
qed

lemma multiple_refused:
  fixes s :: master and n :: u16 and data :: "u8 list"
  assumes "d \<noteq> 0" "0x100 \<le> unat addr" "0x164 < unat addr + unat n" "unat n \<le> 100"
  defines "pdu \<equiv> two_word_pdu 16 addr n @ [ucast (n * 2)] @ data"
  defines "t \<equiv> handler_state d pdu (two_word_pdu 16 addr n) s"
  shows "\<exists>ex. master_handler H_WriteMultipleHoldingRegister In_Rcv (t, a) = Some (ex, t, a) \<and> ex \<noteq> MB_EX_NONE"
proof -
  have mem: "ucMasterRTUSndBuf t = d # two_word_pdu 16 addr n @ ucast (n * 2) # data
      @ [lo8 (crc16 (d # pdu)), hi8 (crc16 (d # pdu))] @ drop (length pdu + 3) (ucMasterRTUSndBuf s)"
    by (simp add: t_def seal_frame_def pdu_def)
  have "frame_word (ucMasterRTUSndBuf t) 2 = Some addr" "frame_word (ucMasterRTUSndBuf t) 4 = Some n"
    "rd (ucMasterRTUSndBuf t) 6 = Some (ucast (n * 2))"
    using two_word_frame [OF mem] by (simp_all add: mem two_word_pdu_def rd_def)
  moreover have "mLength t = 5"
    by (simp add: t_def two_word_pdu_def)
  ultimately show ?thesis
    using assms(1) holding_refuses [OF assms(1-3)]
    by (simp add: on_mregs_def eMBMasterFuncWriteMultipleHoldingRegister_def req_at_2 pdu_defs reply_status_def
        prveMBError2Exception.simps t_def)
qed

lemma confirmation_fails:
  assumes "msg_legal msg" "0x164 < unat (data_addr msg) + length (message_values msg)"
  shows "attempt_fails (message_request msg) (write_frame msg) (confirmation msg) a"
  unfolding attempt_fails_def
proof (intro allI impI)
  note f = message_facts [OF assms(1)]
  have d: "dev_addr msg \<noteq> 0" "dev_addr msg \<le> 8" "0x100 \<le> unat (data_addr msg)"
    using assms(1) by (simp_all add: msg_legal_def)
  fix s
  assume s: "master_common s a" "quiet_phase s"
  let ?t = "\<lambda>pdu. handler_state (dev_addr msg) (request_bytes (message_request msg)) pdu s"
  obtain h pdu where h: "\<exists>ex. master_handler h In_Rcv (?t pdu, a) = Some (ex, ?t pdu, a) \<and> ex \<noteq> MB_EX_NONE"
    and pdu: "pdu \<noteq> []" "length pdu \<le> 252" "drop_bit 7 (hd pdu) = 0" "find_handler xMasterFuncHandlers (hd pdu) = Some (Some h)"
    and c: "confirmation msg = seal_frame crc16 (dev_addr msg # pdu)"
  proof (cases "data_type msg = 0")
    case True
    with write_refused [OF d(1), of "data_addr msg" "ucast (dat msg)" s a] assms(2) that
      [of H_WriteHoldingRegister "two_word_pdu 6 (data_addr msg) (ucast (dat msg))"] show thesis
      by (auto simp: message_request_def message_values_def two_word_pdu_def find_master_handler confirmation_def)
  next
    case False
    with multiple_refused [OF d(1,3), of 2 "be_bytes (message_values msg)" s a] assms(2) that
      [of H_WriteMultipleHoldingRegister "two_word_pdu 16 (data_addr msg) 2"] show thesis
      by (auto simp: message_request_def message_values_def swapped_halves two_word_pdu_def find_master_handler confirmation_def)
  qed
  from exchange_fails [OF s d(1,2) f(1,2,4) pdu h] show "\<exists>e s'. master_exchange (message_request msg) (confirmation msg) (s, a)
      = Some (Returned e, s', a) \<and> e \<noteq> MB_MRE_NO_ERR \<and> m_line_out s' = m_line_out s @ write_frame msg \<and> quiet_phase s'
      \<and> master_common s' a"
    unfolding c f(3) by blast
qed


text \<open>Messages of the menu: the sensor's slope \<open>a1\<close> (267), here 1.5, and its range 3 (530).\<close>

definition slope_message :: modbus_msg_t where
  "slope_message = \<lparr>retry_times = 5, dev_addr = 1, cmd = 16, data_addr = 267, data_type = 1, dat = 0x3FC00000\<rparr>"

definition range_message :: modbus_msg_t where
  "range_message = \<lparr>retry_times = 5, dev_addr = 1, cmd = 16, data_addr = 530, data_type = 1, dat = 0x3FC00000\<rparr>"


text \<open>
  C24. A setting of a register beyond 0x163 (the menu writes the ranges 3 and 4 to 530 and 532) is
  written to the sensor in every attempt and confirmed each time, and still counts as failed: the frame
  goes out \<open>retry_times\<close> times, the loop ends as if nothing had been confirmed, and the table keeps the
  old values. The same happens to any setting when the sensor does not answer at all.
\<close>

theorem far_setting_never_confirmed:
  assumes "master_common s a" "quiet_phase s" "msg_legal msg"
    and "\<forall>k. line k = [] \<or> line k = confirmation msg \<and> 0x164 < unat (data_addr msg) + length (message_values msg)"
  shows "\<exists>s'. send_message line msg (s, a) = Some (ucast (retry_times msg), s', a)
    \<and> m_line_out s' = m_line_out s @ concat (replicate (unat (retry_times msg)) (write_frame msg))
    \<and> quiet_phase s' \<and> master_common s' a"
proof -
  have "\<forall>k. attempt_fails (message_request msg) (write_frame msg) (line k) a"
    using assms(4) silence_fails [OF assms(3)] confirmation_fails [OF assms(3)] by metis
  then obtain s' where s': "retry_write line (message_request msg) (retry_times msg) 0 (s, a)
        = retry_write line (message_request msg) (retry_times msg) (of_nat (unat (retry_times msg))) (s', a)"
      "m_line_out s' = m_line_out s @ concat (replicate (unat (retry_times msg)) (write_frame msg))" "quiet_phase s'"
      "master_common s' a"
    using retry_fails [OF assms(1,2), where q = "message_request msg" and frame = "write_frame msg" and line = line
      and m = 0 and j = "unat (retry_times msg)" and tries = "retry_times msg"] by auto
  have "(of_nat (unat (retry_times msg)) :: u16) = ucast (retry_times msg)"
    by (simp add: word_unat_eq_iff unat_ucast_u8 unat16_of_nat less_trans [OF unat_u8])
  then have "send_message line msg (s, a) = Some (ucast (retry_times msg), s', a)"
    unfolding send_message_def s'(1) by (subst retry_write.simps) simp
  with s'(2-4) show ?thesis
    by blast
qed

theorem far_setting_never_confirmed_witness:
  "\<exists>s'. send_message (\<lambda>_. confirmation range_message) range_message (master_ready, zero_tables [])
      = Some (ucast (retry_times range_message), s', zero_tables [])
    \<and> m_line_out s' = m_line_out master_ready @ concat (replicate (unat (retry_times range_message)) (write_frame range_message))
    \<and> quiet_phase s' \<and> master_common s' (zero_tables [])"
  by (rule far_setting_never_confirmed [OF master_ready_quiet]) (simp_all add: range_message_def msg_legal_def message_values_def)

end
