(* ===== verification/Spec2Isabelle.thy ===== *)
theory Spec2Isabelle
  imports Mb_Slave Ring_Buffer Keys Heap_Calls Kernel_Mutex Kernel_Mq Kernel_Event Kernel_Wait Config_Start Mbm_Send
begin

text \<open>
  The firmware of a turbidity controller: an RT-Thread kernel on an STM32F10x, a Modbus slave for
  the plant, a Modbus master for the sensor, and the device's own keys and settings.

  \<^bold>\<open>Parts and theories.\<close>

  \<^item> \<open>Prelude\<close>: checked reads and writes of byte arrays, assertions, 8-, 16- and 32-bit words.
  \<^item> \<open>Mb_Crc\<close>, \<open>Mb_Utils\<close>: \<^verbatim>\<open>mbcrc.c\<close>, \<^verbatim>\<open>mbutils.c\<close> and the codes of \<^verbatim>\<open>mb.h\<close>, \<^verbatim>\<open>mbproto.h\<close>, \<^verbatim>\<open>mbport.h\<close>.
  \<^item> \<open>Mb_Rtu\<close>: the framing of \<^verbatim>\<open>mbrtu.c\<close> (receive and transmit state machines, t3.5 timer) with the
    port layer \<^verbatim>\<open>portserial.c\<close>, \<^verbatim>\<open>porttimer.c\<close>, \<^verbatim>\<open>portevent.c\<close>. \<open>rtu_state\<close> is the static data of these files.
  \<^item> \<open>Mb_Regs\<close>: the register callbacks of \<^verbatim>\<open>user_mb_app.c\<close>, which publish the measured turbidity.
  \<^item> \<open>Mb_Func\<close>: the function handlers of \<^verbatim>\<open>modbus/functions\<close>. \<open>Mb_Slave\<close>: \<^verbatim>\<open>mb.c\<close>, which starts the
    stack, polls it and dispatches to the handlers.
  \<^item> \<open>Mbm_Rtu\<close>: the framing of the master, \<^verbatim>\<open>mbrtu_m.c\<close>, with \<^verbatim>\<open>portserial_m.c\<close>, \<^verbatim>\<open>porttimer_m.c\<close>,
    \<^verbatim>\<open>portevent_m.c\<close>; the record \<open>master\<close> is the static data of these files and of \<^verbatim>\<open>mb_m.c\<close>.
    \<open>Mbm_Func\<close>: the requests and reply handlers of \<^verbatim>\<open>mbfunc*_m.c\<close> and the callbacks of
    \<^verbatim>\<open>user_mb_app_m.c\<close>. \<open>Mbm_Core\<close>: \<^verbatim>\<open>mb_m.c\<close>. \<open>Mbm_Safe\<close>: the callbacks and handlers return.
    \<open>Mbm_Run\<close>, \<open>Mbm_Live\<close>: threads, timer and interrupt as steps in any order; the phases of a
    request are the invariant. \<open>Mbm_Serve\<close>: whole exchanges, and the way of a reading from the sensor
    through master and slave to the plant. \<open>Mbm_Send\<close>: the thread of \<^verbatim>\<open>main_app.c\<close> that writes
    settings to the sensor.
  \<^item> \<open>Fifo\<close>: the contract of a bounded queue, a locale. \<open>Ring_Buffer\<close> (\<^verbatim>\<open>ringbuffer.c\<close>), \<open>Keys\<close>
    (\<^verbatim>\<open>bsp_button.c\<close>) and \<open>Kernel_Mailbox\<close> interpret it.
  \<^item> \<open>Kernel_Heap\<close>, \<open>Heap_Steps\<close>, \<open>Heap_Calls\<close>: \<^verbatim>\<open>mem.c\<close> over the bytes of the heap, headers
    included; first what each step does to the list of blocks, then the calls.
  \<^item> \<open>Kernel_Timer\<close>: \<^verbatim>\<open>timer.c\<close> and \<^verbatim>\<open>clock.c\<close>, with the timeout functions as a parameter.
  \<^item> \<open>Kernel_Ffs\<close>: the two versions of \<open>__rt_ffs\<close>. \<open>Kernel_Thread\<close>: \<^verbatim>\<open>scheduler.c\<close>, \<^verbatim>\<open>thread.c\<close>,
    \<^verbatim>\<open>idle.c\<close> and the waiting lists of \<^verbatim>\<open>ipc.c\<close>. \<open>Kernel_Sched\<close>: the scheduler's invariant.
  \<^item> \<open>Kernel_Ipc\<close> and, on it, \<open>Kernel_Sem\<close>, \<open>Kernel_Mutex\<close>, \<open>Kernel_Event\<close>, \<open>Kernel_Mailbox\<close>,
    \<open>Kernel_Mq\<close>: \<^verbatim>\<open>ipc.c\<close>. \<open>Kernel_Wait\<close>: time limits, the threads over the timers.

  \<^item> \<open>Fram\<close>: the driver of the configuration memory, \<^verbatim>\<open>fm24clxx.c\<close>, as the calls of \<^verbatim>\<open>device.c\<close> reach it.
    \<open>Config\<close>: \<^verbatim>\<open>conf_store.h\<close>, \<^verbatim>\<open>factory_setting.c\<close>, \<^verbatim>\<open>global.c\<close>. \<open>Config_Power\<close>: what a start makes of
    any memory, and resets that a power failure cuts off at any byte. \<open>Config_Start\<close>: the thread of
    \<^verbatim>\<open>main_app.c\<close> that starts the slave with the stored settings.

  \<^bold>\<open>How the code is modelled.\<close> A module's static data is a record, a function of the code is a
  function of that record. A failing assertion, an access outside an array, a call through a null
  pointer and a loop that does not end are \<open>None\<close>; an error code is a value. Integers have the
  width of the code. Loops whose end is not plain are \<open>partial_function (option)\<close>, and the
  properties say that they return; the rounds of a transmit thread are counted (300 for the slave, 260
  for the master, both more than the longest frame takes), and no other fuel is used. Linked lists of the kernel (\<open>rt_list_t\<close>) are
  lists of numbers, one number for each timer, thread or object; the heap is bytes, and the
  blocks of a message queue are linked by an explicit \<open>next\<close>. The kernel is the \<open>world\<close> that the
  timeout functions of \<open>Kernel_Timer\<close> change: \<open>rt_thread_timeout\<close> is one of them.
  A call that blocks is two definitions, up to the switch to another thread (\<open>Waits\<close>) and from the
  point where the thread runs again; between the two any history may happen. Critical sections
  are atomic; where the code leaves them in the middle of an operation (the copy of a message in
  \<^verbatim>\<open>rt_mq_send\<close> and \<^verbatim>\<open>rt_mq_recv\<close>), the pieces are steps of a relation (\<open>mq_run\<close>).

  \<^bold>\<open>What is shown.\<close> For the Modbus slave: no sequence of bytes, timer expiries, transmit rounds and
  polls makes it fault; requests are answered as the protocol says, down to the bytes on the
  wire; frames survive a round trip; the table-driven CRC is the bit-serial one. For the master: on a
  line that carries nothing but replies no order of steps makes it fault, and every request that
  fits its buffer gets a result; a read puts its frame on the line and the values of the reply into
  the tables. Noise, a request before the first t3.5 and long writes are shown to break it. For the queues:
  refinement of the bounded queue. For the heap: any sequence of legal calls returns, live blocks
  stay disjoint and keep their data, and \<open>free\<close> undoes \<open>malloc\<close>. For timers: exact periods across
  the wrap of the tick, and the order of the list. For threads: the highest ready priority runs,
  sleeping and waiting threads are woken by exactly their tick. For IPC: conservation of semaphore
  tokens, mutual exclusion and priority inheritance, order and completeness of mails and messages,
  and that an event is never missed.
  For the stored settings: a start always ends with settings in their ranges, and an interrupted
  factory reset is completed by the next starts.
  Some properties state where the code does not do what it means to; \<^verbatim>\<open>PROJECT.json\<close> lists them
  as findings, with the line.

  \<^bold>\<open>Parameters.\<close> The results of allocations (\<open>alloc\<close>, \<open>pool\<close>, \<open>stack\<close>), the levels of the key pins,
  the bytes that the serial line delivers, the functions of timers, the \<open>cleanup\<close> functions of threads, the
  outcome of every transfer on the bus of the configuration memory and the byte at which the power fails.

  \<^bold>\<open>Not modelled.\<close> Stacks, registers and interrupt masking; the object registry (names, hooks,
  lists of all objects) and debugging output; kernel modules that the configuration leaves out
  (\<^verbatim>\<open>module.c\<close>, \<^verbatim>\<open>slab.c\<close>, \<^verbatim>\<open>memheap.c\<close>); device drivers and the device framework beyond the ring
  buffer, which move data to and from registers; the shell, file systems and network stacks, which
  the firmware does not use; the Modbus ASCII and TCP modes, which are not
  configured; the menus and screens of the user interface, which draw; the vendor's libraries.
\<close>

end
